(* ===== verification/Prelude.thy ===== *)
theory Prelude
  imports Main "HOL-Library.Word"
begin

text \<open>
  Shared vocabulary of the development: the machine types of the C++ code, the ordered map
  that stands for \<open>std::map\<close>, first-match search and update for the \<open>std::find_if\<close>
  idiom, the arithmetic helpers of \<open>std::chrono\<close> and \<open>std::clamp\<close>, and the two
  interfaces that every stateful component uses: a finite map and a system of steps with an
  invariant.
\<close>

section \<open>Machine types\<close>

type_synonym byte = "8 word"
type_synonym u16 = "16 word"
type_synonym u32 = "32 word"
type_synonym u64 = "64 word"
type_synonym bytes = "byte list"

text \<open>\<open>std::numeric_limits<std::uint64_t>::max()\<close>.\<close>

abbreviation u64_max :: u64 where
  "u64_max \<equiv> - 1"

text \<open>A point of \<open>std::chrono::steady_clock\<close>: a signed count of nanoseconds. The clock's
  64-bit counter does not overflow within the life of a process, so it is an integer here.\<close>

type_synonym instant = int

named_theorems frame_simps \<open>what an operation leaves unchanged\<close>

lemma unat_Suc_below_max: "x \<noteq> u64_max \<Longrightarrow> unat (x + 1) = Suc (unat x)"
  by (metis add.commute add.right_inverse add_right_imp_eq unatSuc)

lemma less_Suc_below_max:
  fixes x y :: u64
  assumes "x \<noteq> u64_max"
  shows "y < x + 1 \<longleftrightarrow> y \<le> x"
  using unat_Suc_below_max[OF assms] by (simp add: word_less_nat_alt word_le_nat_alt less_Suc_eq_le)

lemma u64_max_top: "x \<le> u64_max"
  by simp

lemma neq_max_iff_less: "(x :: u64) \<noteq> u64_max \<longleftrightarrow> x < u64_max"
  by (simp add: word_order.not_eq_extremum)

lemma unat_u64_max [simp]: "unat u64_max = 18446744073709551615"
  by (simp add: unsigned_minus_1_eq_mask mask_eq_exp_minus_1)

lemma unat_of_nat_u64: "n < 2 ^ 64 \<Longrightarrow> unat (of_nat n :: u64) = n"
  by (simp add: unat_of_nat take_bit_nat_eq_self)

section \<open>Arithmetic of durations and clamping\<close>

text \<open>\<open>std::chrono::duration_cast\<close> to a coarser unit truncates towards zero.\<close>

definition trunc_div :: "int \<Rightarrow> int \<Rightarrow> int" where
  "trunc_div a b = (if 0 \<le> a then a div b else - ((- a) div b))"

definition clamp_int :: "int \<Rightarrow> int \<Rightarrow> int \<Rightarrow> int" where
  "clamp_int x lo hi = (if x < lo then lo else if hi < x then hi else x)"

lemma clamp_int_bounds: "lo \<le> hi \<Longrightarrow> lo \<le> clamp_int x lo hi \<and> clamp_int x lo hi \<le> hi"
  by (simp add: clamp_int_def)

lemma clamp_int_id: "lo \<le> x \<Longrightarrow> x \<le> hi \<Longrightarrow> clamp_int x lo hi = x"
  by (simp add: clamp_int_def)

section \<open>First match in a sequence\<close>

text \<open>Assigning through the iterator or pointer that \<open>std::find_if\<close> returns.\<close>

fun update_first :: "('a \<Rightarrow> bool) \<Rightarrow> ('a \<Rightarrow> 'a) \<Rightarrow> 'a list \<Rightarrow> 'a list" where
  "update_first P f [] = []"
| "update_first P f (x # xs) = (if P x then f x # xs else x # update_first P f xs)"

text \<open>\<open>vector::erase\<close> of the iterator that \<open>std::find_if\<close> returns.\<close>

fun erase_first :: "('a \<Rightarrow> bool) \<Rightarrow> 'a list \<Rightarrow> 'a list" where
  "erase_first P [] = []"
| "erase_first P (x # xs) = (if P x then xs else x # erase_first P xs)"

lemma find_set: "find P xs = Some x \<Longrightarrow> x \<in> set xs \<and> P x"
  by (induction xs) (auto split: if_splits)

lemma find_none: "find P xs = None \<longleftrightarrow> (\<forall>x \<in> set xs. \<not> P x)"
  by (induction xs) auto

lemma find_ex: "(\<exists>x \<in> set xs. P x) \<Longrightarrow> \<exists>x. find P xs = Some x"
  using find_none[of P xs] by (cases "find P xs") auto

lemma find_key_distinct:
  "distinct (map k xs) \<Longrightarrow> x \<in> set xs \<Longrightarrow> find (\<lambda>y. k y = k x) xs = Some x"
  by (induction xs) (auto simp: image_iff)

lemma length_update_first [simp]: "length (update_first P f xs) = length xs"
  by (induction xs) auto

lemma map_update_first:
  "(\<And>x. g (f x) = g x) \<Longrightarrow> map g (update_first P f xs) = map g xs"
  by (induction xs) auto

lemma set_update_first:
  "y \<in> set (update_first P f xs) \<Longrightarrow> y \<in> set xs \<or> (\<exists>x \<in> set xs. P x \<and> y = f x)"
  by (induction xs) (auto split: if_splits)

lemma update_first_id: "\<forall>x \<in> set xs. \<not> P x \<Longrightarrow> update_first P f xs = xs"
  by (induction xs) auto

lemma find_update_first:
  "(\<And>x. P (f x) = P x) \<Longrightarrow> find P (update_first P f xs) = map_option f (find P xs)"
  by (induction xs) auto

lemma find_update_first_other:
  "(\<And>x. P x \<Longrightarrow> \<not> Q x) \<Longrightarrow> (\<And>x. P x \<Longrightarrow> \<not> Q (f x)) \<Longrightarrow>
   find Q (update_first P f xs) = find Q xs"
  by (induction xs) auto

lemma set_erase_first: "set (erase_first P xs) \<subseteq> set xs"
  by (induction xs) auto

lemma length_erase_first_le: "length (erase_first P xs) \<le> length xs"
  by (induction xs) auto

lemma length_erase_first:
  "x \<in> set xs \<Longrightarrow> P x \<Longrightarrow> Suc (length (erase_first P xs)) = length xs"
  by (induction xs) auto

lemma distinct_map_erase_first:
  "distinct (map g xs) \<Longrightarrow> distinct (map g (erase_first P xs))"
proof (induction xs)
  case (Cons x xs)
  then show ?case using set_erase_first[of P xs] by auto
qed simp

section \<open>Ordered maps\<close>

text \<open>\<open>std::map\<close> keeps its entries in ascending key order; iteration over the map is
  iteration over this list.\<close>

definition om_wf :: "('k::linorder \<times> 'v) list \<Rightarrow> bool" where
  "om_wf m = sorted_wrt (<) (map fst m)"

definition om_insert :: "'k::linorder \<Rightarrow> 'v \<Rightarrow> ('k \<times> 'v) list \<Rightarrow> ('k \<times> 'v) list" where
  "om_insert k v m =
     takeWhile (\<lambda>e. fst e < k) m @ (k, v) # dropWhile (\<lambda>e. fst e \<le> k) m"

definition om_erase :: "'k \<Rightarrow> ('k \<times> 'v) list \<Rightarrow> ('k \<times> 'v) list" where
  "om_erase k m = filter (\<lambda>e. fst e \<noteq> k) m"

text \<open>\<open>map::emplace\<close> keeps an entry that is already there.\<close>

definition om_emplace :: "'k::linorder \<Rightarrow> 'v \<Rightarrow> ('k \<times> 'v) list \<Rightarrow> ('k \<times> 'v) list" where
  "om_emplace k v m = (if map_of m k = None then om_insert k v m else m)"

abbreviation om_contains :: "('k \<times> 'v) list \<Rightarrow> 'k \<Rightarrow> bool" where
  "om_contains m k \<equiv> map_of m k \<noteq> None"

lemma om_insert_Cons:
  "om_insert k v ((a, b) # m) =
     (if a < k then (a, b) # om_insert k v m
      else if a = k then (k, v) # dropWhile (\<lambda>e. fst e \<le> k) m
      else (k, v) # (a, b) # m)"
  by (auto simp: om_insert_def)

lemma om_insert_Nil [simp]: "om_insert k v [] = [(k, v)]"
  by (simp add: om_insert_def)

lemma om_wf_Nil [simp]: "om_wf []"
  by (simp add: om_wf_def)

lemma om_wf_Cons:
  "om_wf ((a, b) # m) \<longleftrightarrow> (\<forall>e \<in> set m. a < fst e) \<and> om_wf m"
  by (auto simp: om_wf_def)

lemma dropWhile_above:
  "\<forall>e \<in> set m. k < fst e \<Longrightarrow> dropWhile (\<lambda>e. fst e \<le> (k :: 'k :: linorder)) m = m"
  by (cases m) auto

lemma map_of_below: "\<forall>e \<in> set m. (k :: 'k :: linorder) < fst e \<Longrightarrow> map_of m k = None"
  by (induction m) auto

lemma map_of_om_insert:
  assumes "om_wf m"
  shows "map_of (om_insert k v m) = (map_of m)(k \<mapsto> v)"
  using assms
proof (induction m)
  case (Cons e m)
  obtain a b where e: "e = (a, b)" by (cases e)
  have above: "\<forall>e \<in> set m. a < fst e" and "om_wf m"
    using Cons.prems by (auto simp: e om_wf_Cons)
  then show ?case
    using Cons.IH by (auto simp: e om_insert_Cons dropWhile_above)
qed simp

lemma set_om_insert:
  assumes "om_wf m"
  shows "set (om_insert k v m) = insert (k, v) {e \<in> set m. fst e \<noteq> k}"
  using assms
proof (induction m)
  case (Cons e m)
  obtain a b where e: "e = (a, b)" by (cases e)
  have above: "\<forall>e \<in> set m. a < fst e" and wf: "om_wf m"
    using Cons.prems by (auto simp: e om_wf_Cons)
  show ?case
    using Cons.IH[OF wf] above by (force simp: e om_insert_Cons dropWhile_above)
qed simp

lemma om_wf_insert: "om_wf m \<Longrightarrow> om_wf (om_insert k v m)"
proof (induction m)
  case (Cons e m)
  obtain a b where e: "e = (a, b)" by (cases e)
  have above: "\<forall>e \<in> set m. a < fst e" and wf: "om_wf m"
    using Cons.prems by (auto simp: e om_wf_Cons)
  show ?case
    using Cons.IH[OF wf] above wf
    by (force simp: e om_insert_Cons om_wf_Cons dropWhile_above set_om_insert)
qed (simp add: om_wf_Cons)

lemma map_of_om_erase: "map_of (om_erase k m) = (map_of m)(k := None)"
  by (induction m) (auto simp: om_erase_def)

lemma om_wf_erase: "om_wf m \<Longrightarrow> om_wf (om_erase k m)"
  unfolding om_wf_def om_erase_def
  by (induction m) auto

lemma om_wf_map_of: "om_wf m \<Longrightarrow> e \<in> set m \<Longrightarrow> map_of m (fst e) = Some (snd e)"
proof (induction m)
  case (Cons a m)
  then show ?case by (cases a) (auto simp: om_wf_Cons)
qed simp

lemma om_wf_distinct: "om_wf m \<Longrightarrow> distinct (map fst m)"
  by (simp add: om_wf_def strict_sorted_iff)

section \<open>Interfaces\<close>

text \<open>What a component expects of the map that holds its state.\<close>

locale finite_map =
  fixes lookup :: "'m \<Rightarrow> 'k \<Rightarrow> 'v option"
    and ins :: "'k \<Rightarrow> 'v \<Rightarrow> 'm \<Rightarrow> 'm"
    and del :: "'k \<Rightarrow> 'm \<Rightarrow> 'm"
    and wf :: "'m \<Rightarrow> bool"
  assumes lookup_ins: "wf m \<Longrightarrow> lookup (ins k v m) = (lookup m)(k \<mapsto> v)"
    and lookup_del: "wf m \<Longrightarrow> lookup (del k m) = (lookup m)(k := None)"
    and wf_ins: "wf m \<Longrightarrow> wf (ins k v m)"
    and wf_del: "wf m \<Longrightarrow> wf (del k m)"
begin

lemma lookup_ins_same: "wf m \<Longrightarrow> lookup (ins k v m) k = Some v"
  by (simp add: lookup_ins)

lemma lookup_ins_other: "wf m \<Longrightarrow> k' \<noteq> k \<Longrightarrow> lookup (ins k v m) k' = lookup m k'"
  by (simp add: lookup_ins)

lemma lookup_del_same: "wf m \<Longrightarrow> lookup (del k m) k = None"
  by (simp add: lookup_del)

lemma lookup_ins_all:
  "wf m \<Longrightarrow> \<forall>k v. lookup m k = Some v \<longrightarrow> P k v \<Longrightarrow> P k v \<Longrightarrow>
   \<forall>k' v'. lookup (ins k v m) k' = Some v' \<longrightarrow> P k' v'"
  by (auto simp: lookup_ins split: if_splits)

lemma lookup_del_all:
  "wf m \<Longrightarrow> \<forall>k v. lookup m k = Some v \<longrightarrow> P k v \<Longrightarrow>
   \<forall>k' v'. lookup (del k m) k' = Some v' \<longrightarrow> P k' v'"
  by (auto simp: lookup_del split: if_splits)

end

interpretation om: finite_map map_of om_insert om_erase om_wf
  by unfold_locales (simp_all add: map_of_om_insert map_of_om_erase om_wf_insert om_wf_erase)

text \<open>A component whose operations all keep an invariant keeps it along every sequence of
  operations.\<close>

locale invariant_system =
  fixes step :: "'c \<Rightarrow> 's \<Rightarrow> 's"
    and inv :: "'s \<Rightarrow> bool"
  assumes step_inv: "inv s \<Longrightarrow> inv (step c s)"
begin

lemma run_inv: "inv s \<Longrightarrow> inv (fold step cs s)"
  by (induction cs arbitrary: s) (auto intro: step_inv)

end

end
