(* ===== verification/Identifiers.thy ===== *)
theory Identifiers
  imports Prelude "HOL-Library.List_Lexorder"
begin

text \<open>
  The strong identifier types of \<open>game-server/shared-kernel\<close>. Every identifier wraps one
  64-bit value; an account identifier wraps sixteen bytes. Their \<open>operator<=>\<close> is the order
  of the wrapped value, which is what the ordered maps and the final result sort by.
\<close>

datatype account_id = AccountId (account_bytes: bytes)
datatype session_id = SessionId (session_value: u64)
datatype session_generation = SessionGeneration (generation_value: u64)
datatype request_id = RequestId (request_value: u64)
datatype room_id = RoomId (room_value: u64)
datatype battle_id = BattleInstanceId (battle_value: u64)

text \<open>\<open>AccountId::Bytes\<close> is \<open>std::array<std::uint8_t, 16>\<close>.\<close>

definition account_wf :: "account_id \<Rightarrow> bool" where
  "account_wf a = (length (account_bytes a) = 16)"

definition zero_account :: account_id where
  "zero_account = AccountId (replicate 16 0)"

instantiation account_id :: linorder
begin

definition less_eq_account_id :: "account_id \<Rightarrow> account_id \<Rightarrow> bool" where
  "less_eq_account_id a b = (account_bytes a \<le> account_bytes b)"

definition less_account_id :: "account_id \<Rightarrow> account_id \<Rightarrow> bool" where
  "less_account_id a b = (account_bytes a < account_bytes b)"

instance
  by standard (auto simp: less_eq_account_id_def less_account_id_def account_id.expand)

end

instantiation session_id :: linorder
begin

definition less_eq_session_id :: "session_id \<Rightarrow> session_id \<Rightarrow> bool" where
  "less_eq_session_id a b = (session_value a \<le> session_value b)"

definition less_session_id :: "session_id \<Rightarrow> session_id \<Rightarrow> bool" where
  "less_session_id a b = (session_value a < session_value b)"

instance
  by standard (auto simp: less_eq_session_id_def less_session_id_def session_id.expand)

end

instantiation session_generation :: linorder
begin

definition less_eq_session_generation :: "session_generation \<Rightarrow> session_generation \<Rightarrow> bool" where
  "less_eq_session_generation a b = (generation_value a \<le> generation_value b)"

definition less_session_generation :: "session_generation \<Rightarrow> session_generation \<Rightarrow> bool" where
  "less_session_generation a b = (generation_value a < generation_value b)"

instance
  by standard
    (auto simp: less_eq_session_generation_def less_session_generation_def session_generation.expand)

end

lemmas id_order_defs =
  less_eq_account_id_def less_account_id_def less_eq_session_id_def less_session_id_def
  less_eq_session_generation_def less_session_generation_def

end
