(* ===== verification/Sessions.thy ===== *)
theory Sessions
  imports Identifiers
begin

text \<open>
  \<open>game-server/modules/session\<close>: the registry of authenticated sessions. It keeps two ordered
  maps, the current session of every account and the account of every session, and two counters
  that issue session identifiers and generations. The theory models every operation of
  \<open>SessionRegistry\<close>, shows that the two maps stay inverse to each other, and that a session
  that was replaced can never act again.
\<close>

section \<open>Data\<close>

record claimed_identity =
  ci_accountId :: account_id
  ci_nickname :: bytes

record recovered_session =
  rs_identity :: claimed_identity
  rs_sessionId :: session_id
  rs_previousGeneration :: session_generation

record replaced_session =
  rp_sessionId :: session_id
  rp_generation :: session_generation

record auth_result =
  ar_sessionId :: session_id
  ar_generation :: session_generation
  ar_replaced :: "replaced_session option"

record resume_command =
  rc_identity :: claimed_identity
  rc_sessionId :: session_id
  rc_generation :: session_generation
  rc_now :: instant

datatype resume_code = ResumeOk | NotDetached | IdentityMismatch | ResumeStale | ResumeExpired

record active_session =
  as_sessionId :: session_id
  as_generation :: session_generation
  as_nickname :: bytes
  as_detachedUntil :: "instant option"
  as_resumeProof :: "session_generation option"

record session_registry =
  currentByAccount :: "(account_id \<times> active_session) list"
  accountBySession :: "(session_id \<times> account_id) list"
  nextSessionId :: u64
  nextGeneration :: u64

text \<open>The exceptions the registry throws.\<close>

datatype session_error = ZeroFirstGeneration | IdentifierExhausted

section \<open>Operations\<close>

definition new_registry :: "session_generation \<Rightarrow> session_error + session_registry" where
  "new_registry firstGeneration =
     (if generation_value firstGeneration = 0 then Inl ZeroFirstGeneration
      else Inr \<lparr>currentByAccount = [], accountBySession = [], nextSessionId = 1,
                nextGeneration = generation_value firstGeneration\<rparr>)"

definition authenticate ::
  "session_registry \<Rightarrow> claimed_identity \<Rightarrow> session_error + (auth_result \<times> session_registry)" where
  "authenticate r identity =
     (if nextSessionId r = 0 \<or> nextSessionId r = u64_max \<or>
         nextGeneration r = 0 \<or> nextGeneration r = u64_max
      then Inl IdentifierExhausted
      else
        let accountId = ci_accountId identity;
            current = map_of (currentByAccount r) accountId;
            replaced = map_option (\<lambda>s. \<lparr>rp_sessionId = as_sessionId s,
                                         rp_generation = as_generation s\<rparr>) current;
            routes = (case current of None \<Rightarrow> accountBySession r
                      | Some s \<Rightarrow> om_erase (as_sessionId s) (accountBySession r));
            sessionId = SessionId (nextSessionId r);
            generation = SessionGeneration (nextGeneration r)
        in Inr (\<lparr>ar_sessionId = sessionId, ar_generation = generation, ar_replaced = replaced\<rparr>,
                \<lparr>currentByAccount = om_insert accountId
                   \<lparr>as_sessionId = sessionId, as_generation = generation,
                    as_nickname = ci_nickname identity,
                    as_detachedUntil = None, as_resumeProof = None\<rparr> (currentByAccount r),
                 accountBySession = om_emplace sessionId accountId routes,
                 nextSessionId = nextSessionId r + 1,
                 nextGeneration = nextGeneration r + 1\<rparr>))"

text \<open>The validation loop of \<open>installRecoveredDetached\<close>: the accounts and session identifiers
  seen so far, the next session identifier and the first generation it will issue.\<close>

fun scan_recovered ::
  "session_registry \<Rightarrow> recovered_session list \<Rightarrow> account_id list \<Rightarrow> session_id list \<Rightarrow> u64 \<Rightarrow> u64
   \<Rightarrow> (u64 \<times> u64) option" where
  "scan_recovered r [] accounts ids nextId firstGen = Some (nextId, firstGen)"
| "scan_recovered r (c # cs) accounts ids nextId firstGen =
     (let accountId = ci_accountId (rs_identity c);
          sessionId = session_value (rs_sessionId c);
          previous = generation_value (rs_previousGeneration c)
      in if accountId = zero_account \<or> sessionId = 0 \<or> previous = 0 \<or>
            u64_max - 1 \<le> sessionId \<or> previous = u64_max \<or>
            accountId \<in> set accounts \<or> rs_sessionId c \<in> set ids \<or>
            om_contains (currentByAccount r) accountId \<or>
            om_contains (accountBySession r) (rs_sessionId c)
         then None
         else scan_recovered r cs (accountId # accounts) (rs_sessionId c # ids)
                (if nextId \<le> sessionId then sessionId + 1 else nextId)
                (if firstGen \<le> previous then previous + 1 else firstGen))"

fun raise_first_generation :: "(account_id \<times> active_session) list \<Rightarrow> u64 \<Rightarrow> u64 option" where
  "raise_first_generation [] firstGen = Some firstGen"
| "raise_first_generation ((a, s) # rest) firstGen =
     (if generation_value (as_generation s) = u64_max then None
      else raise_first_generation rest (max firstGen (generation_value (as_generation s) + 1)))"

fun install_recovered ::
  "session_registry \<Rightarrow> recovered_session list \<Rightarrow> instant \<Rightarrow> u64 \<Rightarrow> session_registry \<times> auth_result list" where
  "install_recovered r [] expiresAt gen = (r, [])"
| "install_recovered r (c # cs) expiresAt gen =
     (let r' = r\<lparr>currentByAccount := om_emplace (ci_accountId (rs_identity c))
                  \<lparr>as_sessionId = rs_sessionId c, as_generation = SessionGeneration gen,
                   as_nickname = ci_nickname (rs_identity c),
                   as_detachedUntil = Some expiresAt,
                   as_resumeProof = Some (rs_previousGeneration c)\<rparr> (currentByAccount r),
                accountBySession := om_emplace (rs_sessionId c) (ci_accountId (rs_identity c))
                  (accountBySession r)\<rparr>;
          (r'', out) = install_recovered r' cs expiresAt (gen + 1)
      in (r'', \<lparr>ar_sessionId = rs_sessionId c, ar_generation = SessionGeneration gen,
                ar_replaced = None\<rparr> # out))"

definition installRecoveredDetached ::
  "session_registry \<Rightarrow> recovered_session list \<Rightarrow> instant
   \<Rightarrow> auth_result list option \<times> session_registry" where
  "installRecoveredDetached r sessions expiresAt =
     (if sessions = [] then (Some [], r)
      else if nextSessionId r = 0 \<or> nextGeneration r = 0 \<or>
              nextSessionId r = u64_max \<or> nextGeneration r = u64_max then (None, r)
      else case scan_recovered r sessions [] [] (nextSessionId r) (nextGeneration r) of
             None \<Rightarrow> (None, r)
           | Some (nextId, scanned) \<Rightarrow>
               (case raise_first_generation (currentByAccount r) scanned of
                  None \<Rightarrow> (None, r)
                | Some firstGen \<Rightarrow>
                    if u64_max - firstGen \<le> of_nat (length sessions) then (None, r)
                    else let (r', out) = install_recovered r sessions expiresAt firstGen
                         in (Some out,
                             r'\<lparr>nextSessionId := nextId,
                                nextGeneration := firstGen + of_nat (length sessions)\<rparr>)))"

definition detach ::
  "session_registry \<Rightarrow> session_id \<Rightarrow> session_generation \<Rightarrow> instant \<Rightarrow> bool \<times> session_registry" where
  "detach r sessionId generation expiresAt =
     (case map_of (accountBySession r) sessionId of
        None \<Rightarrow> (False, r)
      | Some account \<Rightarrow>
          (case map_of (currentByAccount r) account of
             None \<Rightarrow> (False, r)
           | Some s \<Rightarrow>
               if as_sessionId s \<noteq> sessionId \<or> as_generation s \<noteq> generation \<or>
                  as_detachedUntil s \<noteq> None
               then (False, r)
               else (True, r\<lparr>currentByAccount := om_insert account
                       (s\<lparr>as_detachedUntil := Some expiresAt, as_resumeProof := Some generation\<rparr>)
                       (currentByAccount r)\<rparr>)))"

definition resume ::
  "session_registry \<Rightarrow> resume_command \<Rightarrow> (resume_code \<times> auth_result option) \<times> session_registry" where
  "resume r command =
     (case map_of (accountBySession r) (rc_sessionId command) of
        None \<Rightarrow> ((ResumeStale, None), r)
      | Some account \<Rightarrow>
          if account \<noteq> ci_accountId (rc_identity command) then ((IdentityMismatch, None), r)
          else (case map_of (currentByAccount r) account of
                  None \<Rightarrow> ((ResumeStale, None), r)
                | Some s \<Rightarrow>
                    let currentMatches = (as_generation s = rc_generation command);
                        proofMatches = (as_resumeProof s = Some (rc_generation command))
                    in if as_sessionId s \<noteq> rc_sessionId command then ((ResumeStale, None), r)
                       else if \<not> currentMatches \<and> \<not> proofMatches then ((ResumeStale, None), r)
                       else (case as_detachedUntil s of
                               None \<Rightarrow> ((NotDetached, None), r)
                             | Some until \<Rightarrow>
                                 if until \<le> rc_now command then ((ResumeExpired, None), r)
                                 else if \<not> proofMatches then ((ResumeStale, None), r)
                                 else ((ResumeOk, Some \<lparr>ar_sessionId = as_sessionId s,
                                          ar_generation = as_generation s, ar_replaced = None\<rparr>),
                                       r\<lparr>currentByAccount := om_insert account
                                          (s\<lparr>as_detachedUntil := None, as_resumeProof := None\<rparr>)
                                          (currentByAccount r)\<rparr>))))"

definition disconnect ::
  "session_registry \<Rightarrow> session_id \<Rightarrow> session_generation \<Rightarrow> bool \<times> session_registry" where
  "disconnect r sessionId generation =
     (case map_of (accountBySession r) sessionId of
        None \<Rightarrow> (False, r)
      | Some account \<Rightarrow>
          (case map_of (currentByAccount r) account of
             None \<Rightarrow> (False, r)
           | Some s \<Rightarrow>
               if as_sessionId s \<noteq> sessionId \<or> as_generation s \<noteq> generation then (False, r)
               else (True, r\<lparr>currentByAccount := om_erase account (currentByAccount r),
                             accountBySession := om_erase sessionId (accountBySession r)\<rparr>)))"

definition activeSessionCount :: "session_registry \<Rightarrow> nat" where
  "activeSessionCount r = length (currentByAccount r)"

text \<open>One call on the registry; a call that throws leaves the registry as it was.\<close>

datatype session_call =
    CallAuthenticate claimed_identity
  | CallInstall "recovered_session list" instant
  | CallDetach session_id session_generation instant
  | CallResume resume_command
  | CallDisconnect session_id session_generation

fun registry_step :: "session_call \<Rightarrow> session_registry \<Rightarrow> session_registry" where
  "registry_step (CallAuthenticate c) r = (case authenticate r c of Inl _ \<Rightarrow> r | Inr (_, r') \<Rightarrow> r')"
| "registry_step (CallInstall ss t) r = snd (installRecoveredDetached r ss t)"
| "registry_step (CallDetach i g t) r = snd (detach r i g t)"
| "registry_step (CallResume c) r = snd (resume r c)"
| "registry_step (CallDisconnect i g) r = snd (disconnect r i g)"

section \<open>The index invariant\<close>

text \<open>The two maps, read as functions, are inverse to each other; every issued identifier is
  below its counter; two accounts never share a generation; a session has a resume proof exactly
  while it is detached.\<close>

definition session_index ::
  "(account_id \<rightharpoonup> active_session) \<Rightarrow> (session_id \<rightharpoonup> account_id) \<Rightarrow> u64 \<Rightarrow> u64 \<Rightarrow> bool" where
  "session_index cur acc ns ng \<longleftrightarrow>
     (\<forall>a s. cur a = Some s \<longrightarrow>
        acc (as_sessionId s) = Some a \<and> session_value (as_sessionId s) < ns \<and>
        generation_value (as_generation s) < ng \<and>
        (as_detachedUntil s = None \<longleftrightarrow> as_resumeProof s = None)) \<and>
     (\<forall>i a. acc i = Some a \<longrightarrow> (\<exists>s. cur a = Some s \<and> as_sessionId s = i)) \<and>
     (\<forall>a b s t. cur a = Some s \<and> cur b = Some t \<and> as_generation s = as_generation t \<longrightarrow> a = b)"

definition registry_inv :: "session_registry \<Rightarrow> bool" where
  "registry_inv r \<longleftrightarrow>
     om_wf (currentByAccount r) \<and> om_wf (accountBySession r) \<and>
     nextSessionId r \<noteq> 0 \<and> nextGeneration r \<noteq> 0 \<and>
     session_index (map_of (currentByAccount r)) (map_of (accountBySession r))
       (nextSessionId r) (nextGeneration r)"

lemma session_index_bounds:
  "session_index cur acc ns ng \<Longrightarrow> cur a = Some s \<Longrightarrow>
   acc (as_sessionId s) = Some a \<and> session_value (as_sessionId s) < ns \<and>
   generation_value (as_generation s) < ng"
  by (simp add: session_index_def)

lemma session_index_route:
  "session_index cur acc ns ng \<Longrightarrow> acc i = Some a \<Longrightarrow> \<exists>s. cur a = Some s \<and> as_sessionId s = i"
  by (simp add: session_index_def)

lemma session_index_mono:
  "session_index cur acc ns ng \<Longrightarrow> ns \<le> ns' \<Longrightarrow> ng \<le> ng' \<Longrightarrow> session_index cur acc ns' ng'"
  unfolding session_index_def by (meson order_less_le_trans)

lemma session_index_insert:
  assumes idx: "session_index cur acc ns ng" and fresh: "cur a = None" "acc (as_sessionId s) = None"
    and bounds: "ns \<le> ns'" "session_value (as_sessionId s) < ns'"
      "ng \<le> generation_value (as_generation s)" "generation_value (as_generation s) < ng'"
    and proof_iff: "as_detachedUntil s = None \<longleftrightarrow> as_resumeProof s = None"
  shows "session_index (cur(a \<mapsto> s)) (acc(as_sessionId s \<mapsto> a)) ns' ng'"
proof -
  have gen: "as_generation t \<noteq> as_generation s" if "cur b = Some t" for b t
    using session_index_bounds[OF idx that] bounds(3) by auto
  have ngs: "ng \<le> ng'" using bounds(3,4) by simp
  have old: "session_index cur acc ns' ng'"
    by (rule session_index_mono[OF idx bounds(1) ngs])
  have ids: "as_sessionId t \<noteq> as_sessionId s" if "cur b = Some t" for b t
    using session_index_bounds[OF idx that] fresh(2) by auto
  have one: "\<forall>b t. (cur(a \<mapsto> s)) b = Some t \<longrightarrow>
        (acc(as_sessionId s \<mapsto> a)) (as_sessionId t) = Some b \<and> session_value (as_sessionId t) < ns' \<and>
        generation_value (as_generation t) < ng' \<and>
        (as_detachedUntil t = None \<longleftrightarrow> as_resumeProof t = None)"
    using old bounds proof_iff ids unfolding session_index_def by auto
  have two: "\<forall>i b. (acc(as_sessionId s \<mapsto> a)) i = Some b \<longrightarrow>
        (\<exists>t. (cur(a \<mapsto> s)) b = Some t \<and> as_sessionId t = i)"
    using old fresh(1) session_index_route[OF old] by (force split: if_splits)
  have three: "\<forall>b c t u. (cur(a \<mapsto> s)) b = Some t \<and> (cur(a \<mapsto> s)) c = Some u \<and>
        as_generation t = as_generation u \<longrightarrow> b = c"
    using old gen unfolding session_index_def by (auto split: if_splits) metis+
  show ?thesis
    unfolding session_index_def using one two three by blast
qed

lemma session_index_remove:
  assumes idx: "session_index cur acc ns ng" and a: "cur a = Some s"
  shows "session_index (cur(a := None)) (acc(as_sessionId s := None)) ns ng"
proof -
  have ids: "as_sessionId t \<noteq> as_sessionId s" if "cur b = Some t" "b \<noteq> a" for b t
    using session_index_bounds[OF idx that(1)] session_index_bounds[OF idx a] that(2) by auto
  have route_back: "i = as_sessionId s" if "acc i = Some a" for i
    using session_index_route[OF idx that] a by auto
  show ?thesis
    using idx ids route_back unfolding session_index_def by (auto split: if_splits)
qed

lemma session_index_update:
  assumes "session_index cur acc ns ng" and "cur a = Some s"
    and "as_sessionId s' = as_sessionId s" and "as_generation s' = as_generation s"
    and "as_detachedUntil s' = None \<longleftrightarrow> as_resumeProof s' = None"
  shows "session_index (cur(a \<mapsto> s')) acc ns ng"
  using assms session_index_route[OF assms(1)] unfolding session_index_def
  by (auto split: if_splits) force+


lemma session_index_fresh:
  "session_index cur acc ns ng \<Longrightarrow> ns \<le> session_value i \<Longrightarrow> acc i = None"
  using session_index_route[of cur acc ns ng i] session_index_bounds[of cur acc ns ng]
  by (cases "acc i") force+

section \<open>Every operation keeps the invariant\<close>

lemma authenticate_inv:
  assumes inv: "registry_inv r" and ok: "authenticate r c = Inr (res, r')"
  shows "registry_inv r'"
proof -
  let ?a = "ci_accountId c" and ?i = "SessionId (nextSessionId r)"
  let ?s = "\<lparr>as_sessionId = ?i, as_generation = SessionGeneration (nextGeneration r),
             as_nickname = ci_nickname c, as_detachedUntil = None, as_resumeProof = None\<rparr>"
  let ?cur = "map_of (currentByAccount r)" and ?acc = "map_of (accountBySession r)"
  define routes where "routes = (case ?cur ?a of None \<Rightarrow> accountBySession r
      | Some s \<Rightarrow> om_erase (as_sessionId s) (accountBySession r))"
  have lims: "nextSessionId r \<noteq> u64_max" "nextGeneration r \<noteq> u64_max"
    and r': "r' = \<lparr>currentByAccount = om_insert ?a ?s (currentByAccount r),
       accountBySession = om_emplace ?i ?a routes,
       nextSessionId = nextSessionId r + 1, nextGeneration = nextGeneration r + 1\<rparr>"
    using ok by (auto simp: authenticate_def routes_def Let_def split: if_splits)
  have wf: "om_wf (currentByAccount r)" "om_wf (accountBySession r)"
    and idx: "session_index ?cur ?acc (nextSessionId r) (nextGeneration r)"
    using inv by (auto simp: registry_inv_def)
  have removed: "session_index (?cur(?a := None)) (map_of routes) (nextSessionId r) (nextGeneration r)"
    using idx session_index_remove[OF idx]
    by (auto simp: routes_def map_of_om_erase fun_upd_idem split: option.splits)
  have fresh: "map_of routes ?i = None"
    by (rule session_index_fresh[OF removed]) simp
  have wfr: "om_wf routes"
    using wf by (auto simp: routes_def om_wf_erase split: option.splits)
  have "session_index (?cur(?a := None, ?a \<mapsto> ?s)) ((map_of routes)(as_sessionId ?s \<mapsto> ?a))
          (nextSessionId r + 1) (nextGeneration r + 1)"
    using lims fresh by (intro session_index_insert[OF removed])
      (simp_all add: less_Suc_below_max word_le_nat_alt unat_Suc_below_max)
  moreover have "nextSessionId r + 1 \<noteq> 0" "nextGeneration r + 1 \<noteq> 0"
    using lims by (simp_all add: eq_neg_iff_add_eq_0)
  ultimately show ?thesis
    using wf wfr fresh by (simp add: registry_inv_def r' om_wf_insert om.lookup_ins om_emplace_def)
qed

lemma scan_recovered_sound:
  assumes "scan_recovered r cs accounts ids ns fg = Some (ns', fg')"
  shows "distinct (map (\<lambda>c. ci_accountId (rs_identity c)) cs) \<and> distinct (map rs_sessionId cs) \<and>
    (\<forall>c \<in> set cs. ci_accountId (rs_identity c) \<notin> set accounts \<and> rs_sessionId c \<notin> set ids \<and>
       map_of (currentByAccount r) (ci_accountId (rs_identity c)) = None \<and>
       map_of (accountBySession r) (rs_sessionId c) = None \<and>
       session_value (rs_sessionId c) < ns' \<and> session_value (rs_sessionId c) \<noteq> 0) \<and>
    ns \<le> ns' \<and> fg \<le> fg'"
  using assms
proof (induction cs arbitrary: accounts ids ns fg)
  case (Cons c cs)
  let ?i = "session_value (rs_sessionId c)" and ?g = "generation_value (rs_previousGeneration c)"
  let ?ns = "if ns \<le> ?i then ?i + 1 else ns" and ?fg = "if fg \<le> ?g then ?g + 1 else fg"
  have guard: "\<not> u64_max - 1 \<le> ?i" "?g \<noteq> u64_max" "?i \<noteq> 0"
      "ci_accountId (rs_identity c) \<notin> set accounts" "rs_sessionId c \<notin> set ids"
      "map_of (currentByAccount r) (ci_accountId (rs_identity c)) = None"
      "map_of (accountBySession r) (rs_sessionId c) = None"
    and rest: "scan_recovered r cs (ci_accountId (rs_identity c) # accounts)
      (rs_sessionId c # ids) ?ns ?fg = Some (ns', fg')"
    using Cons.prems by (auto simp: Let_def split: if_splits)
  have "?i \<noteq> u64_max" using guard(1) by auto
  then have "ns \<le> ?ns" "?i < ?ns" "fg \<le> ?fg"
    using guard(2) by (auto simp: word_le_nat_alt word_less_nat_alt unat_Suc_below_max)
  with Cons.IH[OF rest] guard show ?case by auto
qed auto

lemma raise_first_generation_ge:
  "raise_first_generation m fg = Some fg' \<Longrightarrow> fg \<le> fg'"
proof (induction m arbitrary: fg)
  case (Cons e m)
  then show ?case by (cases e) (fastforce split: if_splits)
qed simp

lemma length_session_ids:
  assumes "distinct (map rs_sessionId cs)" "\<forall>c \<in> set cs. session_value (rs_sessionId c) \<noteq> 0"
  shows "length cs < 2 ^ 64"
proof -
  let ?f = "\<lambda>c. session_value (rs_sessionId c)"
  have "distinct (map ?f cs)"
    using assms(1) by (auto simp: distinct_map inj_on_def session_id.expand)
  then have "length cs = card (?f ` set cs)"
    by (metis distinct_card length_map set_map)
  also have "\<dots> \<le> card (UNIV - {0 :: u64})"
    using assms(2) by (intro card_mono) auto
  also have "\<dots> < 2 ^ 64"
    by (simp add: card_Diff_singleton card_word)
  finally show ?thesis .
qed

lemma install_recovered_index:
  assumes "om_wf (currentByAccount r)" "om_wf (accountBySession r)"
    and "session_index (map_of (currentByAccount r)) (map_of (accountBySession r)) ns gen"
    and "distinct (map (\<lambda>c. ci_accountId (rs_identity c)) cs)" "distinct (map rs_sessionId cs)"
    and "\<forall>c \<in> set cs. map_of (currentByAccount r) (ci_accountId (rs_identity c)) = None \<and>
       map_of (accountBySession r) (rs_sessionId c) = None \<and> session_value (rs_sessionId c) < ns"
    and "unat gen + length cs < 2 ^ 64"
    and "install_recovered r cs t gen = (r', out)"
  shows "om_wf (currentByAccount r') \<and> om_wf (accountBySession r') \<and>
    session_index (map_of (currentByAccount r')) (map_of (accountBySession r')) ns
      (gen + of_nat (length cs))"
  using assms
proof (induction cs arbitrary: r gen out)
  case (Cons c cs)
  let ?a = "ci_accountId (rs_identity c)" and ?i = "rs_sessionId c"
  let ?s = "\<lparr>as_sessionId = ?i, as_generation = SessionGeneration gen,
             as_nickname = ci_nickname (rs_identity c), as_detachedUntil = Some t,
             as_resumeProof = Some (rs_previousGeneration c)\<rparr>"
  let ?r = "r\<lparr>currentByAccount := om_insert ?a ?s (currentByAccount r),
              accountBySession := om_insert ?i ?a (accountBySession r)\<rparr>"
  obtain out' where rest: "install_recovered ?r cs t (gen + 1) = (r', out')"
    using Cons.prems(6,8) by (auto simp: om_emplace_def Let_def split: prod.splits)
  have below: "gen \<noteq> u64_max" using Cons.prems(7) by auto
  have idx: "session_index ((map_of (currentByAccount r))(?a \<mapsto> ?s))
      ((map_of (accountBySession r))(as_sessionId ?s \<mapsto> ?a)) ns (gen + 1)"
    using Cons.prems(6) below
    by (intro session_index_insert[OF Cons.prems(3)]) (simp_all add: less_Suc_below_max)
  have "om_wf (currentByAccount r') \<and> om_wf (accountBySession r') \<and>
    session_index (map_of (currentByAccount r')) (map_of (accountBySession r')) ns
      (gen + 1 + of_nat (length cs))"
  proof (rule Cons.IH[OF _ _ _ _ _ _ _ rest])
    show "session_index (map_of (currentByAccount ?r)) (map_of (accountBySession ?r)) ns (gen + 1)"
      using idx Cons.prems(1,2) by (simp add: om.lookup_ins)
    show "\<forall>c \<in> set cs. map_of (currentByAccount ?r) (ci_accountId (rs_identity c)) = None \<and>
       map_of (accountBySession ?r) (rs_sessionId c) = None \<and> session_value (rs_sessionId c) < ns"
      using Cons.prems(1,2,4,5,6) by (auto simp: om.lookup_ins image_iff)
  qed (use Cons.prems below in \<open>auto simp: om_wf_insert unat_Suc_below_max\<close>)
  then show ?case by (simp add: add.assoc)
qed simp

text \<open>An installation either leaves the registry alone or adds a batch of fresh accounts and
  sessions whose generations start at or above the generation counter.\<close>

lemma install_shape:
  obtains (same) "snd (installRecoveredDetached r ss t) = r"
  | (added) ns fg r' out where
      "install_recovered r ss t fg = (r', out)"
      "snd (installRecoveredDetached r ss t) =
         r'\<lparr>nextSessionId := ns, nextGeneration := fg + of_nat (length ss)\<rparr>"
      "distinct (map (\<lambda>c. ci_accountId (rs_identity c)) ss)" "distinct (map rs_sessionId ss)"
      "\<forall>c \<in> set ss. map_of (currentByAccount r) (ci_accountId (rs_identity c)) = None \<and>
         map_of (accountBySession r) (rs_sessionId c) = None \<and> session_value (rs_sessionId c) < ns"
      "nextSessionId r \<le> ns" "nextGeneration r \<le> fg" "unat fg + length ss < 2 ^ 64"
proof (cases "snd (installRecoveredDetached r ss t) = r")
  case False
  then obtain ns scanned fg r' out where
      scan: "scan_recovered r ss [] [] (nextSessionId r) (nextGeneration r) = Some (ns, scanned)"
    and raise: "raise_first_generation (currentByAccount r) scanned = Some fg"
    and room: "\<not> u64_max - fg \<le> of_nat (length ss)"
    and run: "install_recovered r ss t fg = (r', out)"
    and res: "snd (installRecoveredDetached r ss t) =
       r'\<lparr>nextSessionId := ns, nextGeneration := fg + of_nat (length ss)\<rparr>"
    unfolding installRecoveredDetached_def
    by (fastforce simp: Let_def split: if_splits option.splits prod.splits)
  note sound = scan_recovered_sound[OF scan] raise_first_generation_ge[OF raise]
  have len: "length ss < 2 ^ 64" using sound by (intro length_session_ids) auto
  have "of_nat (length ss) < u64_max - fg" using room by simp
  then have "unat (of_nat (length ss) :: u64) < unat (u64_max - fg)"
    by (simp only: word_less_nat_alt)
  moreover have "unat (u64_max - fg) = unat u64_max - unat fg"
    by (rule unat_sub) simp
  ultimately have fits: "unat fg + length ss < 2 ^ 64"
    using len by (simp add: unat_of_nat_u64)
  show ?thesis
    using sound fits by (intro added[OF run res]) auto
qed (use same in blast)

lemma install_inv:
  assumes inv: "registry_inv r"
  shows "registry_inv (snd (installRecoveredDetached r ss t))"
proof (cases rule: install_shape[of r ss t])
  case same
  then show ?thesis using inv by simp
next
  case (added ns fg r' out)
  have idx: "session_index (map_of (currentByAccount r)) (map_of (accountBySession r)) ns fg"
    using inv added(6,7) by (auto simp: registry_inv_def intro: session_index_mono)
  have kept: "om_wf (currentByAccount r') \<and> om_wf (accountBySession r') \<and>
    session_index (map_of (currentByAccount r')) (map_of (accountBySession r')) ns
      (fg + of_nat (length ss))"
    using inv by (intro install_recovered_index[OF _ _ idx added(3,4,5,8,1)])
      (auto simp: registry_inv_def)
  have ns: "ns \<noteq> 0"
    using inv added(6) by (auto simp: registry_inv_def)
  have "unat (nextGeneration r) \<le> unat fg"
    using added(7) by (simp add: word_le_nat_alt)
  moreover have "unat (fg + of_nat (length ss)) = unat fg + length ss"
    using added(8) by (simp add: unat_word_ariths unat_of_nat_u64)
  ultimately have "0 < unat (fg + of_nat (length ss))"
    using inv by (auto simp: registry_inv_def unat_0_iff)
  then have "fg + of_nat (length ss) \<noteq> 0"
    by (simp only: unat_gt_0 not_False_eq_True)
  with ns kept show ?thesis
    by (simp add: registry_inv_def added(2))
qed

lemma detach_inv: "registry_inv r \<Longrightarrow> registry_inv (snd (detach r i g t))"
  by (auto simp: detach_def registry_inv_def om.lookup_ins om_wf_insert split: option.split
      intro!: session_index_update)

lemma resume_inv: "registry_inv r \<Longrightarrow> registry_inv (snd (resume r c))"
  by (auto simp: resume_def registry_inv_def om.lookup_ins om_wf_insert Let_def split: option.split
      intro!: session_index_update)

lemma disconnect_inv: "registry_inv r \<Longrightarrow> registry_inv (snd (disconnect r i g))"
  by (auto simp: disconnect_def registry_inv_def om.lookup_del om_wf_erase split: option.split
      dest: session_index_remove)

lemma registry_step_inv: "registry_inv r \<Longrightarrow> registry_inv (registry_step c r)"
  by (cases c)
    (auto simp: install_inv detach_inv resume_inv disconnect_inv
      dest: authenticate_inv split: sum.split prod.split)

interpretation registry: invariant_system registry_step registry_inv
  by unfold_locales (rule registry_step_inv)

lemma new_registry_inv: "new_registry g = Inr r \<Longrightarrow> registry_inv r"
  by (auto simp: new_registry_def registry_inv_def session_index_def split: if_splits)


section \<open>Retired generations\<close>

text \<open>A generation that was issued and is no longer held by any account.\<close>

definition generation_retired :: "session_registry \<Rightarrow> session_generation \<Rightarrow> bool" where
  "generation_retired r g \<longleftrightarrow>
     generation_value g < nextGeneration r \<and>
     (\<forall>a s. map_of (currentByAccount r) a = Some s \<longrightarrow> as_generation s \<noteq> g)"

lemma install_recovered_generations:
  assumes "om_wf (currentByAccount r)" "unat gen + length cs < 2 ^ 64"
    and "install_recovered r cs t gen = (r', out)"
    and "map_of (currentByAccount r') a = Some s"
  shows "map_of (currentByAccount r) a = Some s \<or> gen \<le> generation_value (as_generation s)"
  using assms
proof (induction cs arbitrary: r gen out)
  case (Cons c cs)
  have le: "gen \<le> gen + 1"
    using Cons.prems(2)
    by (cases "gen = u64_max") (auto simp: word_le_nat_alt unat_Suc_below_max)
  have room: "unat (gen + 1) + length cs < 2 ^ 64"
    using Cons.prems(2) by (cases "gen = u64_max") (auto simp: unat_Suc_below_max)
  let ?s = "\<lparr>as_sessionId = rs_sessionId c, as_generation = SessionGeneration gen,
             as_nickname = ci_nickname (rs_identity c), as_detachedUntil = Some t,
             as_resumeProof = Some (rs_previousGeneration c)\<rparr>"
  let ?cur = "om_emplace (ci_accountId (rs_identity c)) ?s (currentByAccount r)"
  let ?r = "r\<lparr>currentByAccount := ?cur,
    accountBySession := om_emplace (rs_sessionId c) (ci_accountId (rs_identity c)) (accountBySession r)\<rparr>"
  obtain out' where "install_recovered ?r cs t (gen + 1) = (r', out')"
    using Cons.prems(3) by (auto simp: Let_def split: prod.splits)
  then have "map_of ?cur a = Some s \<or> gen + 1 \<le> generation_value (as_generation s)"
    using Cons.IH[of ?r "gen + 1" out'] Cons.prems(1,4) room by (simp add: om_emplace_def om_wf_insert)
  then show ?case
    using Cons.prems(1) le by (auto simp: om_emplace_def om.lookup_ins split: if_splits)
qed simp

lemma authenticate_retired:
  assumes inv: "registry_inv r" and ok: "authenticate r c = Inr (res, r')"
    and ret: "generation_retired r g"
  shows "generation_retired r' g"
proof -
  have below: "generation_value g < nextGeneration r"
    and old: "\<And>a s. map_of (currentByAccount r) a = Some s \<Longrightarrow> as_generation s \<noteq> g"
    using ret by (auto simp: generation_retired_def)
  have max: "nextGeneration r \<noteq> u64_max" and next': "nextGeneration r' = nextGeneration r + 1"
    and cur: "map_of (currentByAccount r') = (map_of (currentByAccount r))(ci_accountId c \<mapsto>
       \<lparr>as_sessionId = SessionId (nextSessionId r),
        as_generation = SessionGeneration (nextGeneration r), as_nickname = ci_nickname c,
        as_detachedUntil = None, as_resumeProof = None\<rparr>)"
    using ok inv
    by (auto simp: authenticate_def registry_inv_def om.lookup_ins Let_def split: if_splits)
  have "g \<noteq> SessionGeneration (nextGeneration r)" using below by auto
  with cur old have "as_generation s \<noteq> g" if "map_of (currentByAccount r') a = Some s" for a s
    using that by (auto split: if_splits)
  then show ?thesis
    using below less_Suc_below_max[OF max] by (simp add: generation_retired_def next')
qed

lemma install_retired:
  assumes inv: "registry_inv r" and ret: "generation_retired r g"
  shows "generation_retired (snd (installRecoveredDetached r ss t)) g"
proof (cases rule: install_shape[of r ss t])
  case same
  then show ?thesis using ret by simp
next
  case (added ns fg r' out)
  have "generation_value g < fg"
    using ret added(7) by (auto simp: generation_retired_def)
  moreover have "fg \<le> fg + of_nat (length ss)"
    using added(8) by (simp add: word_le_nat_alt unat_word_ariths unat_of_nat_u64)
  moreover have "as_generation s \<noteq> g" if "map_of (currentByAccount r') a = Some s" for a s
    using install_recovered_generations[OF _ added(8,1) that] inv ret calculation(1)
    by (auto simp: registry_inv_def generation_retired_def)
  ultimately show ?thesis
    using added(2) by (auto simp: generation_retired_def intro: order_less_le_trans)
qed

lemma retired_step:
  assumes "registry_inv r" "generation_retired r g"
  shows "generation_retired (registry_step c r) g"
proof (cases c)
  case (CallAuthenticate i)
  then show ?thesis
    using assms by (auto dest: authenticate_retired split: sum.split prod.split)
next
  case (CallInstall ss t)
  then show ?thesis using assms by (simp add: install_retired)
qed (use assms in \<open>auto simp: generation_retired_def registry_inv_def detach_def resume_def
       disconnect_def om.lookup_ins om.lookup_del Let_def split: option.split\<close>)

interpretation retired: invariant_system registry_step "\<lambda>r. registry_inv r \<and> generation_retired r g"
  for g
  by unfold_locales (auto simp: registry_step_inv retired_step)

lemma retired_rejected:
  assumes "generation_retired r g"
  shows "fst (detach r i g t) = False" "fst (disconnect r i g) = False"
  using assms by (auto simp: detach_def disconnect_def generation_retired_def split: option.split)

lemma replaced_is_retired:
  assumes inv: "registry_inv r" and ok: "authenticate r c = Inr (res, r')"
    and rep: "ar_replaced res = Some old"
  shows "generation_retired r' (rp_generation old)"
proof -
  obtain s where s: "map_of (currentByAccount r) (ci_accountId c) = Some s"
    and old: "rp_generation old = as_generation s"
    using ok rep by (auto simp: authenticate_def Let_def split: if_splits option.splits)
  have idx: "session_index (map_of (currentByAccount r)) (map_of (accountBySession r))
      (nextSessionId r) (nextGeneration r)"
    using inv by (simp add: registry_inv_def)
  have uniq: "b = ci_accountId c"
    if "map_of (currentByAccount r) b = Some t" "as_generation t = as_generation s" for b t
    using idx s that unfolding session_index_def by blast
  have below: "generation_value (as_generation s) < nextGeneration r"
    using session_index_bounds[OF idx s] by simp
  then have "as_generation s \<noteq> SessionGeneration (nextGeneration r)" by auto
  moreover have "generation_value (as_generation s) < nextGeneration r + 1"
    using below ok by (auto simp: authenticate_def neq_max_iff_less less_Suc_below_max split: if_splits)
  ultimately show ?thesis
    using ok inv uniq
    by (auto simp: generation_retired_def old authenticate_def registry_inv_def om.lookup_ins Let_def
        split: if_splits)
qed

section \<open>Properties\<close>

text \<open>A small run used by the witnesses: two accounts authenticate, then the first one again
  from a second connection.\<close>

definition demo_alice :: claimed_identity where
  "demo_alice = \<lparr>ci_accountId = AccountId (1 # replicate 15 0), ci_nickname = [65]\<rparr>"

definition demo_bob :: claimed_identity where
  "demo_bob = \<lparr>ci_accountId = AccountId (2 # replicate 15 0), ci_nickname = [66]\<rparr>"

definition demo_registry :: session_registry where
  "demo_registry = fold registry_step [CallAuthenticate demo_alice, CallAuthenticate demo_bob]
     \<lparr>currentByAccount = [], accountBySession = [], nextSessionId = 1, nextGeneration = 1\<rparr>"

lemmas registry_eval = demo_registry_def demo_alice_def demo_bob_def authenticate_def detach_def
  resume_def disconnect_def om_insert_def om_emplace_def om_erase_def Let_def id_order_defs

lemma demo_registry_inv: "registry_inv demo_registry"
  unfolding demo_registry_def
  by (rule registry.run_inv) (rule new_registry_inv[of "SessionGeneration 1"], simp add: new_registry_def)

text \<open>Property C11. Starting from a registry with any legal first generation, no sequence of
  authentications, recoveries, detaches, resumes and disconnects breaks the index: the two maps
  stay inverse to each other and sorted, identifiers stay below their counters, no two accounts
  share a generation, and a session carries a resume proof exactly while it is detached.\<close>

theorem registry_index_invariant:
  assumes "new_registry g = Inr r"
  shows "registry_inv (fold registry_step calls r)"
  using assms by (intro registry.run_inv new_registry_inv)

theorem registry_index_invariant_witness:
  "registry_inv (fold registry_step [CallAuthenticate demo_alice, CallAuthenticate demo_alice]
     \<lparr>currentByAccount = [], accountBySession = [], nextSessionId = 1, nextGeneration = 7\<rparr>)"
  by (rule registry_index_invariant[of "SessionGeneration 7"]) (simp add: new_registry_def)

text \<open>Property C12. A session that is replaced by a new authentication of the same account is
  fenced off for good: whatever calls follow, its generation can neither detach nor disconnect
  any session.\<close>

theorem replaced_session_fenced:
  assumes "registry_inv r" and "authenticate r identity = Inr (res, r')"
    and "ar_replaced res = Some old"
  shows "fst (detach (fold registry_step calls r') i (rp_generation old) t) = False \<and>
         fst (disconnect (fold registry_step calls r') i (rp_generation old)) = False"
proof -
  have "registry_inv r' \<and> generation_retired r' (rp_generation old)"
    using assms authenticate_inv replaced_is_retired by blast
  then have "generation_retired (fold registry_step calls r') (rp_generation old)"
    using retired.run_inv by blast
  then show ?thesis by (simp add: retired_rejected)
qed

theorem replaced_session_fenced_witness:
  "\<exists>res r' old. authenticate demo_registry demo_alice = Inr (res, r') \<and>
     ar_replaced res = Some old \<and>
     fst (disconnect (fold registry_step [CallDisconnect (SessionId 1) (SessionGeneration 1)] r')
            (SessionId 1) (rp_generation old)) = False"
proof -
  obtain res r' old where ok: "authenticate demo_registry demo_alice = Inr (res, r')"
    and old: "ar_replaced res = Some old"
    by (simp add: registry_eval)
  show ?thesis
    using ok old replaced_session_fenced[OF demo_registry_inv ok old] by blast
qed

text \<open>Property C13. Resuming a session that was just detached succeeds exactly before the
  deadline, for the account that owns the session and with the generation that was detached;
  it gives back the same session and generation, and a second resume finds it attached.\<close>

theorem resume_after_detach:
  assumes "registry_inv r" and "detach r i g deadline = (True, r')"
    and "map_of (accountBySession r) i = Some (ci_accountId identity)"
  shows "let cmd = \<lparr>rc_identity = identity, rc_sessionId = i, rc_generation = g, rc_now = now\<rparr> in
         if now < deadline
         then fst (resume r' cmd) =
                (ResumeOk, Some \<lparr>ar_sessionId = i, ar_generation = g, ar_replaced = None\<rparr>) \<and>
              fst (resume (snd (resume r' cmd)) cmd) = (NotDetached, None)
         else resume r' cmd = ((ResumeExpired, None), r')"
proof -
  let ?a = "ci_accountId identity"
  obtain s where s: "map_of (currentByAccount r) ?a = Some s" "as_sessionId s = i" "as_generation s = g"
    and r': "r' = r\<lparr>currentByAccount := om_insert ?a
       (s\<lparr>as_detachedUntil := Some deadline, as_resumeProof := Some g\<rparr>) (currentByAccount r)\<rparr>"
    using assms(2,3) by (auto simp: detach_def split: option.splits if_splits)
  have wf: "om_wf (currentByAccount r)" using assms(1) by (simp add: registry_inv_def)
  show ?thesis
    using assms(3) s by (simp add: resume_def r' wf om.lookup_ins om_wf_insert Let_def)
qed

theorem resume_after_detach_witness:
  "let r' = snd (detach demo_registry (SessionId 1) (SessionGeneration 1) 100);
       cmd = \<lparr>rc_identity = demo_alice, rc_sessionId = SessionId 1,
              rc_generation = SessionGeneration 1, rc_now = 99\<rparr>
   in fst (resume r' cmd) = (ResumeOk, Some \<lparr>ar_sessionId = SessionId 1,
        ar_generation = SessionGeneration 1, ar_replaced = None\<rparr>)"
proof -
  obtain r' where d: "detach demo_registry (SessionId 1) (SessionGeneration 1) 100 = (True, r')"
    by (simp add: registry_eval)
  have owner: "map_of (accountBySession demo_registry) (SessionId 1) = Some (ci_accountId demo_alice)"
    by (simp add: registry_eval)
  show ?thesis
    using resume_after_detach[OF demo_registry_inv d owner, of 99] d by (simp add: Let_def)
qed

end
