(* ===== verification/Utf8.thy ===== *)
theory Utf8
  imports Prelude
begin

unbundle bit_operations_syntax

text \<open>
  The UTF-8 validator of \<open>game-server/modules/lobby-room/src/domain/Room.cpp\<close>, which guards
  room titles and nicknames. It is an index-based scanner over bytes that rebuilds the code point
  with shifts and masks; the theory shows that it accepts exactly the encodings of sequences of
  Unicode scalar values, and, with \<open>rejectControls\<close>, exactly those without control characters.
\<close>

section \<open>The scanner\<close>

text \<open>What the lead byte decides: the number of continuation bytes, the range of the second
  byte, and the first bits of the code point.\<close>

definition utf8_lead :: "byte \<Rightarrow> (nat \<times> byte \<times> byte \<times> u32) option" where
  "utf8_lead lead =
     (if 0xc2 \<le> lead \<and> lead \<le> 0xdf then Some (1, 0x80, 0xbf, ucast (lead AND 0x1f))
      else if 0xe0 \<le> lead \<and> lead \<le> 0xef then
        Some (2, if lead = 0xe0 then 0xa0 else 0x80,
                 if lead \<noteq> 0xe0 \<and> lead = 0xed then 0x9f else 0xbf, ucast (lead AND 0x0f))
      else if 0xf0 \<le> lead \<and> lead \<le> 0xf4 then
        Some (3, if lead = 0xf0 then 0x90 else 0x80,
                 if lead \<noteq> 0xf0 \<and> lead = 0xf4 then 0x8f else 0xbf, ucast (lead AND 0x07))
      else None)"

text \<open>The inner loop over the continuation bytes.\<close>

fun utf8_continue :: "bytes \<Rightarrow> u32 \<Rightarrow> u32 option" where
  "utf8_continue [] codePoint = Some codePoint"
| "utf8_continue (c # cs) codePoint =
     (if c < 0x80 \<or> 0xbf < c then None
      else utf8_continue cs (push_bit 6 codePoint OR ucast (c AND 0x3f)))"

text \<open>The outer loop; the list is what the index has not passed yet.\<close>

function validUtf8 :: "bool \<Rightarrow> bytes \<Rightarrow> bool" where
  "validUtf8 rejectControls [] = True"
| "validUtf8 rejectControls (lead # rest) =
     (if lead \<le> 0x7f then
        (if rejectControls \<and> (lead \<le> 0x1f \<or> lead = 0x7f) then False
         else validUtf8 rejectControls rest)
      else case utf8_lead lead of
             None \<Rightarrow> False
           | Some (count, secondMinimum, secondMaximum, bits) \<Rightarrow>
               if length (lead # rest) \<le> count then False
               else if hd rest < secondMinimum \<or> secondMaximum < hd rest then False
               else case utf8_continue (take count rest) bits of
                      None \<Rightarrow> False
                    | Some codePoint \<Rightarrow>
                        if rejectControls \<and> 0x7f \<le> codePoint \<and> codePoint \<le> 0x9f then False
                        else validUtf8 rejectControls (drop count rest))"
  by pat_completeness auto
termination
  by (relation "measure (\<lambda>(r, bs). length bs)") auto

declare validUtf8.simps(2) [simp del]

section \<open>The reference encoding\<close>

definition unicode_scalar :: "nat \<Rightarrow> bool" where
  "unicode_scalar cp \<longleftrightarrow> cp < 0xd800 \<or> (0xe000 \<le> cp \<and> cp < 0x110000)"

definition control_char :: "nat \<Rightarrow> bool" where
  "control_char cp \<longleftrightarrow> cp < 0x20 \<or> (0x7f \<le> cp \<and> cp \<le> 0x9f)"

definition utf8_encode :: "nat \<Rightarrow> bytes" where
  "utf8_encode cp =
     map of_nat
       (if cp < 0x80 then [cp]
        else if cp < 0x800 then [0xc0 + cp div 64, 0x80 + cp mod 64]
        else if cp < 0x10000 then
          [0xe0 + cp div 4096, 0x80 + cp div 64 mod 64, 0x80 + cp mod 64]
        else [0xf0 + cp div 262144, 0x80 + cp div 4096 mod 64, 0x80 + cp div 64 mod 64,
              0x80 + cp mod 64])"

section \<open>Bytes as numbers\<close>

lemma unat_byte: "n < 256 \<Longrightarrow> unat (of_nat n :: byte) = n"
  by (simp add: unat_of_nat take_bit_nat_eq_self)

lemma of_nat_byte_inverse: "n = unat (b :: byte) \<Longrightarrow> (of_nat n :: byte) = b"
  by simp

lemma unat_and_mask: "unat (w AND mask n) = unat w mod 2 ^ n" for w :: "'a::len word"
  by (simp only: unsigned_take_bit_eq take_bit_eq_mod[of n "unat w"] flip: take_bit_eq_mask)

lemma mask_numerals:
  "(0x3f :: byte) = mask 6" "(0x1f :: byte) = mask 5" "(0x0f :: byte) = mask 4" "(0x07 :: byte) = mask 3"
  by (simp_all add: mask_eq_exp_minus_1)

lemma unat_low_bits:
  "unat (ucast (b AND 0x3f) :: u32) = unat (b :: byte) mod 64"
  "unat (ucast (b AND 0x1f) :: u32) = unat b mod 32"
  "unat (ucast (b AND 0x0f) :: u32) = unat b mod 16"
  "unat (ucast (b AND 0x07) :: u32) = unat b mod 8"
  unfolding mask_numerals
  by (simp_all add: unat_and_mask unsigned_ucast_eq take_bit_nat_eq_self_iff less_imp_le
      order_le_less_trans[OF mod_le_divisor])

lemma unat_shift_in:
  assumes "unat x < 2 ^ 26"
  shows "unat (push_bit 6 x OR ucast (b AND 0x3f) :: u32) = unat x * 64 + unat (b :: byte) mod 64"
proof -
  have "push_bit 6 x AND ucast (b AND 0x3f) = (0 :: u32)"
    unfolding mask_numerals
    by (rule bit_word_eqI) (auto simp: bit_simps)
  then have "push_bit 6 x OR ucast (b AND 0x3f) = push_bit 6 x + (ucast (b AND 0x3f) :: u32)"
    by (simp add: disjunctive_add_eq_or)
  moreover have "unat (push_bit 6 x) = unat x * 64"
    using assms by (simp add: push_bit_eq_mult unat_word_ariths)
  moreover have "unat x * 64 + unat b mod 64 < 2 ^ 32"
    using assms mod_less_divisor[of 64 "unat b"] by simp
  ultimately show ?thesis
    by (simp add: unat_word_ariths unat_low_bits)
qed


lemma of_nat_shift_in:
  assumes "x < 2 ^ 26" "0x80 \<le> unat c" "unat c \<le> 0xbf"
  shows "push_bit 6 (of_nat x) OR ucast (c AND 0x3f) = (of_nat (x * 64 + (unat (c :: byte) - 0x80)) :: u32)"
proof -
  have x: "unat (of_nat x :: u32) = x"
    using assms(1) by (simp add: unat_of_nat take_bit_nat_eq_self)
  have "unat c mod 64 = unat c - 0x80"
    using assms(2,3) mod_if[of "unat c - 0x80" 64] le_mod_geq[of 64 "unat c"] le_mod_geq[of 64 "unat c - 64"]
    by simp
  then have "unat (push_bit 6 (of_nat x) OR ucast (c AND 0x3f) :: u32) = x * 64 + (unat c - 0x80)"
    using assms x unat_shift_in[of "of_nat x" c] by simp
  moreover have "unat (of_nat (x * 64 + (unat c - 0x80)) :: u32) = x * 64 + (unat c - 0x80)"
    using assms by (subst unat_of_nat) (simp add: take_bit_nat_eq_self)
  ultimately show ?thesis
    by (simp only: word_unat_eq_iff)
qed

lemma mod_by_offset:
  fixes l :: nat
  assumes "a * m \<le> l" "l < a * m + m"
  shows "l mod m = l - a * m"
proof -
  obtain k where "l = a * m + k" using assms(1) le_Suc_ex by blast
  then show ?thesis using assms(2) by simp
qed

lemma utf8_lead_nat:
  "utf8_lead lead =
     (let l = unat lead in
      if 0xc2 \<le> l \<and> l \<le> 0xdf then Some (1, 0x80, 0xbf, of_nat (l - 0xc0))
      else if 0xe0 \<le> l \<and> l \<le> 0xef then
        Some (2, if l = 0xe0 then 0xa0 else 0x80, if l = 0xed then 0x9f else 0xbf, of_nat (l - 0xe0))
      else if 0xf0 \<le> l \<and> l \<le> 0xf4 then
        Some (3, if l = 0xf0 then 0x90 else 0x80, if l = 0xf4 then 0x8f else 0xbf, of_nat (l - 0xf0))
      else None)"
proof -
  have bits: "ucast (lead AND 0x1f) = (of_nat (unat lead mod 32) :: u32)"
    "ucast (lead AND 0x0f) = (of_nat (unat lead mod 16) :: u32)"
    "ucast (lead AND 0x07) = (of_nat (unat lead mod 8) :: u32)"
    by (simp_all flip: unat_low_bits)
  have mods: "0xc2 \<le> l \<Longrightarrow> l \<le> 0xdf \<Longrightarrow> l mod 32 = l - 0xc0"
    "0xe0 \<le> l \<Longrightarrow> l \<le> 0xef \<Longrightarrow> l mod 16 = l - 0xe0"
    "0xf0 \<le> l \<Longrightarrow> l \<le> 0xf4 \<Longrightarrow> l mod 8 = l - 0xf0" for l :: nat
    using mod_by_offset[of 6 32 l] mod_by_offset[of 14 16 l] mod_by_offset[of 30 8 l] by simp_all
  have cmp: "0xc2 \<le> lead \<longleftrightarrow> 0xc2 \<le> unat lead" "lead \<le> 0xdf \<longleftrightarrow> unat lead \<le> 0xdf"
    "0xe0 \<le> lead \<longleftrightarrow> 0xe0 \<le> unat lead" "lead \<le> 0xef \<longleftrightarrow> unat lead \<le> 0xef"
    "0xf0 \<le> lead \<longleftrightarrow> 0xf0 \<le> unat lead" "lead \<le> 0xf4 \<longleftrightarrow> unat lead \<le> 0xf4"
    "lead = 0xe0 \<longleftrightarrow> unat lead = 0xe0" "lead = 0xed \<longleftrightarrow> unat lead = 0xed"
    "lead = 0xf0 \<longleftrightarrow> unat lead = 0xf0" "lead = 0xf4 \<longleftrightarrow> unat lead = 0xf4"
    by (simp_all add: word_le_nat_alt word_unat_eq_iff)
  show ?thesis
    unfolding utf8_lead_def bits cmp Let_def
    by (cases "unat lead = 0xe0"; cases "unat lead = 0xf0"; simp add: mods cong: if_cong)
qed

lemma base64_digits:
  fixes x y z w :: nat
  assumes "y < 64" "z < 64" "w < 64"
  shows "(x * 64 + y) div 64 = x" "(x * 64 + y) mod 64 = y"
    "((x * 64 + y) * 64 + z) div 4096 = x" "((x * 64 + y) * 64 + z) div 64 mod 64 = y"
    "((x * 64 + y) * 64 + z) mod 64 = z"
    "(((x * 64 + y) * 64 + z) * 64 + w) div 262144 = x"
    "(((x * 64 + y) * 64 + z) * 64 + w) div 4096 mod 64 = y"
    "(((x * 64 + y) * 64 + z) * 64 + w) div 64 mod 64 = z"
    "(((x * 64 + y) * 64 + z) * 64 + w) mod 64 = w"
proof -
  have pows: "n div 4096 = n div 64 div 64" "n div 262144 = n div 64 div 64 div 64" for n :: nat
    by (simp_all add: div_mult2_eq[symmetric])
  have digit: "(a * 64 + b) div 64 = a" "(a * 64 + b) mod 64 = b" if "b < 64" for a b :: nat
    using that by simp_all
  show "(x * 64 + y) div 64 = x" "(x * 64 + y) mod 64 = y"
    "((x * 64 + y) * 64 + z) div 4096 = x" "((x * 64 + y) * 64 + z) div 64 mod 64 = y"
    "((x * 64 + y) * 64 + z) mod 64 = z"
    "(((x * 64 + y) * 64 + z) * 64 + w) div 262144 = x"
    "(((x * 64 + y) * 64 + z) * 64 + w) div 4096 mod 64 = y"
    "(((x * 64 + y) * 64 + z) * 64 + w) div 64 mod 64 = z"
    "(((x * 64 + y) * 64 + z) * 64 + w) mod 64 = w"
    using assms by (simp_all only: pows digit)
qed


section \<open>One character at a time\<close>

definition continuation :: "nat \<Rightarrow> bool" where
  "continuation c \<longleftrightarrow> 0x80 \<le> c \<and> c \<le> 0xbf"

lemma byte_range_outside:
  "c < 0x80 \<or> 0xbf < c \<longleftrightarrow> \<not> continuation (unat c)" for c :: byte
  by (auto simp: continuation_def word_less_nat_alt)

lemma utf8_continue_nat:
  assumes "continuation (unat c)" "x < 2 ^ 26" "x' = x * 64 + (unat c - 0x80)"
  shows "utf8_continue (c # cs) (of_nat x) = utf8_continue cs (of_nat x')"
  using of_nat_shift_in[of x c] assms byte_range_outside[of c]
  by (simp add: continuation_def del: of_nat_add of_nat_mult)

lemma utf8_continue_reject:
  "\<not> (\<forall>c \<in> set cs. continuation (unat c)) \<Longrightarrow> utf8_continue cs x = None"
  by (induction cs arbitrary: x) (auto simp: byte_range_outside)

declare utf8_continue.simps(2) [simp del]

text \<open>The acceptance condition of one character, read off its bytes as numbers.\<close>

fun utf8_char :: "bytes \<Rightarrow> (nat \<times> bytes) option" where
  "utf8_char [] = None"
| "utf8_char (b # rest) =
     (let l = unat b in
      if l \<le> 0x7f then Some (l, rest)
      else if 0xc2 \<le> l \<and> l \<le> 0xdf then
        (case rest of c # rest' \<Rightarrow>
            if continuation (unat c) then Some ((l - 0xc0) * 64 + (unat c - 0x80), rest') else None
         | _ \<Rightarrow> None)
      else if 0xe0 \<le> l \<and> l \<le> 0xef then
        (case rest of c # d # rest' \<Rightarrow>
            if continuation (unat c) \<and> continuation (unat d) \<and>
               (l = 0xe0 \<longrightarrow> 0xa0 \<le> unat c) \<and> (l = 0xed \<longrightarrow> unat c \<le> 0x9f)
            then Some (((l - 0xe0) * 64 + (unat c - 0x80)) * 64 + (unat d - 0x80), rest') else None
         | _ \<Rightarrow> None)
      else if 0xf0 \<le> l \<and> l \<le> 0xf4 then
        (case rest of c # d # e # rest' \<Rightarrow>
            if continuation (unat c) \<and> continuation (unat d) \<and> continuation (unat e) \<and>
               (l = 0xf0 \<longrightarrow> 0x90 \<le> unat c) \<and> (l = 0xf4 \<longrightarrow> unat c \<le> 0x8f)
            then Some ((((l - 0xf0) * 64 + (unat c - 0x80)) * 64 + (unat d - 0x80)) * 64
                        + (unat e - 0x80), rest') else None
         | _ \<Rightarrow> None)
      else None)"

lemma control_u32:
  assumes "0x80 \<le> cp" "cp < 2 ^ 21"
  shows "0x7f \<le> (of_nat cp :: u32) \<and> (of_nat cp :: u32) \<le> 0x9f \<longleftrightarrow> control_char cp"
proof -
  have "unat (of_nat cp :: u32) = cp"
    using assms(2) by (subst unat_of_nat) (simp add: take_bit_nat_eq_self)
  then show ?thesis
    using assms(1) by (auto simp: word_le_nat_alt control_char_def)
qed

definition char_step :: "bool \<Rightarrow> bytes \<Rightarrow> bool" where
  "char_step rc bs =
     (case utf8_char bs of None \<Rightarrow> False
      | Some (cp, rest) \<Rightarrow> \<not> (rc \<and> control_char cp) \<and> validUtf8 rc rest)"

lemma validUtf8_one:
  assumes "unat b \<le> 0x7f"
  shows "validUtf8 rc (b # rest) = char_step rc (b # rest)"
  using assms
  by (auto simp: validUtf8.simps(2) char_step_def control_char_def word_le_nat_alt word_unat_eq_iff)

lemma validUtf8_multi:
  assumes "\<not> unat b \<le> 0x7f" "utf8_lead b = Some (n, lo, hi, bits)" "n \<le> length rest"
    and "lo \<le> hd rest" "hd rest \<le> hi"
    and "utf8_continue (take n rest) bits = Some (of_nat cp)" "0x80 \<le> cp" "cp < 2 ^ 21"
    and "utf8_char (b # rest) = Some (cp, drop n rest)"
  shows "validUtf8 rc (b # rest) = char_step rc (b # rest)"
  using assms control_u32[of cp]
  by (auto simp: validUtf8.simps(2) char_step_def word_le_nat_alt[of b] not_less not_le simp del: utf8_char.simps)

lemma validUtf8_multi_reject:
  assumes "\<not> unat b \<le> 0x7f" "utf8_lead b = Some (n, lo, hi, bits)"
    and "length rest < n \<or> hd rest < lo \<or> hi < hd rest \<or> utf8_continue (take n rest) bits = None"
    and "utf8_char (b # rest) = None"
  shows "validUtf8 rc (b # rest) = char_step rc (b # rest)"
  using assms
  by (auto simp: validUtf8.simps(2) char_step_def word_le_nat_alt[of b] simp del: utf8_char.simps)

lemma validUtf8_two:
  assumes l: "0xc2 \<le> unat b" "unat b \<le> 0xdf"
  shows "validUtf8 rc (b # rest) = char_step rc (b # rest)"
proof (cases "\<exists>c cs. rest = c # cs \<and> continuation (unat c)")
  case True
  then obtain c cs where rest: "rest = c # cs" and c: "continuation (unat c)" by blast
  define x cp where "x = unat b - 0xc0" and "cp = x * 64 + (unat c - 0x80)"
  have lead: "utf8_lead b = Some (1, 0x80, 0xbf, of_nat x)"
    using l by (simp only: utf8_lead_nat Let_def x_def) simp
  have "0x80 \<le> cp" "cp < 2 ^ 21" "x < 2 ^ 26" "utf8_continue [c] (of_nat x) = Some (of_nat cp)"
    "0x80 \<le> c" "c \<le> 0xbf"
    using l c utf8_continue_nat[OF c _ cp_def, of "[]"]
    by (auto simp: x_def cp_def continuation_def word_le_nat_alt)
  then show ?thesis
    using l c by (intro validUtf8_multi[OF _ lead]) (auto simp: rest x_def cp_def)
next
  case False
  have lead: "utf8_lead b = Some (1, 0x80, 0xbf, of_nat (unat b - 0xc0))"
    using l by (simp only: utf8_lead_nat Let_def) simp
  have "length rest < 1 \<or> utf8_continue (take 1 rest) (of_nat (unat b - 0xc0)) = None"
    using False by (cases rest) (auto intro: utf8_continue_reject)
  then show ?thesis
    using l False by (intro validUtf8_multi_reject[OF _ lead]) (auto simp: Let_def split: list.split)
qed

lemma validUtf8_three:
  assumes l: "0xe0 \<le> unat b" "unat b \<le> 0xef"
  shows "validUtf8 rc (b # rest) = char_step rc (b # rest)"
proof -
  let ?lo = "if unat b = 0xe0 then 0xa0 else 0x80 :: byte"
  let ?hi = "if unat b = 0xed then 0x9f else 0xbf :: byte"
  let ?in = "\<lambda>c. (unat b = 0xe0 \<longrightarrow> 0xa0 \<le> unat c) \<and> (unat b = 0xed \<longrightarrow> unat c \<le> 0x9f)"
  define x where "x = unat b - 0xe0"
  have lead: "utf8_lead b = Some (2, ?lo, ?hi, of_nat x)"
    using l by (simp only: utf8_lead_nat Let_def x_def) simp
  show ?thesis
  proof (cases "\<exists>c d cs. rest = c # d # cs \<and> continuation (unat c) \<and> continuation (unat d) \<and> ?in c")
    case True
    then obtain c d cs where rest: "rest = c # d # cs" and c: "continuation (unat c)"
      and d: "continuation (unat d)" and c_in: "?in c" by blast
    define y cp where "y = x * 64 + (unat c - 0x80)" and "cp = y * 64 + (unat d - 0x80)"
    have "x < 2 ^ 26" "y < 2 ^ 26" "0x80 \<le> cp" "cp < 2 ^ 21" "?lo \<le> c" "c \<le> ?hi"
      using l c d c_in by (auto simp: x_def y_def cp_def continuation_def word_le_nat_alt)
    moreover from this have "utf8_continue [c, d] (of_nat x) = Some (of_nat cp)"
      by (simp only: utf8_continue_nat[OF c _ y_def] utf8_continue_nat[OF d _ cp_def] utf8_continue.simps(1))
    ultimately show ?thesis
      using l c d c_in by (intro validUtf8_multi[OF _ lead])
        (auto simp: rest x_def y_def cp_def numeral_2_eq_2)
  next
    case False
    have "length rest < 2 \<or> hd rest < ?lo \<or> ?hi < hd rest \<or> utf8_continue (take 2 rest) (of_nat x) = None"
    proof (cases "\<exists>c d cs. rest = c # d # cs")
      case True
      then obtain c d cs where rest: "rest = c # d # cs" by blast
      show ?thesis
      proof (cases "continuation (unat c) \<and> continuation (unat d)")
        case True
        then show ?thesis
          using False rest by (auto simp: word_less_nat_alt continuation_def)
      next
        case False
        then have "utf8_continue [c, d] (of_nat x) = None"
          by (intro utf8_continue_reject) auto
        then show ?thesis
          using rest by (simp add: numeral_2_eq_2)
      qed
    next
      case False
      then show ?thesis by (cases rest; cases "tl rest") auto
    qed
    then show ?thesis
      using l False by (intro validUtf8_multi_reject[OF _ lead]) (auto simp: Let_def split: list.split)
  qed
qed

lemma validUtf8_four:
  assumes l: "0xf0 \<le> unat b" "unat b \<le> 0xf4"
  shows "validUtf8 rc (b # rest) = char_step rc (b # rest)"
proof -
  let ?lo = "if unat b = 0xf0 then 0x90 else 0x80 :: byte"
  let ?hi = "if unat b = 0xf4 then 0x8f else 0xbf :: byte"
  let ?in = "\<lambda>c. (unat b = 0xf0 \<longrightarrow> 0x90 \<le> unat c) \<and> (unat b = 0xf4 \<longrightarrow> unat c \<le> 0x8f)"
  let ?cont = "\<lambda>c d e. continuation (unat c) \<and> continuation (unat d) \<and> continuation (unat e)"
  define x where "x = unat b - 0xf0"
  have lead: "utf8_lead b = Some (3, ?lo, ?hi, of_nat x)"
    using l by (simp only: utf8_lead_nat Let_def x_def) simp
  show ?thesis
  proof (cases "\<exists>c d e cs. rest = c # d # e # cs \<and> ?cont c d e \<and> ?in c")
    case True
    then obtain c d e cs where rest: "rest = c # d # e # cs" and c: "continuation (unat c)"
      and d: "continuation (unat d)" and e: "continuation (unat e)" and c_in: "?in c" by blast
    define y z cp where "y = x * 64 + (unat c - 0x80)" and "z = y * 64 + (unat d - 0x80)"
      and "cp = z * 64 + (unat e - 0x80)"
    have "x < 2 ^ 26" "y < 2 ^ 26" "z < 2 ^ 26" "0x80 \<le> cp" "cp < 2 ^ 21" "?lo \<le> c" "c \<le> ?hi"
      using l c d e c_in by (auto simp: x_def y_def z_def cp_def continuation_def word_le_nat_alt)
    moreover from this have "utf8_continue [c, d, e] (of_nat x) = Some (of_nat cp)"
      by (simp only: utf8_continue_nat[OF c _ y_def] utf8_continue_nat[OF d _ z_def]
          utf8_continue_nat[OF e _ cp_def] utf8_continue.simps(1))
    ultimately show ?thesis
      using l c d e c_in by (intro validUtf8_multi[OF _ lead])
        (auto simp: rest x_def y_def z_def cp_def numeral_3_eq_3)
  next
    case False
    have "length rest < 3 \<or> hd rest < ?lo \<or> ?hi < hd rest \<or> utf8_continue (take 3 rest) (of_nat x) = None"
    proof (cases "\<exists>c d e cs. rest = c # d # e # cs")
      case True
      then obtain c d e cs where rest: "rest = c # d # e # cs" by blast
      show ?thesis
      proof (cases "?cont c d e")
        case True
        then show ?thesis
          using False rest by (auto simp: word_less_nat_alt continuation_def)
      next
        case False
        then have "utf8_continue [c, d, e] (of_nat x) = None"
          by (intro utf8_continue_reject) auto
        then show ?thesis
          using rest by (simp add: numeral_3_eq_3)
      qed
    next
      case False
      then show ?thesis by (cases rest; cases "tl rest"; cases "tl (tl rest)") auto
    qed
    then show ?thesis
      using l False by (intro validUtf8_multi_reject[OF _ lead]) (auto simp: Let_def split: list.split)
  qed
qed

lemma utf8_neither:
  assumes "\<not> unat b \<le> 0x7f" "\<not> (0xc2 \<le> unat b \<and> unat b \<le> 0xdf)"
    "\<not> (0xe0 \<le> unat b \<and> unat b \<le> 0xef)" "\<not> (0xf0 \<le> unat b \<and> unat b \<le> 0xf4)"
  shows "utf8_lead b = None" "utf8_char (b # rest) = None"
  using assms by (simp_all only: utf8_lead_nat utf8_char.simps Let_def if_False)

lemma validUtf8_char_step: "validUtf8 rc (b # rest) = char_step rc (b # rest)"
proof -
  consider "unat b \<le> 0x7f" | "0xc2 \<le> unat b \<and> unat b \<le> 0xdf" | "0xe0 \<le> unat b \<and> unat b \<le> 0xef"
    | "0xf0 \<le> unat b \<and> unat b \<le> 0xf4"
    | "\<not> unat b \<le> 0x7f" "\<not> (0xc2 \<le> unat b \<and> unat b \<le> 0xdf)"
      "\<not> (0xe0 \<le> unat b \<and> unat b \<le> 0xef)" "\<not> (0xf0 \<le> unat b \<and> unat b \<le> 0xf4)"
    by blast
  then show ?thesis
  proof cases
    case 5
    then show ?thesis
      by (simp add: validUtf8.simps(2) char_step_def word_le_nat_alt utf8_neither del: utf8_char.simps)
  qed (simp_all only: validUtf8_one validUtf8_two validUtf8_three validUtf8_four)
qed

section \<open>One character against its encoding\<close>

lemma byte_of_offset: "k \<le> unat (b :: byte) \<Longrightarrow> of_nat (k + (unat b - k)) = b"
  by (simp del: of_nat_add)

lemma utf8_char_two:
  assumes "2 \<le> x" "x < 32" "y < 64" "b = of_nat (0xc0 + x)" "c = of_nat (0x80 + y)"
  shows "utf8_char (b # c # rest) = Some (x * 64 + y, rest)" "utf8_encode (x * 64 + y) = [b, c]"
  using assms base64_digits[of y y y x] by (simp_all add: unat_byte continuation_def utf8_encode_def del: of_nat_add)

lemma utf8_char_three:
  assumes "x < 16" "y < 64" "z < 64" "x = 0 \<longrightarrow> 32 \<le> y" "x = 13 \<longrightarrow> y < 32"
    and "b = of_nat (0xe0 + x)" "c = of_nat (0x80 + y)" "d = of_nat (0x80 + z)"
  shows "utf8_char (b # c # d # rest) = Some ((x * 64 + y) * 64 + z, rest)"
    "utf8_encode ((x * 64 + y) * 64 + z) = [b, c, d]"
proof -
  show "utf8_char (b # c # d # rest) = Some ((x * 64 + y) * 64 + z, rest)"
    using assms less_Suc_eq_le[of y 31]
    by (simp add: unat_byte continuation_def del: of_nat_add)
  have size: "\<not> (x * 64 + y) * 64 + z < 0x80" "\<not> (x * 64 + y) * 64 + z < 0x800"
    "(x * 64 + y) * 64 + z < 0x10000"
    using assms(1-4) by auto
  show "utf8_encode ((x * 64 + y) * 64 + z) = [b, c, d]"
    unfolding utf8_encode_def
    by (simp only: size if_False if_True list.map base64_digits[OF assms(2,3,3)] assms(6-8))
qed

lemma utf8_char_four:
  assumes "x \<le> 4" "y < 64" "z < 64" "w < 64" "x = 0 \<longrightarrow> 16 \<le> y" "x = 4 \<longrightarrow> y < 16"
    and "b = of_nat (0xf0 + x)" "c = of_nat (0x80 + y)" "d = of_nat (0x80 + z)" "e = of_nat (0x80 + w)"
  shows "utf8_char (b # c # d # e # rest) = Some (((x * 64 + y) * 64 + z) * 64 + w, rest)"
    "utf8_encode (((x * 64 + y) * 64 + z) * 64 + w) = [b, c, d, e]"
proof -
  show "utf8_char (b # c # d # e # rest) = Some (((x * 64 + y) * 64 + z) * 64 + w, rest)"
    using assms less_Suc_eq_le[of y 15]
    by (simp add: unat_byte continuation_def del: of_nat_add)
  have size: "\<not> ((x * 64 + y) * 64 + z) * 64 + w < 0x80" "\<not> ((x * 64 + y) * 64 + z) * 64 + w < 0x800"
    "\<not> ((x * 64 + y) * 64 + z) * 64 + w < 0x10000"
    using assms(1-5) by auto
  show "utf8_encode (((x * 64 + y) * 64 + z) * 64 + w) = [b, c, d, e]"
    unfolding utf8_encode_def
    by (simp only: size if_False list.map base64_digits[OF assms(2-4)] assms(7-10))
qed

lemma lead_digit:
  assumes "k \<le> unat (b :: byte)" "unat b < k + m"
  obtains x where "x < m" "b = of_nat (k + x)" "unat b = k + x"
proof -
  obtain x where x: "unat b = k + x" using assms(1) le_Suc_ex by blast
  then have "b = of_nat (k + x)" by (metis of_nat_byte_inverse)
  then show ?thesis using that x assms(2) by simp
qed

lemma continuation_digit:
  assumes "continuation (unat (c :: byte))"
  obtains y where "y < 64" "c = of_nat (0x80 + y)" "unat c = 0x80 + y"
  by (rule lead_digit[where k = 128 and b = c and m = 64])
    (use assms in \<open>simp_all add: continuation_def\<close>)

lemma utf8_char_split:
  assumes "utf8_char bs = Some (cp, rest)"
  obtains (one) b where "bs = b # rest" "unat b \<le> 0x7f" "cp = unat b"
  | (two) b c where "bs = b # c # rest" "0xc2 \<le> unat b" "unat b \<le> 0xdf" "continuation (unat c)"
      "cp = (unat b - 0xc0) * 64 + (unat c - 0x80)"
  | (three) b c d where "bs = b # c # d # rest" "0xe0 \<le> unat b" "unat b \<le> 0xef"
      "continuation (unat c)" "continuation (unat d)" "unat b = 0xe0 \<longrightarrow> 0xa0 \<le> unat c"
      "unat b = 0xed \<longrightarrow> unat c \<le> 0x9f"
      "cp = ((unat b - 0xe0) * 64 + (unat c - 0x80)) * 64 + (unat d - 0x80)"
  | (four) b c d e where "bs = b # c # d # e # rest" "0xf0 \<le> unat b" "unat b \<le> 0xf4"
      "continuation (unat c)" "continuation (unat d)" "continuation (unat e)"
      "unat b = 0xf0 \<longrightarrow> 0x90 \<le> unat c" "unat b = 0xf4 \<longrightarrow> unat c \<le> 0x8f"
      "cp = (((unat b - 0xf0) * 64 + (unat c - 0x80)) * 64 + (unat d - 0x80)) * 64 + (unat e - 0x80)"
proof -
  obtain b bs' where bs: "bs = b # bs'" using assms by (cases bs) auto
  consider "unat b \<le> 0x7f" | "0xc2 \<le> unat b \<and> unat b \<le> 0xdf" | "0xe0 \<le> unat b \<and> unat b \<le> 0xef"
    | "0xf0 \<le> unat b \<and> unat b \<le> 0xf4"
    using assms utf8_neither(2)[of b bs'] bs by fastforce
  then show ?thesis
  proof cases
    case 1
    then show ?thesis using assms one bs by (simp add: Let_def)
  next
    case 2
    then have "bs' \<noteq> []" using assms by (auto simp: bs Let_def)
    then obtain c r where "bs' = c # r" by (cases bs') auto
    then show ?thesis using assms 2 by (intro two[of b c]) (auto simp: bs Let_def split: if_split_asm)
  next
    case 3
    then have "bs' \<noteq> []" "tl bs' \<noteq> []" using assms by (auto simp: bs Let_def split: list.split_asm)
    then obtain c d r where "bs' = c # d # r" by (cases bs'; cases "tl bs'") auto
    then show ?thesis using assms 3 by (intro three[of b c d]) (auto simp: bs Let_def split: if_split_asm)
  next
    case 4
    then have "bs' \<noteq> []" "tl bs' \<noteq> []" "tl (tl bs') \<noteq> []"
      using assms by (auto simp: bs Let_def split: list.split_asm)
    then obtain c d e r where "bs' = c # d # e # r"
      by (cases bs'; cases "tl bs'"; cases "tl (tl bs')") auto
    then show ?thesis using assms 4 by (intro four[of b c d e]) (auto simp: bs Let_def split: if_split_asm)
  qed
qed

lemma utf8_char_sound:
  assumes "utf8_char bs = Some (cp, rest)"
  shows "unicode_scalar cp \<and> bs = utf8_encode cp @ rest"
  using assms
proof (cases rule: utf8_char_split)
  case (one b)
  then show ?thesis by (simp add: unicode_scalar_def utf8_encode_def)
next
  case (two b c)
  obtain x where x: "x < 32" "b = of_nat (0xc0 + x)" "unat b = 0xc0 + x"
    by (rule lead_digit[where k = "0xc0" and b = b and m = 32]) (use two in simp_all)
  obtain y where y: "y < 64" "c = of_nat (0x80 + y)" "unat c = 0x80 + y"
    by (rule continuation_digit[of c]) (use two in simp)
  have "2 \<le> x" "cp = x * 64 + y" using two x y by auto
  then show ?thesis
    using two(1) x y utf8_char_two(2)[OF _ x(1) y(1) x(2) y(2)]
    by (simp add: unicode_scalar_def del: of_nat_add)
next
  case (three b c d)
  obtain x where x: "x < 16" "b = of_nat (0xe0 + x)" "unat b = 0xe0 + x"
    by (rule lead_digit[where k = "0xe0" and b = b and m = 16]) (use three in simp_all)
  obtain y where y: "y < 64" "c = of_nat (0x80 + y)" "unat c = 0x80 + y"
    by (rule continuation_digit[of c]) (use three in simp)
  obtain z where z: "z < 64" "d = of_nat (0x80 + z)" "unat d = 0x80 + z"
    by (rule continuation_digit[of d]) (use three in simp)
  have in_range: "x = 0 \<longrightarrow> 32 \<le> y" "x = 13 \<longrightarrow> y < 32" "cp = (x * 64 + y) * 64 + z"
    using three x(3) y(3) z(3) by auto
  have "unicode_scalar cp"
    using in_range x(1) y(1) z(1) by (cases "x < 13"; cases "x = 13") (auto simp: unicode_scalar_def)
  then show ?thesis
    using three(1) in_range(3)
      utf8_char_three(2)[OF x(1) y(1) z(1) in_range(1,2) x(2) y(2) z(2)] by simp
next
  case (four b c d e)
  obtain x where x: "x < 5" "b = of_nat (0xf0 + x)" "unat b = 0xf0 + x"
    by (rule lead_digit[where k = "0xf0" and b = b and m = 5]) (use four in simp_all)
  obtain y where y: "y < 64" "c = of_nat (0x80 + y)" "unat c = 0x80 + y"
    by (rule continuation_digit[of c]) (use four in simp)
  obtain z where z: "z < 64" "d = of_nat (0x80 + z)" "unat d = 0x80 + z"
    by (rule continuation_digit[of d]) (use four in simp)
  obtain w where w: "w < 64" "e = of_nat (0x80 + w)" "unat e = 0x80 + w"
    by (rule continuation_digit[of e]) (use four in simp)
  have in_range: "x = 0 \<longrightarrow> 16 \<le> y" "x = 4 \<longrightarrow> y < 16" "cp = ((x * 64 + y) * 64 + z) * 64 + w" "x \<le> 4"
    using four x(1,3) y(3) z(3) w(3) by auto
  have "unicode_scalar cp"
    using in_range y(1) z(1) w(1) by (auto simp: unicode_scalar_def)
  then show ?thesis
    using four(1) in_range(3)
      utf8_char_four(2)[OF in_range(4) y(1) z(1) w(1) in_range(1,2) x(2) y(2) z(2) w(2)] by simp
qed

lemma digits_eq:
  "cp = cp div 64 * 64 + cp mod 64"
  "cp = (cp div 4096 * 64 + cp div 64 mod 64) * 64 + cp mod 64"
  "cp = ((cp div 262144 * 64 + cp div 4096 mod 64) * 64 + cp div 64 mod 64) * 64 + cp mod 64" for cp :: nat
proof -
  have pows: "n div 4096 = n div 64 div 64" "n div 262144 = n div 64 div 64 div 64" for n :: nat
    by (simp_all add: div_mult2_eq[symmetric])
  show "cp = cp div 64 * 64 + cp mod 64"
    "cp = (cp div 4096 * 64 + cp div 64 mod 64) * 64 + cp mod 64"
    "cp = ((cp div 262144 * 64 + cp div 4096 mod 64) * 64 + cp div 64 mod 64) * 64 + cp mod 64"
    by (simp_all only: pows div_mult_mod_eq)
qed

lemma utf8_char_complete:
  assumes "unicode_scalar cp"
  shows "utf8_char (utf8_encode cp @ rest) = Some (cp, rest)"
proof -
  consider "cp < 0x80" | "0x80 \<le> cp" "cp < 0x800" | "0x800 \<le> cp" "cp < 0x10000" | "0x10000 \<le> cp"
    by linarith
  then show ?thesis
  proof cases
    case 1
    then show ?thesis by (simp add: utf8_encode_def unat_byte)
  next
    case 2
    define x y where "x = cp div 64" and "y = cp mod 64"
    have eq: "cp = x * 64 + y" and y: "y < 64"
      using digits_eq(1)[of cp] by (simp_all add: x_def y_def)
    have "2 \<le> x" "x < 32" using 2 eq y by auto
    from utf8_char_two[OF this y refl refl] show ?thesis by (simp add: eq del: of_nat_add)
  next
    case 3
    define x y z where "x = cp div 4096" and "y = cp div 64 mod 64" and "z = cp mod 64"
    have eq: "cp = (x * 64 + y) * 64 + z" and yz: "y < 64" "z < 64"
      using digits_eq(2)[of cp] by (simp_all add: x_def y_def z_def)
    have "x < 16" "x = 0 \<longrightarrow> 32 \<le> y" "x = 13 \<longrightarrow> y < 32"
      using 3 eq yz assms by (auto simp: unicode_scalar_def)
    from utf8_char_three[OF this(1) yz this(2,3) refl refl refl] show ?thesis
      by (simp add: eq del: of_nat_add)
  next
    case 4
    define x y z w where "x = cp div 262144" and "y = cp div 4096 mod 64"
      and "z = cp div 64 mod 64" and "w = cp mod 64"
    have eq: "cp = ((x * 64 + y) * 64 + z) * 64 + w" and yzw: "y < 64" "z < 64" "w < 64"
      using digits_eq(3)[of cp] by (simp_all add: x_def y_def z_def w_def)
    have "x \<le> 4" "x = 0 \<longrightarrow> 16 \<le> y" "x = 4 \<longrightarrow> y < 16"
      using 4 eq yzw assms by (auto simp: unicode_scalar_def)
    from utf8_char_four[OF this(1) yzw this(2,3) refl refl refl refl] show ?thesis
      by (simp add: eq del: of_nat_add)
  qed
qed

section \<open>What the scanner accepts\<close>

definition utf8_text :: "bool \<Rightarrow> nat list \<Rightarrow> bool" where
  "utf8_text rc cps \<longleftrightarrow> (\<forall>cp \<in> set cps. unicode_scalar cp \<and> \<not> (rc \<and> control_char cp))"

lemma validUtf8_accepts: "utf8_text rc cps \<Longrightarrow> validUtf8 rc (concat (map utf8_encode cps))"
proof (induction cps)
  case (Cons cp cps)
  have char: "utf8_char (utf8_encode cp @ concat (map utf8_encode cps)) =
      Some (cp, concat (map utf8_encode cps))"
    using Cons.prems by (intro utf8_char_complete) (simp add: utf8_text_def)
  obtain b bs where b: "utf8_encode cp @ concat (map utf8_encode cps) = b # bs"
    using char by (cases "utf8_encode cp @ concat (map utf8_encode cps)") auto
  show ?case
    using Cons char b
    by (simp add: validUtf8_char_step char_step_def utf8_text_def del: utf8_char.simps)
qed simp

lemma validUtf8_only:
  "validUtf8 rc bs \<Longrightarrow> \<exists>cps. utf8_text rc cps \<and> bs = concat (map utf8_encode cps)"
proof (induction "length bs" arbitrary: bs rule: less_induct)
  case less
  show ?case
  proof (cases bs)
    case Nil
    then show ?thesis by (intro exI[of _ "[]"]) (simp add: utf8_text_def)
  next
    case (Cons b bs')
    obtain cp rest where char: "utf8_char bs = Some (cp, rest)"
      and ok: "\<not> (rc \<and> control_char cp)" "validUtf8 rc rest"
      using less.prems unfolding Cons validUtf8_char_step char_step_def
      by (auto split: option.splits simp del: utf8_char.simps)
    have sound: "unicode_scalar cp" "bs = utf8_encode cp @ rest"
      using utf8_char_sound[OF char] by auto
    have "length rest < length bs"
      unfolding sound(2) by (simp add: utf8_encode_def)
    then obtain cps where "utf8_text rc cps" "rest = concat (map utf8_encode cps)"
      using less.hyps ok(2) by blast
    then show ?thesis
      using sound ok(1) by (intro exI[of _ "cp # cps"]) (simp add: utf8_text_def)
  qed
qed

text \<open>Property C28. The UTF-8 scanner of the room service accepts exactly the byte strings that
  are the standard UTF-8 encoding of a sequence of Unicode scalar values (no overlong form, no
  surrogate, nothing above U+10FFFF, no truncated sequence); with \<open>rejectControls\<close> it accepts
  exactly those that contain neither a C0 nor a C1 control character nor DEL.\<close>

theorem validUtf8_iff_encoding:
  "validUtf8 rejectControls text =
     (\<exists>cps. utf8_text rejectControls cps \<and> text = concat (map utf8_encode cps))"
  using validUtf8_accepts validUtf8_only by blast

end
