(* ===== verification/Rooms.thy ===== *)
theory Rooms
  imports Identifiers Utf8 "HOL-Library.Sublist"
begin

text \<open>
  \<open>game-server/modules/lobby-room\<close>: one lobby room. A room has a title, a capacity, a roster in
  join order whose first member is the host, and a lifecycle. The theory models every operation
  of \<open>Room\<close>; the roster of a room is what \<open>prepareHostStart\<close> hands to a battle and what
  \<open>commitLoading\<close> compares before it commits.
\<close>

section \<open>Data\<close>

datatype room_code =
    RoomOk | InvalidArgument | AlreadyInRoom | RoomNotFound | RoomClosed | RoomFull | NotInRoom
  | NotHost | NotEnoughPlayers | NotAllReady | InvalidTarget | RoomOverloaded | RoomStaleSession

datatype room_lifecycle = Open | Loading | InProgress | AwaitingSettlementDurability

record member_identity =
  mi_accountId :: account_id
  mi_sessionId :: session_id
  mi_generation :: session_generation
  mi_nickname :: bytes

record room_member =
  rm_accountId :: account_id
  rm_sessionId :: session_id
  rm_generation :: session_generation
  rm_nickname :: bytes
  rm_ready :: bool

record room =
  rr_roomId :: room_id
  rr_title :: bytes
  rr_capacity :: byte
  rr_lifecycle :: room_lifecycle
  rr_members :: "room_member list"

record admission =
  ad_roomId :: room_id
  ad_host :: session_id
  ad_members :: "room_member list"

record room_summary =
  su_roomId :: room_id
  su_title :: bytes
  su_memberCount :: byte
  su_capacity :: byte

record room_detail =
  de_roomId :: room_id
  de_lifecycle :: room_lifecycle
  de_title :: bytes
  de_capacity :: byte
  de_hostSessionId :: session_id
  de_hostGeneration :: session_generation
  de_members :: "room_member list"

section \<open>Operations\<close>

definition asciiWhitespace :: "byte \<Rightarrow> bool" where
  "asciiWhitespace c \<longleftrightarrow> c = 0x20 \<or> c = 0x09 \<or> c = 0x0a \<or> c = 0x0d \<or> c = 0x0c \<or> c = 0x0b"

definition trim :: "bytes \<Rightarrow> bytes" where
  "trim title = rev (dropWhile asciiWhitespace (rev (dropWhile asciiWhitespace title)))"

definition normalizeTitle :: "bytes \<Rightarrow> bytes option" where
  "normalizeTitle title =
     (let normalized = trim title in
      if normalized = [] \<or> 48 < length normalized \<or> \<not> validUtf8 True normalized then None
      else Some normalized)"

definition validMember :: "member_identity \<Rightarrow> bool" where
  "validMember m \<longleftrightarrow>
     (\<exists>b \<in> set (account_bytes (mi_accountId m)). b \<noteq> 0) \<and> session_value (mi_sessionId m) \<noteq> 0 \<and>
     generation_value (mi_generation m) \<noteq> 0 \<and> mi_nickname m \<noteq> [] \<and>
     length (mi_nickname m) \<le> 65535 \<and> validUtf8 False (mi_nickname m)"

definition new_member :: "member_identity \<Rightarrow> room_member" where
  "new_member m = \<lparr>rm_accountId = mi_accountId m, rm_sessionId = mi_sessionId m,
     rm_generation = mi_generation m, rm_nickname = mi_nickname m, rm_ready = False\<rparr>"

definition createRoom ::
  "room_id \<Rightarrow> bytes \<Rightarrow> byte \<Rightarrow> member_identity \<Rightarrow> room_code \<times> room option" where
  "createRoom roomId title capacity creator =
     (if room_value roomId = 0 \<or> capacity < 2 \<or> 10 < capacity \<or> \<not> validMember creator \<or>
         normalizeTitle title = None
      then (InvalidArgument, None)
      else (RoomOk, Some \<lparr>rr_roomId = roomId, rr_title = the (normalizeTitle title),
              rr_capacity = capacity, rr_lifecycle = Open, rr_members = [new_member creator]\<rparr>))"

definition closed :: "room \<Rightarrow> bool" where
  "closed r \<longleftrightarrow> rr_members r = []"

definition find_member :: "session_id \<Rightarrow> room_member list \<Rightarrow> room_member option" where
  "find_member i = find (\<lambda>m. rm_sessionId m = i)"

definition joinRoom :: "room \<Rightarrow> member_identity \<Rightarrow> room_code \<times> room" where
  "joinRoom r m =
     (if \<not> validMember m then (InvalidArgument, r)
      else if closed r \<or> rr_lifecycle r \<noteq> Open then (RoomClosed, r)
      else case find_member (mi_sessionId m) (rr_members r) of
             Some existing \<Rightarrow>
               (if rm_generation existing = mi_generation m then RoomOk else RoomStaleSession, r)
           | None \<Rightarrow>
               if unat (rr_capacity r) \<le> length (rr_members r) then (RoomFull, r)
               else (RoomOk, r\<lparr>rr_members := rr_members r @ [new_member m]\<rparr>))"

definition leaveRoom :: "room \<Rightarrow> session_id \<Rightarrow> session_generation \<Rightarrow> room_code \<times> room" where
  "leaveRoom r sessionId generation =
     (case find_member sessionId (rr_members r) of
        None \<Rightarrow> (NotInRoom, r)
      | Some m \<Rightarrow>
          if rm_generation m \<noteq> generation then (RoomStaleSession, r)
          else (RoomOk, r\<lparr>rr_members := erase_first (\<lambda>m. rm_sessionId m = sessionId) (rr_members r)\<rparr>))"

definition setReady :: "room \<Rightarrow> session_id \<Rightarrow> session_generation \<Rightarrow> bool \<Rightarrow> room_code \<times> room" where
  "setReady r sessionId generation ready =
     (if rr_lifecycle r \<noteq> Open then (RoomClosed, r)
      else case find_member sessionId (rr_members r) of
             None \<Rightarrow> (NotInRoom, r)
           | Some m \<Rightarrow>
               if rm_generation m \<noteq> generation then (RoomStaleSession, r)
               else (RoomOk, r\<lparr>rr_members := update_first (\<lambda>m. rm_sessionId m = sessionId)
                                 (\<lambda>m. m\<lparr>rm_ready := ready\<rparr>) (rr_members r)\<rparr>))"

text \<open>\<open>actor == members_.end() || actor != members_.begin()\<close>: the first member with the actor's
  session is not the front of the roster.\<close>

definition not_host :: "room \<Rightarrow> session_id \<Rightarrow> bool" where
  "not_host r actor \<longleftrightarrow> (case rr_members r of [] \<Rightarrow> True | m # _ \<Rightarrow> rm_sessionId m \<noteq> actor)"

definition kickMember ::
  "room \<Rightarrow> session_id \<Rightarrow> session_generation \<Rightarrow> session_id \<Rightarrow> session_generation \<Rightarrow> room_code \<times> room" where
  "kickMember r actor actorGeneration target targetGeneration =
     (if rr_lifecycle r \<noteq> Open then (RoomClosed, r)
      else if not_host r actor then (NotHost, r)
      else if rm_generation (hd (rr_members r)) \<noteq> actorGeneration then (RoomStaleSession, r)
      else if actor = target then (InvalidTarget, r)
      else case find_member target (rr_members r) of
             None \<Rightarrow> (InvalidTarget, r)
           | Some m \<Rightarrow>
               if rm_generation m \<noteq> targetGeneration then (InvalidTarget, r)
               else (RoomOk, r\<lparr>rr_members := erase_first (\<lambda>m. rm_sessionId m = target) (rr_members r)\<rparr>))"

definition prepareHostStart ::
  "room \<Rightarrow> session_id \<Rightarrow> session_generation \<Rightarrow> room_code \<times> admission option" where
  "prepareHostStart r actor actorGeneration =
     (if rr_lifecycle r \<noteq> Open then (RoomClosed, None)
      else if not_host r actor then (NotHost, None)
      else if rm_generation (hd (rr_members r)) \<noteq> actorGeneration then (RoomStaleSession, None)
      else if length (rr_members r) < 2 then (NotEnoughPlayers, None)
      else if \<not> list_all rm_ready (rr_members r) then (NotAllReady, None)
      else (RoomOk, Some \<lparr>ad_roomId = rr_roomId r, ad_host = rm_sessionId (hd (rr_members r)),
                         ad_members = rr_members r\<rparr>))"

definition commitLoading :: "room \<Rightarrow> admission \<Rightarrow> room_code \<times> room" where
  "commitLoading r a =
     (if closed r \<or> rr_lifecycle r \<noteq> Open then (RoomClosed, r)
      else if ad_roomId a \<noteq> rr_roomId r \<or> ad_host a \<noteq> rm_sessionId (hd (rr_members r)) \<or>
              ad_members a \<noteq> rr_members r
      then (InvalidArgument, r)
      else (RoomOk, r\<lparr>rr_lifecycle := Loading\<rparr>))"

definition commitInProgress :: "room \<Rightarrow> room_code \<times> room" where
  "commitInProgress r =
     (if rr_lifecycle r = InProgress then (RoomOk, r)
      else if closed r \<or> rr_lifecycle r \<noteq> Loading then (RoomClosed, r)
      else (RoomOk, r\<lparr>rr_lifecycle := InProgress\<rparr>))"

definition commitAwaitingSettlementDurability :: "room \<Rightarrow> room_code \<times> room" where
  "commitAwaitingSettlementDurability r =
     (if rr_lifecycle r = AwaitingSettlementDurability then (RoomOk, r)
      else if rr_lifecycle r \<noteq> InProgress then (RoomClosed, r)
      else (RoomOk, r\<lparr>rr_lifecycle := AwaitingSettlementDurability\<rparr>))"

definition reopenAfterLoadCancelled :: "room \<Rightarrow> room_code \<times> room" where
  "reopenAfterLoadCancelled r =
     (if rr_lifecycle r = Open then (RoomOk, r)
      else if rr_lifecycle r \<noteq> Loading then (RoomClosed, r)
      else (RoomOk, r\<lparr>rr_lifecycle := Open,
                      rr_members := map (\<lambda>m. m\<lparr>rm_ready := False\<rparr>) (rr_members r)\<rparr>))"

definition reopenAfterSettlementDurability :: "room \<Rightarrow> room_code \<times> room" where
  "reopenAfterSettlementDurability r =
     (if rr_lifecycle r = Open then (RoomOk, r)
      else if rr_lifecycle r \<noteq> AwaitingSettlementDurability then (RoomClosed, r)
      else (RoomOk, r\<lparr>rr_lifecycle := Open,
                      rr_members := map (\<lambda>m. m\<lparr>rm_ready := False\<rparr>) (rr_members r)\<rparr>))"

definition summary :: "room \<Rightarrow> room_summary option" where
  "summary r =
     (if closed r then None
      else Some \<lparr>su_roomId = rr_roomId r, su_title = rr_title r,
                 su_memberCount = of_nat (length (rr_members r)), su_capacity = rr_capacity r\<rparr>)"

definition detail :: "room \<Rightarrow> room_detail option" where
  "detail r =
     (if closed r then None
      else Some \<lparr>de_roomId = rr_roomId r, de_lifecycle = rr_lifecycle r, de_title = rr_title r,
                 de_capacity = rr_capacity r, de_hostSessionId = rm_sessionId (hd (rr_members r)),
                 de_hostGeneration = rm_generation (hd (rr_members r)), de_members = rr_members r\<rparr>)"

text \<open>One call on the room.\<close>

datatype room_call =
    CallJoin member_identity
  | CallLeave session_id session_generation
  | CallSetReady session_id session_generation bool
  | CallKick session_id session_generation session_id session_generation
  | CallCommitLoading admission
  | CallCommitInProgress
  | CallCommitAwaiting
  | CallReopenCancelled
  | CallReopenSettled

fun room_call_result :: "room_call \<Rightarrow> room \<Rightarrow> room_code \<times> room" where
  "room_call_result (CallJoin m) r = joinRoom r m"
| "room_call_result (CallLeave i g) r = leaveRoom r i g"
| "room_call_result (CallSetReady i g b) r = setReady r i g b"
| "room_call_result (CallKick i g j h) r = kickMember r i g j h"
| "room_call_result (CallCommitLoading a) r = commitLoading r a"
| "room_call_result CallCommitInProgress r = commitInProgress r"
| "room_call_result CallCommitAwaiting r = commitAwaitingSettlementDurability r"
| "room_call_result CallReopenCancelled r = reopenAfterLoadCancelled r"
| "room_call_result CallReopenSettled r = reopenAfterSettlementDurability r"

definition room_step :: "room_call \<Rightarrow> room \<Rightarrow> room" where
  "room_step c r = snd (room_call_result c r)"

lemmas room_ops = joinRoom_def leaveRoom_def setReady_def kickMember_def commitLoading_def
  commitInProgress_def commitAwaitingSettlementDurability_def reopenAfterLoadCancelled_def
  reopenAfterSettlementDurability_def

section \<open>Titles\<close>

lemma dropWhile_hd: "dropWhile P xs = [] \<or> \<not> P (hd (dropWhile P xs))"
  by (induction xs) auto

lemma dropWhile_id: "xs = [] \<or> \<not> P (hd xs) \<Longrightarrow> dropWhile P xs = xs"
  by (cases xs) auto

lemma trim_ends: "trim t = [] \<or> \<not> asciiWhitespace (hd (trim t)) \<and> \<not> asciiWhitespace (last (trim t))"
proof -
  define u where "u = dropWhile asciiWhitespace t"
  have u: "u = [] \<or> \<not> asciiWhitespace (hd u)"
    unfolding u_def by (rule dropWhile_hd)
  define v where "v = dropWhile asciiWhitespace (rev u)"
  have v: "v = [] \<or> \<not> asciiWhitespace (hd v)"
    unfolding v_def by (rule dropWhile_hd)
  have "rev u = takeWhile asciiWhitespace (rev u) @ v" by (simp add: v_def)
  then have "u = rev v @ rev (takeWhile asciiWhitespace (rev u))" by (metis rev_append rev_rev_ident)
  then have "v \<noteq> [] \<longrightarrow> hd (rev v) = hd u \<and> u \<noteq> []"
    by (metis hd_append2 rev_is_Nil_conv append_is_Nil_conv)
  then show ?thesis
    using u v by (cases "v = []") (auto simp: trim_def u_def[symmetric] v_def[symmetric] last_rev)
qed

lemma trim_id: "t = [] \<or> \<not> asciiWhitespace (hd t) \<and> \<not> asciiWhitespace (last t) \<Longrightarrow> trim t = t"
  by (cases "t = []") (simp_all add: trim_def dropWhile_id hd_rev)

lemma normalizeTitle_idem: "normalizeTitle t = Some u \<Longrightarrow> normalizeTitle u = Some u"
  using trim_id[OF trim_ends, of t] by (auto simp: normalizeTitle_def Let_def split: if_splits)

section \<open>The room invariant\<close>

definition member_ok :: "room_member \<Rightarrow> bool" where
  "member_ok m \<longleftrightarrow> validMember \<lparr>mi_accountId = rm_accountId m, mi_sessionId = rm_sessionId m,
     mi_generation = rm_generation m, mi_nickname = rm_nickname m\<rparr>"

definition roster_ok :: "nat \<Rightarrow> room_member list \<Rightarrow> bool" where
  "roster_ok capacity ms \<longleftrightarrow>
     length ms \<le> capacity \<and> distinct (map rm_sessionId ms) \<and> (\<forall>m \<in> set ms. member_ok m)"

definition room_inv :: "room \<Rightarrow> bool" where
  "room_inv r \<longleftrightarrow>
     room_value (rr_roomId r) \<noteq> 0 \<and> 2 \<le> rr_capacity r \<and> rr_capacity r \<le> 10 \<and>
     normalizeTitle (rr_title r) = Some (rr_title r) \<and>
     roster_ok (unat (rr_capacity r)) (rr_members r)"

lemma member_ok_new [simp]: "member_ok (new_member m) = validMember m"
  by (simp add: member_ok_def new_member_def validMember_def)

lemma member_ok_ready [simp]: "member_ok (m\<lparr>rm_ready := b\<rparr>) = member_ok m"
  by (simp add: member_ok_def)

lemma roster_ok_append:
  "roster_ok n ms \<Longrightarrow> length ms < n \<Longrightarrow> member_ok m \<Longrightarrow> find_member (rm_sessionId m) ms = None \<Longrightarrow>
   roster_ok n (ms @ [m])"
  by (auto simp: roster_ok_def find_member_def find_none)

lemma roster_ok_erase: "roster_ok n ms \<Longrightarrow> roster_ok n (erase_first P ms)"
  using length_erase_first_le[of P ms] set_erase_first[of P ms]
  by (auto simp: roster_ok_def distinct_map_erase_first)

lemma roster_ok_update:
  "roster_ok n ms \<Longrightarrow> roster_ok n (update_first P (\<lambda>m. m\<lparr>rm_ready := b\<rparr>) ms)"
  using set_update_first[of _ P "\<lambda>m. m\<lparr>rm_ready := b\<rparr>" ms]
  by (fastforce simp: roster_ok_def map_update_first)

lemma roster_ok_clear: "roster_ok n ms \<Longrightarrow> roster_ok n (map (\<lambda>m. m\<lparr>rm_ready := b\<rparr>) ms)"
  by (auto simp: roster_ok_def comp_def)

lemma createRoom_inv: "createRoom i t c m = (RoomOk, Some r) \<Longrightarrow> room_inv r"
  using normalizeTitle_idem[of t]
  by (auto simp: createRoom_def room_inv_def roster_ok_def not_less word_le_nat_alt split: if_splits)

lemma room_members_inv:
  "room_inv r \<Longrightarrow> roster_ok (unat (rr_capacity r)) ms \<Longrightarrow> room_inv (r\<lparr>rr_members := ms\<rparr>)"
  by (simp add: room_inv_def)

lemma room_lifecycle_inv [simp]: "room_inv (r\<lparr>rr_lifecycle := l\<rparr>) = room_inv r"
  by (simp add: room_inv_def)

lemma joinRoom_inv: "room_inv r \<Longrightarrow> room_inv (snd (joinRoom r m))"
  by (auto simp: joinRoom_def split: option.split intro!: room_members_inv roster_ok_append)
    (auto simp: room_inv_def new_member_def)

lemma room_step_inv:
  assumes inv: "room_inv r"
  shows "room_inv (room_step c r)"
proof -
  have roster: "roster_ok (unat (rr_capacity r)) (rr_members r)"
    using inv by (simp add: room_inv_def)
  note edits = room_members_inv[OF inv roster_ok_erase[OF roster]]
    room_members_inv[OF inv roster_ok_update[OF roster]]
    room_members_inv[OF inv roster_ok_clear[OF roster]]
  have reopened: "room_inv (r\<lparr>rr_lifecycle := l, rr_members := map (\<lambda>m. m\<lparr>rm_ready := b\<rparr>) (rr_members r)\<rparr>)" for l b
    using room_members_inv[of "r\<lparr>rr_lifecycle := l\<rparr>"] roster_ok_clear[OF roster] inv by simp
  show ?thesis
  proof (cases c)
    case (CallJoin m)
    then show ?thesis by (simp add: room_step_def joinRoom_inv inv)
  qed (simp_all add: room_step_def room_ops inv edits reopened split: option.split)
qed

interpretation room_run: invariant_system room_step room_inv
  by unfold_locales (rule room_step_inv)

section \<open>Lifecycle\<close>

text \<open>The moves the lifecycle can make.\<close>

inductive lifecycle_edge :: "room_lifecycle \<Rightarrow> room_lifecycle \<Rightarrow> bool" where
  stay: "lifecycle_edge l l"
| load: "lifecycle_edge Open Loading"
| start: "lifecycle_edge Loading InProgress"
| finish: "lifecycle_edge InProgress AwaitingSettlementDurability"
| settled: "lifecycle_edge AwaitingSettlementDurability Open"
| cancelled: "lifecycle_edge Loading Open"

inductive_simps lifecycle_edge_iff: "lifecycle_edge k l"

lemma room_step_edge: "lifecycle_edge (rr_lifecycle r) (rr_lifecycle (room_step c r))"
  by (cases c) (auto simp: room_step_def room_ops lifecycle_edge_iff split: option.split)

lemma erase_first_subseq: "subseq (erase_first P xs) xs"
  by (induction xs) auto

lemma room_step_roster:
  assumes "rr_lifecycle r \<noteq> Open" "rr_lifecycle (room_step c r) \<noteq> Open"
  shows "subseq (rr_members (room_step c r)) (rr_members r)"
  using assms erase_first_subseq
  by (cases c) (auto simp: room_step_def room_ops split: option.splits)

lemma room_step_reopen:
  assumes "rr_lifecycle r \<noteq> Open" "rr_lifecycle (room_step c r) = Open"
  shows "rr_members (room_step c r) = map (\<lambda>m. m\<lparr>rm_ready := False\<rparr>) (rr_members r)"
  using assms by (cases c) (auto simp: room_step_def room_ops split: option.splits if_splits)

section \<open>The hand-over to a battle\<close>

lemma prepareHostStart_ok:
  "prepareHostStart r i g = (RoomOk, Some a) \<Longrightarrow>
   ad_roomId a = rr_roomId r \<and> ad_members a = rr_members r \<and> ad_host a = i \<and>
   rm_sessionId (hd (rr_members r)) = i \<and> rm_generation (hd (rr_members r)) = g \<and>
   2 \<le> length (rr_members r) \<and> list_all rm_ready (rr_members r)"
  by (auto simp: prepareHostStart_def not_host_def split: if_splits list.splits)

lemma commitLoading_ok:
  "commitLoading r a = (RoomOk, r') \<Longrightarrow>
   r' = r\<lparr>rr_lifecycle := Loading\<rparr> \<and> ad_members a = rr_members r \<and> ad_roomId a = rr_roomId r \<and>
   rr_lifecycle r = Open"
  by (auto simp: commitLoading_def split: if_splits)

lemma erase_first_filter:
  "distinct (map k ms) \<Longrightarrow> erase_first (\<lambda>m. k m = i) ms = filter (\<lambda>m. k m \<noteq> i) ms"
proof (induction ms)
  case (Cons a ms)
  have "filter (\<lambda>m. k m \<noteq> k a) ms = ms"
    using Cons.prems by (intro filter_True) (auto simp: image_iff)
  then show ?case using Cons by auto
qed simp

section \<open>Properties\<close>

definition room_host :: member_identity where
  "room_host = \<lparr>mi_accountId = AccountId [1], mi_sessionId = SessionId 7,
     mi_generation = SessionGeneration 1, mi_nickname = [0x41]\<rparr>"

definition room_guest :: member_identity where
  "room_guest = \<lparr>mi_accountId = AccountId [2], mi_sessionId = SessionId 8,
     mi_generation = SessionGeneration 2, mi_nickname = [0x42]\<rparr>"

definition demo_room :: room where
  "demo_room = \<lparr>rr_roomId = RoomId 5, rr_title = [0x61], rr_capacity = 4, rr_lifecycle = Open,
     rr_members = [new_member room_host]\<rparr>"

lemma validUtf8_ascii: "c \<le> 0x7f \<Longrightarrow> 0x1f < c \<Longrightarrow> c \<noteq> 0x7f \<Longrightarrow> validUtf8 rc [c]"
  by (auto simp: validUtf8.simps(2))

lemma demo_room_created: "createRoom (RoomId 5) [0x61, 0x20] 4 room_host = (RoomOk, Some demo_room)"
  by (simp add: createRoom_def demo_room_def normalizeTitle_def trim_def asciiWhitespace_def Let_def
      validMember_def room_host_def validUtf8_ascii)

text \<open>Property C29. Whatever calls follow the creation of a room, its identifier is not zero, its
  capacity lies between 2 and 10, its title is a normalised title of 1 to 48 bytes, its roster
  is within the capacity, has no session twice and only valid members; and the member count of
  its published summary, kept in one byte, is the length of the roster and at most the
  capacity.\<close>

theorem room_invariant:
  assumes "createRoom i t c m = (RoomOk, Some r)"
  shows "let s = fold room_step calls r in
         room_inv s \<and>
         (\<forall>p. summary s = Some p \<longrightarrow>
            unat (su_memberCount p) = length (rr_members s) \<and> su_memberCount p \<le> su_capacity p)"
proof -
  define s where "s = fold room_step calls r"
  have inv: "room_inv s"
    unfolding s_def by (rule room_run.run_inv[OF createRoom_inv[OF assms]])
  then have len: "length (rr_members s) \<le> unat (rr_capacity s)" "unat (rr_capacity s) \<le> 10"
    by (auto simp: room_inv_def roster_ok_def word_le_nat_alt)
  then have "unat (of_nat (length (rr_members s)) :: byte) = length (rr_members s)"
    by (intro unat_byte) simp
  then show ?thesis
    using inv len by (auto simp: Let_def s_def[symmetric] summary_def word_le_nat_alt)
qed

theorem room_invariant_witness:
  "room_inv (fold room_step [CallJoin room_guest, CallLeave (SessionId 7) (SessionGeneration 1)] demo_room)"
  using room_invariant[OF demo_room_created] unfolding Let_def by blast

text \<open>When a host's start request was accepted and, after any calls in between, the
  admission it produced is committed, the room enters loading with exactly the roster the host
  saw: at least two members, all ready, no session twice, the host in front.\<close>

theorem admission_commit:
  assumes "room_inv r" "prepareHostStart r host generation = (RoomOk, Some a)"
    and "commitLoading (fold room_step calls r) a = (RoomOk, r')"
  shows "rr_lifecycle r' = Loading \<and> rr_members r' = rr_members r \<and> 2 \<le> length (rr_members r') \<and>
         length (rr_members r') \<le> 10 \<and> list_all rm_ready (rr_members r') \<and>
         distinct (map rm_sessionId (rr_members r')) \<and>
         rm_sessionId (hd (rr_members r')) = host \<and> rm_generation (hd (rr_members r')) = generation"
  using assms(1) prepareHostStart_ok[OF assms(2)] commitLoading_ok[OF assms(3)]
  by (auto simp: room_inv_def roster_ok_def word_le_nat_alt)

definition demo_ready :: room where
  "demo_ready = fold room_step [CallJoin room_guest, CallSetReady (SessionId 7) (SessionGeneration 1) True,
     CallSetReady (SessionId 8) (SessionGeneration 2) True] demo_room"

lemmas demo_room_simps = demo_ready_def demo_room_def room_step_def room_ops find_member_def closed_def
  new_member_def room_host_def room_guest_def validMember_def validUtf8_ascii

lemma demo_ready_eq:
  "demo_ready = \<lparr>rr_roomId = RoomId 5, rr_title = [0x61], rr_capacity = 4, rr_lifecycle = Open,
     rr_members = [(new_member room_host)\<lparr>rm_ready := True\<rparr>, (new_member room_guest)\<lparr>rm_ready := True\<rparr>]\<rparr>"
  by (simp add: demo_room_simps)

lemma demo_ready_inv: "room_inv demo_ready"
  unfolding demo_ready_def by (rule room_run.run_inv[OF createRoom_inv[OF demo_room_created]])

definition demo_admission :: admission where
  "demo_admission = \<lparr>ad_roomId = RoomId 5, ad_host = SessionId 7, ad_members = rr_members demo_ready\<rparr>"

theorem admission_commit_witness:
  "rr_members (demo_ready\<lparr>rr_lifecycle := Loading\<rparr>) = rr_members demo_ready \<and>
   2 \<le> length (rr_members (demo_ready\<lparr>rr_lifecycle := Loading\<rparr>))"
  using admission_commit[OF demo_ready_inv, of "SessionId 7" "SessionGeneration 1" demo_admission
      "[CallSetReady (SessionId 8) (SessionGeneration 2) False,
        CallSetReady (SessionId 8) (SessionGeneration 2) True]" "demo_ready\<lparr>rr_lifecycle := Loading\<rparr>"]
  by (simp add: demo_ready_eq demo_admission_def prepareHostStart_def not_host_def room_step_def room_ops
      find_member_def closed_def new_member_def room_host_def room_guest_def)

text \<open>Property C30. While a room does not reopen, its roster can only lose members: whatever calls
  are made, nobody joins, nobody changes identity, readiness or place, and the next host is the
  next member of the committed roster.\<close>

theorem roster_only_shrinks:
  assumes "\<forall>n \<le> length calls. rr_lifecycle (fold room_step (take n calls) r) \<noteq> Open"
  shows "subseq (rr_members (fold room_step calls r)) (rr_members r)"
  using assms
proof (induction calls rule: rev_induct)
  case (snoc c calls)
  have "subseq (rr_members (fold room_step calls r)) (rr_members r)"
  proof (rule snoc.IH, intro allI impI)
    fix n assume "n \<le> length calls"
    then show "rr_lifecycle (fold room_step (take n calls) r) \<noteq> Open"
      using snoc.prems[rule_format, of n] by simp
  qed
  moreover have "rr_lifecycle (fold room_step calls r) \<noteq> Open"
    "rr_lifecycle (room_step c (fold room_step calls r)) \<noteq> Open"
    using snoc.prems[rule_format, of "length calls"] snoc.prems[rule_format, of "Suc (length calls)"]
    by simp_all
  ultimately show ?case
    using subseq_order.order_trans[OF room_step_roster] by simp
qed simp

theorem roster_only_shrinks_witness:
  "subseq (rr_members (fold room_step [CallJoin room_guest, CallCommitInProgress,
       CallLeave (SessionId 7) (SessionGeneration 1)] (demo_ready\<lparr>rr_lifecycle := Loading\<rparr>)))
     (rr_members demo_ready)"
  using roster_only_shrinks[of "[CallJoin room_guest, CallCommitInProgress,
       CallLeave (SessionId 7) (SessionGeneration 1)]" "demo_ready\<lparr>rr_lifecycle := Loading\<rparr>"]
  by (simp add: demo_ready_eq le_Suc_eq numeral_3_eq_3 room_step_def room_ops closed_def find_member_def
      new_member_def room_host_def room_guest_def validMember_def)

text \<open>Property C31. A call moves the lifecycle at most one edge along open, loading, in progress,
  awaiting durability and back to open (or from loading back to open when the load is
  cancelled); a room that reopens keeps its roster with every ready flag cleared, and a call
  that does not succeed changes nothing.\<close>

theorem room_lifecycle_moves:
  "lifecycle_edge (rr_lifecycle r) (rr_lifecycle (room_step c r)) \<and>
   (rr_lifecycle r \<noteq> Open \<and> rr_lifecycle (room_step c r) = Open \<longrightarrow>
      rr_members (room_step c r) = map (\<lambda>m. m\<lparr>rm_ready := False\<rparr>) (rr_members r)) \<and>
   (fst (room_call_result c r) \<noteq> RoomOk \<longrightarrow> room_step c r = r)"
  using room_step_edge[of r c] room_step_reopen[of r c]
  by (cases c) (auto simp: room_step_def room_ops split: option.splits)

theorem room_lifecycle_moves_witness:
  "rr_members (room_step CallReopenCancelled (demo_ready\<lparr>rr_lifecycle := Loading\<rparr>)) =
     map (\<lambda>m. m\<lparr>rm_ready := False\<rparr>) (rr_members demo_ready)"
  using room_lifecycle_moves[of "demo_ready\<lparr>rr_lifecycle := Loading\<rparr>" CallReopenCancelled]
  by (simp add: room_step_def reopenAfterLoadCancelled_def)

text \<open>A kick that succeeds was asked by the current holder of the host's session in
  an open room, aimed at another member by that member's current generation, and removes exactly
  that member: the host and everybody else stay in place.\<close>

theorem kick_removes_target:
  assumes "room_inv r" "kickMember r actor actorGen target targetGen = (RoomOk, r')"
  shows "rr_lifecycle r = Open \<and> actor \<noteq> target \<and>
         rm_sessionId (hd (rr_members r)) = actor \<and> rm_generation (hd (rr_members r)) = actorGen \<and>
         (\<exists>m \<in> set (rr_members r). rm_sessionId m = target \<and> rm_generation m = targetGen) \<and>
         r' = r\<lparr>rr_members := filter (\<lambda>m. rm_sessionId m \<noteq> target) (rr_members r)\<rparr> \<and>
         hd (rr_members r') = hd (rr_members r) \<and>
         length (rr_members r) = Suc (length (rr_members r'))"
proof -
  have dist: "distinct (map rm_sessionId (rr_members r))"
    using assms(1) by (simp add: room_inv_def roster_ok_def)
  obtain m where host: "rr_lifecycle r = Open" "\<not> not_host r actor" "actor \<noteq> target"
      "rm_generation (hd (rr_members r)) = actorGen"
    and m: "find_member target (rr_members r) = Some m" "rm_generation m = targetGen"
    and r': "r' = r\<lparr>rr_members := erase_first (\<lambda>m. rm_sessionId m = target) (rr_members r)\<rparr>"
    using assms(2) by (auto simp: kickMember_def split: if_splits option.splits)
  have mem: "m \<in> set (rr_members r)" "rm_sessionId m = target"
    using find_set[of _ "rr_members r" m] m(1) by (auto simp: find_member_def)
  obtain h ms where hs: "rr_members r = h # ms" "rm_sessionId h = actor"
    using host(2) by (auto simp: not_host_def split: list.splits)
  show ?thesis
    using host m(2) mem hs r' length_erase_first[of m "rr_members r" "\<lambda>m. rm_sessionId m = target"]
      erase_first_filter[OF dist, of target]
    by auto
qed

theorem kick_removes_target_witness:
  "length (rr_members demo_ready) =
     Suc (length (rr_members (snd (kickMember demo_ready (SessionId 7) (SessionGeneration 1)
       (SessionId 8) (SessionGeneration 2)))))"
  using kick_removes_target[OF demo_ready_inv, of "SessionId 7" "SessionGeneration 1" "SessionId 8"
      "SessionGeneration 2" "snd (kickMember demo_ready (SessionId 7) (SessionGeneration 1)
       (SessionId 8) (SessionGeneration 2))"]
  by (simp add: demo_ready_eq kickMember_def not_host_def find_member_def new_member_def room_host_def
      room_guest_def)

end
