(* ===== verification/BigEndian.thy ===== *)
theory BigEndian
  imports Prelude
begin

unbundle bit_operations_syntax

text \<open>
  The big-endian integers of the wire formats: the loops of \<open>readBigEndian\<close> and
  \<open>writeBigEndian\<close> (\<open>game-server/platform/transport-rudp/src/RudpHeader.cpp\<close>), generic in
  the integer type as the C++ templates are, and the two round trips between words and bytes.
\<close>

section \<open>The loops\<close>

text \<open>The loop of \<open>readBigEndian\<close> over the bytes of the field.\<close>

definition be_value :: "bytes \<Rightarrow> 'a::len word" where
  "be_value bs = foldl (\<lambda>value b. push_bit 8 value OR ucast b) 0 bs"

text \<open>The loop of \<open>writeBigEndian\<close>: byte \<open>index\<close> is the value shifted by
  \<open>(sizeof(Integer) - index - 1) * 8\<close>.\<close>

definition be_bytes :: "nat \<Rightarrow> 'a::len word \<Rightarrow> bytes" where
  "be_bytes n value = map (\<lambda>index. ucast (drop_bit ((n - index - 1) * 8) value)) [0..<n]"

definition readBigEndian :: "bytes \<Rightarrow> nat \<Rightarrow> 'a::len word" where
  "readBigEndian bs offset = be_value (take (LENGTH('a) div 8) (drop offset bs))"

definition writeBigEndian :: "bytes \<Rightarrow> nat \<Rightarrow> 'a::len word \<Rightarrow> bytes" where
  "writeBigEndian bs offset value =
     take offset bs @ be_bytes (LENGTH('a) div 8) value @ drop (offset + LENGTH('a) div 8) bs"

section \<open>Round trips\<close>

lemma length_be_bytes [simp]: "length (be_bytes n v) = n"
  by (simp add: be_bytes_def)

lemma be_bytes_0 [simp]: "be_bytes 0 v = []"
  by (simp add: be_bytes_def)

lemma be_bytes_Suc: "be_bytes (Suc n) v = be_bytes n (drop_bit 8 v) @ [ucast v]"
  by (auto simp: be_bytes_def drop_bit_drop_bit algebra_simps Suc_diff_le intro!: arg_cong[of _ _ ucast]
      arg_cong[of _ _ "\<lambda>k. drop_bit k v"])

lemma be_value_Nil [simp]: "be_value [] = 0"
  by (simp add: be_value_def)

lemma be_value_snoc [simp]: "be_value (bs @ [b]) = push_bit 8 (be_value bs) OR ucast b"
  by (simp add: be_value_def)

lemma be_value_bytes: "be_value (be_bytes n v) = take_bit (8 * n) v" for v :: "'a::len word"
proof (induction n arbitrary: v)
  case (Suc n)
  have "push_bit 8 (take_bit (8 * n) (drop_bit 8 v)) OR ucast (ucast v :: byte) = take_bit (8 * Suc n) v"
    by (rule bit_word_eqI) (auto simp: bit_simps)
  then show ?case by (simp only: be_bytes_Suc be_value_snoc Suc.IH)
qed simp

lemma be_value_low: "take_bit (8 * length bs) (be_value bs) = (be_value bs :: 'a::len word)"
proof (induction bs rule: rev_induct)
  case (snoc b bs)
  have "take_bit (8 * length (bs @ [b])) (push_bit 8 (be_value bs) OR ucast b) =
      push_bit 8 (take_bit (8 * length bs) (be_value bs)) OR (ucast b :: 'a word)"
    by (rule bit_word_eqI) (auto simp: bit_simps dest: bit_imp_le_length)
  then show ?case by (simp only: be_value_snoc snoc.IH)
qed simp

lemma be_bytes_value:
  "8 * length bs \<le> LENGTH('a) \<Longrightarrow> be_bytes (length bs) (be_value bs :: 'a::len word) = bs"
proof (induction bs rule: rev_induct)
  case (snoc b bs)
  let ?v = "be_value bs :: 'a word"
  have low: "k < 8 * length bs" if "bit ?v k" for k
    using that be_value_low[of bs, where 'a = 'a] by (metis bit_take_bit_iff not_le)
  have "drop_bit 8 (push_bit 8 ?v OR ucast b) = ?v"
    using snoc.prems by (intro bit_word_eqI) (auto simp: bit_simps dest: bit_imp_le_length low)
  moreover have "ucast (push_bit 8 ?v OR ucast b) = b"
    using snoc.prems by (intro bit_word_eqI) (auto simp: bit_simps)
  ultimately show ?case
    using snoc by (simp add: be_bytes_Suc)
qed simp

lemma be_value_bytes_full:
  "LENGTH('a) \<le> 8 * n \<Longrightarrow> be_value (be_bytes n v) = v" for v :: "'a::len word"
  by (simp add: be_value_bytes take_bit_word_eq_self)

lemma be_value_inject:
  assumes "length bs = length cs" "8 * length cs \<le> LENGTH('a)" "be_value bs = (be_value cs :: 'a::len word)"
  shows "bs = cs"
  by (metis assms be_bytes_value)

section \<open>Fields of a buffer\<close>

lemma length_writeBigEndian:
  "offset + LENGTH('a) div 8 \<le> length bs \<Longrightarrow>
   length (writeBigEndian bs offset (v :: 'a::len word)) = length bs"
  by (simp add: writeBigEndian_def)

text \<open>A write that fills a field of a buffer laid out as prefix, field, rest.\<close>

lemma write_field:
  "length pre = offset \<Longrightarrow> length old = LENGTH('a) div 8 \<Longrightarrow>
   writeBigEndian (pre @ old @ post) offset (v :: 'a::len word) = pre @ be_bytes (LENGTH('a) div 8) v @ post"
  by (simp add: writeBigEndian_def)

lemma read_field:
  "length pre = offset \<Longrightarrow> length field = LENGTH('a) div 8 \<Longrightarrow>
   readBigEndian (pre @ field @ post) offset = (be_value field :: 'a::len word)"
  by (simp add: readBigEndian_def)

text \<open>Reading a field tells its bytes.\<close>

lemma bytes_of_read:
  assumes "offset + LENGTH('a) div 8 \<le> length bs" "8 * (LENGTH('a) div 8) = LENGTH('a)"
  shows "be_bytes (LENGTH('a) div 8) (readBigEndian bs offset :: 'a::len word) =
    take (LENGTH('a) div 8) (drop offset bs)"
  using be_bytes_value[of "take (LENGTH('a) div 8) (drop offset bs)", where 'a = 'a] assms
  by (simp add: readBigEndian_def min_absorb2)

end
