(* ===== verification/Crc.thy ===== *)
theory Crc
  imports BigEndian
begin

unbundle bit_operations_syntax

text \<open>
  The reflected CRC-32 that the reliable UDP datagrams (\<open>RudpHeader.cpp\<close>) and the journal records
  (\<open>RecordCodec.cpp\<close>) carry, and why a change of one byte changes it: a step of the loop is
  injective in the state and in the byte.
\<close>

section \<open>The loop\<close>

text \<open>One bit of the CRC loop, and one byte of it.\<close>

definition crc_bit :: "u32 \<Rightarrow> u32" where
  "crc_bit value = drop_bit 1 value XOR (if value AND 1 \<noteq> 0 then 0xEDB88320 else 0)"

definition crc_byte :: "u32 \<Rightarrow> byte \<Rightarrow> u32" where
  "crc_byte value b = (crc_bit ^^ 8) (value XOR ucast b)"

section \<open>Injectivity\<close>

lemma xor_cancel: "x XOR z = y XOR z \<longleftrightarrow> x = y" for x y z :: "'a::len word"
  by (metis xor.assoc xor.right_neutral xor_self_eq)

lemma crc_bit_bit: "crc_bit v = drop_bit 1 v XOR (if bit v 0 then 0xEDB88320 else 0)"
  by (simp add: crc_bit_def and_one_eq bit_0 odd_iff_mod_2_eq_one)

lemma crc_bit_top: "bit (crc_bit v) 31 = bit v 0"
proof -
  have "\<not> bit v 32" using bit_imp_le_length[of v 32] by auto
  moreover have "bit (0xEDB88320 :: u32) 31" by simp
  ultimately show ?thesis by (auto simp: crc_bit_bit bit_simps simp del: bit_numeral_rec bit_0)
qed

lemma crc_bit_inject: "crc_bit x = crc_bit y \<longleftrightarrow> x = y"
proof
  assume eq: "crc_bit x = crc_bit y"
  then have low: "bit x 0 = bit y 0" using crc_bit_top by metis
  then have "drop_bit 1 x = drop_bit 1 y"
    using eq by (simp only: crc_bit_bit low xor_cancel)
  then have "bit x (Suc n) = bit y (Suc n)" for n
    using bit_drop_bit_eq[of 1 x] bit_drop_bit_eq[of 1 y] by (metis comp_apply plus_1_eq_Suc)
  then show "x = y"
    using low by (intro bit_word_eqI) (metis not0_implies_Suc)
qed simp

lemma crc_bits_inject: "(crc_bit ^^ n) x = (crc_bit ^^ n) y \<longleftrightarrow> x = y"
  by (induction n) (simp_all add: crc_bit_inject)

lemma crc_byte_state_inject: "crc_byte x b = crc_byte y b \<longleftrightarrow> x = y"
  by (simp add: crc_byte_def crc_bits_inject xor_cancel)

lemma crc_byte_input_inject: "crc_byte x b = crc_byte x c \<longleftrightarrow> b = c"
proof -
  have "(ucast b :: u32) = ucast c \<longleftrightarrow> b = c"
    by (simp add: word_unat_eq_iff unsigned_ucast_eq take_bit_nat_eq_self order_less_trans[OF unsigned_less])
  then show ?thesis
    by (simp add: crc_byte_def crc_bits_inject xor.commute[of x] xor_cancel)
qed

lemma crc_fold_state_inject: "foldl crc_byte x bs = foldl crc_byte y bs \<longleftrightarrow> x = y"
  by (induction bs arbitrary: x y) (simp_all add: crc_byte_state_inject)

lemma crc_fold_update:
  "i < length xs \<Longrightarrow> xs ! i \<noteq> b \<Longrightarrow> foldl crc_byte s (xs[i := b]) \<noteq> foldl crc_byte s xs"
  by (subst (2) id_take_nth_drop[of i xs])
    (simp_all add: upd_conv_take_nth_drop crc_fold_state_inject crc_byte_input_inject)

end
