(* ===== verification/RudpWire.thy ===== *)
theory RudpWire
  imports Crc
begin

unbundle bit_operations_syntax

text \<open>
  \<open>game-server/platform/transport-rudp/src/RudpHeader.cpp\<close>: the 48-byte datagram header of the
  reliable UDP transport, its CRC and the serial-number order of sequence numbers. The theory
  shows that encoding and decoding are inverse to each other on exactly the accepted datagrams,
  and that no accepted datagram differs from a sent one in a single byte.
\<close>

section \<open>Data\<close>

datatype rudp_flag = Unreliable | Reliable | AckOnly | Heartbeat

record rudp_header =
  rh_flag :: rudp_flag
  rh_sessionId :: u64
  rh_sessionGeneration :: u64
  rh_transportEpoch :: u32
  rh_sequence :: u32
  rh_ack :: u32
  rh_ackBits :: u32
  rh_messageId :: u16

datatype header_error =
    DatagramTooShort | DatagramTooLarge | InvalidMagic | UnsupportedVersion | InvalidHeaderBytes
  | InvalidFlags | PayloadLengthMismatch | InvalidChecksum | InvalidHeaderField

section \<open>The checksum\<close>

text \<open>The CRC loop over a datagram, whose checksum field
  (bytes 44 to 47) counts as zero.\<close>

definition crc_input :: "bytes \<Rightarrow> bytes" where
  "crc_input datagram =
     map (\<lambda>(index, b). if 44 \<le> index \<and> index < 44 + 4 then 0 else b) (enumerate 0 datagram)"

definition checksum :: "bytes \<Rightarrow> u32" where
  "checksum datagram = foldl crc_byte (- 1) (crc_input datagram) XOR (- 1)"

section \<open>The codec\<close>

fun flag_byte :: "rudp_flag \<Rightarrow> byte" where
  "flag_byte Unreliable = 0"
| "flag_byte Reliable = 1"
| "flag_byte AckOnly = 2"
| "flag_byte Heartbeat = 4"

definition parseFlag :: "byte \<Rightarrow> rudp_flag option" where
  "parseFlag raw =
     (if raw = 0 then Some Unreliable else if raw = 1 then Some Reliable
      else if raw = 2 then Some AckOnly else if raw = 4 then Some Heartbeat else None)"

definition validFields :: "rudp_header \<Rightarrow> nat \<Rightarrow> bool" where
  "validFields h payloadBytes \<longleftrightarrow>
     \<not> (rh_sessionId h = 0 \<or> rh_sessionGeneration h = 0 \<or> rh_sequence h = 0) \<and>
     (case rh_flag h of
        Unreliable \<Rightarrow> rh_messageId h \<noteq> 0
      | Reliable \<Rightarrow> rh_messageId h \<noteq> 0
      | AckOnly \<Rightarrow> rh_messageId h = 0 \<and> payloadBytes = 0
      | Heartbeat \<Rightarrow> rh_messageId h = 24 \<and> payloadBytes = 0)"

definition encodeHeader :: "rudp_header \<Rightarrow> bytes \<Rightarrow> bytes option" where
  "encodeHeader h payload =
     (if 1200 - 48 < length payload \<or> \<not> validFields h (length payload) then None
      else
        let d = replicate 48 0 @ payload;
            d = writeBigEndian d 0 (0x4C4F4C32 :: u32);
            d = d[4 := 1];
            d = d[5 := flag_byte (rh_flag h)];
            d = writeBigEndian d 6 (48 :: u16);
            d = writeBigEndian d 8 (rh_sessionId h);
            d = writeBigEndian d 16 (rh_sessionGeneration h);
            d = writeBigEndian d 24 (rh_transportEpoch h);
            d = writeBigEndian d 28 (rh_sequence h);
            d = writeBigEndian d 32 (rh_ack h);
            d = writeBigEndian d 36 (rh_ackBits h);
            d = writeBigEndian d 40 (rh_messageId h);
            d = writeBigEndian d 42 (of_nat (length payload) :: u16);
            d = writeBigEndian d 44 (checksum d)
        in Some d)"

definition decoded_header :: "rudp_flag \<Rightarrow> bytes \<Rightarrow> rudp_header" where
  "decoded_header flag d =
     \<lparr>rh_flag = flag, rh_sessionId = readBigEndian d 8, rh_sessionGeneration = readBigEndian d 16,
      rh_transportEpoch = readBigEndian d 24, rh_sequence = readBigEndian d 28,
      rh_ack = readBigEndian d 32, rh_ackBits = readBigEndian d 36, rh_messageId = readBigEndian d 40\<rparr>"

definition decodeHeader :: "bytes \<Rightarrow> header_error + (rudp_header \<times> bytes)" where
  "decodeHeader d =
     (if length d < 48 then Inl DatagramTooShort
      else if 1200 < length d then Inl DatagramTooLarge
      else if readBigEndian d 0 \<noteq> (0x4C4F4C32 :: u32) then Inl InvalidMagic
      else if d ! 4 \<noteq> 1 then Inl UnsupportedVersion
      else if readBigEndian d 6 \<noteq> (48 :: u16) then Inl InvalidHeaderBytes
      else case parseFlag (d ! 5) of
        None \<Rightarrow> Inl InvalidFlags
      | Some flag \<Rightarrow>
          if unat (readBigEndian d 42 :: u16) \<noteq> length d - 48 then Inl PayloadLengthMismatch
          else if readBigEndian d 44 \<noteq> checksum d then Inl InvalidChecksum
          else if \<not> validFields (decoded_header flag d) (unat (readBigEndian d 42 :: u16))
          then Inl InvalidHeaderField
          else Inr (decoded_header flag d, drop 48 d))"

definition isSequenceNewer :: "u32 \<Rightarrow> u32 \<Rightarrow> bool" where
  "isSequenceNewer candidate reference \<longleftrightarrow>
     candidate \<noteq> reference \<and> candidate - reference < 0x80000000"

section \<open>The checksum tells datagrams apart\<close>

lemma crc_input_nth:
  "i < length d \<Longrightarrow> crc_input d ! i = (if 44 \<le> i \<and> i < 48 then 0 else d ! i)"
  by (simp add: crc_input_def nth_enumerate_eq)

lemma length_crc_input [simp]: "length (crc_input d) = length d"
  by (simp add: crc_input_def)

lemma crc_input_update_inside: "44 \<le> i \<Longrightarrow> i < 48 \<Longrightarrow> crc_input (d[i := b]) = crc_input d"
  by (rule nth_equalityI) (auto simp: crc_input_nth nth_list_update)

lemma crc_input_update_outside:
  "i < length d \<Longrightarrow> \<not> (44 \<le> i \<and> i < 48) \<Longrightarrow> crc_input (d[i := b]) = (crc_input d)[i := b]"
  by (rule nth_equalityI) (auto simp: crc_input_nth nth_list_update)

lemma checksum_update_inside: "44 \<le> i \<Longrightarrow> i < 48 \<Longrightarrow> checksum (d[i := b]) = checksum d"
  by (simp add: checksum_def crc_input_update_inside)

lemma checksum_update_outside:
  assumes "i < length d" "\<not> (44 \<le> i \<and> i < 48)" "d ! i \<noteq> b"
  shows "checksum (d[i := b]) \<noteq> checksum d"
  using crc_fold_update[of i "crc_input d" b] assms
  by (simp add: checksum_def crc_input_update_outside crc_input_nth xor_cancel)

section \<open>The layout of an encoded datagram\<close>

definition header_fields :: "rudp_header \<Rightarrow> nat \<Rightarrow> bytes" where
  "header_fields h payloadBytes =
     be_bytes 4 (0x4C4F4C32 :: u32) @ [1, flag_byte (rh_flag h)] @ be_bytes 2 (48 :: u16) @
     be_bytes 8 (rh_sessionId h) @ be_bytes 8 (rh_sessionGeneration h) @
     be_bytes 4 (rh_transportEpoch h) @ be_bytes 4 (rh_sequence h) @ be_bytes 4 (rh_ack h) @
     be_bytes 4 (rh_ackBits h) @ be_bytes 2 (rh_messageId h) @
     be_bytes 2 (of_nat payloadBytes :: u16)"

lemma length_header_fields [simp]: "length (header_fields h n) = 44"
  by (simp add: header_fields_def)

lemma checksum_field_ignored:
  assumes "length pre = 44" "length old = 4" "length new = 4"
  shows "checksum (pre @ old @ post) = checksum (pre @ new @ post)"
proof -
  have "crc_input (pre @ old @ post) = crc_input (pre @ new @ post)"
    using assms by (intro nth_equalityI) (auto simp: crc_input_nth nth_append)
  then show ?thesis by (simp add: checksum_def)
qed

lemma encode_layout:
  assumes "encodeHeader h p = Some d"
  shows "d = header_fields h (length p) @ be_bytes 4 (checksum d) @ p"
    and "length p \<le> 1152" "validFields h (length p)"
proof -
  define d0 where "d0 = header_fields h (length p) @ replicate 4 0 @ p"
  have "encodeHeader h p = Some (writeBigEndian d0 44 (checksum d0))"
    using assms unfolding encodeHeader_def d0_def header_fields_def Let_def
    by (simp add: writeBigEndian_def upd_conv_take_nth_drop split: if_splits)
  moreover have "writeBigEndian d0 44 (checksum d0) =
      header_fields h (length p) @ be_bytes 4 (checksum d0) @ p"
    unfolding d0_def by (subst write_field) simp_all
  ultimately have d: "d = header_fields h (length p) @ be_bytes 4 (checksum d0) @ p"
    using assms by simp
  have "checksum d0 = checksum d"
    unfolding d d0_def by (rule checksum_field_ignored) simp_all
  then show "d = header_fields h (length p) @ be_bytes 4 (checksum d) @ p"
    using d by simp
  show "length p \<le> 1152" "validFields h (length p)"
    using assms by (auto simp: encodeHeader_def split: if_splits)
qed

lemma encode_of_layout:
  assumes "d = header_fields h (length p) @ be_bytes 4 (checksum d) @ p"
    and "length p \<le> 1152" "validFields h (length p)"
  shows "encodeHeader h p = Some d"
proof -
  obtain d' where d': "encodeHeader h p = Some d'"
    using assms(2,3) by (simp add: encodeHeader_def Let_def)
  have "d' = header_fields h (length p) @ be_bytes 4 (checksum d') @ p"
    by (rule encode_layout(1)[OF d'])
  moreover have "checksum d' = checksum d"
    using calculation assms(1) checksum_field_ignored[of "header_fields h (length p)"
        "be_bytes 4 (checksum d')" "be_bytes 4 (checksum d)" p] by simp
  ultimately show ?thesis using d' assms(1) by simp
qed

lemma parseFlag_byte: "parseFlag (flag_byte f) = Some f"
  by (cases f) (simp_all add: parseFlag_def)

lemma flag_byte_parse: "parseFlag raw = Some f \<Longrightarrow> raw = flag_byte f"
  by (auto simp: parseFlag_def split: if_splits)

lemma layout_reads:
  assumes "d = header_fields h n @ crc @ p" "length crc = 4"
  shows "readBigEndian d 0 = (0x4C4F4C32 :: u32)" "d ! 4 = 1" "d ! 5 = flag_byte (rh_flag h)"
    "readBigEndian d 6 = (48 :: u16)" "decoded_header (rh_flag h) d = h"
    "readBigEndian d 42 = (of_nat n :: u16)" "readBigEndian d 44 = (be_value crc :: u32)"
    "drop 48 d = p"
  using assms
  by (simp_all add: header_fields_def readBigEndian_def decoded_header_def be_value_bytes_full nth_append)

lemma drop_split: "take n (drop k d) @ drop (k + n) d = drop k d"
  by (metis append_take_drop_id drop_drop add.commute)

lemma datagram_fields:
  assumes "48 \<le> length d"
  shows "d = take 4 (drop 0 d) @ [d ! 4, d ! 5] @ take 2 (drop 6 d) @ take 8 (drop 8 d) @ take 8 (drop 16 d) @
    take 4 (drop 24 d) @ take 4 (drop 28 d) @ take 4 (drop 32 d) @ take 4 (drop 36 d) @
    take 2 (drop 40 d) @ take 2 (drop 42 d) @ take 4 (drop 44 d) @ drop 48 d"
proof -
  have mid: "drop 4 d = [d ! 4, d ! 5] @ drop 6 d"
    using assms Cons_nth_drop_Suc[of 4 d] Cons_nth_drop_Suc[of 5 d] by simp
  show ?thesis
    using mid drop_split[of 4 0 d] drop_split[of 2 6 d] drop_split[of 8 8 d] drop_split[of 8 16 d]
      drop_split[of 4 24 d] drop_split[of 4 28 d] drop_split[of 4 32 d] drop_split[of 4 36 d]
      drop_split[of 2 40 d] drop_split[of 2 42 d] drop_split[of 4 44 d]
    by simp
qed

lemma field_of_read:
  "offset + 2 \<le> length d \<Longrightarrow> take 2 (drop offset d) = be_bytes 2 (readBigEndian d offset :: u16)"
  "offset + 4 \<le> length d \<Longrightarrow> take 4 (drop offset d) = be_bytes 4 (readBigEndian d offset :: u32)"
  "offset + 8 \<le> length d \<Longrightarrow> take 8 (drop offset d) = be_bytes 8 (readBigEndian d offset :: u64)"
  using bytes_of_read[of offset d, where 'a = 16] bytes_of_read[of offset d, where 'a = 32]
    bytes_of_read[of offset d, where 'a = 64]
  by simp_all

lemma decode_facts:
  assumes "decodeHeader d = Inr (h, p)"
  shows "48 \<le> length d" "length d \<le> 1200" "readBigEndian d 0 = (0x4C4F4C32 :: u32)" "d ! 4 = 1"
    "readBigEndian d 6 = (48 :: u16)" "d ! 5 = flag_byte (rh_flag h)" "h = decoded_header (rh_flag h) d"
    "readBigEndian d 42 = (of_nat (length d - 48) :: u16)" "readBigEndian d 44 = checksum d"
    "validFields h (length d - 48)" "p = drop 48 d"
proof -
  obtain flag where f: "48 \<le> length d" "length d \<le> 1200" "readBigEndian d 0 = (0x4C4F4C32 :: u32)" "d ! 4 = 1"
    "readBigEndian d 6 = (48 :: u16)" "parseFlag (d ! 5) = Some flag"
    "unat (readBigEndian d 42 :: u16) = length d - 48" "readBigEndian d 44 = checksum d"
    "validFields (decoded_header flag d) (unat (readBigEndian d 42 :: u16))"
    "h = decoded_header flag d" "p = drop 48 d"
    using assms by (auto simp: decodeHeader_def split: if_split_asm option.split_asm)
  moreover have "rh_flag h = flag" using f by (simp add: decoded_header_def)
  moreover have "(readBigEndian d 42 :: u16) = of_nat (length d - 48)"
    by (simp flip: f(7))
  ultimately show "48 \<le> length d" "length d \<le> 1200" "readBigEndian d 0 = (0x4C4F4C32 :: u32)" "d ! 4 = 1"
    "readBigEndian d 6 = (48 :: u16)" "d ! 5 = flag_byte (rh_flag h)" "h = decoded_header (rh_flag h) d"
    "readBigEndian d 42 = (of_nat (length d - 48) :: u16)" "readBigEndian d 44 = checksum d"
    "validFields h (length d - 48)" "p = drop 48 d"
    by (simp_all add: flag_byte_parse)
qed

lemma decode_layout:
  assumes "decodeHeader d = Inr (h, p)"
  shows "d = header_fields h (length p) @ be_bytes 4 (checksum d) @ p"
proof -
  note f = decode_facts[OF assms]
  have head: "rh_sessionId h = readBigEndian d 8" "rh_sessionGeneration h = readBigEndian d 16"
    "rh_transportEpoch h = readBigEndian d 24" "rh_sequence h = readBigEndian d 28"
    "rh_ack h = readBigEndian d 32" "rh_ackBits h = readBigEndian d 36" "rh_messageId h = readBigEndian d 40"
    by (subst f(7), simp add: decoded_header_def)+
  have len: "length p = length d - 48" using f(11) by simp
  have reads: "take 4 (drop 0 d) = be_bytes 4 (0x4C4F4C32 :: u32)" "take 2 (drop 6 d) = be_bytes 2 (48 :: u16)"
    "take 8 (drop 8 d) = be_bytes 8 (rh_sessionId h)" "take 8 (drop 16 d) = be_bytes 8 (rh_sessionGeneration h)"
    "take 4 (drop 24 d) = be_bytes 4 (rh_transportEpoch h)" "take 4 (drop 28 d) = be_bytes 4 (rh_sequence h)"
    "take 4 (drop 32 d) = be_bytes 4 (rh_ack h)" "take 4 (drop 36 d) = be_bytes 4 (rh_ackBits h)"
    "take 2 (drop 40 d) = be_bytes 2 (rh_messageId h)"
    "take 2 (drop 42 d) = be_bytes 2 (of_nat (length p) :: u16)"
    "take 4 (drop 44 d) = be_bytes 4 (checksum d)"
    unfolding head len f(3)[symmetric] f(5)[symmetric] f(8)[symmetric] f(9)[symmetric]
    by (rule field_of_read, use f(1) in linarith)+
  show ?thesis
    unfolding header_fields_def append_assoc
    using datagram_fields[OF f(1)] unfolding reads f(4,6) f(11)[symmetric] by simp
qed

lemma decode_of_layout:
  assumes "d = header_fields h (length p) @ be_bytes 4 (checksum d) @ p"
    and "length p \<le> 1152" "validFields h (length p)"
  shows "decodeHeader d = Inr (h, p)"
proof -
  note r = layout_reads[OF assms(1) length_be_bytes]
  have len: "length d = 48 + length p" by (subst assms(1)) simp
  have n: "unat (of_nat (length p) :: u16) = length p"
    using assms(2) by (simp add: unat_of_nat take_bit_nat_eq_self)
  show ?thesis
    unfolding decodeHeader_def
    by (simp only: r parseFlag_byte option.case n len) (use assms(2,3) in \<open>simp add: be_value_bytes_full\<close>)
qed

lemma encode_iff_decode: "encodeHeader h p = Some d \<longleftrightarrow> decodeHeader d = Inr (h, p)"
proof
  assume "encodeHeader h p = Some d"
  from encode_layout[OF this] show "decodeHeader d = Inr (h, p)" by (rule decode_of_layout)
next
  assume a: "decodeHeader d = Inr (h, p)"
  then show "encodeHeader h p = Some d"
    using decode_facts[OF a] by (intro encode_of_layout decode_layout) simp_all
qed

section \<open>Serial-number order\<close>

lemma isSequenceNewer_nat:
  "isSequenceNewer a b \<longleftrightarrow> 0 < unat (a - b) \<and> unat (a - b) < 2 ^ 31"
  by (auto simp: isSequenceNewer_def word_less_nat_alt unat_gt_0)

lemma unat_diff_flip: "(a :: u32) \<noteq> b \<Longrightarrow> unat (b - a) = 2 ^ 32 - unat (a - b)"
  using unsigned_less[of a, where ?'a = nat] unsigned_less[of b, where ?'a = nat]
  by (auto simp: unat_sub_if' word_le_nat_alt word_unat_eq_iff)

section \<open>Properties\<close>

text \<open>Property C32. Encoding and decoding are inverse to each other: a header and a payload encode
  to a datagram exactly when that datagram decodes to them. So every accepted datagram is the
  canonical encoding of what it is read as, nothing is lost or invented in between, and the
  datagram is 48 bytes longer than its payload and at most 1200 bytes long.\<close>

theorem header_codec_inverse:
  "(encodeHeader h payload = Some d) = (decodeHeader d = Inr (h, payload)) \<and>
   (decodeHeader d = Inr (h, payload) \<longrightarrow>
      validFields h (length payload) \<and> length d = 48 + length payload \<and> length d \<le> 1200)"
proof -
  have "validFields h (length payload) \<and> length d = 48 + length payload \<and> length d \<le> 1200"
    if "decodeHeader d = Inr (h, payload)"
    using decode_facts[OF that] by simp
  then show ?thesis using encode_iff_decode by blast
qed

definition demo_header :: rudp_header where
  "demo_header = \<lparr>rh_flag = Reliable, rh_sessionId = 7, rh_sessionGeneration = 3, rh_transportEpoch = 1,
     rh_sequence = 9, rh_ack = 4, rh_ackBits = 5, rh_messageId = 11\<rparr>"

lemma demo_header_encodes: "\<exists>d. encodeHeader demo_header [1, 2] = Some d"
  by (simp add: encodeHeader_def validFields_def demo_header_def Let_def)

theorem header_codec_inverse_witness:
  "\<exists>d. encodeHeader demo_header [1, 2] = Some d \<and> decodeHeader d = Inr (demo_header, [1, 2]) \<and> length d = 50"
proof -
  obtain d where "encodeHeader demo_header [1, 2] = Some d" using demo_header_encodes by blast
  then show ?thesis using header_codec_inverse[of demo_header "[1, 2]" d] by auto
qed

text \<open>Property C33. The checksum detects every single-byte corruption: replace any one byte of an
  encoded datagram, in the header, the checksum or the payload, by a different byte, and the
  decoder rejects it.\<close>

theorem corruption_detected:
  assumes "encodeHeader h payload = Some d" "i < length d" "b \<noteq> d ! i"
  shows "\<exists>e. decodeHeader (d[i := b]) = Inl e"
proof (rule ccontr)
  assume "\<nexists>e. decodeHeader (d[i := b]) = Inl e"
  then obtain h' p' where ok: "decodeHeader (d[i := b]) = Inr (h', p')"
    by (cases "decodeHeader (d[i := b])") auto
  have sent: "readBigEndian d 44 = checksum d" "48 \<le> length d"
    using decode_facts[of d h payload] encode_iff_decode assms(1) by auto
  have got: "readBigEndian (d[i := b]) 44 = checksum (d[i := b])"
    using decode_facts(9)[OF ok] .
  show False
  proof (cases "44 \<le> i \<and> i < 48")
    case True
    then have "readBigEndian (d[i := b]) 44 = (readBigEndian d 44 :: u32)"
      using got sent checksum_update_inside[of i d b] by simp
    then have "take 4 (drop 44 (d[i := b])) = take 4 (drop 44 d)"
      using field_of_read(2)[of 44 d] field_of_read(2)[of 44 "d[i := b]"] sent(2)
      by (simp only: length_list_update)
    then have "take 4 (drop 44 (d[i := b])) ! (i - 44) = take 4 (drop 44 d) ! (i - 44)" by simp
    moreover have "i - 44 < 4" "44 + (i - 44) = i" using True by auto
    ultimately show False using True sent(2) assms(3) by (simp add: nth_list_update)
  next
    case False
    then have "take 4 (drop 44 (d[i := b])) = take 4 (drop 44 d)"
      using sent(2) by (intro nth_equalityI) (auto simp: nth_list_update)
    then have "readBigEndian (d[i := b]) 44 = (readBigEndian d 44 :: u32)"
      by (simp add: readBigEndian_def)
    then show False
      using got sent checksum_update_outside[of i d b] False assms(2,3) by simp
  qed
qed

theorem corruption_detected_witness:
  "\<exists>d e. encodeHeader demo_header [1, 2] = Some d \<and> decodeHeader (d[49 := d ! 49 + 1]) = Inl e"
proof -
  obtain d where d: "encodeHeader demo_header [1, 2] = Some d" using demo_header_encodes by blast
  have "length d = 50" by (subst encode_layout(1)[OF d]) simp
  then show ?thesis using d corruption_detected[OF d, of 49 "d ! 49 + 1"] by auto
qed

text \<open>Sequence numbers are compared as 32-bit serial numbers: one is newer than
  another exactly when it is ahead of it by 1 to 2^31 - 1 steps around the circle, so the order
  survives the wrap-around, no two numbers are newer than each other, and two different numbers
  are ordered unless they are exactly half the circle apart.\<close>

theorem sequence_order:
  "isSequenceNewer a b = (\<exists>n. 0 < n \<and> n < 2 ^ 31 \<and> a = b + of_nat n) \<and>
   \<not> (isSequenceNewer a b \<and> isSequenceNewer b a) \<and>
   (isSequenceNewer a b \<or> isSequenceNewer b a \<or> a = b \<or> a - b = 0x80000000) \<and>
   isSequenceNewer (a + k) (b + k) = isSequenceNewer a b"
proof (intro conjI)
  show "isSequenceNewer a b = (\<exists>n. 0 < n \<and> n < 2 ^ 31 \<and> a = b + of_nat n)"
  proof
    assume "isSequenceNewer a b"
    then show "\<exists>n. 0 < n \<and> n < 2 ^ 31 \<and> a = b + of_nat n"
      by (intro exI[of _ "unat (a - b)"]) (auto simp: isSequenceNewer_nat)
  next
    assume "\<exists>n. 0 < n \<and> n < 2 ^ 31 \<and> a = b + of_nat n"
    then obtain n where n: "0 < n" "n < 2 ^ 31" "a = b + of_nat n" by blast
    then have "unat (a - b) = n" by (simp add: unat_of_nat take_bit_nat_eq_self)
    then show "isSequenceNewer a b" using n by (simp add: isSequenceNewer_nat)
  qed
  show "\<not> (isSequenceNewer a b \<and> isSequenceNewer b a)"
    by (cases "a = b") (auto simp: isSequenceNewer_nat unat_diff_flip[of a b])
  have "unat (a - b) = 2 ^ 31 \<longrightarrow> a - b = 0x80000000" by (simp add: word_unat_eq_iff)
  then show "isSequenceNewer a b \<or> isSequenceNewer b a \<or> a = b \<or> a - b = 0x80000000"
    using unat_diff_flip[of a b] unsigned_less[of "a - b"] by (auto simp: isSequenceNewer_nat unat_gt_0)
  show "isSequenceNewer (a + k) (b + k) = isSequenceNewer a b"
    by (simp add: isSequenceNewer_nat)
qed

end
