(* ===== verification/RudpPeer.thy ===== *)
theory RudpPeer
  imports RudpWire
begin

unbundle bit_operations_syntax

text \<open>
  \<open>game-server/platform/transport-rudp/src/RudpPeer.cpp\<close>: what a peer has received. A peer keeps
  the newest sequence number and a bit mask of the 32 before it, and tells for every arriving
  sequence number whether it is to be delivered. The theory reads the pair as a set of
  acknowledged sequence numbers and shows that observing one is inserting it into that set and
  cutting the set to the window; delivery happens at most once per sequence number.
\<close>

section \<open>Definitions\<close>

datatype disposition = Newest | Reordered | Duplicate | Stale | InvalidSequence

record ack_state =
  ak_ack :: u32
  ak_ackBits :: u32

definition new_peer :: ack_state where
  "new_peer = \<lparr>ak_ack = 0, ak_ackBits = 0\<rparr>"

definition observe :: "ack_state \<Rightarrow> u32 \<Rightarrow> disposition \<times> ack_state" where
  "observe p sequence =
     (if sequence = 0 then (InvalidSequence, p)
      else if ak_ack p = 0 then (Newest, p\<lparr>ak_ack := sequence\<rparr>)
      else if sequence = ak_ack p then (Duplicate, p)
      else if isSequenceNewer sequence (ak_ack p) then
        (let distance = sequence - ak_ack p;
             bits = (if 32 < distance then 0
                     else (if distance = 32 then 0 else push_bit (unat distance) (ak_ackBits p)) OR
                          push_bit (unat (distance - 1)) 1)
         in (Newest, p\<lparr>ak_ackBits := bits, ak_ack := sequence\<rparr>))
      else
        (let distance = ak_ack p - sequence; bit = push_bit (unat (distance - 1)) 1
         in if 32 < distance then (Stale, p)
            else if ak_ackBits p AND bit \<noteq> 0 then (Duplicate, p)
            else (Reordered, p\<lparr>ak_ackBits := ak_ackBits p OR bit\<rparr>)))"

text \<open>\<open>RudpPeerDelivery::ackState\<close> returns the pair, which is the whole state.\<close>

definition isAcknowledged :: "u32 \<Rightarrow> ack_state \<Rightarrow> bool" where
  "isAcknowledged sequence st =
     (if sequence = 0 \<or> ak_ack st = 0 then False
      else if sequence = ak_ack st then True
      else if isSequenceNewer sequence (ak_ack st) then False
      else let distance = ak_ack st - sequence
           in 1 \<le> distance \<and> distance \<le> 32 \<and>
              ak_ackBits st AND push_bit (unat (distance - 1)) 1 \<noteq> 0)"

section \<open>Distances on the circle of sequence numbers\<close>

definition behind :: "u32 \<Rightarrow> u32 \<Rightarrow> nat" where
  "behind newer older = unat (newer - older)"

lemma behind_0 [simp]: "behind a b = 0 \<longleftrightarrow> a = b"
  by (simp add: behind_def unat_0_iff)

lemma behind_mod: "behind a c = (behind a b + behind b c) mod 2 ^ 32"
proof -
  have "a - c = (a - b) + (b - c)" by simp
  then show ?thesis
    by (simp only: behind_def unat_word_ariths) (simp add: unat_word_ariths)
qed

lemma behind_less: "behind a b < 2 ^ 32"
  using unsigned_less[of "a - b", where ?'a = nat] by (simp add: behind_def)

lemma behind_trans:
  assumes "behind a b + behind b c < 2 ^ 32"
  shows "behind a c = behind a b + behind b c"
  using assms by (subst behind_mod[of a c b]) simp

lemma behind_between:
  assumes "behind a b \<le> behind a c"
  shows "behind b c = behind a c - behind a b"
proof -
  have "behind a c = behind a b + behind b c - (if behind a b + behind b c < 2 ^ 32 then 0 else 2 ^ 32)"
    using behind_mod[of a c b] behind_less[of b c] behind_less[of a b] by (simp add: mod_if)
  then show ?thesis
    using assms behind_less[of b c] by (auto split: if_splits)
qed

lemma newer_behind: "isSequenceNewer a b \<longleftrightarrow> 0 < behind a b \<and> behind a b < 2 ^ 31"
  by (simp add: isSequenceNewer_nat behind_def)

lemma not_newer_near: "behind b a \<le> 32 \<Longrightarrow> \<not> isSequenceNewer a b"
  using unat_diff_flip[of b a] by (cases "a = b") (auto simp: newer_behind behind_def)

lemma behind_self [simp]: "behind a a = 0"
  by simp

lemma and_one_bit: "(x AND 2 ^ n = 0) = (\<not> bit x n)" for x :: u32
  by (simp add: and_exp_eq_0_iff_not_bit)

lemma unat_pred: "d \<noteq> 0 \<Longrightarrow> unat (d - 1) = unat d - 1" for d :: u32
  by (simp add: unat_minus_one)

section \<open>The acknowledged set\<close>

definition acked :: "ack_state \<Rightarrow> u32 set" where
  "acked p = {s. isAcknowledged s p}"

lemma acked_iff:
  "s \<in> acked p \<longleftrightarrow> s \<noteq> 0 \<and> ak_ack p \<noteq> 0 \<and>
     (s = ak_ack p \<or> (behind (ak_ack p) s \<in> {1..32} \<and> bit (ak_ackBits p) (behind (ak_ack p) s - 1)))"
proof (cases "s = 0 \<or> ak_ack p = 0 \<or> s = ak_ack p")
  case False
  define d where "d = ak_ack p - s"
  have d: "d \<noteq> 0" using False by (auto simp: d_def)
  have range: "1 \<le> d" "d \<le> 32 \<longleftrightarrow> unat d \<le> 32" "Suc 0 \<le> unat d"
    using d by (auto simp: word_le_nat_alt unat_gt_0 Suc_le_eq)
  show ?thesis
    using False not_newer_near[of "ak_ack p" s] d
    by (auto simp: acked_def isAcknowledged_def Let_def behind_def d_def[symmetric] range and_one_bit unat_pred)
qed (auto simp: acked_def isAcknowledged_def)

lemma acked_new [simp]: "acked new_peer = {}"
  by (auto simp: acked_iff new_peer_def)

definition peer_inv :: "ack_state \<Rightarrow> bool" where
  "peer_inv p \<longleftrightarrow> (ak_ack p = 0 \<longrightarrow> ak_ackBits p = 0)"

definition window :: "u32 \<Rightarrow> u32 set" where
  "window a = {s. behind a s \<le> 32}"

lemma acked_window: "s \<in> acked p \<Longrightarrow> s \<in> window (ak_ack p)"
  by (auto simp: acked_iff window_def)

lemma bit_advance:
  fixes bits :: u32
  assumes "0 < n" "n \<le> 32" "1 \<le> k" "k \<le> 32"
  shows "bit ((if n = 32 then 0 else push_bit n bits) OR 2 ^ (n - 1)) (k - 1) \<longleftrightarrow>
     k = n \<or> (n < k \<and> bit bits (k - n - 1))"
  using assms by (auto simp: bit_simps bit_exp_iff Suc_diff_Suc)

lemma acked_advance:
  assumes a: "ak_ack p \<noteq> 0" and s: "s \<noteq> 0" and n: "n = behind s (ak_ack p)" "0 < n" "n < 2 ^ 31"
    and bits: "bits = (if 32 < n then 0
        else (if n = 32 then 0 else push_bit n (ak_ackBits p)) OR 2 ^ (n - 1))"
  shows "acked (p\<lparr>ak_ackBits := bits, ak_ack := s\<rparr>) = insert s (acked p) \<inter> window s"
proof (rule set_eqI)
  fix t
  have fwd: "behind s t = n + behind (ak_ack p) t" if "behind (ak_ack p) t \<le> 32"
    using behind_trans[of s "ak_ack p" t] that n by simp
  show "t \<in> acked (p\<lparr>ak_ackBits := bits, ak_ack := s\<rparr>) \<longleftrightarrow> t \<in> insert s (acked p) \<inter> window s"
  proof (cases "n \<le> behind s t \<and> behind s t \<le> 32 \<and> t \<noteq> s \<and> t \<noteq> 0")
    case True
    define k where "k = behind s t"
    have rest: "behind (ak_ack p) t = k - n"
      using True behind_between[of s "ak_ack p" t] n(1) by (simp add: k_def)
    have eq: "k = n \<longleftrightarrow> t = ak_ack p"
      using rest behind_0[of "ak_ack p" t] True by (auto simp: k_def)
    have "t \<in> acked (p\<lparr>ak_ackBits := bits, ak_ack := s\<rparr>) \<longleftrightarrow> bit bits (k - 1)"
      using True s behind_0[of s t] by (auto simp: acked_iff k_def Suc_le_eq simp del: behind_0)
    also have "\<dots> \<longleftrightarrow> k = n \<or> (n < k \<and> bit (ak_ackBits p) (k - n - 1))"
      using True n(2) bit_advance[of n k "ak_ackBits p"] by (simp add: bits k_def)
    also have "\<dots> \<longleftrightarrow> t \<in> acked p"
      using True a eq rest by (auto simp: acked_iff k_def)
    finally show ?thesis using True by (simp add: window_def)
  next
    case False
    have "t \<notin> acked p" if "behind s t < n"
      using that fwd acked_window[of t p] by (auto simp: window_def)
    moreover have "\<not> bit bits (behind s t - 1)" if "behind s t < n" "1 \<le> behind s t" "behind s t \<le> 32"
      using that bit_advance[of n "behind s t" "ak_ackBits p"] by (auto simp: bits)
    moreover have "0 \<notin> acked p" by (simp add: acked_iff)
    ultimately show ?thesis
      using False s by (auto simp: acked_iff window_def not_le)
  qed
qed

lemma acked_fill:
  assumes a: "ak_ack p \<noteq> 0" and s: "s \<noteq> 0" and k: "k = behind (ak_ack p) s" "1 \<le> k" "k \<le> 32"
  shows "acked (p\<lparr>ak_ackBits := ak_ackBits p OR 2 ^ (k - 1)\<rparr>) = insert s (acked p)"
proof (rule set_eqI)
  fix t
  have "behind (ak_ack p) t = k \<longleftrightarrow> t = s"
    by (auto simp: k behind_def simp flip: word_unat_eq_iff)
  then show "t \<in> acked (p\<lparr>ak_ackBits := ak_ackBits p OR 2 ^ (k - 1)\<rparr>) \<longleftrightarrow> t \<in> insert s (acked p)"
    using assms by (auto simp: acked_iff bit_simps bit_exp_iff)
qed

section \<open>Observing a sequence number\<close>

lemma observe_newer:
  assumes "s \<noteq> 0" "ak_ack p \<noteq> 0" "isSequenceNewer s (ak_ack p)"
  obtains p' where "observe p s = (Newest, p')" "ak_ack p' = s"
    "acked p' = insert s (acked p) \<inter> window s"
proof -
  define n bits where "n = behind s (ak_ack p)"
    and "bits = (if 32 < n then 0 else (if n = 32 then 0 else push_bit n (ak_ackBits p)) OR 2 ^ (n - 1))"
  have n: "0 < n" "n < 2 ^ 31" using assms(3) by (simp_all add: newer_behind n_def)
  have cmp: "32 < s - ak_ack p \<longleftrightarrow> 32 < n" "s - ak_ack p = 32 \<longleftrightarrow> n = 32"
    by (simp_all add: n_def behind_def word_less_nat_alt word_unat_eq_iff)
  have "observe p s = (Newest, p\<lparr>ak_ackBits := bits, ak_ack := s\<rparr>)"
    using assms n unat_pred[of "s - ak_ack p"] cmp
    by (auto simp: observe_def Let_def bits_def isSequenceNewer_def n_def[unfolded behind_def, symmetric])
  then show ?thesis
    using acked_advance[OF assms(2,1) n_def n bits_def] that by simp
qed

lemma observe_older:
  assumes "s \<noteq> 0" "ak_ack p \<noteq> 0" "\<not> isSequenceNewer s (ak_ack p)" "s \<noteq> ak_ack p"
  shows "observe p s =
    (if s \<notin> window (ak_ack p) then (Stale, p)
     else if s \<in> acked p then (Duplicate, p)
     else (Reordered, p\<lparr>ak_ackBits := ak_ackBits p OR 2 ^ (behind (ak_ack p) s - 1)\<rparr>))"
proof -
  define d where "d = ak_ack p - s"
  have d: "d \<noteq> 0" using assms(4) by (simp add: d_def)
  have cmp: "32 < d \<longleftrightarrow> 32 < unat d" "Suc 0 \<le> unat d"
    using d by (auto simp: word_less_nat_alt unat_gt_0 Suc_le_eq)
  show ?thesis
    using assms d cmp
    by (auto simp: observe_def Let_def d_def[symmetric] window_def behind_def acked_iff unat_pred and_one_bit)
qed

definition delivered :: "disposition \<Rightarrow> bool" where
  "delivered d \<longleftrightarrow> d = Newest \<or> d = Reordered"

text \<open>What observing does to the acknowledged set.\<close>

definition observe_set :: "ack_state \<Rightarrow> u32 \<Rightarrow> disposition \<times> ack_state \<Rightarrow> bool" where
  "observe_set p s r \<longleftrightarrow>
     (case r of (d, p') \<Rightarrow>
        (d = Duplicate \<longleftrightarrow> s \<in> acked p) \<and>
        (delivered d \<longrightarrow> s \<notin> acked p \<and> s \<in> acked p' \<and>
           acked p' = insert s (acked p) \<inter> window (ak_ack p')) \<and>
        (\<not> delivered d \<longrightarrow> p' = p) \<and>
        ak_ack p' = (if d = Newest then s else ak_ack p) \<and>
        (d = Newest \<longleftrightarrow> s \<noteq> 0 \<and> (ak_ack p = 0 \<or> isSequenceNewer s (ak_ack p))) \<and>
        (d = InvalidSequence \<longleftrightarrow> s = 0))"

lemma observe_refines:
  assumes inv: "peer_inv p"
  shows "observe_set p s (observe p s) \<and> peer_inv (snd (observe p s))"
proof -
  consider "s = 0" | "s \<noteq> 0" "ak_ack p = 0" | "s \<noteq> 0" "ak_ack p \<noteq> 0" "s = ak_ack p"
    | "s \<noteq> 0" "ak_ack p \<noteq> 0" "isSequenceNewer s (ak_ack p)"
    | "s \<noteq> 0" "ak_ack p \<noteq> 0" "\<not> isSequenceNewer s (ak_ack p)" "s \<noteq> ak_ack p"
    by blast
  then show ?thesis
  proof cases
    case 1
    then show ?thesis
      using inv by (simp add: observe_set_def observe_def delivered_def acked_iff)
  next
    case 2
    have "acked (p\<lparr>ak_ack := s\<rparr>) = {s}" "acked p = {}"
      using inv 2 by (auto simp: acked_iff peer_inv_def)
    then show ?thesis
      using 2 inv by (simp add: observe_set_def observe_def delivered_def peer_inv_def window_def)
  next
    case 3
    then show ?thesis
      using inv by (simp add: observe_set_def observe_def delivered_def acked_iff isSequenceNewer_def)
  next
    case 4
    obtain p' where p': "observe p s = (Newest, p')" "ak_ack p' = s"
      "acked p' = insert s (acked p) \<inter> window s"
      by (rule observe_newer[OF 4])
    have "s \<notin> acked p"
      using not_newer_near[of "ak_ack p" s] acked_window[of s p] 4 by (auto simp: window_def)
    then show ?thesis
      using p' 4 by (auto simp: observe_set_def delivered_def peer_inv_def window_def)
  next
    case 5
    have near: "behind (ak_ack p) s \<noteq> 0" using 5(4) by simp
    show ?thesis
    proof (cases "s \<in> window (ak_ack p) \<and> s \<notin> acked p")
      case True
      have "acked (p\<lparr>ak_ackBits := ak_ackBits p OR 2 ^ (behind (ak_ack p) s - 1)\<rparr>) = insert s (acked p)"
        using True near by (intro acked_fill[OF 5(2,1) refl]) (auto simp: window_def Suc_le_eq simp del: behind_0)
      moreover have "insert s (acked p) \<inter> window (ak_ack p) = insert s (acked p)"
        using True acked_window by auto
      ultimately show ?thesis
        using True 5 by (auto simp: observe_older[OF 5] observe_set_def delivered_def peer_inv_def)
    next
      case False
      then show ?thesis
        using 5 inv acked_window[of s p]
        by (auto simp: observe_older[OF 5] observe_set_def delivered_def)
    qed
  qed
qed

definition observe_step :: "u32 \<Rightarrow> ack_state \<Rightarrow> ack_state" where
  "observe_step s p = snd (observe p s)"

interpretation peer_run: invariant_system observe_step peer_inv
  by unfold_locales (simp add: observe_step_def observe_refines)

lemma peer_inv_new: "peer_inv new_peer"
  by (simp add: peer_inv_def new_peer_def)

section \<open>Delivery at most once\<close>

definition seen :: "u32 \<Rightarrow> ack_state \<Rightarrow> bool" where
  "seen s p \<longleftrightarrow> s \<in> acked p \<or> (s \<noteq> 0 \<and> ak_ack p \<noteq> 0 \<and> 32 < behind (ak_ack p) s)"

lemma seen_not_delivered:
  assumes "peer_inv p" "seen s p" "behind (ak_ack p) s < 2 ^ 31"
  shows "\<not> delivered (fst (observe p s))"
proof (cases "s \<in> acked p")
  case True
  then show ?thesis
    using observe_refines[OF assms(1), of s] by (cases "observe p s") (simp add: observe_set_def)
next
  case False
  then have s: "s \<noteq> 0" "ak_ack p \<noteq> 0" "32 < behind (ak_ack p) s"
    using assms(2) by (auto simp: seen_def)
  have "\<not> isSequenceNewer s (ak_ack p)"
    using s assms(3) unat_diff_flip[of "ak_ack p" s]
    by (cases "ak_ack p = s") (auto simp: newer_behind behind_def)
  then show ?thesis
    using s by (subst observe_older) (auto simp: window_def delivered_def)
qed

lemma seen_step:
  assumes "peer_inv p" "seen s p" "behind (ak_ack p) s < 2 ^ 31"
  shows "seen s (observe_step t p)"
proof -
  obtain d p' where o: "observe p t = (d, p')" by (cases "observe p t")
  have spec: "observe_set p t (d, p')" using observe_refines[OF assms(1), of t] o by simp
  show ?thesis
  proof (cases "delivered d \<and> ak_ack p \<noteq> 0")
    case False
    then show ?thesis
      using spec o assms(2) by (auto simp: observe_set_def observe_step_def seen_def acked_iff)
  next
    case True
    show ?thesis
    proof (cases "d = Newest")
      case True
      then have "isSequenceNewer t (ak_ack p)" "t \<noteq> 0" "ak_ack p' = t"
        using spec \<open>delivered d \<and> ak_ack p \<noteq> 0\<close> by (auto simp: observe_set_def)
      moreover from this have "behind t s = behind t (ak_ack p) + behind (ak_ack p) s"
        using assms(3) by (intro behind_trans) (simp add: newer_behind)
      ultimately show ?thesis
        using assms(2) spec o True
        by (auto simp: seen_def observe_step_def observe_set_def delivered_def window_def acked_iff[of s p])
    next
      case False
      then show ?thesis
        using assms(2) spec o True acked_window[of s p]
        by (auto simp: seen_def observe_step_def observe_set_def)
    qed
  qed
qed

lemma seen_after:
  assumes "peer_inv p" "delivered (fst (observe p s))"
  shows "seen s (observe_step s p)"
proof -
  have "s \<in> acked (snd (observe p s))"
    using observe_refines[OF assms(1), of s] assms(2)
    unfolding observe_set_def case_prod_beta by blast
  then show ?thesis by (simp add: seen_def observe_step_def)
qed

section \<open>Properties\<close>

text \<open>The acknowledgement pair stands for a set, and observing a sequence number is
  inserting it: after any observations, a number is a duplicate exactly when it is already
  acknowledged; when it is delivered, the acknowledged set becomes itself with the new number,
  cut to the newest number and the 32 before it; when it is not delivered, nothing changes.\<close>

theorem observe_inserts:
  "let p = fold observe_step ss new_peer; d = fst (observe p s); p' = snd (observe p s) in
   (d = Duplicate \<longleftrightarrow> isAcknowledged s p) \<and>
   (if d = Newest \<or> d = Reordered
    then {t. isAcknowledged t p'} = {t. (t = s \<or> isAcknowledged t p) \<and> unat (ak_ack p' - t) \<le> 32}
    else p' = p) \<and>
   ak_ack p' = (if d = Newest then s else ak_ack p) \<and>
   (d = Newest \<longleftrightarrow> s \<noteq> 0 \<and> (ak_ack p = 0 \<or> isSequenceNewer s (ak_ack p))) \<and>
   (d = InvalidSequence \<longleftrightarrow> s = 0)"
proof -
  define p where "p = fold observe_step ss new_peer"
  have "peer_inv p" unfolding p_def by (rule peer_run.run_inv[OF peer_inv_new])
  from observe_refines[OF this, of s] show ?thesis
    unfolding Let_def p_def[symmetric]
    by (cases "observe p s") (auto simp: observe_set_def delivered_def acked_def window_def behind_def)
qed

text \<open>Property C34. A sequence number is delivered at most once: once it was delivered it is never
  delivered again, whatever is observed in between, as long as the newest number has not run half
  the circle of sequence numbers ahead of it.\<close>

theorem delivered_once:
  assumes "peer_inv p" "delivered (fst (observe p s))"
    and "\<forall>n \<le> length ss. unat (ak_ack (fold observe_step (take n ss) (observe_step s p)) - s) < 2 ^ 31"
  shows "\<not> delivered (fst (observe (fold observe_step ss (observe_step s p)) s))"
proof -
  have inv: "peer_inv (fold observe_step ss (observe_step s p))" for ss
    by (rule peer_run.run_inv) (simp add: observe_step_def observe_refines assms(1))
  have "seen s (fold observe_step ss (observe_step s p))"
    using assms(3)
  proof (induction ss rule: rev_induct)
    case Nil
    show ?case
      using seen_after[OF assms(1,2)] by simp
  next
    case (snoc t ss)
    have bound: "unat (ak_ack (fold observe_step (take n ss) (observe_step s p)) - s) < 2 ^ 31" if "n \<le> length ss" for n
      using snoc.prems[rule_format, of n] that by simp
    then have "seen s (fold observe_step ss (observe_step s p))"
      by (intro snoc.IH) simp
    moreover have "behind (ak_ack (fold observe_step ss (observe_step s p))) s < 2 ^ 31"
      using bound[of "length ss"] by (simp add: behind_def)
    ultimately show ?case
      using seen_step[OF inv, of s ss t] by simp
  qed
  then show ?thesis
    using seen_not_delivered[OF inv _ assms(3)[rule_format, of "length ss", folded behind_def]] by simp
qed

theorem delivered_once_witness:
  "\<not> delivered (fst (observe (fold observe_step [6, 40] (observe_step 5 new_peer)) 5))"
proof -
  have run: "observe_step 5 new_peer = \<lparr>ak_ack = 5, ak_ackBits = 0\<rparr>"
    "observe_step 6 \<lparr>ak_ack = 5, ak_ackBits = 0\<rparr> = \<lparr>ak_ack = 6, ak_ackBits = 1\<rparr>"
    "observe_step 40 \<lparr>ak_ack = 6, ak_ackBits = 1\<rparr> = \<lparr>ak_ack = 40, ak_ackBits = 0\<rparr>"
    by (simp_all add: observe_step_def observe_def new_peer_def isSequenceNewer_def Let_def)
  have "delivered (fst (observe new_peer 5))"
    by (simp add: observe_def new_peer_def delivered_def)
  then show ?thesis
  proof (rule delivered_once[OF peer_inv_new], intro allI impI)
    fix n assume "n \<le> length [6, 40 :: u32]"
    then consider "n = 0" | "n = 1" | "n = 2" by fastforce
    then show "unat (ak_ack (fold observe_step (take n [6, 40]) (observe_step 5 new_peer)) - 5) < 2 ^ 31"
      by cases (simp_all add: run)
  qed
qed

end
