(* ===== verification/RudpQueue.thy ===== *)
theory RudpQueue
  imports RudpPeer
begin

text \<open>
  \<open>game-server/platform/transport-rudp/src/ReliableQueue.cpp\<close> and \<open>RttEstimator.cpp\<close>: the
  queue of reliable datagrams that wait for an acknowledgement, their retransmission schedule,
  and the round-trip estimator that sets the first retry delay. Instants are nanoseconds;
  \<open>retryDelay\<close> and the interval of a timeout are milliseconds, samples are microseconds. The
  byte and entry counters are \<open>size_t\<close> and wrap; the invariant shows they never do. The
  transmission counters are below 6, so they are numbers.
\<close>

section \<open>Round-trip estimator\<close>

record rtt_estimate =
  rt_samples :: u64
  rt_srtt :: int
  rt_rttvar :: int
  rt_rto :: int

definition new_estimate :: rtt_estimate where
  "new_estimate = \<lparr>rt_samples = 0, rt_srtt = 0, rt_rttvar = 0, rt_rto = 200\<rparr>"

text \<open>\<open>std::chrono::ceil<milliseconds>\<close> of microseconds.\<close>

definition ceil_ms :: "int \<Rightarrow> int" where
  "ceil_ms us = (let t = trunc_div us 1000 in if t * 1000 < us then t + 1 else t)"

definition observe_rtt :: "rtt_estimate \<Rightarrow> int \<Rightarrow> bool \<times> rtt_estimate" where
  "observe_rtt est sample =
     (if sample \<le> 0 \<or> 5000 * 1000 \<le> sample then (False, est)
      else
        let est = (if rt_samples est = 0
                   then est\<lparr>rt_srtt := sample, rt_rttvar := trunc_div sample 2\<rparr>
                   else let difference = (if sample < rt_srtt est then rt_srtt est - sample
                                          else sample - rt_srtt est)
                        in est\<lparr>rt_rttvar := trunc_div (rt_rttvar est * 3 + difference) 4,
                               rt_srtt := trunc_div (rt_srtt est * 7 + sample) 8\<rparr>);
            est = est\<lparr>rt_samples := rt_samples est + 1\<rparr>;
            raw = rt_srtt est + max 1000 (rt_rttvar est * 4)
        in (True, est\<lparr>rt_rto := clamp_int (ceil_ms raw) 200 1000\<rparr>))"

section \<open>The queue\<close>

datatype lane = ApplicationLane | ControlLane

datatype admission_code =
    Accepted | InvalidSequenceNumber | InvalidDatagram | DuplicateSequence
  | ApplicationLimitReached | EntryLimitReached | ByteLimitReached

record rel_entry =
  re_sequence :: u32
  re_lane :: lane
  re_datagram :: bytes
  re_queuedAt :: instant
  re_nextTransmissionAt :: instant
  re_lastTransmissionAt :: instant
  re_firstSuccessfulSend :: "instant option"
  re_lastSuccessfulSend :: "instant option"
  re_retryDelay :: int
  re_transmissions :: nat
  re_recordedAttempt :: nat
  re_revision :: u64

record reliable_queue =
  rq_entries :: "rel_entry list"
  rq_applicationEntries :: u64
  rq_bytes :: u64

record transmission =
  tx_sequence :: u32
  tx_attempt :: nat
  tx_datagram :: bytes

record poll_result =
  pr_transmissions :: "transmission list"
  pr_expiredSequences :: "u32 list"
  pr_timeouts :: "(u64 \<times> int) list"

record ack_result =
  kr_removed :: nat
  kr_sample :: "int option"
  kr_sampleRevision :: u64
  kr_retransmitted :: nat
  kr_sendUnconfirmed :: nat
  kr_nonpositive :: nat
  kr_expired :: nat
  kr_coalesced :: nat

definition empty_queue :: reliable_queue where
  "empty_queue = \<lparr>rq_entries = [], rq_applicationEntries = 0, rq_bytes = 0\<rparr>"

definition queue_contains :: "reliable_queue \<Rightarrow> u32 \<Rightarrow> bool" where
  "queue_contains q sequence \<longleftrightarrow> (\<exists>e \<in> set (rq_entries q). re_sequence e = sequence)"

definition new_rel_entry :: "u32 \<Rightarrow> bytes \<Rightarrow> lane \<Rightarrow> instant \<Rightarrow> rel_entry" where
  "new_rel_entry sequence datagram ln now =
     \<lparr>re_sequence = sequence, re_lane = ln, re_datagram = datagram, re_queuedAt = now,
      re_nextTransmissionAt = now, re_lastTransmissionAt = now,
      re_firstSuccessfulSend = None, re_lastSuccessfulSend = None,
      re_retryDelay = 200, re_transmissions = 0, re_recordedAttempt = 0, re_revision = 0\<rparr>"

definition enqueue ::
  "reliable_queue \<Rightarrow> u32 \<Rightarrow> bytes \<Rightarrow> lane \<Rightarrow> instant \<Rightarrow> admission_code \<times> reliable_queue" where
  "enqueue q sequence datagram ln now =
     (if sequence = 0 then (InvalidSequenceNumber, q)
      else if datagram = [] \<or> 1200 < length datagram then (InvalidDatagram, q)
      else if queue_contains q sequence then (DuplicateSequence, q)
      else if ln = ApplicationLane \<and> 224 \<le> rq_applicationEntries q then (ApplicationLimitReached, q)
      else if 256 \<le> length (rq_entries q) then (EntryLimitReached, q)
      else if 262144 - rq_bytes q < of_nat (length datagram) then (ByteLimitReached, q)
      else (Accepted,
            \<lparr>rq_entries = rq_entries q @ [new_rel_entry sequence datagram ln now],
             rq_applicationEntries =
               (if ln = ApplicationLane then rq_applicationEntries q + 1 else rq_applicationEntries q),
             rq_bytes = rq_bytes q + of_nat (length datagram)\<rparr>))"

text \<open>The counters after an entry is erased.\<close>

definition less_lane :: "rel_entry \<Rightarrow> u64 \<Rightarrow> u64" where
  "less_lane e app = (if re_lane e = ApplicationLane then app - 1 else app)"

definition less_bytes :: "rel_entry \<Rightarrow> u64 \<Rightarrow> u64" where
  "less_bytes e bytes = bytes - of_nat (length (re_datagram e))"

definition is_expired :: "instant \<Rightarrow> rel_entry \<Rightarrow> bool" where
  "is_expired now e \<longleftrightarrow> 5000 * 1000000 \<le> now - re_queuedAt e"

text \<open>What \<open>poll\<close> does to an entry that has not expired: the entry, the transmissions and the
  timeouts it adds to the result.\<close>

definition poll_entry ::
  "instant \<Rightarrow> int \<Rightarrow> u64 \<Rightarrow> rel_entry \<Rightarrow> rel_entry \<times> transmission list \<times> (u64 \<times> int) list" where
  "poll_entry now initialRto revision e =
     (if re_transmissions e < 5 \<and> re_nextTransmissionAt e \<le> now then
        let first = (re_transmissions e = 0);
            timeouts =
              (if \<not> first \<and> re_recordedAttempt e = re_transmissions e \<and>
                  (case re_lastSuccessfulSend e of None \<Rightarrow> False
                   | Some t \<Rightarrow> re_lastTransmissionAt e \<le> t)
               then [(re_revision e,
                      trunc_div (re_nextTransmissionAt e - re_lastTransmissionAt e) 1000000)]
               else []);
            e1 = (if first
                  then e\<lparr>re_revision := revision, re_retryDelay := clamp_int initialRto 200 1000\<rparr>
                  else e);
            e2 = e1\<lparr>re_lastTransmissionAt := now, re_transmissions := re_transmissions e1 + 1\<rparr>;
            e3 = (if re_transmissions e2 < 5
                  then e2\<lparr>re_nextTransmissionAt := now + re_retryDelay e2 * 1000000,
                          re_retryDelay := min (re_retryDelay e2 * 2) 1000\<rparr>
                  else e2)
        in (e3, [\<lparr>tx_sequence = re_sequence e2, tx_attempt = re_transmissions e2,
                  tx_datagram = re_datagram e2\<rparr>], timeouts)
      else (e, [], []))"

fun poll_loop ::
  "instant \<Rightarrow> int \<Rightarrow> u64 \<Rightarrow> rel_entry list \<Rightarrow> u64 \<Rightarrow> u64
   \<Rightarrow> (rel_entry list \<times> u64 \<times> u64) \<times> poll_result" where
  "poll_loop now rto revision [] app bytes =
     (([], app, bytes), \<lparr>pr_transmissions = [], pr_expiredSequences = [], pr_timeouts = []\<rparr>)"
| "poll_loop now rto revision (e # es) app bytes =
     (if is_expired now e then
        let (st, r) = poll_loop now rto revision es (less_lane e app) (less_bytes e bytes)
        in (st, r\<lparr>pr_expiredSequences := re_sequence e # pr_expiredSequences r\<rparr>)
      else
        let (e', txs, timeouts) = poll_entry now rto revision e;
            ((es', app', bytes'), r) = poll_loop now rto revision es app bytes
        in ((e' # es', app', bytes'),
            r\<lparr>pr_transmissions := txs @ pr_transmissions r,
              pr_timeouts := timeouts @ pr_timeouts r\<rparr>))"

definition poll :: "reliable_queue \<Rightarrow> instant \<Rightarrow> int \<Rightarrow> u64 \<Rightarrow> poll_result \<times> reliable_queue" where
  "poll q now initialRto revision =
     (let ((es, app, bytes), r) =
            poll_loop now initialRto revision (rq_entries q) (rq_applicationEntries q) (rq_bytes q)
      in (r, \<lparr>rq_entries = es, rq_applicationEntries = app, rq_bytes = bytes\<rparr>))"

text \<open>What an acknowledged entry adds to the result: the sample and the instant it was taken
  from, and the counters.\<close>

definition ack_entry ::
  "instant \<Rightarrow> rel_entry \<Rightarrow> ack_result \<times> instant option \<Rightarrow> ack_result \<times> instant option" where
  "ack_entry receivedAt e acc =
     (case acc of (r, selected) \<Rightarrow>
        if 5000 * 1000000 \<le> receivedAt - re_queuedAt e then (r\<lparr>kr_expired := kr_expired r + 1\<rparr>, selected)
        else if re_transmissions e \<noteq> 1 then (r\<lparr>kr_retransmitted := kr_retransmitted r + 1\<rparr>, selected)
        else case re_firstSuccessfulSend e of
          None \<Rightarrow> (r\<lparr>kr_sendUnconfirmed := kr_sendUnconfirmed r + 1\<rparr>, selected)
        | Some sent \<Rightarrow>
            let sample = trunc_div (receivedAt - sent) 1000
            in if sample \<le> 0 then (r\<lparr>kr_nonpositive := kr_nonpositive r + 1\<rparr>, selected)
               else
                 let r = (if selected \<noteq> None then r\<lparr>kr_coalesced := kr_coalesced r + 1\<rparr> else r)
                 in if (case selected of None \<Rightarrow> True | Some s \<Rightarrow> s < sent)
                    then (r\<lparr>kr_sample := Some sample, kr_sampleRevision := re_revision e\<rparr>, Some sent)
                    else (r, selected))"

fun ack_loop ::
  "ack_state \<Rightarrow> instant option \<Rightarrow> rel_entry list \<Rightarrow> u64 \<Rightarrow> u64 \<Rightarrow> ack_result \<times> instant option
   \<Rightarrow> (rel_entry list \<times> u64 \<times> u64) \<times> ack_result" where
  "ack_loop st receivedAt [] app bytes acc = (([], app, bytes), fst acc)"
| "ack_loop st receivedAt (e # es) app bytes acc =
     (if re_transmissions e = 0 \<or> \<not> isAcknowledged (re_sequence e) st then
        let ((es', app', bytes'), r) = ack_loop st receivedAt es app bytes acc
        in ((e # es', app', bytes'), r)
      else
        let acc = (case receivedAt of None \<Rightarrow> acc | Some t \<Rightarrow> ack_entry t e acc)
        in ack_loop st receivedAt es (less_lane e app) (less_bytes e bytes)
             ((fst acc)\<lparr>kr_removed := kr_removed (fst acc) + 1\<rparr>, snd acc))"

definition empty_ack_result :: ack_result where
  "empty_ack_result = \<lparr>kr_removed = 0, kr_sample = None, kr_sampleRevision = 0, kr_retransmitted = 0,
     kr_sendUnconfirmed = 0, kr_nonpositive = 0, kr_expired = 0, kr_coalesced = 0\<rparr>"

definition removeAcknowledged ::
  "reliable_queue \<Rightarrow> u32 \<Rightarrow> u32 \<Rightarrow> instant option \<Rightarrow> ack_result \<times> reliable_queue" where
  "removeAcknowledged q ack ackBits receivedAt =
     (let ((es, app, bytes), r) =
            ack_loop \<lparr>ak_ack = ack, ak_ackBits = ackBits\<rparr> receivedAt (rq_entries q)
              (rq_applicationEntries q) (rq_bytes q) (empty_ack_result, None)
      in (r, \<lparr>rq_entries = es, rq_applicationEntries = app, rq_bytes = bytes\<rparr>))"

definition discardAcknowledged :: "reliable_queue \<Rightarrow> u32 \<Rightarrow> u32 \<Rightarrow> nat \<times> reliable_queue" where
  "discardAcknowledged q ack ackBits =
     (let (r, q') = removeAcknowledged q ack ackBits None in (kr_removed r, q'))"

definition acknowledge ::
  "reliable_queue \<Rightarrow> u32 \<Rightarrow> u32 \<Rightarrow> instant \<Rightarrow> ack_result \<times> reliable_queue" where
  "acknowledge q ack ackBits receivedAt = removeAcknowledged q ack ackBits (Some receivedAt)"

definition send_recordable :: "rel_entry \<Rightarrow> nat \<Rightarrow> instant \<Rightarrow> bool" where
  "send_recordable e attempt sentAt \<longleftrightarrow>
     \<not> (attempt = 0 \<or> re_transmissions e \<noteq> attempt \<or> re_recordedAttempt e = attempt \<or>
        sentAt < re_lastTransmissionAt e \<or> 5000 * 1000000 \<le> sentAt - re_queuedAt e)"

definition record_send_entry :: "nat \<Rightarrow> instant \<Rightarrow> bool \<Rightarrow> rel_entry \<Rightarrow> rel_entry" where
  "record_send_entry attempt sentAt succeeded e =
     (let e = e\<lparr>re_recordedAttempt := attempt\<rparr>
      in if succeeded
         then (if attempt = 1 then e\<lparr>re_firstSuccessfulSend := Some sentAt\<rparr> else e)
                \<lparr>re_lastSuccessfulSend := Some sentAt\<rparr>
         else e)"

definition recordSend ::
  "reliable_queue \<Rightarrow> u32 \<Rightarrow> nat \<Rightarrow> instant \<Rightarrow> bool \<Rightarrow> bool \<times> reliable_queue" where
  "recordSend q sequence attempt sentAt succeeded =
     (case find (\<lambda>e. re_sequence e = sequence) (rq_entries q) of
        None \<Rightarrow> (False, q)
      | Some e \<Rightarrow>
          if \<not> send_recordable e attempt sentAt then (False, q)
          else (True, q\<lparr>rq_entries := update_first (\<lambda>e. re_sequence e = sequence)
                         (record_send_entry attempt sentAt succeeded) (rq_entries q)\<rparr>))"

definition effectiveRtos :: "reliable_queue \<Rightarrow> int list" where
  "effectiveRtos q =
     map (\<lambda>e. trunc_div (re_nextTransmissionAt e - re_lastTransmissionAt e) 1000000)
       (filter (\<lambda>e. 0 < re_transmissions e \<and> re_transmissions e < 5) (rq_entries q))"

text \<open>One call on the queue.\<close>

datatype queue_call =
    CallEnqueue u32 bytes lane instant
  | CallPoll instant int u64
  | CallRecordSend u32 nat instant bool
  | CallAcknowledge u32 u32 instant
  | CallDiscard u32 u32

fun queue_step :: "queue_call \<Rightarrow> reliable_queue \<Rightarrow> reliable_queue" where
  "queue_step (CallEnqueue s d l t) q = snd (enqueue q s d l t)"
| "queue_step (CallPoll t rto revision) q = snd (poll q t rto revision)"
| "queue_step (CallRecordSend s a t ok) q = snd (recordSend q s a t ok)"
| "queue_step (CallAcknowledge a b t) q = snd (acknowledge q a b t)"
| "queue_step (CallDiscard a b) q = snd (discardAcknowledged q a b)"

section \<open>The queue invariant\<close>

definition entry_ok :: "rel_entry \<Rightarrow> bool" where
  "entry_ok e \<longleftrightarrow>
     re_sequence e \<noteq> 0 \<and> re_datagram e \<noteq> [] \<and> length (re_datagram e) \<le> 1200 \<and>
     re_transmissions e \<le> 5 \<and> re_recordedAttempt e \<le> re_transmissions e \<and>
     200 \<le> re_retryDelay e \<and> re_retryDelay e \<le> 1000 \<and>
     (0 < re_transmissions e \<and> re_transmissions e < 5 \<longrightarrow>
        200 * 1000000 \<le> re_nextTransmissionAt e - re_lastTransmissionAt e \<and>
        re_nextTransmissionAt e - re_lastTransmissionAt e \<le> 1000 * 1000000) \<and>
     (re_transmissions e = 0 \<longrightarrow> re_firstSuccessfulSend e = None) \<and>
     (re_transmissions e = 1 \<longrightarrow>
        (\<forall>t. re_firstSuccessfulSend e = Some t \<longrightarrow> re_lastTransmissionAt e \<le> t))"

definition app_count :: "rel_entry list \<Rightarrow> nat" where
  "app_count es = length (filter (\<lambda>e. re_lane e = ApplicationLane) es)"

definition byte_count :: "rel_entry list \<Rightarrow> nat" where
  "byte_count es = sum_list (map (\<lambda>e. length (re_datagram e)) es)"

definition entries_ok :: "rel_entry list \<Rightarrow> bool" where
  "entries_ok es \<longleftrightarrow>
     (\<forall>e \<in> set es. entry_ok e) \<and> distinct (map re_sequence es) \<and> length es \<le> 256 \<and>
     app_count es \<le> 224 \<and> byte_count es \<le> 262144"

definition queue_inv :: "reliable_queue \<Rightarrow> bool" where
  "queue_inv q \<longleftrightarrow>
     entries_ok (rq_entries q) \<and> rq_applicationEntries q = of_nat (app_count (rq_entries q)) \<and>
     rq_bytes q = of_nat (byte_count (rq_entries q))"

lemma counts_simps [simp]:
  "app_count [] = 0" "byte_count [] = 0"
  "app_count (e # es) = (if re_lane e = ApplicationLane then 1 else 0) + app_count es"
  "byte_count (e # es) = length (re_datagram e) + byte_count es"
  "app_count (es @ fs) = app_count es + app_count fs"
  "byte_count (es @ fs) = byte_count es + byte_count fs"
  by (simp_all add: app_count_def byte_count_def)

lemma less_counts:
  "less_lane e (of_nat (c + app_count (e # es))) = of_nat (c + app_count es)"
  "less_bytes e (of_nat (b + byte_count (e # es))) = of_nat (b + byte_count es)"
  by (simp_all add: less_lane_def less_bytes_def)

text \<open>Erasing entries and editing the others in place.\<close>

lemma entries_ok_filter_map:
  assumes ok: "entries_ok es"
    and keep: "\<And>e. re_sequence (f e) = re_sequence e" "\<And>e. re_lane (f e) = re_lane e"
      "\<And>e. re_datagram (f e) = re_datagram e"
    and edit: "\<And>e. e \<in> set es \<Longrightarrow> P e \<Longrightarrow> entry_ok e \<Longrightarrow> entry_ok (f e)"
  shows "entries_ok (map f (filter P es))"
proof -
  have "app_count (map f (filter P es)) \<le> app_count es"
    "byte_count (map f (filter P es)) \<le> byte_count es"
    by (induction es) (auto simp: keep)
  moreover have "map re_sequence (map f (filter P es)) = map re_sequence (filter P es)"
    by (simp add: keep)
  then have "distinct (map re_sequence (map f (filter P es)))"
    using ok by (simp only: entries_ok_def distinct_map_filter)
  moreover have "length (map f (filter P es)) \<le> 256"
    using ok by (simp add: entries_ok_def le_trans[OF length_filter_le])
  ultimately show ?thesis
    using ok edit by (auto simp: entries_ok_def)
qed

section \<open>Operations in terms of the entry list\<close>

lemma poll_entry_keeps [simp]:
  "re_sequence (fst (poll_entry now rto revision e)) = re_sequence e"
  "re_lane (fst (poll_entry now rto revision e)) = re_lane e"
  "re_datagram (fst (poll_entry now rto revision e)) = re_datagram e"
  "re_queuedAt (fst (poll_entry now rto revision e)) = re_queuedAt e"
  by (simp_all add: poll_entry_def Let_def)

lemma poll_loop_eq:
  assumes "app = of_nat (c + app_count es)" "bytes = of_nat (b + byte_count es)"
    and "kept = map (\<lambda>e. fst (poll_entry now rto revision e)) (filter (\<lambda>e. \<not> is_expired now e) es)"
  shows "poll_loop now rto revision es app bytes =
    ((kept, of_nat (c + app_count kept), of_nat (b + byte_count kept)),
     \<lparr>pr_transmissions = concat (map (\<lambda>e. fst (snd (poll_entry now rto revision e)))
                          (filter (\<lambda>e. \<not> is_expired now e) es)),
      pr_expiredSequences = map re_sequence (filter (is_expired now) es),
      pr_timeouts = concat (map (\<lambda>e. snd (snd (poll_entry now rto revision e)))
                      (filter (\<lambda>e. \<not> is_expired now e) es))\<rparr>)"
  using assms
proof (induction es arbitrary: app bytes b c kept)
  case (Cons e es)
  show ?case
  proof (cases "is_expired now e")
    case True
    then show ?thesis
      using Cons.prems Cons.IH[OF refl refl refl, of c b]
      by (simp only: poll_loop.simps less_counts) simp
  next
    case False
    obtain e' txs ts where e': "poll_entry now rto revision e = (e', txs, ts)"
      by (cases "poll_entry now rto revision e")
    have "re_lane e' = re_lane e" "re_datagram e' = re_datagram e"
      using poll_entry_keeps[of now rto revision e] e' by simp_all
    then show ?thesis
      using Cons.prems False e'
        Cons.IH[OF _ _ refl, of app "c + (if re_lane e = ApplicationLane then 1 else 0)" bytes
          "b + length (re_datagram e)"]
      by (simp add: ac_simps)
  qed
qed simp

lemma poll_eq:
  assumes "queue_inv q"
  shows "poll q now rto revision =
    (\<lparr>pr_transmissions = concat (map (\<lambda>e. fst (snd (poll_entry now rto revision e)))
        (filter (\<lambda>e. \<not> is_expired now e) (rq_entries q))),
      pr_expiredSequences = map re_sequence (filter (is_expired now) (rq_entries q)),
      pr_timeouts = concat (map (\<lambda>e. snd (snd (poll_entry now rto revision e)))
        (filter (\<lambda>e. \<not> is_expired now e) (rq_entries q)))\<rparr>,
     let kept = map (\<lambda>e. fst (poll_entry now rto revision e))
                  (filter (\<lambda>e. \<not> is_expired now e) (rq_entries q))
     in \<lparr>rq_entries = kept, rq_applicationEntries = of_nat (app_count kept),
         rq_bytes = of_nat (byte_count kept)\<rparr>)"
  using assms poll_loop_eq[of _ 0 _ _ 0, OF _ _ refl, of "rq_applicationEntries q" "rq_entries q" "rq_bytes q"]
  by (simp add: poll_def queue_inv_def Let_def)

lemma poll_entry_ok: "entry_ok e \<Longrightarrow> entry_ok (fst (poll_entry now rto revision e))"
  using clamp_int_bounds[of 200 1000 rto]
  by (auto simp: entry_ok_def poll_entry_def Let_def)

lemma poll_inv: "queue_inv q \<Longrightarrow> queue_inv (snd (poll q now rto revision))"
  by (subst poll_eq) (auto simp: queue_inv_def Let_def intro!: entries_ok_filter_map poll_entry_ok)

lemma ack_loop_eq:
  assumes "app = of_nat (c + app_count es)" "bytes = of_nat (b + byte_count es)"
    and "kept = filter (\<lambda>e. re_transmissions e = 0 \<or> \<not> isAcknowledged (re_sequence e) st) es"
  shows "fst (ack_loop st receivedAt es app bytes acc) =
    (kept, of_nat (c + app_count kept), of_nat (b + byte_count kept))"
  using assms
proof (induction es arbitrary: app bytes b c kept acc)
  case (Cons e es)
  show ?case
  proof (cases "re_transmissions e = 0 \<or> \<not> isAcknowledged (re_sequence e) st")
    case False
    then show ?thesis
      using Cons.prems Cons.IH[OF refl refl refl, of c b]
      by (simp only: ack_loop.simps less_counts Let_def) simp
  next
    case True
    then show ?thesis
      using Cons.prems
        Cons.IH[OF _ _ refl, of app "c + (if re_lane e = ApplicationLane then 1 else 0)" bytes
          "b + length (re_datagram e)" acc]
      by (auto simp: ac_simps split: prod.split)
  qed
qed simp

definition acked_entry :: "u32 \<Rightarrow> u32 \<Rightarrow> rel_entry \<Rightarrow> bool" where
  "acked_entry ack ackBits e \<longleftrightarrow>
     re_transmissions e \<noteq> 0 \<and> isAcknowledged (re_sequence e) \<lparr>ak_ack = ack, ak_ackBits = ackBits\<rparr>"

lemma removeAcknowledged_queue:
  assumes "queue_inv q"
  shows "snd (removeAcknowledged q ack ackBits t) =
    (let kept = filter (\<lambda>e. \<not> acked_entry ack ackBits e) (rq_entries q)
     in \<lparr>rq_entries = kept, rq_applicationEntries = of_nat (app_count kept),
         rq_bytes = of_nat (byte_count kept)\<rparr>)"
proof -
  let ?r = "ack_loop \<lparr>ak_ack = ack, ak_ackBits = ackBits\<rparr> t (rq_entries q) (rq_applicationEntries q)
    (rq_bytes q) (empty_ack_result, None)"
  let ?kept = "filter (\<lambda>e. \<not> acked_entry ack ackBits e) (rq_entries q)"
  have "fst ?r = (?kept, of_nat (0 + app_count ?kept), of_nat (0 + byte_count ?kept))"
    using assms by (intro ack_loop_eq) (simp_all add: queue_inv_def acked_entry_def)
  then show ?thesis
    by (cases ?r) (simp add: removeAcknowledged_def Let_def)
qed

lemma removeAcknowledged_inv: "queue_inv q \<Longrightarrow> queue_inv (snd (removeAcknowledged q ack ackBits t))"
  using entries_ok_filter_map[of "rq_entries q" id "\<lambda>e. \<not> acked_entry ack ackBits e"]
  by (simp add: removeAcknowledged_queue queue_inv_def Let_def)

lemma byte_room:
  assumes "b \<le> 262144" "n \<le> 1200" "\<not> 262144 - of_nat b < (of_nat n :: u64)"
  shows "b + n \<le> 262144"
proof -
  have "unat (262144 - of_nat b :: u64) = 262144 - b"
    using assms(1) by (subst unat_sub) (simp_all add: word_le_nat_alt unat_of_nat_u64)
  then show ?thesis
    using assms by (simp add: word_less_nat_alt unat_of_nat_u64 not_less)
qed

lemma enqueue_accepted:
  assumes "queue_inv q" "enqueue q s d ln now = (Accepted, q')"
  shows "s \<noteq> 0" "d \<noteq> []" "length d \<le> 1200" "s \<notin> re_sequence ` set (rq_entries q)"
    "ln = ApplicationLane \<longrightarrow> app_count (rq_entries q) < 224" "length (rq_entries q) < 256"
    "byte_count (rq_entries q) + length d \<le> 262144"
    "\<exists>e. q' = \<lparr>rq_entries = rq_entries q @ [e],
           rq_applicationEntries = of_nat (app_count (rq_entries q @ [e])),
           rq_bytes = of_nat (byte_count (rq_entries q @ [e]))\<rparr> \<and>
         entry_ok e \<and> re_sequence e = s \<and> re_lane e = ln \<and> re_datagram e = d \<and> re_transmissions e = 0"
proof -
  have q: "app_count (rq_entries q) \<le> 224" "byte_count (rq_entries q) \<le> 262144"
    "rq_applicationEntries q = of_nat (app_count (rq_entries q))"
    "rq_bytes q = of_nat (byte_count (rq_entries q))"
    using assms(1) by (auto simp: queue_inv_def entries_ok_def)
  note ok = assms(2)[unfolded enqueue_def, simplified]
  show *: "s \<noteq> 0" "d \<noteq> []" "length d \<le> 1200" "s \<notin> re_sequence ` set (rq_entries q)"
    "length (rq_entries q) < 256"
    using assms(2) by (auto simp: enqueue_def queue_contains_def split: if_splits)
  have "\<not> 262144 - of_nat (byte_count (rq_entries q)) < (of_nat (length d) :: u64)"
    using assms(2) q(4) by (auto simp: enqueue_def split: if_splits)
  then show "byte_count (rq_entries q) + length d \<le> 262144"
    using byte_room q(2) *(3) by blast
  show "ln = ApplicationLane \<longrightarrow> app_count (rq_entries q) < 224"
    using assms(2) q(1,3) by (auto simp: enqueue_def word_le_nat_alt unat_of_nat_u64 split: if_splits)
  show "\<exists>e. q' = \<lparr>rq_entries = rq_entries q @ [e],
           rq_applicationEntries = of_nat (app_count (rq_entries q @ [e])),
           rq_bytes = of_nat (byte_count (rq_entries q @ [e]))\<rparr> \<and>
         entry_ok e \<and> re_sequence e = s \<and> re_lane e = ln \<and> re_datagram e = d \<and> re_transmissions e = 0"
    using assms(2) q(3,4) *
    by (intro exI[of _ "new_rel_entry s d ln now"])
      (auto simp: enqueue_def new_rel_entry_def entry_ok_def algebra_simps split: if_splits)
qed

lemma enqueue_inv: "queue_inv q \<Longrightarrow> queue_inv (snd (enqueue q s d ln now))"
proof (cases "fst (enqueue q s d ln now) = Accepted")
  case True
  assume inv: "queue_inv q"
  obtain q' where q': "enqueue q s d ln now = (Accepted, q')" using True by (cases "enqueue q s d ln now") auto
  note facts = enqueue_accepted[OF inv q']
  then obtain e where e: "q' = \<lparr>rq_entries = rq_entries q @ [e],
      rq_applicationEntries = of_nat (app_count (rq_entries q @ [e])),
      rq_bytes = of_nat (byte_count (rq_entries q @ [e]))\<rparr>" "entry_ok e" "re_sequence e = s"
      "re_lane e = ln" "re_datagram e = d" by blast
  then show ?thesis
    using inv facts(4-7) by (auto simp: q' queue_inv_def entries_ok_def)
next
  case False
  assume "queue_inv q"
  then show ?thesis using False by (auto simp: enqueue_def split: if_splits)
qed

lemma record_send_entry_ok:
  "entry_ok e \<Longrightarrow> send_recordable e attempt sentAt \<Longrightarrow> entry_ok (record_send_entry attempt sentAt ok e)"
  by (auto simp: entry_ok_def send_recordable_def record_send_entry_def Let_def)

lemma record_send_entry_keeps [simp]:
  "re_sequence (record_send_entry a t ok e) = re_sequence e"
  "re_lane (record_send_entry a t ok e) = re_lane e"
  "re_datagram (record_send_entry a t ok e) = re_datagram e"
  by (simp_all add: record_send_entry_def Let_def)

lemma counts_update_first:
  assumes "\<And>e. re_lane (f e) = re_lane e" "\<And>e. re_datagram (f e) = re_datagram e"
  shows "app_count (update_first P f es) = app_count es" "byte_count (update_first P f es) = byte_count es"
  using assms by (induction es) auto

lemma recordSend_inv: "queue_inv q \<Longrightarrow> queue_inv (snd (recordSend q s a t ok))"
proof (cases "fst (recordSend q s a t ok)")
  case True
  assume inv: "queue_inv q"
  let ?P = "\<lambda>e. re_sequence e = s" and ?f = "record_send_entry a t ok"
  obtain e where e: "find ?P (rq_entries q) = Some e" "send_recordable e a t"
    and q': "recordSend q s a t ok = (True, q\<lparr>rq_entries := update_first ?P ?f (rq_entries q)\<rparr>)"
    using True by (auto simp: recordSend_def split: option.splits if_splits)
  have only: "x = e" if "x \<in> set (rq_entries q)" "?P x" for x
    using that find_set[OF e(1)] inv
    by (auto simp: queue_inv_def entries_ok_def distinct_map inj_on_def)
  have "entry_ok x" if "x \<in> set (update_first ?P ?f (rq_entries q))" for x
    using set_update_first[OF that] only record_send_entry_ok[OF _ e(2)] find_set[OF e(1)] inv
    by (auto simp: queue_inv_def entries_ok_def)
  then show ?thesis
    using inv by (auto simp: q' queue_inv_def entries_ok_def counts_update_first map_update_first)
next
  case False
  assume "queue_inv q"
  then show ?thesis using False by (auto simp: recordSend_def split: option.splits if_splits)
qed

lemma queue_step_inv: "queue_inv q \<Longrightarrow> queue_inv (queue_step c q)"
  by (cases c) (simp_all add: enqueue_inv poll_inv recordSend_inv acknowledge_def removeAcknowledged_inv
      discardAcknowledged_def case_prod_beta)

interpretation queue_run: invariant_system queue_step queue_inv
  by unfold_locales (rule queue_step_inv)

lemma empty_queue_inv: "queue_inv empty_queue"
  by (simp add: queue_inv_def entries_ok_def empty_queue_def)

section \<open>What an acknowledgement reports\<close>

definition ack_update :: "instant \<Rightarrow> rel_entry \<Rightarrow> ack_result \<times> instant option \<Rightarrow> ack_result \<times> instant option" where
  "ack_update t e acc =
     (let acc = ack_entry t e acc
      in ((fst acc)\<lparr>kr_removed := kr_removed (fst acc) + 1\<rparr>, snd acc))"

lemma ack_loop_result:
  "snd (ack_loop st (Some t) es app bytes acc) =
     fst (fold (ack_update t)
       (filter (\<lambda>e. re_transmissions e \<noteq> 0 \<and> isAcknowledged (re_sequence e) st) es) acc)"
  by (induction es arbitrary: app bytes acc) (simp_all add: ack_update_def Let_def case_prod_beta)

definition ack_expired :: "instant \<Rightarrow> rel_entry \<Rightarrow> bool" where
  "ack_expired t e \<longleftrightarrow> 5000 * 1000000 \<le> t - re_queuedAt e"

definition ack_elapsed :: "instant \<Rightarrow> rel_entry \<Rightarrow> int option" where
  "ack_elapsed t e =
     (if ack_expired t e \<or> re_transmissions e \<noteq> 1 then None
      else case re_firstSuccessfulSend e of None \<Rightarrow> None
           | Some sent \<Rightarrow> if 0 < trunc_div (t - sent) 1000 then Some (trunc_div (t - sent) 1000) else None)"

text \<open>The state of the accounting after the entries \<open>es\<close>.\<close>

definition ack_account :: "instant \<Rightarrow> rel_entry list \<Rightarrow> ack_result \<times> instant option \<Rightarrow> bool" where
  "ack_account t es acc \<longleftrightarrow>
     (case acc of (r, selected) \<Rightarrow>
        kr_removed r = length es \<and>
        kr_removed r = kr_expired r + kr_retransmitted r + kr_sendUnconfirmed r + kr_nonpositive r +
          kr_coalesced r + (if kr_sample r = None then 0 else 1) \<and>
        kr_expired r = length (filter (ack_expired t) es) \<and>
        kr_retransmitted r = length (filter (\<lambda>e. \<not> ack_expired t e \<and> re_transmissions e \<noteq> 1) es) \<and>
        (selected = None \<longleftrightarrow> kr_sample r = None) \<and>
        (selected = None \<longrightarrow> kr_coalesced r = 0 \<and> (\<forall>e \<in> set es. ack_elapsed t e = None)) \<and>
        (\<forall>s. selected = Some s \<longrightarrow>
           (\<exists>e \<in> set es. re_firstSuccessfulSend e = Some s \<and> ack_elapsed t e = kr_sample r \<and>
              kr_sampleRevision r = re_revision e) \<and>
           (\<forall>e \<in> set es. ack_elapsed t e \<noteq> None \<longrightarrow> the (re_firstSuccessfulSend e) \<le> s)))"

lemma ack_elapsed_first: "ack_elapsed t e = Some x \<Longrightarrow> \<exists>s. re_firstSuccessfulSend e = Some s \<and> x = trunc_div (t - s) 1000"
  by (auto simp: ack_elapsed_def split: if_splits option.splits)

lemma ack_account_step:
  assumes "ack_account t es acc"
  shows "ack_account t (es @ [e]) (ack_update t e acc)"
proof -
  obtain r selected where acc: "acc = (r, selected)" by (cases acc)
  consider (expired) "ack_expired t e" | (again) "\<not> ack_expired t e" "re_transmissions e \<noteq> 1"
    | (unsent) "\<not> ack_expired t e" "re_transmissions e = 1" "re_firstSuccessfulSend e = None"
    | (early) sent where "\<not> ack_expired t e" "re_transmissions e = 1" "re_firstSuccessfulSend e = Some sent"
        "trunc_div (t - sent) 1000 \<le> 0"
    | (sampled) sent where "\<not> ack_expired t e" "re_transmissions e = 1" "re_firstSuccessfulSend e = Some sent"
        "0 < trunc_div (t - sent) 1000"
    by (cases "re_firstSuccessfulSend e") force+
  then show ?thesis
  proof cases
    case expired
    then show ?thesis
      using assms by (auto simp: acc ack_account_def ack_update_def ack_entry_def ack_elapsed_def ack_expired_def)
  next
    case again
    then show ?thesis
      using assms by (auto simp: acc ack_account_def ack_update_def ack_entry_def ack_elapsed_def ack_expired_def)
  next
    case unsent
    then show ?thesis
      using assms by (auto simp: acc ack_account_def ack_update_def ack_entry_def ack_elapsed_def ack_expired_def)
  next
    case early
    then show ?thesis
      using assms by (auto simp: acc ack_account_def ack_update_def ack_entry_def ack_elapsed_def ack_expired_def)
  next
    case sampled
    then have elapsed: "ack_elapsed t e = Some (trunc_div (t - sent) 1000)"
      by (simp add: ack_elapsed_def)
    show ?thesis
    proof (cases selected)
      case None
      then show ?thesis
        using assms sampled elapsed
        by (auto simp: acc ack_account_def ack_update_def ack_entry_def ack_expired_def Let_def)
    next
      case (Some s)
      then show ?thesis
        using assms sampled elapsed
        by (cases "s < sent") (fastforce simp: acc ack_account_def ack_update_def ack_entry_def ack_expired_def Let_def)+
    qed
  qed
qed

lemma ack_account_all: "ack_account t es (fold (ack_update t) es (empty_ack_result, None))"
proof (induction es rule: rev_induct)
  case Nil
  show ?case by (simp add: ack_account_def empty_ack_result_def)
next
  case (snoc e es)
  then show ?case using ack_account_step by simp
qed

lemma acknowledge_account:
  "\<exists>selected. ack_account t (filter (acked_entry ack ackBits) (rq_entries q))
     (fst (acknowledge q ack ackBits t), selected)"
proof -
  let ?es = "filter (acked_entry ack ackBits) (rq_entries q)"
  have "fst (acknowledge q ack ackBits t) = fst (fold (ack_update t) ?es (empty_ack_result, None))"
    by (simp add: acknowledge_def removeAcknowledged_def Let_def case_prod_beta ack_loop_result
        acked_entry_def[abs_def])
  then show ?thesis
    using ack_account_all[of t ?es]
    by (cases "fold (ack_update t) ?es (empty_ack_result, None)") auto
qed

section \<open>The estimator\<close>

definition rtt_ok :: "int \<Rightarrow> int \<Rightarrow> rtt_estimate \<Rightarrow> bool" where
  "rtt_ok lo hi est \<longleftrightarrow>
     200 \<le> rt_rto est \<and> rt_rto est \<le> 1000 \<and> 0 \<le> rt_rttvar est \<and>
     (rt_samples est \<noteq> 0 \<longrightarrow> lo \<le> rt_srtt est \<and> rt_srtt est \<le> hi)"

lemma clamp_lower: "lo \<le> hi \<Longrightarrow> x \<le> y \<Longrightarrow> clamp_int x lo hi \<le> clamp_int y lo hi"
  by (simp add: clamp_int_def)

lemma observe_rtt_ok:
  assumes ok: "rtt_ok lo hi est" and sample: "0 < sample \<and> sample < 5000000 \<longrightarrow> lo \<le> sample \<and> sample \<le> hi"
    and lo: "0 \<le> lo"
  shows "rtt_ok lo hi (snd (observe_rtt est sample))"
proof (cases "0 < sample \<and> sample < 5000000")
  case True
  then have s: "lo \<le> sample" "sample \<le> hi" using sample by auto
  have avg: "lo \<le> trunc_div (x * 7 + sample) 8 \<and> trunc_div (x * 7 + sample) 8 \<le> hi" if "lo \<le> x" "x \<le> hi" for x
    using that s lo zdiv_mono1[of "lo * 8" "x * 7 + sample" 8] zdiv_mono1[of "x * 7 + sample" "hi * 8" 8]
    by (simp add: trunc_div_def)
  have var: "0 \<le> trunc_div (v * 3 + \<bar>x\<bar>) 4" if "0 \<le> v" for v x :: int
    using that by (simp add: trunc_div_def)
  show ?thesis
    using True ok s avg[of "rt_srtt est"] var[of "rt_rttvar est" "rt_srtt est - sample"] 
      var[of "rt_rttvar est" "sample - rt_srtt est"]
      clamp_int_bounds[of 200 1000]
    by (auto simp: observe_rtt_def rtt_ok_def Let_def trunc_div_def)
next
  case False
  then show ?thesis using ok by (auto simp: observe_rtt_def)
qed

lemma ceil_ms_le: "0 \<le> us \<Longrightarrow> us \<le> ceil_ms us * 1000 \<and> ceil_ms us * 1000 < us + 1000"
  by (auto simp: ceil_ms_def trunc_div_def Let_def)

section \<open>Properties\<close>

text \<open>Property C35. Whatever calls are made on a reliable queue, at whatever times, its counters are
  exact and never wrap (at most 262144 bytes, 224 application entries and 256 entries), no
  sequence number is queued twice, and every entry holds a datagram of 1 to 1200 bytes, has been
  transmitted at most five times, and has a retry delay of 200 to 1000 milliseconds.\<close>

theorem reliable_queue_bounds:
  "let q = fold queue_step calls empty_queue in
   unat (rq_bytes q) = sum_list (map (\<lambda>e. length (re_datagram e)) (rq_entries q)) \<and>
   unat (rq_bytes q) \<le> 262144 \<and>
   unat (rq_applicationEntries q) = length (filter (\<lambda>e. re_lane e = ApplicationLane) (rq_entries q)) \<and>
   unat (rq_applicationEntries q) \<le> 224 \<and> length (rq_entries q) \<le> 256 \<and>
   distinct (map re_sequence (rq_entries q)) \<and>
   list_all (\<lambda>e. 1 \<le> length (re_datagram e) \<and> length (re_datagram e) \<le> 1200 \<and> re_transmissions e \<le> 5 \<and>
     200 \<le> re_retryDelay e \<and> re_retryDelay e \<le> 1000) (rq_entries q)"
proof -
  define q where "q = fold queue_step calls empty_queue"
  have "queue_inv q"
    unfolding q_def by (rule queue_run.run_inv[OF empty_queue_inv])
  then have inv: "entries_ok (rq_entries q)" "rq_applicationEntries q = of_nat (app_count (rq_entries q))"
    "rq_bytes q = of_nat (byte_count (rq_entries q))"
    by (auto simp: queue_inv_def)
  have "unat (rq_bytes q) = byte_count (rq_entries q)"
    "unat (rq_applicationEntries q) = app_count (rq_entries q)"
    unfolding inv(2,3) using inv(1) by (auto simp: entries_ok_def intro!: unat_of_nat_u64)
  then show ?thesis
    using inv(1) unfolding Let_def q_def[symmetric]
    by (auto simp: entries_ok_def entry_ok_def list_all_iff Suc_le_eq simp flip: app_count_def byte_count_def)
qed

text \<open>Property C36. A poll drops exactly the entries that are five seconds old, reports their
  sequence numbers in order and keeps the others; and whatever it transmits is the datagram of a
  queued entry that has not expired and is due, as the next of at most five attempts, where a
  repetition comes at least 200 milliseconds after the transmission before.\<close>

theorem poll_transmits:
  assumes "queue_inv q" "poll q now initialRto revision = (r, q')"
  shows "pr_expiredSequences r = map re_sequence (filter (\<lambda>e. 5000000000 \<le> now - re_queuedAt e) (rq_entries q)) \<and>
    map re_sequence (rq_entries q') =
      map re_sequence (filter (\<lambda>e. \<not> 5000000000 \<le> now - re_queuedAt e) (rq_entries q)) \<and>
    list_all (\<lambda>tx. \<exists>e \<in> set (rq_entries q). tx_sequence tx = re_sequence e \<and> tx_datagram tx = re_datagram e \<and>
        tx_attempt tx = re_transmissions e + 1 \<and> tx_attempt tx \<le> 5 \<and> now - re_queuedAt e < 5000000000 \<and>
        re_nextTransmissionAt e \<le> now \<and>
        (tx_attempt tx = 1 \<or> 200000000 \<le> now - re_lastTransmissionAt e)) (pr_transmissions r)"
proof -
  have r: "pr_transmissions r = concat (map (\<lambda>e. fst (snd (poll_entry now initialRto revision e)))
        (filter (\<lambda>e. \<not> is_expired now e) (rq_entries q)))"
      "pr_expiredSequences r = map re_sequence (filter (is_expired now) (rq_entries q))"
      "rq_entries q' = map (\<lambda>e. fst (poll_entry now initialRto revision e))
        (filter (\<lambda>e. \<not> is_expired now e) (rq_entries q))"
    using assms(2) by (auto simp: poll_eq[OF assms(1)] Let_def)
  have exp: "is_expired now = (\<lambda>e. 5000000000 \<le> now - re_queuedAt e)"
    by (auto simp: is_expired_def)
  have "\<exists>e \<in> set (rq_entries q). tx_sequence tx = re_sequence e \<and> tx_datagram tx = re_datagram e \<and>
        tx_attempt tx = re_transmissions e + 1 \<and> tx_attempt tx \<le> 5 \<and> now - re_queuedAt e < 5000000000 \<and>
        re_nextTransmissionAt e \<le> now \<and> (tx_attempt tx = 1 \<or> 200000000 \<le> now - re_lastTransmissionAt e)"
    if tx: "tx \<in> set (pr_transmissions r)" for tx
  proof -
    obtain e where e: "e \<in> set (rq_entries q)" "\<not> is_expired now e"
      "tx \<in> set (fst (snd (poll_entry now initialRto revision e)))"
      using tx by (auto simp: r(1))
    moreover have "entry_ok e"
      using assms(1) e(1) by (simp add: queue_inv_def entries_ok_def)
    ultimately show ?thesis
      by (intro bexI[of _ e]) (auto simp: poll_entry_def Let_def entry_ok_def exp split: if_splits)
  qed
  then show ?thesis
    using r(2,3) by (auto simp: exp list_all_iff comp_def)
qed

definition demo_queue :: reliable_queue where
  "demo_queue = snd (enqueue empty_queue 5 [1, 2] ControlLane 1000)"

lemma demo_queue_eq:
  "demo_queue = \<lparr>rq_entries = [new_rel_entry 5 [1, 2] ControlLane 1000], rq_applicationEntries = 0, rq_bytes = 2\<rparr>"
  by (simp add: demo_queue_def enqueue_def empty_queue_def queue_contains_def)

lemma demo_queue_inv: "queue_inv demo_queue"
  unfolding demo_queue_def by (rule enqueue_inv[OF empty_queue_inv])

theorem poll_transmits_witness:
  "pr_expiredSequences (fst (poll demo_queue 6000000000 200 1)) = [5]"
  using poll_transmits[OF demo_queue_inv, of 6000000000 200 1] 
  by (cases "poll demo_queue 6000000000 200 1") (simp add: demo_queue_eq new_rel_entry_def)

text \<open>An acknowledgement removes exactly the acknowledged entries that were transmitted,
  accounts for every one of them once, and takes a round-trip sample only by Karn's rule: from
  an entry that was transmitted once, confirmed as sent and is less than five seconds old; the
  sample is the positive time since that send, and no other such entry was sent later.\<close>

theorem acknowledge_samples:
  "let r = fst (acknowledge q ack ackBits receivedAt);
       removed = filter (\<lambda>e. re_transmissions e \<noteq> 0 \<and>
         isAcknowledged (re_sequence e) \<lparr>ak_ack = ack, ak_ackBits = ackBits\<rparr>) (rq_entries q)
   in kr_removed r = length removed \<and>
      kr_removed r = kr_expired r + kr_retransmitted r + kr_sendUnconfirmed r + kr_nonpositive r +
        kr_coalesced r + (if kr_sample r = None then 0 else 1) \<and>
      (case kr_sample r of None \<Rightarrow> True | Some sample \<Rightarrow>
         \<exists>e sent. e \<in> set removed \<and> re_transmissions e = 1 \<and> re_firstSuccessfulSend e = Some sent \<and>
           receivedAt - re_queuedAt e < 5000000000 \<and> sample = trunc_div (receivedAt - sent) 1000 \<and>
           0 < sample \<and> kr_sampleRevision r = re_revision e \<and>
           list_all (\<lambda>e'. ack_elapsed receivedAt e' = None \<or> the (re_firstSuccessfulSend e') \<le> sent) removed)"
proof -
  define removed where "removed = filter (acked_entry ack ackBits) (rq_entries q)"
  define r where "r = fst (acknowledge q ack ackBits receivedAt)"
  obtain selected where acc: "ack_account receivedAt removed (r, selected)"
    using acknowledge_account[of receivedAt ack ackBits q] unfolding removed_def r_def by blast
  have sampled: "\<exists>e sent. e \<in> set removed \<and> re_transmissions e = 1 \<and> re_firstSuccessfulSend e = Some sent \<and>
           receivedAt - re_queuedAt e < 5000000000 \<and> sample = trunc_div (receivedAt - sent) 1000 \<and>
           0 < sample \<and> kr_sampleRevision r = re_revision e \<and>
           list_all (\<lambda>e'. ack_elapsed receivedAt e' = None \<or> the (re_firstSuccessfulSend e') \<le> sent) removed"
    if some: "kr_sample r = Some sample" for sample
  proof -
    obtain s where s: "selected = Some s" using acc some by (auto simp: ack_account_def)
    then obtain e where e: "e \<in> set removed" "re_firstSuccessfulSend e = Some s"
        "ack_elapsed receivedAt e = Some sample" "kr_sampleRevision r = re_revision e"
      and latest: "\<forall>e \<in> set removed. ack_elapsed receivedAt e \<noteq> None \<longrightarrow> the (re_firstSuccessfulSend e) \<le> s"
      using acc some by (auto simp: ack_account_def)
    then show ?thesis
      by (intro exI[of _ e] exI[of _ s])
        (auto simp: ack_elapsed_def ack_expired_def list_all_iff split: if_splits)
  qed
  have "kr_removed r = length removed \<and>
      kr_removed r = kr_expired r + kr_retransmitted r + kr_sendUnconfirmed r + kr_nonpositive r +
        kr_coalesced r + (if kr_sample r = None then 0 else 1)"
    using acc by (simp add: ack_account_def)
  then show ?thesis
    unfolding Let_def acked_entry_def[symmetric] removed_def[symmetric] r_def[symmetric]
    using sampled by (cases "kr_sample r") simp_all
qed

text \<open>The estimator keeps the retransmission timeout between 200 and 1000 milliseconds
  whatever it is shown, ignores samples outside 0 to 5 seconds, and its smoothed round-trip time
  stays within any bounds that all accepted samples obey.\<close>

theorem rtt_bounds:
  assumes "0 \<le> lo" "\<forall>x \<in> set samples. 0 < x \<and> x < 5000000 \<longrightarrow> lo \<le> x \<and> x \<le> hi"
  shows "let est = fold (\<lambda>x est. snd (observe_rtt est x)) samples new_estimate in
         200 \<le> rt_rto est \<and> rt_rto est \<le> 1000 \<and>
         (rt_samples est = 0 \<or> lo \<le> rt_srtt est \<and> rt_srtt est \<le> hi)"
proof -
  have "rtt_ok lo hi (fold (\<lambda>x est. snd (observe_rtt est x)) samples est)" if "rtt_ok lo hi est" for est
    using assms(2) that by (induction samples arbitrary: est) (auto intro: observe_rtt_ok assms(1))
  moreover have "rtt_ok lo hi new_estimate" by (simp add: rtt_ok_def new_estimate_def)
  ultimately show ?thesis by (auto simp: Let_def rtt_ok_def)
qed

theorem rtt_bounds_witness:
  "let est = fold (\<lambda>x est. snd (observe_rtt est x)) [90000, 110000, 9000000] new_estimate in
   rt_rto est \<le> 1000 \<and> rt_srtt est \<le> 110000"
  using rtt_bounds[of 90000 "[90000, 110000, 9000000]" 110000]
  by (simp add: Let_def observe_rtt_def new_estimate_def)

end
