(* ===== verification/BattleTime.thy ===== *)
theory BattleTime
  imports Identifiers
begin

text \<open>
  Time inside a battle and the rate limits on player commands.
  \<open>game-server/modules/battle/include/lol/battle/BattleTime.hpp\<close>: the logical time of a battle
  in 50-millisecond ticks. The token buckets of \<open>BattleInstance::acceptMove\<close>, \<open>attack\<close>
  and \<open>claimLoot\<close> are the same lines three times with other constants; they are one pair of
  definitions here, and one locale proves what a bucket promises for all three.
\<close>

section \<open>Battle time\<close>

record battle_time =
  bt_tick :: u64
  bt_nanos :: u64

definition tickNanos :: u64 where
  "tickNanos = 50000000"

definition fromLogicalTick :: "u64 \<Rightarrow> battle_time" where
  "fromLogicalTick tick = \<lparr>bt_tick = tick, bt_nanos = tick * tickNanos\<rparr>"

definition fromElapsedNanos :: "u64 \<Rightarrow> battle_time" where
  "fromElapsedNanos elapsed =
     (let wholeTicks = elapsed div tickNanos;
          hasPartialTick = (elapsed mod tickNanos \<noteq> 0);
          maximumTick = u64_max div tickNanos;
          tick = (if maximumTick \<le> wholeTicks then maximumTick
                  else wholeTicks + (if hasPartialTick then 1 else 0))
      in fromLogicalTick tick)"

definition time_valid :: "battle_time \<Rightarrow> bool" where
  "time_valid t \<longleftrightarrow> bt_tick t \<le> u64_max div tickNanos \<and> bt_nanos t = bt_tick t * tickNanos"

text \<open>\<open>BattleInstance::battleTimeFromLiveClock\<close>: the clock's count is a positive 63-bit number,
  so the branch for larger counts is dead.\<close>

definition battleTimeFromLiveClock :: "instant \<Rightarrow> battle_time" where
  "battleTimeFromLiveClock at =
     (if at \<le> 0 then fromLogicalTick 0 else fromElapsedNanos (word_of_int at))"

text \<open>Deadlines saturate.\<close>

definition addTicks :: "u64 \<Rightarrow> u64 \<Rightarrow> u64" where
  "addTicks base duration = (if u64_max - duration < base then u64_max else base + duration)"

lemma unat_tickNanos [simp]: "unat tickNanos = 50000000"
  by (simp add: tickNanos_def)

lemma unat_maximumTick: "unat (u64_max div tickNanos) = 368934881474"
  by (simp add: unat_div tickNanos_def)

lemma time_valid_nanos:
  assumes "time_valid t"
  shows "unat (bt_nanos t) = unat (bt_tick t) * 50000000" "unat (bt_tick t) \<le> 368934881474"
proof -
  show tick: "unat (bt_tick t) \<le> 368934881474"
    using assms by (simp add: time_valid_def word_le_nat_alt unat_maximumTick)
  then have "unat (bt_tick t) * 50000000 < 2 ^ 64" by simp
  then show "unat (bt_nanos t) = unat (bt_tick t) * 50000000"
    using assms by (simp add: time_valid_def unat_word_ariths tickNanos_def)
qed

lemma fromLogicalTick_valid: "time_valid (fromLogicalTick t) \<longleftrightarrow> unat t \<le> 368934881474"
  by (simp add: time_valid_def fromLogicalTick_def word_le_nat_alt unat_maximumTick)

lemma fromElapsedNanos_tick:
  "unat (bt_tick (fromElapsedNanos e)) =
     (if 368934881474 \<le> unat e div 50000000 then 368934881474
      else unat e div 50000000 + (if unat e mod 50000000 = 0 then 0 else 1))"
proof -
  have le: "(u64_max div tickNanos \<le> e div tickNanos) = (368934881474 \<le> unat e div 50000000)"
    by (simp add: word_le_nat_alt unat_maximumTick unat_div)
  have mod: "(e mod tickNanos = 0) = (unat e mod 50000000 = 0)"
    by (simp add: word_unat_eq_iff unat_mod)
  have small: "unat (e div tickNanos + 1) = unat e div 50000000 + 1" if "\<not> 368934881474 \<le> unat e div 50000000"
    using that by (simp add: unat_word_ariths unat_div)
  show ?thesis
    using small by (simp add: fromElapsedNanos_def Let_def fromLogicalTick_def le mod unat_maximumTick unat_div)
qed

lemma fromElapsedNanos_valid: "time_valid (fromElapsedNanos e)"
proof -
  have "fromElapsedNanos e = fromLogicalTick (bt_tick (fromElapsedNanos e))"
    by (simp add: fromElapsedNanos_def Let_def fromLogicalTick_def)
  moreover have "unat (bt_tick (fromElapsedNanos e)) \<le> 368934881474"
    by (simp add: fromElapsedNanos_tick)
  ultimately show ?thesis using fromLogicalTick_valid by metis
qed

lemma battleTimeFromLiveClock_valid: "time_valid (battleTimeFromLiveClock at)"
  by (simp add: battleTimeFromLiveClock_def fromElapsedNanos_valid fromLogicalTick_valid)

section \<open>Token buckets\<close>

text \<open>A bucket is the instant of its last update, if any, and its credit in units of a billionth
  of a token. Refilling with capacity, rate in units per nanosecond and the time of a full refill.\<close>

type_synonym bucket = "u64 option \<times> u64"

definition bucket_refill :: "u64 \<Rightarrow> u64 \<Rightarrow> u64 \<Rightarrow> u64 \<Rightarrow> bucket \<Rightarrow> bucket" where
  "bucket_refill capacity rate fullRefill now bkt =
     (case bkt of
        (None, credit) \<Rightarrow> (Some now, credit)
      | (Some since, credit) \<Rightarrow>
          if since < now then
            let elapsed = min (now - since) fullRefill
            in (Some now, min capacity (credit + elapsed * rate))
          else (Some since, credit))"

text \<open>The guard and the debit of one token after the refill.\<close>

definition rateTokenUnits :: u64 where
  "rateTokenUnits = 1000000000"

definition bucket_take :: "bucket \<Rightarrow> bucket option" where
  "bucket_take bkt = (if snd bkt < rateTokenUnits then None else Some (fst bkt, snd bkt - rateTokenUnits))"

text \<open>The three buckets.\<close>

definition move_refill :: "u64 \<Rightarrow> bucket \<Rightarrow> bucket" where
  "move_refill = bucket_refill 6000000000 30 200000000"

definition attack_refill :: "u64 \<Rightarrow> bucket \<Rightarrow> bucket" where
  "attack_refill = bucket_refill 4000000000 8 500000000"

definition claim_refill :: "u64 \<Rightarrow> bucket \<Rightarrow> bucket" where
  "claim_refill = bucket_refill 4000000000 8 500000000"

text \<open>One command at a bucket: whether it got a token.\<close>

definition bucket_request :: "(u64 \<Rightarrow> bucket \<Rightarrow> bucket) \<Rightarrow> u64 \<Rightarrow> bucket \<Rightarrow> bool \<times> bucket" where
  "bucket_request refill now bkt =
     (let full = refill now bkt
      in case bucket_take full of None \<Rightarrow> (False, full) | Some bkt' \<Rightarrow> (True, bkt'))"

text \<open>How many of a sequence of commands got a token.\<close>

fun bucket_granted :: "(u64 \<Rightarrow> bucket \<Rightarrow> bucket) \<Rightarrow> u64 list \<Rightarrow> bucket \<Rightarrow> nat \<times> bucket" where
  "bucket_granted refill [] bkt = (0, bkt)"
| "bucket_granted refill (now # nows) bkt =
     (let (ok, bkt') = bucket_request refill now bkt; (n, bkt'') = bucket_granted refill nows bkt'
      in ((if ok then 1 else 0) + n, bkt''))"

text \<open>What a bucket promises, for any capacity, rate and refill time that fit 64 bits.\<close>

locale token_bucket =
  fixes capacity rate fullRefill :: u64
  assumes fits: "unat capacity + unat fullRefill * unat rate < 2 ^ 64"
    and fills: "unat capacity \<le> unat fullRefill * unat rate"
begin

abbreviation refill :: "u64 \<Rightarrow> bucket \<Rightarrow> bucket" where
  "refill \<equiv> bucket_refill capacity rate fullRefill"

lemma refill_credit:
  assumes "credit \<le> capacity" "since < now"
  shows "refill now (Some since, credit) =
    (Some now, of_nat (min (unat capacity) (unat credit + (unat now - unat since) * unat rate)))"
proof -
  define elapsed where "elapsed = min (now - since) fullRefill"
  have diff: "unat (now - since) = unat now - unat since"
    using assms(2) by (simp add: unat_sub word_less_nat_alt word_le_nat_alt)
  have elapsed: "unat elapsed = min (unat now - unat since) (unat fullRefill)"
    by (simp add: elapsed_def min_def word_le_nat_alt diff)
  have small: "unat elapsed * unat rate \<le> unat fullRefill * unat rate"
    by (simp add: elapsed)
  have cap: "unat credit \<le> unat capacity" using assms(1) by (simp add: word_le_nat_alt)
  have "unat elapsed * unat rate < 2 ^ 64"
    using le_less_trans[OF small] fits by simp
  then have prod: "unat (elapsed * rate) = unat elapsed * unat rate"
    by (simp add: unat_word_ariths)
  have "unat credit + unat elapsed * unat rate < 2 ^ 64"
    using le_less_trans[OF add_mono[OF cap small]] fits by simp
  then have sum: "unat (credit + elapsed * rate) = unat credit + unat elapsed * unat rate"
    using prod by (simp add: unat_word_ariths)
  have "unat (min capacity (credit + elapsed * rate)) =
      min (unat capacity) (unat credit + (unat now - unat since) * unat rate)"
  proof (cases "unat now - unat since \<le> unat fullRefill")
    case True
    then have "unat elapsed = unat now - unat since" by (simp add: elapsed)
    then show ?thesis by (simp only: min_def word_le_nat_alt sum if_distrib[of unat])
  next
    case False
    then have e: "unat elapsed = unat fullRefill" by (simp add: elapsed)
    have "unat fullRefill * unat rate \<le> (unat now - unat since) * unat rate"
      using False by (intro mult_le_mono1) simp
    moreover have "unat capacity \<le> unat (credit + elapsed * rate)"
      unfolding sum e using fills by simp
    moreover have "unat capacity \<le> unat credit + (unat now - unat since) * unat rate"
      using calculation(1) fills by linarith
    ultimately show ?thesis
      by (simp only: min_def word_le_nat_alt if_True)
  qed
  then have "min capacity (credit + elapsed * rate) =
      of_nat (min (unat capacity) (unat credit + (unat now - unat since) * unat rate))"
    by (metis word_unat_eq_iff of_nat_unat ucast_id)
  then show ?thesis
    using assms(2) by (simp add: bucket_refill_def elapsed_def Let_def)
qed

lemma refill_since:
  "fst (refill now bkt) = Some (case fst bkt of None \<Rightarrow> now | Some since \<Rightarrow> max since now)"
  by (cases bkt) (auto simp: bucket_refill_def Let_def max_def not_less split: option.split)

lemma refill_bounded: "snd bkt \<le> capacity \<Longrightarrow> snd (refill now bkt) \<le> capacity"
  by (cases bkt) (auto simp: bucket_refill_def Let_def split: option.split)

lemma refill_gain:
  assumes "credit \<le> capacity"
  shows "unat (snd (refill now (Some since, credit))) \<le>
    unat credit + (unat (the (fst (refill now (Some since, credit)))) - unat since) * unat rate"
proof (cases "since < now")
  case True
  have "min (unat capacity) m < 2 ^ 64" for m
    using fits by (simp add: min_def)
  then have "unat (of_nat (min (unat capacity) m) :: u64) = min (unat capacity) m" for m
    by (rule unat_of_nat_u64)
  then show ?thesis
    unfolding refill_credit[OF assms True] by simp
next
  case False
  then show ?thesis by (simp add: bucket_refill_def)
qed

lemma take_debit:
  "bucket_take bkt = Some bkt' \<Longrightarrow>
   fst bkt' = fst bkt \<and> unat (snd bkt') + 1000000000 = unat (snd bkt) \<and> snd bkt' \<le> snd bkt"
  by (auto simp: bucket_take_def rateTokenUnits_def word_less_nat_alt word_le_nat_alt unat_sub not_less split: if_splits)

lemma request_account:
  assumes "credit \<le> capacity" "bucket_request refill now (Some since, credit) = (ok, bkt')"
  shows "\<exists>credit'. bkt' = (Some (max since now), credit') \<and> credit' \<le> capacity \<and>
    (if ok then 1000000000 else 0) + unat credit' \<le> unat credit + (unat (max since now) - unat since) * unat rate"
proof -
  let ?full = "refill now (Some since, credit)"
  have s: "fst ?full = Some (max since now)" using refill_since[of now "(Some since, credit)"] by simp
  have b: "snd ?full \<le> capacity" using refill_bounded[of "(Some since, credit)" now] assms(1) by simp
  have g: "unat (snd ?full) \<le> unat credit + (unat (max since now) - unat since) * unat rate"
    using refill_gain[OF assms(1), of now since] s by simp
  show ?thesis
  proof (cases "bucket_take ?full")
    case None
    then have "bkt' = ?full" "\<not> ok" using assms(2) by (auto simp: bucket_request_def Let_def)
    then show ?thesis using s b g by (cases "?full") auto
  next
    case (Some taken)
    then have "bkt' = taken" "ok" using assms(2) by (auto simp: bucket_request_def Let_def)
    then show ?thesis using s b g take_debit[OF Some] by (cases taken) (auto intro: order_trans)
  qed
qed

lemma granted_account:
  assumes "credit \<le> capacity" "bucket_granted refill nows (Some since, credit) = (n, bkt')"
  shows "\<exists>since' credit'. bkt' = (Some since', credit') \<and> since \<le> since' \<and> credit' \<le> capacity \<and>
    (since' = since \<or> since' \<in> set nows) \<and>
    n * 1000000000 + unat credit' \<le> unat credit + (unat since' - unat since) * unat rate"
  using assms
proof (induction nows arbitrary: since credit n bkt')
  case (Cons now nows)
  obtain ok mid where req: "bucket_request refill now (Some since, credit) = (ok, mid)"
    by (cases "bucket_request refill now (Some since, credit)")
  obtain credit1 where mid: "mid = (Some (max since now), credit1)" "credit1 \<le> capacity"
    and acc: "(if ok then 1000000000 else 0) + unat credit1 \<le>
      unat credit + (unat (max since now) - unat since) * unat rate"
    using request_account[OF Cons.prems(1) req] by blast
  obtain m where rest: "bucket_granted refill nows (Some (max since now), credit1) = (m, bkt')"
    and n: "n = (if ok then 1 else 0) + m"
    using Cons.prems(2) req mid(1) by (auto simp: Let_def split: prod.splits)
  obtain since' credit' where fin: "bkt' = (Some since', credit')" "max since now \<le> since'" "credit' \<le> capacity"
      "since' = max since now \<or> since' \<in> set nows"
    and acc': "m * 1000000000 + unat credit' \<le> unat credit1 + (unat since' - unat (max since now)) * unat rate"
    using Cons.IH[OF mid(2) rest] by blast
  have mono: "unat since \<le> unat (max since now)" "unat (max since now) \<le> unat since'"
    using fin(2) by (auto simp: word_le_nat_alt max_def)
  have "(unat (max since now) - unat since) * unat rate + (unat since' - unat (max since now)) * unat rate =
      (unat since' - unat since) * unat rate"
    using mono by (simp flip: distrib_right)
  then have "n * 1000000000 + unat credit' \<le> unat credit + (unat since' - unat since) * unat rate"
    using acc acc' by (simp add: n split: if_splits)
  moreover have "since \<le> since'" using mono by (simp add: word_le_nat_alt)
  moreover have "since' = since \<or> since' \<in> set (now # nows)"
    using fin(4) by (auto simp: max_def split: if_splits)
  ultimately show ?case using fin(1,3) by blast
qed auto

text \<open>In a window of time, a bucket grants at most a full bucket and what the window refills.\<close>

lemma granted_in_window:
  assumes "snd bkt \<le> capacity" "\<forall>now \<in> set nows. start \<le> now \<and> now \<le> stop" "start \<le> stop"
  shows "fst (bucket_granted refill nows bkt) * 1000000000 \<le> unat capacity + (unat stop - unat start) * unat rate"
proof (cases nows)
  case (Cons now rest)
  obtain ok mid where req: "bucket_request refill now bkt = (ok, mid)"
    by (cases "bucket_request refill now bkt")
  obtain m bkt' where r: "bucket_granted refill rest mid = (m, bkt')"
    by (cases "bucket_granted refill rest mid")
  have n: "fst (bucket_granted refill nows bkt) = (if ok then 1 else 0) + m"
    by (simp add: Cons req r)
  define since where "since = (case fst bkt of None \<Rightarrow> now | Some since \<Rightarrow> max since now)"
  have full: "fst (refill now bkt) = Some since" "snd (refill now bkt) \<le> capacity"
    using refill_since[of now bkt] refill_bounded[OF assms(1)] by (auto simp: since_def)
  have "\<exists>credit. mid = (Some since, credit) \<and> credit \<le> capacity \<and>
      (if ok then 1000000000 else 0) + unat credit \<le> unat capacity"
  proof (cases "bucket_take (refill now bkt)")
    case None
    then show ?thesis
      using req full by (intro exI[of _ "snd (refill now bkt)"])
        (auto simp: bucket_request_def Let_def word_le_nat_alt prod_eq_iff)
  next
    case (Some taken)
    then show ?thesis
      using req full take_debit[OF Some]
      by (cases taken) (auto simp: bucket_request_def Let_def word_le_nat_alt)
  qed
  then obtain credit where mid: "mid = (Some since, credit)" "credit \<le> capacity"
    "(if ok then 1000000000 else 0) + unat credit \<le> unat capacity" by blast
  obtain since' and credit' :: u64 where fin: "since \<le> since'" "since' = since \<or> since' \<in> set rest"
    "m * 1000000000 + unat credit' \<le> unat credit + (unat since' - unat since) * unat rate"
    using granted_account[OF mid(2) r[unfolded mid(1)]] by blast
  have "start \<le> now" using assms(2) Cons by simp
  then have low: "start \<le> since"
    by (cases "fst bkt") (simp_all add: since_def le_max_iff_disj)
  have "unat since' - unat since \<le> unat stop - unat start"
  proof (cases "since' = since")
    case False
    then have "since' \<le> stop" using fin(2) assms(2) Cons by auto
    then show ?thesis using low by (simp add: word_le_nat_alt)
  qed simp
  then have "(unat since' - unat since) * unat rate \<le> (unat stop - unat start) * unat rate"
    by (rule mult_le_mono1)
  then have bound: "m * 1000000000 + unat credit' \<le> unat credit + (unat stop - unat start) * unat rate"
    using fin(3) by linarith
  show ?thesis
  proof (cases ok)
    case True
    with n have "fst (bucket_granted refill nows bkt) = Suc m" by simp
    then show ?thesis using bound mid(3) True by (simp only: mult_Suc if_True; linarith)
  next
    case False
    with n have "fst (bucket_granted refill nows bkt) = m" by simp
    then show ?thesis using bound mid(3) False by (simp only: if_False; linarith)
  qed
qed simp

end

interpretation move_bucket: token_bucket 6000000000 30 200000000
  by unfold_locales simp_all

text \<open>The attack bucket and the claim bucket have the same constants.\<close>

interpretation attack_bucket: token_bucket 4000000000 8 500000000
  by unfold_locales simp_all

section \<open>Properties\<close>

text \<open>Converting elapsed nanoseconds to battle time always gives a valid time, and it
  is the first tick at or after the elapsed time, except beyond the last representable tick,
  where it saturates.\<close>

theorem elapsed_to_tick:
  "let t = fromElapsedNanos e in
   time_valid t \<and> unat (bt_nanos t) = unat (bt_tick t) * 50000000 \<and>
   (if 368934881474 * 50000000 \<le> unat e then unat (bt_tick t) = 368934881474
    else unat e \<le> unat (bt_nanos t) \<and> unat (bt_nanos t) < unat e + 50000000)"
proof -
  define t where "t = fromElapsedNanos e"
  have t: "time_valid t" "unat (bt_nanos t) = unat (bt_tick t) * 50000000"
    using fromElapsedNanos_valid time_valid_nanos by (auto simp: t_def)
  have tick: "unat (bt_tick t) = (if 368934881474 \<le> unat e div 50000000 then 368934881474
      else unat e div 50000000 + (if unat e mod 50000000 = 0 then 0 else 1))"
    unfolding t_def by (rule fromElapsedNanos_tick)
  have sat: "368934881474 * 50000000 \<le> unat e \<longleftrightarrow> 368934881474 \<le> unat e div 50000000"
    by (simp add: less_eq_div_iff_mult_less_eq)
  define q r where "q = unat e div 50000000" and "r = unat e mod 50000000"
  have parts: "unat e = q * 50000000 + r" "r < 50000000"
    by (simp_all add: q_def r_def)
  show ?thesis
    unfolding Let_def t_def[symmetric] sat
    using t tick[folded q_def r_def] parts by (cases "r = 0") (auto simp flip: q_def)
qed

text \<open>The rate limits hold: whatever commands arrive, in whatever order, at times
  within a window, and whatever the state of the bucket before, at most 6 moves plus 30 per
  second of the window are accepted, and at most 4 attacks or claims plus 8 per second.\<close>

theorem rate_limits:
  assumes "\<forall>now \<in> set nows. start \<le> now \<and> now \<le> stop" "start \<le> stop"
    and "snd m \<le> 6000000000" "snd a \<le> 4000000000" "snd c \<le> 4000000000"
  shows "fst (bucket_granted move_refill nows m) * 1000000000 \<le> 6000000000 + (unat stop - unat start) * 30 \<and>
    fst (bucket_granted attack_refill nows a) * 1000000000 \<le> 4000000000 + (unat stop - unat start) * 8 \<and>
    fst (bucket_granted claim_refill nows c) * 1000000000 \<le> 4000000000 + (unat stop - unat start) * 8"
  using move_bucket.granted_in_window[OF assms(3,1,2)] attack_bucket.granted_in_window[OF assms(4,1,2)]
    attack_bucket.granted_in_window[OF assms(5,1,2)]
  by (simp add: move_refill_def attack_refill_def claim_refill_def)

theorem rate_limits_witness:
  "fst (bucket_granted attack_refill [0, 1, 2, 3, 4, 1000] (None, 4000000000)) \<le> 4"
  using rate_limits[of "[0, 1, 2, 3, 4, 1000]" 0 1000 "(None, 0)" "(None, 4000000000)" "(None, 0)"]
  by simp

end
