(* ===== verification/BattleRules.thy ===== *)
theory BattleRules
  imports BattleTime
begin

unbundle bit_operations_syntax

text \<open>
  The rules of a battle that need no battle state: movement deltas
  (\<open>BattleInstance.cpp\<close>, \<open>scaledComponent\<close>), the spawn table, attack range and
  the monster (\<open>CombatState.cpp\<close>), the relic catalog (\<open>RelicCatalog.cpp\<close>) and the
  deterministic generation of drops (\<open>Drop.cpp\<close>). Coordinates are millimetres; they stay
  within the arena, so 32-bit coordinates are integers here, and the range checks, which the code
  widens to 64 bits, are exact. Hash and random generator work on 64-bit words that wrap.
\<close>

section \<open>Movement\<close>

text \<open>The binary search of \<open>scaledComponent\<close>. Its numbers stay below 2^47, so the 64-bit
  arithmetic of the code does not wrap (\<open>scale_search_fits\<close>).\<close>

function scale_search :: "nat \<Rightarrow> nat \<Rightarrow> nat \<Rightarrow> nat \<Rightarrow> nat" where
  "scale_search squaredMagnitude squaredNumerator low high =
     (if low < high then
        let middle = low + (high - low + 1) div 2
        in if middle * middle * squaredMagnitude \<le> squaredNumerator
           then scale_search squaredMagnitude squaredNumerator middle high
           else scale_search squaredMagnitude squaredNumerator low (middle - 1)
      else low)"
  by pat_completeness auto
termination
  by (relation "measure (\<lambda>(m, n, low, high). high - low)") auto

declare scale_search.simps [simp del]

definition scaledComponent :: "16 word \<Rightarrow> nat \<Rightarrow> int" where
  "scaledComponent component squaredMagnitude =
     (if component = 0 \<or> squaredMagnitude = 0 then 0
      else
        let signedComponent = sint component;
            absoluteComponent = nat (if signedComponent < 0 then - signedComponent else signedComponent);
            numerator = absoluteComponent * 250;
            scaled = int (scale_search squaredMagnitude (numerator * numerator) 0 250)
        in if signedComponent < 0 then - scaled else scaled)"

definition tickDelta :: "16 word \<Rightarrow> 16 word \<Rightarrow> int \<times> int" where
  "tickDelta desiredX desiredY =
     (let squaredMagnitude = nat (sint desiredX * sint desiredX + sint desiredY * sint desiredY)
      in (scaledComponent desiredX squaredMagnitude, scaledComponent desiredY squaredMagnitude))"

text \<open>\<open>serialNewer\<close> of action sequences and server ticks.\<close>

definition serialNewer :: "u32 \<Rightarrow> u32 \<Rightarrow> bool" where
  "serialNewer candidate reference =
     (let distance = candidate - reference in distance \<noteq> 0 \<and> distance < 0x80000000)"

lemma scale_search_spec:
  assumes "low \<le> high" "low * low * m \<le> n" "n < (high + 1) * (high + 1) * m"
  shows "let r = scale_search m n low high in low \<le> r \<and> r \<le> high \<and> r * r * m \<le> n \<and> n < (r + 1) * (r + 1) * m"
  using assms
proof (induction m n low high rule: scale_search.induct)
  case (1 m n low high)
  define middle where "middle = low + (high - low + 1) div 2"
  show ?case
  proof (cases "low < high")
    case True
    then have mid: "low < middle" "middle \<le> high" by (auto simp: middle_def)
    show ?thesis
    proof (cases "middle * middle * m \<le> n")
      case le: True
      have step: "scale_search m n low high = scale_search m n middle high"
        using True le by (subst scale_search.simps) (simp only: Let_def middle_def[symmetric] if_True)
      show ?thesis
        using 1(1)[OF True middle_def le] 1(5) le mid by (simp only: Let_def step) auto
    next
      case gt: False
      have "low \<le> middle - 1" "middle - 1 + 1 = middle" using mid by auto
      have step: "scale_search m n low high = scale_search m n low (middle - 1)"
        using True gt by (subst scale_search.simps) (simp only: Let_def middle_def[symmetric] if_True if_False)
      show ?thesis
        using 1(2)[OF True middle_def gt] 1(4) gt mid \<open>low \<le> middle - 1\<close>
        unfolding \<open>middle - 1 + 1 = middle\<close>
        by (simp only: Let_def step) (auto intro: order_trans[of _ "middle - 1"])
    qed
  next
    case False
    then show ?thesis
      using 1(3-5) by (subst scale_search.simps) (simp add: Let_def)
  qed
qed

lemma scale_search_fits:
  fixes middle squaredMagnitude absoluteComponent :: nat
  assumes "middle \<le> 250" "squaredMagnitude \<le> 2 ^ 31" "absoluteComponent \<le> 2 ^ 15"
  shows "middle * middle * squaredMagnitude < 2 ^ 47"
    "absoluteComponent * 250 * (absoluteComponent * 250) < 2 ^ 47"
proof -
  have "middle * middle * squaredMagnitude \<le> 250 * 250 * 2 ^ 31"
    using assms by (intro mult_le_mono) auto
  then show "middle * middle * squaredMagnitude < 2 ^ 47" by simp
  have "absoluteComponent * 250 * (absoluteComponent * 250) \<le> 2 ^ 15 * 250 * (2 ^ 15 * 250)"
    using assms by (intro mult_le_mono) auto
  then show "absoluteComponent * 250 * (absoluteComponent * 250) < 2 ^ 47" by simp
qed

lemma scaledComponent_spec:
  assumes "int m = sint c * sint c + k" "0 \<le> k" "0 < m"
  shows "(scaledComponent c m)\<^sup>2 * int m \<le> (250 * sint c)\<^sup>2"
    "(250 * sint c)\<^sup>2 < (\<bar>scaledComponent c m\<bar> + 1)\<^sup>2 * int m"
    "\<bar>scaledComponent c m\<bar> \<le> 250" "0 \<le> scaledComponent c m * sint c"
proof -
  define a where "a = nat \<bar>sint c\<bar>"
  have a: "int a = \<bar>sint c\<bar>" by (simp add: a_def)
  have num: "int (a * 250 * (a * 250)) = (250 * sint c)\<^sup>2"
    by (simp add: a power2_eq_square mult.commute mult.left_commute flip: abs_mult)
  have "int (a * 250 * (a * 250)) < int ((250 + 1) * (250 + 1) * m)"
  proof -
    have "sint c * sint c \<le> int m" using assms by simp
    then have "62500 * (sint c * sint c) < 63001 * int m" using assms(3) by linarith
    then show ?thesis unfolding num by (simp add: power2_eq_square)
  qed
  then have "a * 250 * (a * 250) < (250 + 1) * (250 + 1) * m" by (simp only: of_nat_less_iff)
  from scale_search_spec[OF _ _ this, of 0]
  obtain r where r: "scale_search m (a * 250 * (a * 250)) 0 250 = r" "r \<le> 250"
    "r * r * m \<le> a * 250 * (a * 250)" "a * 250 * (a * 250) < (r + 1) * (r + 1) * m"
    by (simp add: Let_def)
  have val: "scaledComponent c m = (if c = 0 then 0 else if sint c < 0 then - int r else int r)"
    using assms(3) r(1) by (simp only: scaledComponent_def Let_def a_def abs_if[symmetric]) simp
  have zero: "c = 0 \<Longrightarrow> r = 0" 
  proof -
    assume "c = 0"
    then have "a = 0" by (simp add: a_def)
    then show "r = 0" using r(3) assms(3) by simp
  qed
  have abs: "\<bar>scaledComponent c m\<bar> = int r" using val zero by auto
  have sq: "(scaledComponent c m)\<^sup>2 = int (r * r)"
    using abs by (metis of_nat_mult power2_abs power2_eq_square)
  show "(scaledComponent c m)\<^sup>2 * int m \<le> (250 * sint c)\<^sup>2"
    using r(3) unfolding sq num[symmetric] by (simp only: of_nat_le_iff flip: of_nat_mult)
  show "(250 * sint c)\<^sup>2 < (\<bar>scaledComponent c m\<bar> + 1)\<^sup>2 * int m"
  proof -
    have "(\<bar>scaledComponent c m\<bar> + 1)\<^sup>2 * int m = int ((r + 1) * (r + 1) * m)"
      unfolding abs by (simp add: power2_eq_square algebra_simps)
    then show ?thesis using r(4) unfolding num[symmetric] by (simp only: of_nat_less_iff)
  qed
  show "\<bar>scaledComponent c m\<bar> \<le> 250" using abs r(2) by simp
  show "0 \<le> scaledComponent c m * sint c" using val by (auto simp: zero_le_mult_iff)
qed

lemma tickDelta_bounds:
  "\<bar>fst (tickDelta x y)\<bar> \<le> 250 \<and> \<bar>snd (tickDelta x y)\<bar> \<le> 250"
proof -
  define m where "m = nat (sint x * sint x + sint y * sint y)"
  have m: "int m = sint x * sint x + sint y * sint y" by (simp add: m_def)
  show ?thesis
  proof (cases "m = 0")
    case True
    then show ?thesis by (simp add: tickDelta_def Let_def m_def[symmetric] scaledComponent_def)
  next
    case False
    then show ?thesis
      using scaledComponent_spec(3)[of m x "sint y * sint y"] scaledComponent_spec(3)[of m y "sint x * sint x"] m
      by (simp add: tickDelta_def Let_def m_def[symmetric])
  qed
qed

section \<open>Combat\<close>

record combat_position =
  cp_x :: int
  cp_y :: int

definition pos :: "int \<Rightarrow> int \<Rightarrow> combat_position" where
  "pos x y = \<lparr>cp_x = x, cp_y = y\<rparr>"

text \<open>The spawn table: participant count less 2, then participant index.\<close>

definition participantSpawnPositions :: "combat_position list list" where
  "participantSpawnPositions = [
      [pos 2500 0, pos (-2500) 0, pos 0 0, pos 0 0, pos 0 0,
       pos 0 0, pos 0 0, pos 0 0, pos 0 0, pos 0 0],
      [pos 2500 0, pos (-1250) 2165, pos (-1250) (-2165), pos 0 0, pos 0 0,
       pos 0 0, pos 0 0, pos 0 0, pos 0 0, pos 0 0],
      [pos 2500 0, pos 0 2500, pos (-2500) 0, pos 0 (-2500), pos 0 0,
       pos 0 0, pos 0 0, pos 0 0, pos 0 0, pos 0 0],
      [pos 2500 0, pos 773 2378, pos (-2023) 1469, pos (-2023) (-1469), pos 773 (-2378),
       pos 0 0, pos 0 0, pos 0 0, pos 0 0, pos 0 0],
      [pos 2500 0, pos 1250 2165, pos (-1250) 2165, pos (-2500) 0, pos (-1250) (-2165),
       pos 1250 (-2165), pos 0 0, pos 0 0, pos 0 0, pos 0 0],
      [pos 2500 0, pos 1559 1955, pos (-556) 2437, pos (-2252) 1085, pos (-2252) (-1085),
       pos (-556) (-2437), pos 1559 (-1955), pos 0 0, pos 0 0, pos 0 0],
      [pos 2500 0, pos 1768 1768, pos 0 2500, pos (-1768) 1768, pos (-2500) 0,
       pos (-1768) (-1768), pos 0 (-2500), pos 1768 (-1768), pos 0 0, pos 0 0],
      [pos 2500 0, pos 1915 1607, pos 434 2462, pos (-1250) 2165, pos (-2349) 855,
       pos (-2349) (-855), pos (-1250) (-2165), pos 434 (-2462), pos 1915 (-1607), pos 0 0],
      [pos 2500 0, pos 2023 1469, pos 773 2378, pos (-773) 2378, pos (-2023) 1469,
       pos (-2500) 0, pos (-2023) (-1469), pos (-773) (-2378), pos 773 (-2378), pos 2023 (-1469)]]"

definition participantSpawnPosition :: "nat \<Rightarrow> nat \<Rightarrow> combat_position" where
  "participantSpawnPosition participantCount participantIndex =
     (if participantCount < 2 \<or> 10 < participantCount \<or> participantCount \<le> participantIndex
      then pos 0 0
      else participantSpawnPositions ! (participantCount - 2) ! participantIndex)"

definition inAttackRange :: "combat_position \<Rightarrow> combat_position \<Rightarrow> bool" where
  "inAttackRange attacker target =
     (let deltaX = cp_x attacker - cp_x target; deltaY = cp_y attacker - cp_y target; range = 12000
      in if deltaX < - range \<or> range < deltaX \<or> deltaY < - range \<or> range < deltaY then False
         else deltaX * deltaX + deltaY * deltaY \<le> range * range)"

datatype monster_state = Alive | Dying | Dead | TimedOut

datatype damage_result = DamageApplied | DamageLethal | NotAlive

record monster =
  mo_id :: u64
  mo_position :: combat_position
  mo_hitPoints :: u32
  mo_state :: monster_state

definition monsterHitPointsForParticipants :: "u32 \<Rightarrow> u32" where
  "monsterHitPointsForParticipants participantCount = participantCount * 800"

definition spawnMonster :: "u32 \<Rightarrow> monster" where
  "spawnMonster maximumHitPoints =
     \<lparr>mo_id = 1, mo_position = pos 0 0, mo_hitPoints = maximumHitPoints, mo_state = Alive\<rparr>"

definition applyAttack :: "monster \<Rightarrow> damage_result \<times> monster" where
  "applyAttack m =
     (if mo_state m \<noteq> Alive then (NotAlive, m)
      else if mo_hitPoints m \<le> 100 then (DamageLethal, m\<lparr>mo_hitPoints := 0, mo_state := Dying\<rparr>)
      else (DamageApplied, m\<lparr>mo_hitPoints := mo_hitPoints m - 100\<rparr>))"

definition completeDeath :: "monster \<Rightarrow> bool \<times> monster" where
  "completeDeath m = (if mo_state m \<noteq> Dying then (False, m) else (True, m\<lparr>mo_state := Dead\<rparr>))"

definition monsterTimeout :: "monster \<Rightarrow> bool \<times> monster" where
  "monsterTimeout m = (if mo_state m \<noteq> Alive then (False, m) else (True, m\<lparr>mo_state := TimedOut\<rparr>))"

section \<open>Relics and drops\<close>

datatype item_id = ItemId (item_value: u64)

datatype drop_id = DropId (drop_value: u64)

record drop_position =
  dp_x :: int
  dp_y :: int

record relic_drop =
  rd_dropId :: drop_id
  rd_itemId :: item_id
  rd_quantity :: u64
  rd_position :: drop_position

type_synonym relic_catalog = "(item_id \<times> u64) list"

definition commonItemId :: item_id where
  "commonItemId = ItemId 1"

definition rareItemId :: item_id where
  "rareItemId = ItemId 2"

definition v1Snapshot :: relic_catalog where
  "v1Snapshot = [(commonItemId, 100), (rareItemId, 300)]"

definition unitValueOf :: "relic_catalog \<Rightarrow> item_id \<Rightarrow> u64 option" where
  "unitValueOf catalog itemId = map_option snd (find (\<lambda>item. fst item = itemId) catalog)"

definition fnvPrime :: u64 where
  "fnvPrime = 0x00000100000001b3"

fun fnvAppendBytes :: "u64 \<Rightarrow> u64 \<Rightarrow> nat \<Rightarrow> u64" where
  "fnvAppendBytes st value 0 = st"
| "fnvAppendBytes st value (Suc byteCount) =
     (let current = drop_bit (byteCount * 8) value AND 0xff
      in (fnvAppendBytes st value byteCount XOR current) * fnvPrime)"

definition seedFor :: "room_id \<Rightarrow> battle_id \<Rightarrow> u32 \<Rightarrow> nat \<Rightarrow> u64" where
  "seedFor roomId battleId rulesetVersion rulesetBytes =
     (let st = 0xcbf29ce484222325;
          st = fnvAppendBytes st (room_value roomId) 8;
          st = fnvAppendBytes st (battle_value battleId) 8
      in fnvAppendBytes st (ucast rulesetVersion) rulesetBytes)"

definition splitMixGamma :: u64 where
  "splitMixGamma = 0x9e3779b97f4a7c15"

definition splitMixNext :: "u64 \<Rightarrow> u64 \<times> u64" where
  "splitMixNext st =
     (let st = st + splitMixGamma;
          z = st;
          z = (z XOR drop_bit 30 z) * 0xbf58476d1ce4e5b9;
          z = (z XOR drop_bit 27 z) * 0x94d049bb133111eb
      in (z XOR drop_bit 31 z, st))"

definition clampedCoordinate :: "u64 \<Rightarrow> int" where
  "clampedCoordinate random =
     (let offset = uint (random mod 20001); candidate = - 10000 + offset
      in if candidate < - 10000 then - 10000 else if 10000 < candidate then 10000 else candidate)"

definition nextPosition :: "u64 \<Rightarrow> drop_position \<times> u64" where
  "nextPosition st =
     (let (x, st) = splitMixNext st; (y, st) = splitMixNext st
      in (\<lparr>dp_x = clampedCoordinate x, dp_y = clampedCoordinate y\<rparr>, st))"

text \<open>The loop of \<open>generateDrops\<close> from \<open>index\<close>, with the number of rounds left.\<close>

fun generate_loop :: "nat \<Rightarrow> u32 \<Rightarrow> u64 \<Rightarrow> relic_drop list" where
  "generate_loop 0 index st = []"
| "generate_loop (Suc n) index st =
     (let (position, st) = nextPosition st
      in \<lparr>rd_dropId = DropId (ucast (index + 1)),
          rd_itemId = (if index = 0 then rareItemId else commonItemId),
          rd_quantity = 1, rd_position = position\<rparr> # generate_loop n (index + 1) st)"

definition generateDrops :: "u64 \<Rightarrow> u16 \<Rightarrow> u32 \<Rightarrow> relic_catalog \<Rightarrow> relic_drop list option" where
  "generateDrops seed rulesetVersion capturedCount catalog =
     (if capturedCount < 2 \<or> 10 < capturedCount \<or> seed = 0 \<or> rulesetVersion \<noteq> 1 then None
      else if unitValueOf catalog commonItemId = None \<or> unitValueOf catalog rareItemId = None then None
      else Some (generate_loop (unat capturedCount) 0 seed))"

text \<open>The overload that derives the seed itself.\<close>

definition generateDropsLegacy ::
  "room_id \<Rightarrow> battle_id \<Rightarrow> u16 \<Rightarrow> u32 \<Rightarrow> relic_catalog \<Rightarrow> relic_drop list option" where
  "generateDropsLegacy roomId battleId rulesetVersion capturedCount catalog =
     generateDrops (seedFor roomId battleId (ucast rulesetVersion) 2) rulesetVersion capturedCount catalog"

definition deriveBattleSeed :: "room_id \<Rightarrow> battle_id \<Rightarrow> u32 \<Rightarrow> u64" where
  "deriveBattleSeed roomId battleId rulesetVersion =
     (let seed = seedFor roomId battleId rulesetVersion 2
      in if seed = 0 then splitMixGamma else seed)"

lemma unitValueOf_v1:
  "unitValueOf v1Snapshot commonItemId = Some 100" "unitValueOf v1Snapshot rareItemId = Some 300"
  "unitValueOf v1Snapshot i \<noteq> None \<longleftrightarrow> i = commonItemId \<or> i = rareItemId"
  by (auto simp: unitValueOf_def v1Snapshot_def commonItemId_def rareItemId_def)

lemma clampedCoordinate_bounds: "\<bar>clampedCoordinate r\<bar> \<le> 10000"
  using uint_ge_0[of "r mod 20001"] by (simp add: clampedCoordinate_def Let_def abs_le_iff)

definition drop_ok :: "relic_drop \<Rightarrow> bool" where
  "drop_ok d \<longleftrightarrow> drop_value (rd_dropId d) \<noteq> 0 \<and> rd_quantity d = 1 \<and>
     (rd_itemId d = commonItemId \<or> rd_itemId d = rareItemId) \<and>
     \<bar>dp_x (rd_position d)\<bar> \<le> 10000 \<and> \<bar>dp_y (rd_position d)\<bar> \<le> 10000"

lemma nextPosition_bounds:
  "\<bar>dp_x (fst (nextPosition st))\<bar> \<le> 10000 \<and> \<bar>dp_y (fst (nextPosition st))\<bar> \<le> 10000"
  using clampedCoordinate_bounds by (auto simp: nextPosition_def Let_def split: prod.split)

lemma unat_ucast_u32: "unat (ucast (x :: u32) :: u64) = unat x"
  by (simp add: unsigned_ucast_eq take_bit_nat_eq_self order_less_trans[OF unsigned_less])

lemma generate_loop_spec:
  assumes "unat index + n < 2 ^ 32"
  shows "map (\<lambda>d. unat (drop_value (rd_dropId d))) (generate_loop n index st) = [unat index + 1..<unat index + 1 + n] \<and>
    (\<forall>d \<in> set (generate_loop n index st). drop_ok d) \<and>
    map rd_itemId (generate_loop n index st) =
      map (\<lambda>i. if i = 0 then rareItemId else commonItemId) [unat index..<unat index + n]"
  using assms
proof (induction n arbitrary: index st)
  case (Suc n)
  obtain p st' where p: "nextPosition st = (p, st')" by (cases "nextPosition st")
  have next_index: "unat (index + 1) = unat index + 1"
    using Suc.prems by (simp add: unat_word_ariths)
  have ucast_index: "unat (ucast (index + 1) :: u64) = unat index + 1"
    using next_index by (simp add: unat_ucast_u32)
  have zero: "index = 0 \<longleftrightarrow> unat index = 0" by (simp add: unat_0_iff)
  have "(ucast (index + 1) :: u64) \<noteq> 0"
    using ucast_index by (metis add_is_0 one_neq_zero unsigned_0)
  then show ?case
    using Suc.IH[of "index + 1" st'] Suc.prems nextPosition_bounds[of st]
    by (auto simp: p next_index ucast_index zero drop_ok_def upt_conv_Cons simp del: unsigned_ucast_eq)
qed simp

lemma generateDrops_spec:
  assumes "generateDrops seed 1 n v1Snapshot = Some ds"
  shows "2 \<le> unat n" "unat n \<le> 10" "length ds = unat n" "\<forall>d \<in> set ds. drop_ok d"
    "map (\<lambda>d. unat (drop_value (rd_dropId d))) ds = [1..<unat n + 1]"
    "map rd_itemId ds = rareItemId # replicate (unat n - 1) commonItemId"
proof -
  have n: "2 \<le> unat n" "unat n \<le> 10" and ds: "ds = generate_loop (unat n) 0 seed"
    using assms by (auto simp: generateDrops_def word_less_nat_alt not_less split: if_splits)
  have loop: "map (\<lambda>d. unat (drop_value (rd_dropId d))) ds = [1..<unat n + 1]"
    "\<forall>d \<in> set ds. drop_ok d" "map rd_itemId ds = map (\<lambda>i. if i = 0 then rareItemId else commonItemId) [0..<unat n]"
    using generate_loop_spec[of 0 "unat n" seed] n by (simp_all add: ds)
  show "2 \<le> unat n" "unat n \<le> 10" "\<forall>d \<in> set ds. drop_ok d"
    "map (\<lambda>d. unat (drop_value (rd_dropId d))) ds = [1..<unat n + 1]"
    using n loop by auto
  show "length ds = unat n"
    using arg_cong[OF loop(1), of length] by simp
  have "map (\<lambda>i. if i = 0 then rareItemId else commonItemId) [1..<unat n] = map (\<lambda>_. commonItemId) [1..<unat n]"
    by (intro map_cong) auto
  then have "map (\<lambda>i. if i = 0 then rareItemId else commonItemId) [1..<unat n] = replicate (unat n - 1) commonItemId"
    by (simp add: map_replicate_const)
  then show "map rd_itemId ds = rareItemId # replicate (unat n - 1) commonItemId"
    using n(1) by (simp add: loop(3) upt_conv_Cons)
qed

lemma generateDrops_total:
  "2 \<le> unat n \<Longrightarrow> unat n \<le> 10 \<Longrightarrow> seed \<noteq> 0 \<Longrightarrow> \<exists>ds. generateDrops seed 1 n v1Snapshot = Some ds"
  by (simp add: generateDrops_def unitValueOf_v1 word_less_nat_alt)

lemma generateDrops_ids_distinct:
  assumes "generateDrops seed 1 n v1Snapshot = Some ds"
  shows "distinct (map rd_dropId ds)"
proof -
  have "distinct (map (\<lambda>d. unat (drop_value (rd_dropId d))) ds)"
    unfolding generateDrops_spec(5)[OF assms] by simp
  then show ?thesis by (auto simp: distinct_map inj_on_def)
qed

section \<open>Properties\<close>

text \<open>A move command turns a direction into the integer step the rules ask for: each
  component is the 250-millimetre component rounded towards zero (the square root is taken by a
  search that never multiplies beyond 47 bits), the signs are those of the direction, and no
  direction moves a player more than 250 millimetres in a tick.\<close>

theorem movement_step:
  assumes "x \<noteq> 0 \<or> y \<noteq> 0"
  shows "let (dx, dy) = tickDelta x y; m = (sint x)\<^sup>2 + (sint y)\<^sup>2 in
    dx\<^sup>2 * m \<le> (250 * sint x)\<^sup>2 \<and> (250 * sint x)\<^sup>2 < (\<bar>dx\<bar> + 1)\<^sup>2 * m \<and> 0 \<le> dx * sint x \<and>
    dy\<^sup>2 * m \<le> (250 * sint y)\<^sup>2 \<and> (250 * sint y)\<^sup>2 < (\<bar>dy\<bar> + 1)\<^sup>2 * m \<and> 0 \<le> dy * sint y \<and>
    dx\<^sup>2 + dy\<^sup>2 \<le> 250\<^sup>2"
proof -
  define m where "m = nat (sint x * sint x + sint y * sint y)"
  define dx dy where "dx = scaledComponent x m" and "dy = scaledComponent y m"
  have m: "int m = sint x * sint x + sint y * sint y" by (simp add: m_def)
  have "sint x \<noteq> 0 \<or> sint y \<noteq> 0" using assms by (metis signed_eq_0_iff)
  then have "0 < sint x * sint x + sint y * sint y"
    by (metis add_nonneg_pos add_pos_nonneg not_sum_squares_lt_zero sum_squares_gt_zero_iff)
  then have pos: "0 < m" by (simp add: m_def)
  note sx = scaledComponent_spec[of m x "sint y * sint y", OF _ _ pos, folded dx_def]
  note sy = scaledComponent_spec[of m y "sint x * sint x", OF _ _ pos, folded dy_def]
  have all: "dx\<^sup>2 * int m \<le> (250 * sint x)\<^sup>2" "(250 * sint x)\<^sup>2 < (\<bar>dx\<bar> + 1)\<^sup>2 * int m" "0 \<le> dx * sint x"
    "dy\<^sup>2 * int m \<le> (250 * sint y)\<^sup>2" "(250 * sint y)\<^sup>2 < (\<bar>dy\<bar> + 1)\<^sup>2 * int m" "0 \<le> dy * sint y"
    using sx sy m by (auto simp: add.commute)
  have "(dx\<^sup>2 + dy\<^sup>2) * int m \<le> (250 * sint x)\<^sup>2 + (250 * sint y)\<^sup>2"
    using all by (simp add: distrib_right)
  also have "\<dots> = 250\<^sup>2 * int m" by (simp add: m power2_eq_square algebra_simps)
  finally have "dx\<^sup>2 + dy\<^sup>2 \<le> 250\<^sup>2" using pos by (simp only: mult_le_cancel_right; simp)
  moreover have "int m = (sint x)\<^sup>2 + (sint y)\<^sup>2" by (simp add: m power2_eq_square)
  ultimately show ?thesis
    using all by (simp add: tickDelta_def Let_def m_def[symmetric] dx_def[symmetric] dy_def[symmetric])
qed

theorem movement_step_witness:
  "(fst (tickDelta 3 4))\<^sup>2 + (snd (tickDelta 3 4))\<^sup>2 \<le> 62500 \<and> 0 \<le> fst (tickDelta 3 4)"
  using movement_step[of 3 4] by (auto simp: Let_def case_prod_beta zero_le_mult_iff)

text \<open>The spawn table is right for every number of participants from 2 to 10: the
  participants start at different points, inside the arena, each within attack range of the
  monster and within 1 millimetre of the circle of radius 2500 around it.\<close>

theorem spawn_table:
  "list_all (\<lambda>n.
     distinct (map (participantSpawnPosition n) [0..<n]) \<and>
     list_all (\<lambda>i. let p = participantSpawnPosition n i in
       \<bar>cp_x p\<bar> \<le> 10000 \<and> \<bar>cp_y p\<bar> \<le> 10000 \<and> inAttackRange p (mo_position (spawnMonster h)) \<and>
       2499 * 2499 \<le> cp_x p * cp_x p + cp_y p * cp_y p \<and>
       cp_x p * cp_x p + cp_y p * cp_y p \<le> 2501 * 2501) [0..<n]) [2..<11]"
  by (simp add: upt_rec participantSpawnPosition_def participantSpawnPositions_def pos_def inAttackRange_def
      spawnMonster_def Let_def numeral_nat)

text \<open>Property C40. Drop generation is total for 2 to 10 captured participants and a nonzero seed, as
  every derived seed is, and fails otherwise: it gives exactly one drop per participant, numbered
  from 1, one rare relic first and common ones after it, each of quantity 1 and inside the
  arena.\<close>

theorem drops_generated:
  "deriveBattleSeed r b v \<noteq> 0 \<and>
   (case generateDrops seed 1 n v1Snapshot of
      None \<Rightarrow> \<not> (2 \<le> n \<and> n \<le> 10 \<and> seed \<noteq> 0)
    | Some ds \<Rightarrow> 2 \<le> n \<and> n \<le> 10 \<and> seed \<noteq> 0 \<and>
        map (\<lambda>d. unat (drop_value (rd_dropId d))) ds = [1..<unat n + 1] \<and>
        map rd_itemId ds = rareItemId # replicate (unat n - 1) commonItemId \<and>
        list_all (\<lambda>d. rd_quantity d = 1 \<and> \<bar>dp_x (rd_position d)\<bar> \<le> 10000 \<and>
          \<bar>dp_y (rd_position d)\<bar> \<le> 10000) ds)"
proof -
  have "deriveBattleSeed r b v \<noteq> 0"
    by (simp add: deriveBattleSeed_def Let_def splitMixGamma_def)
  moreover have "seed \<noteq> 0" if "generateDrops seed 1 n v1Snapshot = Some ds" for ds
    using that by (auto simp: generateDrops_def)
  moreover have "\<not> (2 \<le> n \<and> n \<le> 10 \<and> seed \<noteq> 0)" if "generateDrops seed 1 n v1Snapshot = None"
    using that generateDrops_total[of n seed] by (auto simp: word_le_nat_alt)
  ultimately show ?thesis
    using generateDrops_spec[of seed n]
    by (auto simp: word_le_nat_alt list_all_iff drop_ok_def split: option.split)
qed

end
