(* ===== verification/ResultStores.thy ===== *)
theory ResultStores
  imports BattleRules
begin

text \<open>
  \<open>game-server/modules/battle/src/application/AttackResultStore.cpp\<close> and
  \<open>LootResultStore.cpp\<close>: every participant of a battle keeps the results of its attack
  commands and of its claim commands, so that a command that is sent twice gets the first answer
  and never acts twice. The two C++ classes are one text with other field names; here they are one
  group of operations over a polymorphic record, with the checks that differ as an argument. The
  interface \<open>result_store\<close> states what the battle relies on and both stores provide it.
\<close>

section \<open>Data\<close>

datatype command_id = CommandId (command_high: u64) (command_low: u64)

text \<open>\<open>AttackCommand\<close> (hint: the target) and \<open>ClaimLootCommand\<close> (hint: the drop).\<close>

record 'hint command =
  cm_commandId :: command_id
  cm_sessionId :: session_id
  cm_generation :: session_generation
  cm_battleId :: battle_id
  cm_hint :: 'hint

type_synonym attack_command = "u64 command"
type_synonym claim_command = "drop_id command"

datatype attack_code =
    AttackOk | AttackNotEligible | AttackStaleSession | AttackStaleBattle | AttackInvalidTarget
  | AttackOutOfRange | AttackCooldown | AttackOverloaded | AttackCommandConflict
  | AttackTerminalAlreadyDecided

datatype combat_outcome = NoOutcome | MonsterDefeated | CombatTimeout

record attack_result =
  ar_commandId :: command_id
  ar_battleId :: battle_id
  ar_code :: attack_code
  ar_monsterId :: u64
  ar_remainingHitPoints :: u32
  ar_rulesetVersion :: u16
  ar_outcome :: combat_outcome

datatype claim_code =
    ClaimOk | ClaimNotEligible | ClaimStaleSession | ClaimStaleBattle | InvalidDrop | UnknownDrop
  | ClaimOutOfRange | AlreadyClaimed | ClaimOverloaded | ClaimCommandConflict | CatalogRejected
  | ResolutionClosed

record claim_result =
  cr_commandId :: command_id
  cr_battleId :: battle_id
  cr_dropId :: drop_id
  cr_code :: claim_code

record ('hint, 'result) stored =
  sr_commandId :: command_id
  sr_hint :: 'hint
  sr_result :: 'result

record ('hint, 'result) store =
  st_sessionId :: session_id
  st_generation :: session_generation
  st_battleId :: battle_id
  st_records :: "('hint, 'result) stored list"
  st_completedAt :: "u64 option"

type_synonym attack_store = "(u64, attack_result) store"
type_synonym loot_store = "(drop_id, claim_result) store"

datatype 'result inspection = Available | Replay 'result | Conflict | StoreOverloaded | ScopeMismatch

section \<open>Operations\<close>

definition new_store ::
  "session_id \<Rightarrow> session_generation \<Rightarrow> battle_id \<Rightarrow> ('hint, 'result) store" where
  "new_store sessionId generation battleId =
     \<lparr>st_sessionId = sessionId, st_generation = generation, st_battleId = battleId,
      st_records = [], st_completedAt = None\<rparr>"

definition scopeMatches :: "('hint, 'result) store \<Rightarrow> 'hint command \<Rightarrow> bool" where
  "scopeMatches s c \<longleftrightarrow> cm_sessionId c = st_sessionId s \<and> cm_generation c = st_generation s \<and>
     cm_battleId c = st_battleId s"

definition inspect :: "'hint command \<Rightarrow> ('hint, 'result) store \<Rightarrow> 'result inspection" where
  "inspect c s =
     (if \<not> scopeMatches s c then ScopeMismatch
      else case find (\<lambda>r. sr_commandId r = cm_commandId c) (st_records s) of
             Some r \<Rightarrow> if sr_hint r \<noteq> cm_hint c then Conflict else Replay (sr_result r)
           | None \<Rightarrow> if 256 \<le> length (st_records s) then StoreOverloaded else Available)"

text \<open>\<open>retain\<close>; \<open>answers\<close> is the check that the result belongs to the command.\<close>

definition retain ::
  "('hint command \<Rightarrow> 'result \<Rightarrow> bool) \<Rightarrow> 'hint command \<Rightarrow> 'result \<Rightarrow> ('hint, 'result) store
   \<Rightarrow> ('hint, 'result) store option" where
  "retain answers c result s =
     (if inspect c s \<noteq> Available \<or> \<not> answers c result then None
      else Some (s\<lparr>st_records := st_records s @
             [\<lparr>sr_commandId = cm_commandId c, sr_hint = cm_hint c, sr_result = result\<rparr>]\<rparr>))"

definition attack_answers :: "attack_command \<Rightarrow> attack_result \<Rightarrow> bool" where
  "attack_answers c r \<longleftrightarrow> ar_commandId r = cm_commandId c \<and> ar_battleId r = cm_battleId c"

definition claim_answers :: "claim_command \<Rightarrow> claim_result \<Rightarrow> bool" where
  "claim_answers c r \<longleftrightarrow>
     cr_commandId r = cm_commandId c \<and> cr_battleId r = cm_battleId c \<and> cr_dropId r = cm_hint c"

definition markBattleCompleted :: "u64 \<Rightarrow> ('hint, 'result) store \<Rightarrow> ('hint, 'result) store" where
  "markBattleCompleted completedAt s =
     (if st_completedAt s = None then s\<lparr>st_completedAt := Some completedAt\<rparr> else s)"

text \<open>Whether 30 seconds have passed since the completion.\<close>

definition retention_over :: "u64 option \<Rightarrow> u64 \<Rightarrow> bool" where
  "retention_over completedAt now =
     (case completedAt of None \<Rightarrow> False | Some t \<Rightarrow> \<not> (now < t \<or> now - t < 30000000000))"

definition evictExpired :: "u64 \<Rightarrow> ('hint, 'result) store \<Rightarrow> nat \<times> ('hint, 'result) store" where
  "evictExpired now s =
     (if retention_over (st_completedAt s) now then (length (st_records s), s\<lparr>st_records := []\<rparr>)
      else (0, s))"

text \<open>The image of a store, and reading it back into a store of the same scope.\<close>

type_synonym ('hint, 'result) store_image = "u64 option \<times> ('hint, 'result) stored list"

definition exportStore :: "('hint, 'result) store \<Rightarrow> ('hint, 'result) store_image" where
  "exportStore s = (st_completedAt s, st_records s)"

fun import_records ::
  "(('hint, 'result) stored \<Rightarrow> bool) \<Rightarrow> ('hint, 'result) stored list \<Rightarrow> ('hint, 'result) stored list
   \<Rightarrow> ('hint, 'result) stored list option" where
  "import_records entry_ok records [] = Some records"
| "import_records entry_ok records (e # es) =
     (if \<not> entry_ok e then None
      else if find (\<lambda>r. sr_commandId r = sr_commandId e) records \<noteq> None then None
      else import_records entry_ok (records @ [e]) es)"

definition importStore ::
  "(battle_id \<Rightarrow> ('hint, 'result) stored \<Rightarrow> bool) \<Rightarrow> ('hint, 'result) store_image
   \<Rightarrow> ('hint, 'result) store \<Rightarrow> ('hint, 'result) store option" where
  "importStore entry_ok img s =
     (if 256 < length (snd img) then None
      else case import_records (entry_ok (st_battleId s)) [] (snd img) of
             None \<Rightarrow> None
           | Some records \<Rightarrow> Some (s\<lparr>st_records := records, st_completedAt := fst img\<rparr>))"

definition attack_entry_ok :: "battle_id \<Rightarrow> (u64, attack_result) stored \<Rightarrow> bool" where
  "attack_entry_ok battleId e \<longleftrightarrow>
     ar_commandId (sr_result e) = sr_commandId e \<and> ar_battleId (sr_result e) = battleId"

definition loot_entry_ok :: "battle_id \<Rightarrow> (drop_id, claim_result) stored \<Rightarrow> bool" where
  "loot_entry_ok battleId e \<longleftrightarrow>
     cr_commandId (sr_result e) = sr_commandId e \<and> cr_battleId (sr_result e) = battleId \<and>
     cr_dropId (sr_result e) = sr_hint e"

text \<open>\<open>clockNanos\<close> and \<open>compatibilityNanos\<close>.\<close>

definition clockNanos :: "instant \<Rightarrow> u64" where
  "clockNanos point = (if point \<le> 0 then 0 else word_of_int point)"

section \<open>Results after the battle\<close>

record retained_results =
  rl_battleId :: battle_id
  rl_completedAt :: u64
  rl_compatibility :: "u64 option"
  rl_stores :: "loot_store list"

definition reject_claim :: "claim_command \<Rightarrow> claim_code \<Rightarrow> claim_result" where
  "reject_claim c code = \<lparr>cr_commandId = cm_commandId c, cr_battleId = cm_battleId c,
     cr_dropId = cm_hint c, cr_code = code\<rparr>"

definition retained_expired :: "retained_results \<Rightarrow> u64 \<Rightarrow> bool" where
  "retained_expired rl now \<longleftrightarrow> rl_completedAt rl \<le> now \<and> 30000000000 \<le> now - rl_completedAt rl"

fun route_stores :: "claim_command \<Rightarrow> loot_store list \<Rightarrow> claim_result" where
  "route_stores c [] = reject_claim c ClaimStaleBattle"
| "route_stores c (s # ss) =
     (case inspect c s of
        ScopeMismatch \<Rightarrow> route_stores c ss
      | Replay r \<Rightarrow> r
      | Conflict \<Rightarrow> reject_claim c ClaimCommandConflict
      | _ \<Rightarrow> reject_claim c ClaimStaleBattle)"

definition route :: "retained_results \<Rightarrow> claim_command \<Rightarrow> u64 \<Rightarrow> claim_result" where
  "route rl c now =
     (if cm_battleId c \<noteq> rl_battleId rl \<or> retained_expired rl now then reject_claim c ClaimStaleBattle
      else route_stores c (rl_stores rl))"

text \<open>The adapters for a live clock: the first call fixes the instant that stands for the
  completion.\<close>

definition fix_compatibility :: "retained_results \<Rightarrow> instant \<Rightarrow> retained_results" where
  "fix_compatibility rl now =
     (if rl_compatibility rl = None then rl\<lparr>rl_compatibility := Some (clockNanos now)\<rparr> else rl)"

definition relative_nanos :: "retained_results \<Rightarrow> u64 \<Rightarrow> u64 \<Rightarrow> u64" where
  "relative_nanos rl now start =
     (let elapsed = now - start
      in if u64_max - elapsed < rl_completedAt rl then u64_max else rl_completedAt rl + elapsed)"

definition retained_expired_at :: "retained_results \<Rightarrow> instant \<Rightarrow> bool \<times> retained_results" where
  "retained_expired_at rl0 at =
     (let rl = fix_compatibility rl0 at; now = clockNanos at; start = the (rl_compatibility rl)
      in (if now \<le> start then False else retained_expired rl (relative_nanos rl now start), rl))"

definition route_at :: "retained_results \<Rightarrow> claim_command \<Rightarrow> instant \<Rightarrow> claim_result \<times> retained_results" where
  "route_at rl0 c at =
     (let rl = fix_compatibility rl0 at; now = clockNanos at; start = the (rl_compatibility rl)
      in (if now \<le> start then route rl c (rl_completedAt rl)
          else route rl c (relative_nanos rl now start), rl))"

section \<open>What a battle relies on\<close>

text \<open>The interface of a result store for one kind of command.\<close>

locale result_store =
  fixes look :: "'c \<Rightarrow> 's \<Rightarrow> 'r inspection"
    and keep :: "'c \<Rightarrow> 'r \<Rightarrow> 's \<Rightarrow> 's option"
    and answers :: "'c \<Rightarrow> 'r \<Rightarrow> bool"
  assumes keep_some: "look c s = Available \<Longrightarrow> answers c r \<Longrightarrow> \<exists>s'. keep c r s = Some s'"
    and keep_only: "keep c r s = Some s' \<Longrightarrow> look c s = Available"
    and keep_replay: "keep c r s = Some s' \<Longrightarrow> look c s' = Replay r"
    and keep_others: "keep c r s = Some s' \<Longrightarrow> look d s = Replay q \<Longrightarrow> look d s' = Replay q"
begin

text \<open>Once answered, a command is answered the same way after any number of other answers, and
  never answered afresh.\<close>

lemma replay_stable:
  "look d s = Replay q \<Longrightarrow>
   look d (fold (\<lambda>(c, r) s. case keep c r s of None \<Rightarrow> s | Some s' \<Rightarrow> s') ops s) = Replay q"
proof (induction ops arbitrary: s)
  case (Cons op ops)
  then show ?case
    by (cases op) (auto intro: Cons.IH keep_others split: option.split)
qed simp

lemma keep_once: "keep c r s = Some s' \<Longrightarrow> keep c q s' = None"
  using keep_only[of c q s'] keep_replay[of c r s s'] by (cases "keep c q s'") auto

end

lemma find_snoc: "find P (xs @ [x]) = (case find P xs of None \<Rightarrow> if P x then Some x else None | Some y \<Rightarrow> Some y)"
  by (induction xs) auto

lemma retain_store:
  "retain answers c r s = Some s' \<Longrightarrow>
   inspect c s = Available \<and> answers c r \<and>
   s' = s\<lparr>st_records := st_records s @ [\<lparr>sr_commandId = cm_commandId c, sr_hint = cm_hint c, sr_result = r\<rparr>]\<rparr>"
  by (auto simp: retain_def split: if_splits)

lemma inspect_scope:
  "scopeMatches (s\<lparr>st_records := rs\<rparr>) c = scopeMatches s c"
  "scopeMatches (s\<lparr>st_completedAt := t\<rparr>) c = scopeMatches s c"
  by (simp_all add: scopeMatches_def)

lemma inspect_available_iff:
  "inspect c s = Available \<longleftrightarrow>
   scopeMatches s c \<and> find (\<lambda>r. sr_commandId r = cm_commandId c) (st_records s) = None \<and>
   length (st_records s) < 256"
  by (auto simp: inspect_def split: option.split)

lemma inspect_replay_iff:
  "inspect c s = Replay q \<longleftrightarrow>
   scopeMatches s c \<and> (\<exists>e. find (\<lambda>r. sr_commandId r = cm_commandId c) (st_records s) = Some e \<and>
     sr_hint e = cm_hint c \<and> sr_result e = q)"
  by (auto simp: inspect_def split: option.split)

lemma retain_laws: "result_store inspect (retain answers) answers"
proof
  fix c :: "'a command" and s :: "('a, 'b) store" and r
  assume "inspect c s = Available" "answers c r"
  then show "\<exists>s'. retain answers c r s = Some s'" by (simp add: retain_def)
next
  fix c :: "'a command" and s s' :: "('a, 'b) store" and r
  assume "retain answers c r s = Some s'"
  then show "inspect c s = Available" by (rule retain_store[THEN conjunct1])
next
  fix c :: "'a command" and s s' :: "('a, 'b) store" and r
  assume "retain answers c r s = Some s'"
  from retain_store[OF this] show "inspect c s' = Replay r"
    by (simp add: inspect_available_iff inspect_replay_iff inspect_scope find_snoc)
next
  fix c d :: "'a command" and s s' :: "('a, 'b) store" and r q
  assume "retain answers c r s = Some s'" and "inspect d s = Replay q"
  then show "inspect d s' = Replay q"
    using retain_store[of answers c r s s'] by (auto simp: inspect_replay_iff inspect_scope find_snoc)
qed

interpretation attack_store: result_store inspect "retain attack_answers" attack_answers
  by (rule retain_laws)

interpretation loot_store: result_store inspect "retain claim_answers" claim_answers
  by (rule retain_laws)

section \<open>Invariant and image of a store\<close>

definition store_inv ::
  "(battle_id \<Rightarrow> ('hint, 'result) stored \<Rightarrow> bool) \<Rightarrow> ('hint, 'result) store \<Rightarrow> bool" where
  "store_inv entry_ok s \<longleftrightarrow>
     length (st_records s) \<le> 256 \<and> distinct (map sr_commandId (st_records s)) \<and>
     (\<forall>e \<in> set (st_records s). entry_ok (st_battleId s) e)"

lemma inspect_available:
  "inspect c s = Available \<Longrightarrow>
   scopeMatches s c \<and> cm_commandId c \<notin> sr_commandId ` set (st_records s) \<and> length (st_records s) < 256"
  by (auto simp: inspect_def find_none split: if_splits option.splits)

lemma retain_inv:
  assumes "store_inv entry_ok s" "retain answers c r s = Some s'"
    and "answers c r \<Longrightarrow> entry_ok (cm_battleId c) \<lparr>sr_commandId = cm_commandId c, sr_hint = cm_hint c, sr_result = r\<rparr>"
  shows "store_inv entry_ok s'"
  using retain_store[OF assms(2)] inspect_available[of c s] assms(1,3)
  by (auto simp: store_inv_def scopeMatches_def)

lemma answers_entry:
  "attack_answers c r \<Longrightarrow>
   attack_entry_ok (cm_battleId c) \<lparr>sr_commandId = cm_commandId c, sr_hint = cm_hint c, sr_result = r\<rparr>"
  "claim_answers d q \<Longrightarrow>
   loot_entry_ok (cm_battleId d) \<lparr>sr_commandId = cm_commandId d, sr_hint = cm_hint d, sr_result = q\<rparr>"
  by (simp_all add: attack_answers_def claim_answers_def attack_entry_ok_def loot_entry_ok_def)

lemma store_inv_other [simp]:
  "store_inv entry_ok (new_store i g b)"
  "store_inv entry_ok s \<Longrightarrow> store_inv entry_ok (markBattleCompleted t s)"
  "store_inv entry_ok s \<Longrightarrow> store_inv entry_ok (snd (evictExpired now s))"
  by (simp_all add: store_inv_def new_store_def markBattleCompleted_def evictExpired_def)

lemma import_records_all:
  assumes "\<forall>e \<in> set es. entry_ok e" "distinct (map sr_commandId (records @ es))"
  shows "import_records entry_ok records es = Some (records @ es)"
  using assms
proof (induction es arbitrary: records)
  case (Cons e es)
  have "find (\<lambda>r. sr_commandId r = sr_commandId e) records = None"
    using Cons.prems(2) by (auto simp: find_none image_iff)
  then show ?case
    using Cons.prems Cons.IH[of "records @ [e]"] by auto
qed simp

lemma import_export:
  assumes "store_inv entry_ok s" "st_sessionId f = st_sessionId s" "st_generation f = st_generation s"
    "st_battleId f = st_battleId s"
  shows "importStore entry_ok (exportStore s) f = Some s"
  using assms import_records_all[of "st_records s" "entry_ok (st_battleId s)" "[]"]
  by (simp add: importStore_def exportStore_def store_inv_def)

text \<open>Everything that happens to a store.\<close>

datatype ('hint, 'result) store_op =
    StRetain "'hint command" 'result
  | StComplete u64
  | StEvict u64

fun store_step ::
  "('hint command \<Rightarrow> 'result \<Rightarrow> bool) \<Rightarrow> ('hint, 'result) store_op \<Rightarrow> ('hint, 'result) store
   \<Rightarrow> ('hint, 'result) store" where
  "store_step answers (StRetain c r) s = (case retain answers c r s of None \<Rightarrow> s | Some s' \<Rightarrow> s')"
| "store_step answers (StComplete t) s = markBattleCompleted t s"
| "store_step answers (StEvict now) s = snd (evictExpired now s)"

lemma store_step_scope:
  "st_sessionId (store_step answers op s) = st_sessionId s"
  "st_generation (store_step answers op s) = st_generation s"
  "st_battleId (store_step answers op s) = st_battleId s"
  by (cases op; auto simp: markBattleCompleted_def evictExpired_def dest: retain_store split: option.split)+

lemma store_run_scope:
  "st_sessionId (fold (store_step answers) ops s) = st_sessionId s"
  "st_generation (fold (store_step answers) ops s) = st_generation s"
  "st_battleId (fold (store_step answers) ops s) = st_battleId s"
  by (induction ops arbitrary: s) (simp_all add: store_step_scope)

interpretation attack_store_run: invariant_system "store_step attack_answers" "store_inv attack_entry_ok"
proof
  fix s :: attack_store and op :: "(u64, attack_result) store_op"
  assume "store_inv attack_entry_ok s"
  then show "store_inv attack_entry_ok (store_step attack_answers op s)"
    by (cases op) (auto intro: retain_inv answers_entry split: option.split)
qed

interpretation loot_store_run: invariant_system "store_step claim_answers" "store_inv loot_entry_ok"
proof
  fix s :: loot_store and op :: "(drop_id, claim_result) store_op"
  assume "store_inv loot_entry_ok s"
  then show "store_inv loot_entry_ok (store_step claim_answers op s)"
    by (cases op) (auto intro: retain_inv answers_entry split: option.split)
qed

lemma inspect_completed: "inspect c (markBattleCompleted t s) = inspect c s"
  by (simp add: inspect_def markBattleCompleted_def inspect_scope)

lemma evict_kept: "\<not> retention_over (st_completedAt s) now \<Longrightarrow> snd (evictExpired now s) = s"
  by (simp add: evictExpired_def)

section \<open>Properties\<close>


definition demo_claim :: claim_command where
  "demo_claim = \<lparr>cm_commandId = CommandId 1 2, cm_sessionId = SessionId 7, cm_generation = SessionGeneration 1,
     cm_battleId = BattleInstanceId 9, cm_hint = DropId 1\<rparr>"


text \<open>The image of a store is complete: whatever happened to an attack store or a claim
  store since the battle began, it holds at most 256 results with distinct command identifiers,
  and reading its image into a fresh store of the same participant and battle succeeds and gives
  back exactly the store.\<close>

theorem store_image_roundtrip:
  "let a = fold (store_step attack_answers) aops (new_store i g b);
       l = fold (store_step claim_answers) lops (new_store i g b) in
   length (st_records a) \<le> 256 \<and> distinct (map sr_commandId (st_records a)) \<and>
   importStore attack_entry_ok (exportStore a) (new_store i g b) = Some a \<and>
   length (st_records l) \<le> 256 \<and> distinct (map sr_commandId (st_records l)) \<and>
   importStore loot_entry_ok (exportStore l) (new_store i g b) = Some l"
proof -
  let ?a = "fold (store_step attack_answers) aops (new_store i g b)"
  let ?l = "fold (store_step claim_answers) lops (new_store i g b)"
  have "store_inv attack_entry_ok ?a" "store_inv loot_entry_ok ?l"
    by (intro attack_store_run.run_inv loot_store_run.run_inv store_inv_other)+
  then show ?thesis
    unfolding Let_def
    using import_export[of attack_entry_ok ?a "new_store i g b"]
      import_export[of loot_entry_ok ?l "new_store i g b"]
    by (auto simp: store_run_scope new_store_def store_inv_def)
qed

lemma route_stores_stored:
  "cr_code (route_stores c ss) = ClaimOk \<Longrightarrow>
   \<exists>s \<in> set ss. scopeMatches s c \<and> (\<exists>e \<in> set (st_records s).
     sr_commandId e = cm_commandId c \<and> sr_hint e = cm_hint c \<and> sr_result e = route_stores c ss)"
proof (induction ss)
  case (Cons s ss)
  show ?case
  proof (cases "inspect c s")
    case (Replay r)
    then have "scopeMatches s c"
      by (auto simp: inspect_def split: if_splits)
    moreover obtain e where "find (\<lambda>r. sr_commandId r = cm_commandId c) (st_records s) = Some e"
      "sr_hint e = cm_hint c" "sr_result e = r"
      using Replay by (auto simp: inspect_def split: if_splits option.splits)
    ultimately show ?thesis using Replay find_set[of _ "st_records s" e] by auto
  qed (use Cons in \<open>auto simp: reject_claim_def\<close>)
qed (simp add: reject_claim_def)

text \<open>After a battle is settled its results still answer, but nothing new succeeds: a
  claim that is answered with success is a claim of that battle by one of its participants that
  was stored with exactly that answer, and the 30 seconds of retention are not over.\<close>

theorem retained_route_replays:
  assumes "cr_code (route rl c now) = ClaimOk"
  shows "cm_battleId c = rl_battleId rl \<and> \<not> retention_over (Some (rl_completedAt rl)) now \<and>
    (\<exists>s \<in> set (rl_stores rl). scopeMatches s c \<and> (\<exists>e \<in> set (st_records s).
       sr_commandId e = cm_commandId c \<and> sr_hint e = cm_hint c \<and> sr_result e = route rl c now))"
proof -
  have live: "cm_battleId c = rl_battleId rl" "\<not> retained_expired rl now"
    "route rl c now = route_stores c (rl_stores rl)"
    using assms by (auto simp: route_def reject_claim_def split: if_splits)
  then show ?thesis
    using route_stores_stored[of c "rl_stores rl"] assms
    by (auto simp: retained_expired_def retention_over_def not_less not_le)
qed

theorem retained_route_replays_witness:
  "\<exists>rl. cr_code (route rl demo_claim 100) = ClaimOk \<and> cm_battleId demo_claim = rl_battleId rl"
proof -
  define st :: loot_store where "st = \<lparr>st_sessionId = SessionId 7, st_generation = SessionGeneration 1,
    st_battleId = BattleInstanceId 9, st_records = [\<lparr>sr_commandId = CommandId 1 2, sr_hint = DropId 1,
      sr_result = reject_claim demo_claim ClaimOk\<rparr>], st_completedAt = Some 5\<rparr>"
  define rl where "rl = \<lparr>rl_battleId = BattleInstanceId 9, rl_completedAt = 5, rl_compatibility = None, rl_stores = [st]\<rparr>"
  have "cr_code (route rl demo_claim 100) = ClaimOk"
    by (simp add: route_def rl_def st_def demo_claim_def retained_expired_def inspect_def scopeMatches_def
        reject_claim_def)
  then show ?thesis using retained_route_replays[of rl demo_claim 100] by blast
qed

end
