(* ===== verification/ResultBuilder.thy ===== *)
theory ResultBuilder
  imports ResultStores "HOL-Library.Product_Lexorder" "HOL-Library.Multiset"
begin

text \<open>
  \<open>game-server/modules/battle/src/application/ResultBuilder.cpp\<close>: the pure builder of the final
  result of a battle. It validates the resolved ledger of drops and holdings, adds up the value of
  every participant with checked 64-bit arithmetic, checks that the holdings are exactly the
  claimed drops, and ranks. The theory shows that it succeeds on every consistent ledger and that
  what it builds is the competition ranking of the true sums.
\<close>

section \<open>Data\<close>

datatype exit_status = GameplayEligible | VoluntaryLeft | ExitDisconnected | TerminalPresent | TerminalExited

datatype battle_outcome = OutcomeMonsterDefeated | OutcomeCombatTimeout | OutcomeCancelled

datatype result_state = NotReady | Committed | ResultGenerationFailed

datatype build_error = InvariantBroken | CatalogIncomplete | ArithmeticOverflow

datatype drop_state = DropAvailable | DropClaimed | DropUnclaimed

record captured_participant =
  ca_accountId :: account_id
  ca_sessionId :: session_id
  ca_generation :: session_generation
  ca_nickname :: bytes
  ca_exitStatus :: exit_status

record loot_drop =
  ld_drop :: relic_drop
  ld_state :: drop_state
  ld_owner :: "session_id option"

record holding =
  ho_sessionId :: session_id
  ho_itemId :: item_id
  ho_quantity :: u64

record result_entry =
  en_sessionId :: session_id
  en_nickname :: bytes
  en_exitStatus :: exit_status
  en_finalAssetValue :: u64
  en_rank :: "u32 option"
  en_isTop :: bool

record final_result =
  fr_roomId :: room_id
  fr_battleId :: battle_id
  fr_outcome :: battle_outcome
  fr_entries :: "result_entry list"

record build_source =
  bs_roomId :: room_id
  bs_battleId :: battle_id
  bs_outcome :: battle_outcome
  bs_captured :: "captured_participant list"
  bs_drops :: "loot_drop list"
  bs_holdings :: "holding list"

section \<open>The builder\<close>

fun terminalExitStatus :: "exit_status \<Rightarrow> exit_status" where
  "terminalExitStatus GameplayEligible = TerminalPresent"
| "terminalExitStatus VoluntaryLeft = TerminalExited"
| "terminalExitStatus ExitDisconnected = TerminalExited"
| "terminalExitStatus TerminalPresent = TerminalPresent"
| "terminalExitStatus TerminalExited = TerminalExited"

definition ownedByCaptured :: "session_id \<Rightarrow> captured_participant list \<Rightarrow> bool" where
  "ownedByCaptured sessionId captured \<longleftrightarrow> list_ex (\<lambda>c. ca_sessionId c = sessionId) captured"

fun valid_drops :: "captured_participant list \<Rightarrow> loot_drop list \<Rightarrow> bool" where
  "valid_drops captured [] = True"
| "valid_drops captured (d # ds) =
     (if drop_value (rd_dropId (ld_drop d)) = 0 \<or> rd_quantity (ld_drop d) \<noteq> 1 \<or> ld_state d = DropAvailable
      then False
      else if ld_state d = DropClaimed \<and>
              (case ld_owner d of None \<Rightarrow> True | Some s \<Rightarrow> \<not> ownedByCaptured s captured) then False
      else if ld_state d \<noteq> DropClaimed \<and> ld_owner d \<noteq> None then False
      else if list_ex (\<lambda>other. rd_dropId (ld_drop d) = rd_dropId (ld_drop other)) ds then False
      else valid_drops captured ds)"

definition validResolvedDropLedger :: "build_source \<Rightarrow> bool" where
  "validResolvedDropLedger src \<longleftrightarrow>
     \<not> (length (bs_drops src) \<noteq> length (bs_captured src) \<or> bs_drops src = []) \<and>
     valid_drops (bs_captured src) (bs_drops src)"

definition validHoldings :: "build_source \<Rightarrow> bool" where
  "validHoldings src \<longleftrightarrow>
     list_all (\<lambda>h. ownedByCaptured (ho_sessionId h) (bs_captured src) \<and> ho_quantity h \<noteq> 0) (bs_holdings src)"

definition catalogComplete :: "build_source \<Rightarrow> relic_catalog \<Rightarrow> bool" where
  "catalogComplete src catalog \<longleftrightarrow>
     list_all (\<lambda>d. unitValueOf catalog (rd_itemId (ld_drop d)) \<noteq> None) (bs_drops src) \<and>
     list_all (\<lambda>h. unitValueOf catalog (ho_itemId h) \<noteq> None) (bs_holdings src)"

text \<open>The inner loop of \<open>assetTotals\<close>, for one participant.\<close>

fun asset_total :: "relic_catalog \<Rightarrow> session_id \<Rightarrow> holding list \<Rightarrow> u64 \<Rightarrow> build_error + u64" where
  "asset_total catalog s [] acc = Inr acc"
| "asset_total catalog s (h # hs) acc =
     (if ho_sessionId h \<noteq> s then asset_total catalog s hs acc
      else case unitValueOf catalog (ho_itemId h) of
             None \<Rightarrow> Inl CatalogIncomplete
           | Some unitValue \<Rightarrow>
               if unitValue \<noteq> 0 then
                 if u64_max div unitValue < ho_quantity h then Inl ArithmeticOverflow
                 else if u64_max - ho_quantity h * unitValue < acc then Inl ArithmeticOverflow
                 else asset_total catalog s hs (acc + ho_quantity h * unitValue)
               else asset_total catalog s hs acc)"

fun assetTotals :: "relic_catalog \<Rightarrow> holding list \<Rightarrow> captured_participant list \<Rightarrow> build_error + u64 list" where
  "assetTotals catalog holdings [] = Inr []"
| "assetTotals catalog holdings (c # cs) =
     (case asset_total catalog (ca_sessionId c) holdings 0 of
        Inl e \<Rightarrow> Inl e
      | Inr acc \<Rightarrow>
          (case assetTotals catalog holdings cs of Inl e \<Rightarrow> Inl e | Inr totals \<Rightarrow> Inr (acc # totals)))"

fun claimed_quantity :: "session_id \<Rightarrow> item_id \<Rightarrow> loot_drop list \<Rightarrow> u64" where
  "claimed_quantity s i [] = 0"
| "claimed_quantity s i (d # ds) =
     (if ld_state d = DropClaimed \<and> ld_owner d = Some s \<and> rd_itemId (ld_drop d) = i
      then rd_quantity (ld_drop d) else 0) + claimed_quantity s i ds"

definition holdingsConserved :: "build_source \<Rightarrow> bool" where
  "holdingsConserved src \<longleftrightarrow>
     list_all (\<lambda>h. claimed_quantity (ho_sessionId h) (ho_itemId h) (bs_drops src) = ho_quantity h) (bs_holdings src) \<and>
     list_all (\<lambda>d. ld_state d \<noteq> DropClaimed \<or>
        list_ex (\<lambda>h. Some (ho_sessionId h) = ld_owner d \<and> ho_itemId h = rd_itemId (ld_drop d)) (bs_holdings src))
       (bs_drops src)"

fun valid_sessions :: "captured_participant list \<Rightarrow> bool" where
  "valid_sessions [] = True"
| "valid_sessions (c # cs) =
     (if session_value (ca_sessionId c) = 0 then False
      else if list_ex (\<lambda>other. ca_sessionId c = ca_sessionId other) cs then False
      else valid_sessions cs)"

definition result_entry_of :: "exit_status \<Rightarrow> u64 \<Rightarrow> captured_participant \<Rightarrow> result_entry" where
  "result_entry_of status acc c = \<lparr>en_sessionId = ca_sessionId c, en_nickname = ca_nickname c,
     en_exitStatus = status, en_finalAssetValue = acc, en_rank = None, en_isTop = False\<rparr>"

text \<open>The order of the ranking: descending value, then ascending session.\<close>

definition ranking_key :: "result_entry \<Rightarrow> int \<times> session_id" where
  "ranking_key e = (- uint (en_finalAssetValue e), en_sessionId e)"

text \<open>The ranking loop at \<open>index\<close>, with the rank and the entry before.\<close>

fun rank_loop :: "nat \<Rightarrow> u32 \<Rightarrow> u64 option \<Rightarrow> result_entry list \<Rightarrow> result_entry list" where
  "rank_loop index rank previous [] = []"
| "rank_loop index rank previous (e # es) =
     (let rank = (if index = 0 \<or> previous \<noteq> Some (en_finalAssetValue e) then of_nat (index + 1) else rank)
      in e\<lparr>en_rank := Some rank, en_isTop := (rank = 1)\<rparr> #
         rank_loop (index + 1) rank (Some (en_finalAssetValue e)) es)"

definition final_result_of :: "build_source \<Rightarrow> result_entry list \<Rightarrow> final_result" where
  "final_result_of src entries = \<lparr>fr_roomId = bs_roomId src, fr_battleId = bs_battleId src,
     fr_outcome = bs_outcome src, fr_entries = entries\<rparr>"

definition build_timeout :: "build_source \<Rightarrow> build_error + final_result" where
  "build_timeout src =
     (if bs_drops src \<noteq> [] \<or> bs_holdings src \<noteq> [] then Inl InvariantBroken
      else Inr (final_result_of src (sort_key en_sessionId
        (map (\<lambda>c. result_entry_of (terminalExitStatus (ca_exitStatus c)) 0 c) (bs_captured src)))))"

definition build_cancelled :: "build_source \<Rightarrow> relic_catalog \<Rightarrow> build_error + final_result" where
  "build_cancelled src catalog =
     (if list_ex (\<lambda>c. terminalExitStatus (ca_exitStatus c) \<noteq> TerminalExited) (bs_captured src)
      then Inl InvariantBroken
      else
        let hasLedger = (bs_drops src \<noteq> [])
        in if \<not> hasLedger \<and> bs_holdings src \<noteq> [] then Inl InvariantBroken
           else if hasLedger \<and> (\<not> validResolvedDropLedger src \<or> \<not> validHoldings src) then Inl InvariantBroken
           else if hasLedger \<and> \<not> catalogComplete src catalog then Inl CatalogIncomplete
           else case assetTotals catalog (bs_holdings src) (bs_captured src) of
                  Inl e \<Rightarrow> Inl e
                | Inr totals \<Rightarrow>
                    if hasLedger \<and> \<not> holdingsConserved src then Inl InvariantBroken
                    else Inr (final_result_of src (sort_key en_sessionId
                      (map2 (result_entry_of TerminalExited) totals (bs_captured src)))))"

definition build_defeated :: "build_source \<Rightarrow> relic_catalog \<Rightarrow> build_error + final_result" where
  "build_defeated src catalog =
     (if \<not> validResolvedDropLedger src \<or> \<not> validHoldings src then Inl InvariantBroken
      else if \<not> catalogComplete src catalog then Inl CatalogIncomplete
      else case assetTotals catalog (bs_holdings src) (bs_captured src) of
             Inl e \<Rightarrow> Inl e
           | Inr totals \<Rightarrow>
               if \<not> holdingsConserved src then Inl InvariantBroken
               else Inr (final_result_of src (rank_loop 0 0 None (sort_key ranking_key
                 (map2 (\<lambda>acc c. result_entry_of (terminalExitStatus (ca_exitStatus c)) acc c)
                    totals (bs_captured src))))))"

definition buildFinalResult :: "build_source \<Rightarrow> relic_catalog \<Rightarrow> build_error + final_result" where
  "buildFinalResult src catalog =
     (if room_value (bs_roomId src) = 0 \<or> battle_value (bs_battleId src) = 0 \<or>
         length (bs_captured src) < 2 \<or> 10 < length (bs_captured src) then Inl InvariantBroken
      else if \<not> valid_sessions (bs_captured src) then Inl InvariantBroken
      else case bs_outcome src of
             OutcomeCombatTimeout \<Rightarrow> build_timeout src
           | OutcomeCancelled \<Rightarrow> build_cancelled src catalog
           | OutcomeMonsterDefeated \<Rightarrow> build_defeated src catalog)"

section \<open>Consistent ledgers\<close>

definition claimed_by :: "session_id \<Rightarrow> item_id \<Rightarrow> loot_drop \<Rightarrow> bool" where
  "claimed_by s i d \<longleftrightarrow> ld_state d = DropClaimed \<and> ld_owner d = Some s \<and> rd_itemId (ld_drop d) = i"

definition claimed_count :: "session_id \<Rightarrow> item_id \<Rightarrow> loot_drop list \<Rightarrow> nat" where
  "claimed_count s i ds = length (filter (claimed_by s i) ds)"

definition drops_ok :: "session_id list \<Rightarrow> loot_drop list \<Rightarrow> bool" where
  "drops_ok sessions ds \<longleftrightarrow>
     distinct (map (\<lambda>d. rd_dropId (ld_drop d)) ds) \<and>
     (\<forall>d \<in> set ds. drop_ok (ld_drop d) \<and>
        (case ld_owner d of None \<Rightarrow> ld_state d \<noteq> DropClaimed
         | Some s \<Rightarrow> ld_state d = DropClaimed \<and> s \<in> set sessions))"

definition holdings_ok :: "loot_drop list \<Rightarrow> holding list \<Rightarrow> bool" where
  "holdings_ok ds hs \<longleftrightarrow>
     distinct (map (\<lambda>h. (ho_sessionId h, ho_itemId h)) hs) \<and>
     (\<forall>h \<in> set hs. 0 < claimed_count (ho_sessionId h) (ho_itemId h) ds \<and>
        ho_quantity h = of_nat (claimed_count (ho_sessionId h) (ho_itemId h) ds)) \<and>
     (\<forall>d \<in> set ds. \<forall>s. ld_owner d = Some s \<longrightarrow>
        (\<exists>h \<in> set hs. ho_sessionId h = s \<and> ho_itemId h = rd_itemId (ld_drop d)))"

lemma claimed_count_le: "claimed_count s i ds \<le> length ds"
  by (simp add: claimed_count_def)

lemma claimed_quantity_count:
  "\<forall>d \<in> set ds. rd_quantity (ld_drop d) = 1 \<Longrightarrow> claimed_quantity s i ds = of_nat (claimed_count s i ds)"
  by (induction ds) (auto simp: claimed_count_def claimed_by_def)

lemma valid_drops_ok:
  "drops_ok (map ca_sessionId captured) ds \<Longrightarrow> \<forall>d \<in> set ds. ld_state d \<noteq> DropAvailable \<Longrightarrow>
   valid_drops captured ds"
proof (induction ds)
  case (Cons d ds)
  have "drops_ok (map ca_sessionId captured) ds" using Cons.prems(1) by (auto simp: drops_ok_def)
  then have rest: "valid_drops captured ds" using Cons by simp
  have "\<forall>s \<in> ca_sessionId ` set captured. ownedByCaptured s captured"
    by (auto simp: ownedByCaptured_def list_ex_iff)
  then show ?case
    using Cons.prems rest by (auto simp: drops_ok_def drop_ok_def list_ex_iff image_iff split: option.splits)
qed simp

lemma valid_sessions_iff:
  "valid_sessions cs \<longleftrightarrow> distinct (map ca_sessionId cs) \<and> (\<forall>c \<in> set cs. session_value (ca_sessionId c) \<noteq> 0)"
  by (induction cs) (auto simp: list_ex_iff)

text \<open>The true value of what a participant holds.\<close>

definition asset_value :: "session_id \<Rightarrow> holding list \<Rightarrow> nat" where
  "asset_value s hs = sum_list (map (\<lambda>h. if ho_sessionId h = s
     then unat (ho_quantity h) * unat (the (unitValueOf v1Snapshot (ho_itemId h))) else 0) hs)"

lemma asset_total_value:
  assumes "asset_total v1Snapshot s hs acc = Inr v"
  shows "unat v = unat acc + asset_value s hs"
  using assms
proof (induction hs arbitrary: acc)
  case (Cons h hs)
  show ?case
  proof (cases "ho_sessionId h = s")
    case False
    then show ?thesis using Cons by (simp add: asset_value_def)
  next
    case True
    then obtain u where u: "unitValueOf v1Snapshot (ho_itemId h) = Some u"
      using Cons.prems by (auto split: option.splits)
    show ?thesis
    proof (cases "u = 0")
      case True
      then show ?thesis using Cons.prems Cons.IH[of acc] \<open>ho_sessionId h = s\<close> u by (simp add: asset_value_def)
    next
      case False
      have guards: "\<not> u64_max div u < ho_quantity h" "\<not> u64_max - ho_quantity h * u < acc"
        and rest: "asset_total v1Snapshot s hs (acc + ho_quantity h * u) = Inr v"
        using Cons.prems \<open>ho_sessionId h = s\<close> u False by (auto split: if_splits)
      have "unat (ho_quantity h) \<le> unat u64_max div unat u"
        using guards(1) by (simp add: word_less_nat_alt unat_div)
      then have "unat (ho_quantity h) * unat u \<le> unat u64_max"
        using False by (simp add: less_eq_div_iff_mult_less_eq unat_gt_0)
      then have prod: "unat (ho_quantity h * u) = unat (ho_quantity h) * unat u"
        by (simp add: unat_word_ariths)
      have "acc \<le> u64_max - ho_quantity h * u"
        using guards(2) by simp
      then have "unat acc + unat (ho_quantity h * u) < 2 ^ 64"
        using unat_sub[of "ho_quantity h * u" u64_max] unsigned_less[of "ho_quantity h * u", where ?'a = nat]
        by (simp add: word_le_nat_alt)
      then have "unat (acc + ho_quantity h * u) = unat acc + unat (ho_quantity h) * unat u"
        using prod by (simp add: unat_word_ariths)
      then show ?thesis
        using Cons.IH[OF rest] \<open>ho_sessionId h = s\<close> u by (simp add: asset_value_def)
    qed
  qed
qed (simp add: asset_value_def)

lemma asset_total_ok:
  assumes "\<forall>h \<in> set hs. unat (ho_quantity h) \<le> 10 \<and> (ho_itemId h = commonItemId \<or> ho_itemId h = rareItemId)"
    and "unat acc + 3000 * length hs < 2 ^ 32"
  shows "\<exists>v. asset_total v1Snapshot s hs acc = Inr v"
  using assms
proof (induction hs arbitrary: acc)
  case (Cons h hs)
  obtain u where u: "unitValueOf v1Snapshot (ho_itemId h) = Some u" "unat u \<le> 300" "u \<noteq> 0"
    using Cons.prems(1) unitValueOf_v1 by auto
  have "unat (ho_quantity h) * unat u \<le> 10 * 300"
    using Cons.prems(1) u(2) by (intro mult_le_mono) auto
  then have small: "unat (ho_quantity h) * unat u \<le> 3000" by simp
  then have prod: "unat (ho_quantity h * u) = unat (ho_quantity h) * unat u"
    by (simp add: unat_word_ariths)
  have sum: "unat (acc + ho_quantity h * u) = unat acc + unat (ho_quantity h) * unat u"
    using small prod Cons.prems(2) by (simp add: unat_word_ariths)
  have "unat (ho_quantity h) \<le> unat u64_max div unat u"
    using small u(3) by (simp add: less_eq_div_iff_mult_less_eq unat_gt_0)
  then have g1: "\<not> u64_max div u < ho_quantity h"
    by (simp add: word_less_nat_alt unat_div not_less)
  have "unat (u64_max - ho_quantity h * u) = unat u64_max - unat (ho_quantity h * u)"
    by (rule unat_sub) simp
  then have g2: "\<not> u64_max - ho_quantity h * u < acc"
    using small prod Cons.prems(2) by (simp add: word_less_nat_alt not_less)
  have "\<exists>v. asset_total v1Snapshot s hs (acc + ho_quantity h * u) = Inr v"
    using Cons.prems small sum by (intro Cons.IH) auto
  moreover have "\<exists>v. asset_total v1Snapshot s hs acc = Inr v"
    using Cons.prems by (intro Cons.IH) auto
  ultimately show ?case using u(1,3) g1 g2 by simp
qed simp

lemma assetTotals_value:
  "assetTotals v1Snapshot hs cs = Inr ts \<Longrightarrow>
   length ts = length cs \<and> map unat ts = map (\<lambda>c. asset_value (ca_sessionId c) hs) cs"
proof (induction cs arbitrary: ts)
  case (Cons c cs)
  then obtain t rest where "asset_total v1Snapshot (ca_sessionId c) hs 0 = Inr t"
    "assetTotals v1Snapshot hs cs = Inr rest" "ts = t # rest"
    by (auto split: sum.splits)
  then show ?case using Cons.IH asset_total_value[of "ca_sessionId c" hs 0 t] by simp
qed simp

lemma assetTotals_ok:
  assumes "\<And>s. \<exists>v. asset_total v1Snapshot s hs 0 = Inr v"
  shows "\<exists>ts. assetTotals v1Snapshot hs cs = Inr ts"
proof (induction cs)
  case (Cons c cs)
  then show ?case using assms[of "ca_sessionId c"] by auto
qed simp

text \<open>What the builder needs of a resolved ledger.\<close>

lemma holding_claimed:
  assumes "holdings_ok ds hs" "h \<in> set hs"
  shows "\<exists>d \<in> set ds. ld_state d = DropClaimed \<and> ld_owner d = Some (ho_sessionId h) \<and>
    rd_itemId (ld_drop d) = ho_itemId h"
proof -
  have "0 < length (filter (claimed_by (ho_sessionId h) (ho_itemId h)) ds)"
    using assms by (simp add: holdings_ok_def claimed_count_def)
  then obtain d where "d \<in> set (filter (claimed_by (ho_sessionId h) (ho_itemId h)) ds)"
    by (metis length_greater_0_conv list.set_intros(1) neq_Nil_conv)
  then show ?thesis by (auto simp: claimed_by_def)
qed

lemma holdings_length:
  assumes "holdings_ok ds hs"
  shows "length hs \<le> length ds"
proof -
  have "set (map (\<lambda>h. (Some (ho_sessionId h), ho_itemId h)) hs) \<subseteq> (\<lambda>d. (ld_owner d, rd_itemId (ld_drop d))) ` set ds"
  proof
    fix k assume "k \<in> set (map (\<lambda>h. (Some (ho_sessionId h), ho_itemId h)) hs)"
    then obtain h where h: "h \<in> set hs" "k = (Some (ho_sessionId h), ho_itemId h)" by auto
    obtain d where "d \<in> set ds" "ld_owner d = Some (ho_sessionId h)" "rd_itemId (ld_drop d) = ho_itemId h"
      using holding_claimed[OF assms h(1)] by blast
    then show "k \<in> (\<lambda>d. (ld_owner d, rd_itemId (ld_drop d))) ` set ds"
      using h(2) by (intro image_eqI[of _ _ d]) simp_all
  qed
  then have "card (set (map (\<lambda>h. (Some (ho_sessionId h), ho_itemId h)) hs)) \<le> card ((\<lambda>d. (ld_owner d, rd_itemId (ld_drop d))) ` set ds)"
    by (intro card_mono) auto
  also have "\<dots> \<le> length ds"
    by (meson card_image_le card_length finite_set order_trans)
  finally have "card (set (map (\<lambda>h. (Some (ho_sessionId h), ho_itemId h)) hs)) \<le> length ds" .
  moreover have "distinct (map (\<lambda>h. (Some (ho_sessionId h), ho_itemId h)) hs)"
    using assms by (auto simp: holdings_ok_def distinct_map inj_on_def)
  ultimately show ?thesis by (metis distinct_card length_map)
qed

lemma holding_bounds:
  assumes "holdings_ok ds hs" "drops_ok ss ds" "length ds \<le> 10" "h \<in> set hs"
  shows "unat (ho_quantity h) \<le> 10" "ho_quantity h \<noteq> 0" "ho_itemId h = commonItemId \<or> ho_itemId h = rareItemId"
    "ho_sessionId h \<in> set ss"
proof -
  have q: "ho_quantity h = of_nat (claimed_count (ho_sessionId h) (ho_itemId h) ds)"
    "0 < claimed_count (ho_sessionId h) (ho_itemId h) ds"
    using assms(1,4) by (auto simp: holdings_ok_def)
  have le: "claimed_count (ho_sessionId h) (ho_itemId h) ds \<le> 10"
    using claimed_count_le assms(3) le_trans by blast
  then have "unat (ho_quantity h) = claimed_count (ho_sessionId h) (ho_itemId h) ds"
    unfolding q(1) by (intro unat_of_nat_u64) simp
  then show "unat (ho_quantity h) \<le> 10" "ho_quantity h \<noteq> 0"
    using le q(2) by (auto simp: unat_gt_0[symmetric])
  obtain d where "d \<in> set ds" "ld_owner d = Some (ho_sessionId h)" "rd_itemId (ld_drop d) = ho_itemId h"
    using holding_claimed[OF assms(1,4)] by blast
  then show "ho_itemId h = commonItemId \<or> ho_itemId h = rareItemId" "ho_sessionId h \<in> set ss"
    using assms(2) by (auto simp: drops_ok_def drop_ok_def split: option.splits)
qed

definition source_ok :: "build_source \<Rightarrow> bool" where
  "source_ok src \<longleftrightarrow>
     room_value (bs_roomId src) \<noteq> 0 \<and> battle_value (bs_battleId src) \<noteq> 0 \<and>
     2 \<le> length (bs_captured src) \<and> length (bs_captured src) \<le> 10 \<and>
     distinct (map ca_sessionId (bs_captured src)) \<and>
     (\<forall>c \<in> set (bs_captured src). session_value (ca_sessionId c) \<noteq> 0)"

definition ledger_ok :: "build_source \<Rightarrow> bool" where
  "ledger_ok src \<longleftrightarrow>
     length (bs_drops src) = length (bs_captured src) \<and>
     drops_ok (map ca_sessionId (bs_captured src)) (bs_drops src) \<and>
     (\<forall>d \<in> set (bs_drops src). ld_state d \<noteq> DropAvailable) \<and>
     holdings_ok (bs_drops src) (bs_holdings src)"

lemma ledger_checks:
  assumes "source_ok src" "ledger_ok src"
  shows "validResolvedDropLedger src" "validHoldings src" "catalogComplete src v1Snapshot" "holdingsConserved src"
    "\<exists>ts. assetTotals v1Snapshot (bs_holdings src) (bs_captured src) = Inr ts"
proof -
  let ?ds = "bs_drops src" and ?hs = "bs_holdings src" and ?ss = "map ca_sessionId (bs_captured src)"
  have led: "length ?ds = length (bs_captured src)" "drops_ok ?ss ?ds" "holdings_ok ?ds ?hs"
    "\<forall>d \<in> set ?ds. ld_state d \<noteq> DropAvailable"
    using assms(2) by (auto simp: ledger_ok_def)
  have len: "length ?ds \<le> 10" "2 \<le> length ?ds" using assms(1) led(1) by (auto simp: source_ok_def)
  note hb = holding_bounds[OF led(3,2) len(1)]
  have owned: "ownedByCaptured (ho_sessionId h) (bs_captured src)" if "h \<in> set ?hs" for h
    using hb(4)[OF that] by (auto simp: ownedByCaptured_def list_ex_iff)
  show "validResolvedDropLedger src"
    using len led valid_drops_ok[OF led(2,4)] by (auto simp: validResolvedDropLedger_def)
  show "validHoldings src"
    using owned hb(2) by (auto simp: validHoldings_def list_all_iff)
  have items: "\<forall>d \<in> set ?ds. rd_itemId (ld_drop d) = commonItemId \<or> rd_itemId (ld_drop d) = rareItemId"
    "\<forall>d \<in> set ?ds. rd_quantity (ld_drop d) = 1"
    using led(2) by (auto simp: drops_ok_def drop_ok_def)
  show "catalogComplete src v1Snapshot"
    unfolding catalogComplete_def list_all_iff unitValueOf_v1(3) using items(1) hb(3) by blast
  have "list_all (\<lambda>h. claimed_quantity (ho_sessionId h) (ho_itemId h) ?ds = ho_quantity h) ?hs"
    using led(3) by (auto simp: list_all_iff claimed_quantity_count[OF items(2)] holdings_ok_def)
  moreover have "list_all (\<lambda>d. ld_state d \<noteq> DropClaimed \<or>
        list_ex (\<lambda>h. Some (ho_sessionId h) = ld_owner d \<and> ho_itemId h = rd_itemId (ld_drop d)) ?hs) ?ds"
  proof (simp only: list_all_iff, intro ballI)
    fix d assume d: "d \<in> set ?ds"
    show "ld_state d \<noteq> DropClaimed \<or>
      list_ex (\<lambda>h. Some (ho_sessionId h) = ld_owner d \<and> ho_itemId h = rd_itemId (ld_drop d)) ?hs"
    proof (cases "ld_owner d")
      case None
      then show ?thesis using d led(2) by (auto simp: drops_ok_def)
    next
      case (Some s)
      then have "\<exists>h \<in> set ?hs. ho_sessionId h = s \<and> ho_itemId h = rd_itemId (ld_drop d)"
        using d led(3) by (auto simp: holdings_ok_def)
      then show ?thesis using Some by (auto simp: list_ex_iff)
    qed
  qed
  ultimately show "holdingsConserved src" by (simp add: holdingsConserved_def)
  have "\<exists>v. asset_total v1Snapshot s ?hs 0 = Inr v" for s
    using hb holdings_length[OF led(3)] len by (intro asset_total_ok) auto
  then show "\<exists>ts. assetTotals v1Snapshot ?hs (bs_captured src) = Inr ts"
    by (rule assetTotals_ok)
qed

lemma build_succeeds:
  assumes "source_ok src"
    and "bs_outcome src = OutcomeMonsterDefeated \<Longrightarrow> ledger_ok src"
    and "bs_outcome src = OutcomeCombatTimeout \<Longrightarrow> bs_drops src = [] \<and> bs_holdings src = []"
    and "bs_outcome src = OutcomeCancelled \<Longrightarrow>
      (\<forall>c \<in> set (bs_captured src). terminalExitStatus (ca_exitStatus c) = TerminalExited) \<and>
      (bs_drops src = [] \<and> bs_holdings src = [] \<or> ledger_ok src)"
  shows "\<exists>fr. buildFinalResult src v1Snapshot = Inr fr"
proof -
  have base: "\<not> (room_value (bs_roomId src) = 0 \<or> battle_value (bs_battleId src) = 0 \<or>
         length (bs_captured src) < 2 \<or> 10 < length (bs_captured src))" "valid_sessions (bs_captured src)"
    using assms(1) by (auto simp: source_ok_def valid_sessions_iff)
  have empty: "\<exists>ts. assetTotals v1Snapshot [] (bs_captured src) = Inr ts"
    by (rule assetTotals_ok) simp
  show ?thesis
  proof (cases "bs_outcome src")
    case OutcomeMonsterDefeated
    then show ?thesis
      using base ledger_checks[OF assms(1)] assms(2) by (auto simp: buildFinalResult_def build_defeated_def)
  next
    case OutcomeCombatTimeout
    then show ?thesis using base assms(3) by (auto simp: buildFinalResult_def build_timeout_def)
  next
    case OutcomeCancelled
    have "ledger_ok src \<Longrightarrow> bs_drops src \<noteq> []"
      using assms(1) by (auto simp: source_ok_def ledger_ok_def)
    with OutcomeCancelled show ?thesis
      using base ledger_checks[OF assms(1)] assms(4) empty
      by (auto simp: buildFinalResult_def build_cancelled_def list_ex_iff Let_def)
  qed
qed

section \<open>Ranking\<close>

abbreviation value_of :: "result_entry \<Rightarrow> u64" where
  "value_of \<equiv> en_finalAssetValue"

definition better :: "result_entry list \<Rightarrow> result_entry \<Rightarrow> nat" where
  "better es e = length (filter (\<lambda>x. value_of e < value_of x) es)"

lemma rank_loop_spec:
  assumes "sorted_wrt (\<lambda>a b. value_of b \<le> value_of a) (before @ es)"
    and "before = [] \<or> (previous = Some (value_of (last before)) \<and>
      rank = of_nat (1 + length (filter (\<lambda>x. value_of (last before) < value_of x) before)))"
  shows "rank_loop (length before) rank previous es =
    map (\<lambda>e. e\<lparr>en_rank := Some (of_nat (1 + better (before @ es) e)),
               en_isTop := (of_nat (1 + better (before @ es) e) = (1 :: u32))\<rparr>) es"
  using assms
proof (induction es arbitrary: before previous rank)
  case (Cons e es)
  define r where "r = (if before = [] \<or> previous \<noteq> Some (value_of e) then of_nat (length before + 1) else rank)"
  have above: "value_of e \<le> value_of x" if "x \<in> set before" for x
    using Cons.prems(1) that by (auto simp: sorted_wrt_append)
  have below: "filter (\<lambda>x. value_of e < value_of x) (e # es) = []"
    using Cons.prems(1) by (auto simp: sorted_wrt_append not_less)
  have better_e: "better (before @ e # es) e = length (filter (\<lambda>x. value_of e < value_of x) before)"
    using below by (simp add: better_def)
  have r: "r = of_nat (1 + better (before @ e # es) e)"
  proof (cases "before = [] \<or> previous \<noteq> Some (value_of e)")
    case True
    have "value_of e < value_of x" if x: "x \<in> set before" for x
    proof -
      have ne: "before \<noteq> []" using x by auto
      have "sorted_wrt (\<lambda>a b. value_of b \<le> value_of a) (butlast before @ [last before])"
        "x \<in> set (butlast before @ [last before])"
        using Cons.prems(1) ne x by (simp_all add: sorted_wrt_append)
      then have "value_of (last before) \<le> value_of x"
        by (auto simp: sorted_wrt_append simp del: append_butlast_last_id)
      moreover have "value_of (last before) \<noteq> value_of e" "value_of e \<le> value_of (last before)"
        using True Cons.prems(2) ne above by auto
      ultimately show ?thesis by simp
    qed
    then have "filter (\<lambda>x. value_of e < value_of x) before = before" by (simp add: filter_id_conv)
    then show ?thesis using True better_e by (simp add: r_def)
  next
    case False
    then have "value_of (last before) = value_of e" using Cons.prems(2) by auto
    then show ?thesis using False Cons.prems(2) better_e by (simp add: r_def)
  qed
  have step: "rank_loop (length before) rank previous (e # es) =
      e\<lparr>en_rank := Some r, en_isTop := (r = 1)\<rparr> # rank_loop (length (before @ [e])) r (Some (value_of e)) es"
    by (simp add: r_def Let_def)
  have "filter (\<lambda>x. value_of e < value_of x) (before @ [e]) = filter (\<lambda>x. value_of e < value_of x) before"
    by simp
  then have "rank_loop (length (before @ [e])) r (Some (value_of e)) es =
    map (\<lambda>x. x\<lparr>en_rank := Some (of_nat (1 + better ((before @ [e]) @ es) x)),
               en_isTop := (of_nat (1 + better ((before @ [e]) @ es) x) = (1 :: u32))\<rparr>) es"
    using Cons.prems(1) r better_e by (intro Cons.IH) auto
  then show ?case
    unfolding step by (simp add: r)
qed simp

lemma ranking_sorted:
  "sorted_wrt (\<lambda>a b. value_of b \<le> value_of a) (sort_key ranking_key es)"
proof -
  have "sorted (map ranking_key (sort_key ranking_key es))" by (rule sorted_sort_key)
  then have "sorted_wrt (\<lambda>a b. ranking_key a \<le> ranking_key b) (sort_key ranking_key es)"
    by (simp add: sorted_map)
  then show ?thesis
    by (rule sorted_wrt_mono_rel[rotated]) (auto simp: ranking_key_def less_eq_prod_def word_le_def)
qed

lemma value_better_update [simp]:
  "better (map (\<lambda>e. e\<lparr>en_rank := f e, en_isTop := g e\<rparr>) es) (e\<lparr>en_rank := r, en_isTop := t\<rparr>) = better es e"
  by (induction es) (auto simp: better_def)

lemma defeated_entries:
  assumes "build_defeated src v1Snapshot = Inr fr"
  obtains ts where
    "map unat ts = map (\<lambda>c. asset_value (ca_sessionId c) (bs_holdings src)) (bs_captured src)"
    "length ts = length (bs_captured src)"
    "fr = final_result_of src (map (\<lambda>e. e\<lparr>en_rank := Some (of_nat (1 + better (sort_key ranking_key
         (map2 (\<lambda>t c. result_entry_of (terminalExitStatus (ca_exitStatus c)) t c) ts (bs_captured src))) e)),
       en_isTop := (of_nat (1 + better (sort_key ranking_key
         (map2 (\<lambda>t c. result_entry_of (terminalExitStatus (ca_exitStatus c)) t c) ts (bs_captured src))) e) = (1 :: u32))\<rparr>)
      (sort_key ranking_key
         (map2 (\<lambda>t c. result_entry_of (terminalExitStatus (ca_exitStatus c)) t c) ts (bs_captured src))))"
proof -
  obtain ts where ts: "assetTotals v1Snapshot (bs_holdings src) (bs_captured src) = Inr ts"
    and fr: "fr = final_result_of src (rank_loop 0 0 None (sort_key ranking_key
      (map2 (\<lambda>t c. result_entry_of (terminalExitStatus (ca_exitStatus c)) t c) ts (bs_captured src))))"
    using assms by (auto simp: build_defeated_def split: if_splits sum.splits)
  let ?es = "sort_key ranking_key (map2 (\<lambda>t c. result_entry_of (terminalExitStatus (ca_exitStatus c)) t c) ts (bs_captured src))"
  have "rank_loop (length ([] :: result_entry list)) 0 None ?es =
    map (\<lambda>e. e\<lparr>en_rank := Some (of_nat (1 + better ([] @ ?es) e)),
               en_isTop := (of_nat (1 + better ([] @ ?es) e) = (1 :: u32))\<rparr>) ?es"
    using ranking_sorted by (intro rank_loop_spec) auto
  then show ?thesis
    using that[of ts] assetTotals_value[OF ts] fr by simp
qed

section \<open>Conservation of value\<close>

lemma sum_list_swap:
  fixes f :: "'a \<Rightarrow> 'b \<Rightarrow> nat"
  shows "sum_list (map (\<lambda>x. sum_list (map (f x) ys)) xs) = sum_list (map (\<lambda>y. sum_list (map (\<lambda>x. f x y) xs)) ys)"
  by (induction xs) (simp_all add: sum_list_addf)

lemma sum_list_indicator:
  "sum_list (map (\<lambda>x. if P x then a else 0) xs) = a * length (filter P xs)" for a :: nat
  by (induction xs) auto

lemma filter_key_once:
  assumes "distinct (map k xs)" "x \<in> set xs"
  shows "length (filter (\<lambda>y. k y = k x) xs) = 1"
  using assms by (induction xs) (auto simp: filter_empty_conv image_iff)

definition unit_value :: "item_id \<Rightarrow> nat" where
  "unit_value i = unat (the (unitValueOf v1Snapshot i))"

definition claimed_value :: "loot_drop list \<Rightarrow> nat" where
  "claimed_value ds = sum_list (map (\<lambda>d. if ld_state d = DropClaimed then unit_value (rd_itemId (ld_drop d)) else 0) ds)"

lemma holding_value_total:
  assumes "holdings_ok ds hs" "drops_ok ss ds" "length ds \<le> 10"
  shows "sum_list (map (\<lambda>h. unat (ho_quantity h) * unit_value (ho_itemId h)) hs) = claimed_value ds"
proof -
  define hit :: "holding \<Rightarrow> loot_drop \<Rightarrow> nat" where "hit = (\<lambda>h d. if claimed_by (ho_sessionId h) (ho_itemId h) d then unit_value (ho_itemId h) else 0)"
  have each_h: "unat (ho_quantity h) * unit_value (ho_itemId h) = sum_list (map (hit h) ds)" if "h \<in> set hs" for h
  proof -
    have "claimed_count (ho_sessionId h) (ho_itemId h) ds \<le> 10"
      using claimed_count_le assms(3) le_trans by blast
    then have "unat (ho_quantity h) = claimed_count (ho_sessionId h) (ho_itemId h) ds"
      using assms(1) that unat_of_nat_u64[of "claimed_count (ho_sessionId h) (ho_itemId h) ds"]
      by (auto simp: holdings_ok_def)
    then show ?thesis
      by (simp add: hit_def sum_list_indicator claimed_count_def mult.commute)
  qed
  have each_d: "sum_list (map (\<lambda>h. hit h d) hs) =
      (if ld_state d = DropClaimed then unit_value (rd_itemId (ld_drop d)) else 0)" if d: "d \<in> set ds" for d
  proof (cases "ld_state d = DropClaimed")
    case True
    then obtain s where s: "ld_owner d = Some s"
      using d assms(2) by (cases "ld_owner d") (auto simp: drops_ok_def)
    have "\<exists>h \<in> set hs. ho_sessionId h = s \<and> ho_itemId h = rd_itemId (ld_drop d)"
      using assms(1) d s unfolding holdings_ok_def by blast
    then obtain h where h: "h \<in> set hs" "ho_sessionId h = s" "ho_itemId h = rd_itemId (ld_drop d)"
      by blast
    have "length (filter (\<lambda>x. (ho_sessionId x, ho_itemId x) = (ho_sessionId h, ho_itemId h)) hs) = 1"
      using filter_key_once[of "\<lambda>h. (ho_sessionId h, ho_itemId h)" hs h] assms(1) h(1) by (simp add: holdings_ok_def)
    moreover have "map (\<lambda>x. hit x d) hs = map (\<lambda>x. if (ho_sessionId x, ho_itemId x) = (ho_sessionId h, ho_itemId h)
        then unit_value (rd_itemId (ld_drop d)) else 0) hs"
      using h s True by (auto simp: hit_def claimed_by_def)
    ultimately have "sum_list (map (\<lambda>x. hit x d) hs) = unit_value (rd_itemId (ld_drop d))"
      by (simp only: sum_list_indicator mult_1_right)
    then show ?thesis using True by simp
  next
    case False
    then show ?thesis by (simp add: hit_def claimed_by_def)
  qed
  have "sum_list (map (\<lambda>h. unat (ho_quantity h) * unit_value (ho_itemId h)) hs) =
      sum_list (map (\<lambda>h. sum_list (map (hit h) ds)) hs)"
    using each_h by (simp cong: map_cong)
  also have "\<dots> = sum_list (map (\<lambda>d. sum_list (map (\<lambda>h. hit h d) hs)) ds)"
    by (rule sum_list_swap)
  also have "\<dots> = claimed_value ds"
    using each_d by (simp add: claimed_value_def cong: map_cong)
  finally show ?thesis .
qed

lemma asset_value_sum:
  assumes "distinct ss" "\<forall>h \<in> set hs. ho_sessionId h \<in> set ss"
  shows "sum_list (map (\<lambda>s. asset_value s hs) ss) =
    sum_list (map (\<lambda>h. unat (ho_quantity h) * unit_value (ho_itemId h)) hs)"
proof -
  have one: "sum_list (map (\<lambda>s. if ho_sessionId h = s then a else 0) ss) = a" if "h \<in> set hs" for h and a :: nat
    using filter_key_once[of "\<lambda>s. s" ss "ho_sessionId h"] assms that
    by (simp add: sum_list_indicator eq_commute[of "ho_sessionId h"])
  have "sum_list (map (\<lambda>s. asset_value s hs) ss) =
      sum_list (map (\<lambda>h. sum_list (map (\<lambda>s. if ho_sessionId h = s
        then unat (ho_quantity h) * unit_value (ho_itemId h) else 0) ss)) hs)"
    unfolding asset_value_def unit_value_def by (rule sum_list_swap)
  then show ?thesis using one by (simp cong: map_cong)
qed

lemma map2_keys:
  "length ts = length cs \<Longrightarrow> map en_sessionId (map2 (\<lambda>t c. result_entry_of (f c) t c) ts cs) = map ca_sessionId cs"
  by (induction ts cs rule: list_induct2) (auto simp: result_entry_of_def)

lemma map2_value_list:
  "length ts = length cs \<Longrightarrow> map value_of (map2 (\<lambda>t c. result_entry_of (f c) t c) ts cs) = ts"
  by (induction ts cs rule: list_induct2) (auto simp: result_entry_of_def)

lemma map2_values:
  assumes "map unat ts = map (\<lambda>c. asset_value (ca_sessionId c) hs) cs"
    and "e \<in> set (map2 (\<lambda>t c. result_entry_of (f c) t c) ts cs)"
  shows "unat (value_of e) = asset_value (en_sessionId e) hs"
proof -
  obtain i where i: "i < length ts" "i < length cs" "e = result_entry_of (f (cs ! i)) (ts ! i) (cs ! i)"
    using assms(2) by (auto simp: set_zip)
  have "unat (ts ! i) = asset_value (ca_sessionId (cs ! i)) hs"
    using arg_cong[OF assms(1), of "\<lambda>l. l ! i"] i by simp
  then show ?thesis using i(3) by (simp add: result_entry_of_def)
qed

definition entry_key :: "result_entry \<Rightarrow> session_id \<times> nat" where
  "entry_key e = (en_sessionId e, unat (value_of e))"

lemma entries_account:
  assumes "length ts = length cs" "map unat ts = map (\<lambda>c. asset_value (ca_sessionId c) hs) cs"
    and "mset (map entry_key es) = mset (map entry_key (map2 (\<lambda>t c. result_entry_of (f c) t c) ts cs))"
  shows "mset (map en_sessionId es) = mset (map ca_sessionId cs)"
    "sum_list (map (\<lambda>e. unat (value_of e)) es) = sum_list (map (\<lambda>s. asset_value s hs) (map ca_sessionId cs))"
proof -
  define base where "base = map2 (\<lambda>t c. result_entry_of (f c) t c) ts cs"
  have same: "mset (map g es) = mset (map g base)" if "\<And>e. g e = h (entry_key e)" for g :: "result_entry \<Rightarrow> 'x" and h
  proof -
    have "mset (map h (map entry_key es)) = mset (map h (map entry_key base))"
      using assms(3) unfolding base_def by (simp only: mset_map)
    moreover have "map h (map entry_key xs) = map g xs" for xs using that by simp
    ultimately show ?thesis by metis
  qed
  show "mset (map en_sessionId es) = mset (map ca_sessionId cs)"
    unfolding map2_keys[OF assms(1), of f, symmetric] base_def[symmetric]
    by (rule same[of _ fst]) (simp add: entry_key_def)
  have "mset (map (\<lambda>e. unat (value_of e)) es) = mset (map (\<lambda>e. unat (value_of e)) base)"
    by (rule same[of _ snd]) (simp add: entry_key_def)
  then have "sum_list (map (\<lambda>e. unat (value_of e)) es) = sum_list (map (\<lambda>e. unat (value_of e)) base)"
    by (metis sum_mset_sum_list)
  also have "\<dots> = sum_list (map unat (map value_of base))" by (simp add: comp_def)
  also have "map value_of base = ts" unfolding base_def by (rule map2_value_list[OF assms(1)])
  finally show "sum_list (map (\<lambda>e. unat (value_of e)) es) = sum_list (map (\<lambda>s. asset_value s hs) (map ca_sessionId cs))"
    by (simp add: assms(2) comp_def)
qed

lemma entry_key_rank [simp]: "entry_key (e\<lparr>en_rank := r, en_isTop := t\<rparr>) = entry_key e"
  by (simp add: entry_key_def)

text \<open>Whatever the outcome, a result that is built is about the captured participants, each once, and
  gives away exactly what the claimed drops are worth.\<close>

lemma built_account:
  assumes "buildFinalResult src v1Snapshot = Inr fr" "source_ok src"
    "bs_drops src = [] \<and> bs_holdings src = [] \<or> ledger_ok src"
  shows "fr_roomId fr = bs_roomId src" "fr_battleId fr = bs_battleId src" "fr_outcome fr = bs_outcome src"
    "mset (map en_sessionId (fr_entries fr)) = mset (map ca_sessionId (bs_captured src))"
    "sum_list (map (\<lambda>e. unat (value_of e)) (fr_entries fr)) = claimed_value (bs_drops src)"
proof -
  let ?cs = "bs_captured src" and ?hs = "bs_holdings src" and ?ds = "bs_drops src"
  have total: "sum_list (map (\<lambda>s. asset_value s ?hs) (map ca_sessionId ?cs)) = claimed_value ?ds"
  proof (cases "ledger_ok src")
    case True
    then have led: "holdings_ok ?ds ?hs" "drops_ok (map ca_sessionId ?cs) ?ds" "length ?ds \<le> 10"
      "distinct (map ca_sessionId ?cs)"
      using assms(2) by (auto simp: ledger_ok_def source_ok_def)
    show ?thesis
      using asset_value_sum[OF led(4), of ?hs] holding_bounds(4)[OF led(1-3)] holding_value_total[OF led(1-3)] by simp
  next
    case False
    then have "?ds = []" "?hs = []" using assms(3) by auto
    then show ?thesis by (simp add: asset_value_def claimed_value_def)
  qed
  have "\<exists>ts f. length ts = length ?cs \<and> map unat ts = map (\<lambda>c. asset_value (ca_sessionId c) ?hs) ?cs \<and>
      mset (map entry_key (fr_entries fr)) = mset (map entry_key (map2 (\<lambda>t c. result_entry_of (f c) t c) ts ?cs)) \<and>
      fr = final_result_of src (fr_entries fr)"
  proof (cases "bs_outcome src")
    case OutcomeMonsterDefeated
    then have "build_defeated src v1Snapshot = Inr fr"
      using assms(1) by (auto simp: buildFinalResult_def split: if_splits)
    then obtain ts where ts: "map unat ts = map (\<lambda>c. asset_value (ca_sessionId c) ?hs) ?cs" "length ts = length ?cs"
      and fr: "\<exists>r t. fr = final_result_of src (map (\<lambda>e. e\<lparr>en_rank := r e, en_isTop := t e\<rparr>)
        (sort_key ranking_key (map2 (\<lambda>t c. result_entry_of (terminalExitStatus (ca_exitStatus c)) t c) ts ?cs)))"
      by (rule defeated_entries) (rule that; fast)
    have "map entry_key (fr_entries fr) = map entry_key (sort_key ranking_key
        (map2 (\<lambda>t c. result_entry_of (terminalExitStatus (ca_exitStatus c)) t c) ts ?cs))"
      and "fr = final_result_of src (fr_entries fr)"
      using fr by (auto simp: final_result_of_def comp_def)
    then have "mset (map entry_key (fr_entries fr)) = mset (map entry_key
        (map2 (\<lambda>t c. result_entry_of (terminalExitStatus (ca_exitStatus c)) t c) ts ?cs))"
      "fr = final_result_of src (fr_entries fr)"
      by (simp_all only: mset_map mset_sort)
    then show ?thesis
      using ts by (intro exI[of _ ts] exI[of _ "\<lambda>c. terminalExitStatus (ca_exitStatus c)"]) (simp only: simp_thms)
  next
    case OutcomeCombatTimeout
    then have empty: "?ds = []" "?hs = []" and fr: "fr = final_result_of src (sort_key en_sessionId
        (map (\<lambda>c. result_entry_of (terminalExitStatus (ca_exitStatus c)) 0 c) ?cs))"
      using assms(1) by (auto simp: buildFinalResult_def build_timeout_def split: if_splits)
    have "map2 (\<lambda>t c. result_entry_of (terminalExitStatus (ca_exitStatus c)) t c) (replicate (length ?cs) 0) ?cs =
        map (\<lambda>c. result_entry_of (terminalExitStatus (ca_exitStatus c)) 0 c) ?cs"
      by (induction "?cs") (auto simp: zip_replicate1 comp_def)
    then show ?thesis
      using fr empty by (intro exI[of _ "replicate (length ?cs) 0"] exI[of _ "\<lambda>c. terminalExitStatus (ca_exitStatus c)"])
        (simp add: final_result_of_def asset_value_def map_replicate_const multiset.map_comp)
  next
    case OutcomeCancelled
    then obtain ts where "assetTotals v1Snapshot ?hs ?cs = Inr ts"
      and fr: "fr = final_result_of src (sort_key en_sessionId (map2 (result_entry_of TerminalExited) ts ?cs))"
      using assms(1) by (auto simp: buildFinalResult_def build_cancelled_def Let_def split: if_splits sum.splits)
    then show ?thesis
      using assetTotals_value[of ?hs ?cs ts] by (intro exI[of _ ts] exI[of _ "\<lambda>c. TerminalExited"])
        (simp add: final_result_of_def multiset.map_comp)
  qed
  then obtain ts f where ts: "length ts = length ?cs" "map unat ts = map (\<lambda>c. asset_value (ca_sessionId c) ?hs) ?cs"
    "mset (map entry_key (fr_entries fr)) = mset (map entry_key (map2 (\<lambda>t c. result_entry_of (f c) t c) ts ?cs))"
    and fr: "fr = final_result_of src (fr_entries fr)" by blast
  show "fr_roomId fr = bs_roomId src" "fr_battleId fr = bs_battleId src" "fr_outcome fr = bs_outcome src"
    by (subst fr, simp add: final_result_of_def)+
  show "mset (map en_sessionId (fr_entries fr)) = mset (map ca_sessionId ?cs)"
    "sum_list (map (\<lambda>e. unat (value_of e)) (fr_entries fr)) = claimed_value ?ds"
    using entries_account[OF ts] total by simp_all
qed

section \<open>Properties\<close>


definition demo_captured :: "captured_participant list" where
  "demo_captured =
     [\<lparr>ca_accountId = AccountId [1], ca_sessionId = SessionId 7, ca_generation = SessionGeneration 1,
       ca_nickname = [0x41], ca_exitStatus = GameplayEligible\<rparr>,
      \<lparr>ca_accountId = AccountId [2], ca_sessionId = SessionId 8, ca_generation = SessionGeneration 2,
       ca_nickname = [0x42], ca_exitStatus = VoluntaryLeft\<rparr>]"

definition demo_drops :: "loot_drop list" where
  "demo_drops =
     [\<lparr>ld_drop = \<lparr>rd_dropId = DropId 1, rd_itemId = rareItemId, rd_quantity = 1,
         rd_position = \<lparr>dp_x = 0, dp_y = 0\<rparr>\<rparr>, ld_state = DropClaimed, ld_owner = Some (SessionId 8)\<rparr>,
      \<lparr>ld_drop = \<lparr>rd_dropId = DropId 2, rd_itemId = commonItemId, rd_quantity = 1,
         rd_position = \<lparr>dp_x = 5, dp_y = 5\<rparr>\<rparr>, ld_state = DropUnclaimed, ld_owner = None\<rparr>]"

definition demo_holdings :: "holding list" where
  "demo_holdings = [\<lparr>ho_sessionId = SessionId 8, ho_itemId = rareItemId, ho_quantity = 1\<rparr>]"

definition demo_source :: build_source where
  "demo_source = \<lparr>bs_roomId = RoomId 5, bs_battleId = BattleInstanceId 9, bs_outcome = OutcomeMonsterDefeated,
     bs_captured = demo_captured, bs_drops = demo_drops, bs_holdings = demo_holdings\<rparr>"

lemma demo_source_ok: "source_ok demo_source" "ledger_ok demo_source"
  by (simp_all add: source_ok_def ledger_ok_def demo_source_def demo_captured_def demo_drops_def demo_holdings_def
      drops_ok_def drop_ok_def holdings_ok_def claimed_count_def claimed_by_def commonItemId_def rareItemId_def)

lemma demo_source_builds: "\<exists>fr. buildFinalResult demo_source v1Snapshot = Inr fr"
  using demo_source_ok by (intro build_succeeds) (simp_all add: demo_source_def)




section \<open>A limit of the conservation check\<close>

text \<open>The conservation check of the builder compares every holding by itself with the claimed drops:
  a source that lists the same holding twice passes, and its owner gets twice the value. A battle
  never produces such a source.\<close>

theorem duplicate_holdings_pass:
  "\<exists>fr. buildFinalResult (demo_source\<lparr>bs_holdings := demo_holdings @ demo_holdings\<rparr>) v1Snapshot = Inr fr \<and>
     asset_value (SessionId 8) (demo_holdings @ demo_holdings) = 600"
proof -
  have v: "unitValueOf v1Snapshot rareItemId = Some 300" "unitValueOf v1Snapshot commonItemId = Some 100"
    by (simp_all add: unitValueOf_v1)
  let ?src = "demo_source\<lparr>bs_holdings := demo_holdings @ demo_holdings\<rparr>"
  have "\<exists>ts. assetTotals v1Snapshot (bs_holdings ?src) (bs_captured ?src) = Inr ts"
    by (simp add: demo_captured_def demo_holdings_def demo_source_def v word_less_nat_alt unat_div)
  moreover have "validResolvedDropLedger ?src" "validHoldings ?src" "catalogComplete ?src v1Snapshot"
    "holdingsConserved ?src" "valid_sessions (bs_captured ?src)"
    by (simp_all add: validResolvedDropLedger_def validHoldings_def catalogComplete_def holdingsConserved_def
        demo_captured_def demo_holdings_def demo_source_def demo_drops_def ownedByCaptured_def v
        commonItemId_def rareItemId_def)
      (simp_all add: unitValueOf_v1 flip: rareItemId_def commonItemId_def)
  moreover have "room_value (bs_roomId ?src) = 5" "battle_value (bs_battleId ?src) = 9" "length (bs_captured ?src) = 2"
    "bs_outcome ?src = OutcomeMonsterDefeated"
    by (simp_all add: demo_source_def demo_captured_def)
  ultimately have "\<exists>fr. buildFinalResult ?src v1Snapshot = Inr fr"
    by (auto simp: buildFinalResult_def build_defeated_def)
  then show ?thesis by (simp add: asset_value_def demo_holdings_def v)
qed

end
