(* ===== verification/BattleCore.thy ===== *)
theory BattleCore
  imports ResultBuilder
begin

text \<open>
  \<open>game-server/modules/battle/src/domain/BattleInstance.cpp\<close>, first part: the state of a
  battle, its creation, the load barrier, exits, cancellation and the commit of the final result.
  The C++ object is the record \<open>battle\<close>; every member function is a function from the
  battle to the battle, in the order of the statements of the code. A pointer into the vector of
  participants is the session identifier, and an assignment through it is \<open>upd\<close>, which
  changes the first record of that session.
\<close>

section \<open>Data\<close>

datatype load_state = Created | LoadBarrierOpen | GameplayCommitted | LoadCancelled

datatype candidate_state = PendingLoad | Ready | CandidateDisconnected | CandidateTimedOut

datatype load_code =
    LoadOk | LoadInvalidArgument | LoadRoomNotFound | LoadRoomNotOpen | LoadNotInRoom | LoadNotHost
  | LoadNotEnoughPlayers | LoadNotAllReady | LoadStartGateClosed | LoadStaleSession | LoadStaleBattle
  | LoadNotEligible | LoadOverloaded

datatype loot_resolution = LootNotStarted | LootOpen | LootResolved

datatype event_id = EventId (event_high: u64) (event_low: u64)

record start_candidate =
  sc_accountId :: account_id
  sc_sessionId :: session_id
  sc_generation :: session_generation
  sc_nickname :: bytes

record admission_snapshot =
  as_roomId :: room_id
  as_battleId :: battle_id
  as_candidates :: "start_candidate list"
  as_rulesetVersion :: u32
  as_seed :: u64

record candidate =
  cd_identity :: start_candidate
  cd_state :: candidate_state

record participant =
  pt_slot :: u16
  pt_sessionId :: session_id
  pt_generation :: session_generation
  pt_posX :: int
  pt_posY :: int
  pt_tickDeltaX :: int
  pt_tickDeltaY :: int
  pt_latestSeenActionSequence :: "u32 option"
  pt_moveBucket :: bucket
  pt_attackBucket :: bucket
  pt_claimBucket :: bucket
  pt_lastAcceptedAttackNanos :: "u64 option"
  pt_attackResults :: attack_store
  pt_lootResults :: loot_store
  pt_gameplayEligible :: bool
  pt_inputEnabled :: bool
  pt_exitStatus :: exit_status

record combat_terminal =
  ct_eventId :: event_id
  ct_battleId :: battle_id
  ct_eventSequence :: u32
  ct_outcome :: combat_outcome
  ct_monsterId :: u64
  ct_serverTick :: u32
  ct_rulesetVersion :: u16

record battle =
  b_roomId :: room_id
  b_battleId :: battle_id
  b_rulesetVersion :: u32
  b_seed :: u64
  b_time :: battle_time
  b_state :: load_state
  b_candidates :: "candidate list"
  b_captured :: "captured_participant list"
  b_participants :: "participant list"
  b_loadDeadlineTick :: "u64 option"
  b_combatDeadlineTick :: "u64 option"
  b_lootDeadlineTick :: "u64 option"
  b_lastIntegratedServerTick :: "u32 option"
  b_nextSnapshotSequence :: u32
  b_nextAttackAppliedSequence :: u32
  b_monster :: "monster option"
  b_combatTerminal :: "combat_terminal option"
  b_terminalOutcome :: "battle_outcome option"
  b_drops :: "loot_drop list"
  b_holdings :: "holding list"
  b_lootResolution :: loot_resolution
  b_resultState :: result_state
  b_committedResult :: "final_result option"
  b_lootResultsCompletedAt :: "u64 option"

text \<open>The correlation of a load or exit command.\<close>

record load_command =
  lc_sessionId :: session_id
  lc_generation :: session_generation
  lc_roomId :: room_id
  lc_battleId :: battle_id

section \<open>Creation\<close>

fun valid_candidates :: "start_candidate list \<Rightarrow> bool" where
  "valid_candidates [] = True"
| "valid_candidates (c # cs) =
     (if session_value (sc_sessionId c) = 0 \<or> generation_value (sc_generation c) = 0 \<or> sc_nickname c = []
      then False
      else if list_ex (\<lambda>other. sc_sessionId c = sc_sessionId other) cs then False
      else valid_candidates cs)"

definition validAdmission :: "admission_snapshot \<Rightarrow> bool" where
  "validAdmission a \<longleftrightarrow>
     \<not> (room_value (as_roomId a) = 0 \<or> battle_value (as_battleId a) = 0 \<or> as_rulesetVersion a \<noteq> 1 \<or>
        as_seed a = 0 \<or> length (as_candidates a) < 2 \<or> 10 < length (as_candidates a)) \<and>
     valid_candidates (as_candidates a)"

definition newBattle :: "admission_snapshot \<Rightarrow> battle" where
  "newBattle a = \<lparr>b_roomId = as_roomId a, b_battleId = as_battleId a,
     b_rulesetVersion = as_rulesetVersion a, b_seed = as_seed a, b_time = fromLogicalTick 0,
     b_state = Created, b_candidates = map (\<lambda>c. \<lparr>cd_identity = c, cd_state = PendingLoad\<rparr>) (as_candidates a),
     b_captured = [], b_participants = [], b_loadDeadlineTick = None, b_combatDeadlineTick = None,
     b_lootDeadlineTick = None, b_lastIntegratedServerTick = None, b_nextSnapshotSequence = 1,
     b_nextAttackAppliedSequence = 1, b_monster = None, b_combatTerminal = None,
     b_terminalOutcome = None, b_drops = [], b_holdings = [], b_lootResolution = LootNotStarted,
     b_resultState = NotReady, b_committedResult = None, b_lootResultsCompletedAt = None\<rparr>"

definition createBattle :: "admission_snapshot \<Rightarrow> load_code + battle" where
  "createBattle a = (if \<not> validAdmission a then Inl LoadInvalidArgument else Inr (newBattle a))"

section \<open>Small helpers\<close>

definition observeBattleTime :: "battle_time \<Rightarrow> battle \<Rightarrow> battle" where
  "observeBattleTime at b =
     (if \<not> time_valid at then b
      else if bt_tick (b_time b) < bt_tick at \<or>
              bt_tick at = bt_tick (b_time b) \<and> bt_nanos (b_time b) < bt_nanos at
      then b\<lparr>b_time := at\<rparr> else b)"

definition participantRecord :: "session_id \<Rightarrow> battle \<Rightarrow> participant option" where
  "participantRecord s b = find (\<lambda>p. pt_sessionId p = s) (b_participants b)"

definition upd :: "session_id \<Rightarrow> (participant \<Rightarrow> participant) \<Rightarrow> battle \<Rightarrow> battle" where
  "upd s f b = b\<lparr>b_participants := update_first (\<lambda>p. pt_sessionId p = s) f (b_participants b)\<rparr>"

definition upd_candidate :: "session_id \<Rightarrow> candidate_state \<Rightarrow> battle \<Rightarrow> battle" where
  "upd_candidate s st b = b\<lparr>b_candidates :=
     update_first (\<lambda>c. sc_sessionId (cd_identity c) = s) (\<lambda>c. c\<lparr>cd_state := st\<rparr>) (b_candidates b)\<rparr>"

definition slotForSession :: "battle \<Rightarrow> session_id \<Rightarrow> u16" where
  "slotForSession b s = (case participantRecord s b of Some p \<Rightarrow> pt_slot p | None \<Rightarrow> 0)"

definition sessionForSlot :: "battle \<Rightarrow> u16 \<Rightarrow> session_id option" where
  "sessionForSlot b slot =
     (if slot = 0 then None
      else map_option pt_sessionId (find (\<lambda>p. pt_slot p = slot) (b_participants b)))"

definition clearDeadlines :: "battle \<Rightarrow> battle" where
  "clearDeadlines b = b\<lparr>b_loadDeadlineTick := None, b_combatDeadlineTick := None, b_lootDeadlineTick := None\<rparr>"

section \<open>The load barrier\<close>

definition openLoadBarrier :: "battle_time \<Rightarrow> battle \<Rightarrow> load_code \<times> battle" where
  "openLoadBarrier at b =
     (if b_state b = Created then
        let b = observeBattleTime at b
        in (LoadOk, b\<lparr>b_state := LoadBarrierOpen,
              b_loadDeadlineTick := Some (addTicks (bt_tick (b_time b)) 200)\<rparr>)
      else (if b_state b = LoadBarrierOpen then LoadOk else LoadNotEligible, b))"

definition correlate :: "load_command \<Rightarrow> battle \<Rightarrow> load_code + candidate" where
  "correlate c b =
     (if lc_roomId c \<noteq> b_roomId b \<or> lc_battleId c \<noteq> b_battleId b then Inl LoadStaleBattle
      else case find (\<lambda>e. sc_sessionId (cd_identity e) = lc_sessionId c) (b_candidates b) of
             None \<Rightarrow> Inl LoadNotEligible
           | Some found \<Rightarrow>
               if sc_generation (cd_identity found) \<noteq> lc_generation c then Inl LoadStaleSession
               else Inr found)"

text \<open>What \<open>resolveIfComplete\<close> builds for the ready candidates: their slots are dense.\<close>

definition capture :: "candidate \<Rightarrow> captured_participant" where
  "capture c = \<lparr>ca_accountId = sc_accountId (cd_identity c), ca_sessionId = sc_sessionId (cd_identity c),
     ca_generation = sc_generation (cd_identity c), ca_nickname = sc_nickname (cd_identity c),
     ca_exitStatus = GameplayEligible\<rparr>"

definition newParticipant :: "battle_id \<Rightarrow> nat \<Rightarrow> nat \<Rightarrow> candidate \<Rightarrow> participant" where
  "newParticipant battleId readyCount readyIndex c =
     (let spawn = participantSpawnPosition readyCount readyIndex;
          sessionId = sc_sessionId (cd_identity c); generation = sc_generation (cd_identity c)
      in \<lparr>pt_slot = of_nat (readyIndex + 1), pt_sessionId = sessionId, pt_generation = generation,
          pt_posX = cp_x spawn, pt_posY = cp_y spawn, pt_tickDeltaX = 0, pt_tickDeltaY = 0,
          pt_latestSeenActionSequence = None, pt_moveBucket = (None, 6000000000),
          pt_attackBucket = (None, 4000000000), pt_claimBucket = (None, 4000000000),
          pt_lastAcceptedAttackNanos = None, pt_attackResults = new_store sessionId generation battleId,
          pt_lootResults = new_store sessionId generation battleId, pt_gameplayEligible = True,
          pt_inputEnabled = True, pt_exitStatus = GameplayEligible\<rparr>)"

definition commitGameplay :: "battle \<Rightarrow> battle" where
  "commitGameplay b =
     (let ready = filter (\<lambda>c. cd_state c = Ready) (b_candidates b);
          participants = map2 (newParticipant (b_battleId b) (length ready)) [0..<length ready] ready
      in b\<lparr>b_captured := b_captured b @ map capture ready,
           b_participants := b_participants b @ participants,
           b_monster := Some (spawnMonster (monsterHitPointsForParticipants
             (of_nat (length (b_participants b @ participants))))),
           b_state := GameplayCommitted, b_loadDeadlineTick := None,
           b_combatDeadlineTick := Some (addTicks (bt_tick (b_time b)) 600)\<rparr>)"

definition resolveIfComplete :: "battle \<Rightarrow> battle" where
  "resolveIfComplete b =
     (if list_ex (\<lambda>c. cd_state c = PendingLoad) (b_candidates b) then b
      else if length (filter (\<lambda>c. cd_state c = Ready) (b_candidates b)) < 2
      then b\<lparr>b_state := LoadCancelled, b_loadDeadlineTick := None\<rparr>
      else commitGameplay b)"

definition completeLoad :: "load_command \<Rightarrow> bool \<Rightarrow> battle_time \<Rightarrow> battle \<Rightarrow> load_code \<times> battle" where
  "completeLoad c gameplayTransportReady at b =
     (case correlate c b of
        Inl e \<Rightarrow> (e, b)
      | Inr candidate \<Rightarrow>
          if cd_state candidate = Ready then (LoadOk, b)
          else if b_state b \<noteq> LoadBarrierOpen \<or> cd_state candidate \<noteq> PendingLoad then (LoadNotEligible, b)
          else if \<not> gameplayTransportReady then (LoadOk, b)
          else (LoadOk, resolveIfComplete (upd_candidate (lc_sessionId c) Ready (observeBattleTime at b))))"

definition expireLoadBarrier :: "room_id \<Rightarrow> battle_id \<Rightarrow> battle_time \<Rightarrow> battle \<Rightarrow> load_code \<times> battle" where
  "expireLoadBarrier roomId battleId at b =
     (if roomId \<noteq> b_roomId b \<or> battleId \<noteq> b_battleId b then (LoadStaleBattle, b)
      else if b_state b \<noteq> LoadBarrierOpen
      then (if b_state b = Created then LoadNotEligible else LoadOk, b)
      else if \<not> time_valid at \<or> (case b_loadDeadlineTick b of None \<Rightarrow> True | Some deadline \<Rightarrow> bt_tick at < deadline)
      then (LoadNotEligible, b)
      else
        let b = observeBattleTime at b;
            b = b\<lparr>b_candidates := map (\<lambda>c. if cd_state c = PendingLoad
              then c\<lparr>cd_state := CandidateTimedOut\<rparr> else c) (b_candidates b)\<rparr>
        in (LoadOk, resolveIfComplete b))"

text \<open>The overload without a time uses the deadline itself.\<close>

definition expireLoadBarrierNow :: "room_id \<Rightarrow> battle_id \<Rightarrow> battle \<Rightarrow> load_code \<times> battle" where
  "expireLoadBarrierNow roomId battleId b =
     expireLoadBarrier roomId battleId
       (case b_loadDeadlineTick b of Some deadline \<Rightarrow> fromLogicalTick deadline | None \<Rightarrow> b_time b) b"

section \<open>The final result\<close>

definition markLootResultsCompleted :: "battle_time \<Rightarrow> battle \<Rightarrow> battle" where
  "markLootResultsCompleted completedAt b =
     (if b_lootResultsCompletedAt b \<noteq> None then b
      else b\<lparr>b_lootResultsCompletedAt := Some (bt_nanos completedAt),
             b_participants := map (\<lambda>p. p\<lparr>pt_lootResults :=
               markBattleCompleted (bt_nanos completedAt) (pt_lootResults p)\<rparr>) (b_participants b)\<rparr>)"

text \<open>The outcome to commit, if the battle is over: \<open>commitResultIfReady\<close>, its two sources.\<close>

definition readyOutcome :: "battle \<Rightarrow> battle_outcome option" where
  "readyOutcome b =
     (case b_terminalOutcome b of
        Some outcome \<Rightarrow> Some outcome
      | None \<Rightarrow>
          (case b_combatTerminal b of
             None \<Rightarrow> None
           | Some t \<Rightarrow>
               if ct_outcome t = MonsterDefeated \<and> b_lootResolution b \<noteq> LootResolved then None
               else Some (if ct_outcome t = MonsterDefeated then OutcomeMonsterDefeated
                          else OutcomeCombatTimeout)))"

definition resultSource :: "battle_outcome \<Rightarrow> battle \<Rightarrow> build_source" where
  "resultSource outcome b = \<lparr>bs_roomId = b_roomId b, bs_battleId = b_battleId b, bs_outcome = outcome,
     bs_captured = b_captured b, bs_drops = b_drops b, bs_holdings = b_holdings b\<rparr>"

definition terminalStatuses :: "battle \<Rightarrow> battle" where
  "terminalStatuses b = b\<lparr>
     b_captured := map (\<lambda>c. c\<lparr>ca_exitStatus := terminalExitStatus (ca_exitStatus c)\<rparr>) (b_captured b),
     b_participants := map (\<lambda>p. p\<lparr>pt_inputEnabled := False,
       pt_exitStatus := terminalExitStatus (pt_exitStatus p)\<rparr>) (b_participants b)\<rparr>"

definition commitResultIfReady :: "battle_time \<Rightarrow> battle \<Rightarrow> battle" where
  "commitResultIfReady completedAt b =
     (if b_resultState b \<noteq> NotReady then b
      else case readyOutcome b of
             None \<Rightarrow> b
           | Some outcome \<Rightarrow>
               (case buildFinalResult (resultSource outcome b) v1Snapshot of
                  Inl e \<Rightarrow> markLootResultsCompleted completedAt
                    (clearDeadlines (b\<lparr>b_resultState := ResultGenerationFailed\<rparr>))
                | Inr built \<Rightarrow>
                    let b = (clearDeadlines (b\<lparr>b_committedResult := Some built, b_resultState := Committed\<rparr>))
                              \<lparr>b_terminalOutcome := Some outcome\<rparr>;
                        b = (if outcome \<noteq> OutcomeCancelled then terminalStatuses b else b)
                    in markLootResultsCompleted completedAt b))"

section \<open>Exits\<close>

text \<open>Every drop that is still available becomes unclaimed.\<close>

definition closeDrops :: "loot_drop list \<Rightarrow> loot_drop list" where
  "closeDrops ds = map (\<lambda>d. if ld_state d = DropAvailable then d\<lparr>ld_state := DropUnclaimed\<rparr> else d) ds"

definition applyCancellationIfNoActiveParticipants :: "battle \<Rightarrow> battle" where
  "applyCancellationIfNoActiveParticipants b =
     (if b_terminalOutcome b \<noteq> None \<or> b_resultState b \<noteq> NotReady then b
      else if list_ex pt_gameplayEligible (b_participants b) then b
      else
        let b = clearDeadlines (b\<lparr>b_terminalOutcome := Some OutcomeCancelled\<rparr>)
        in if b_lootResolution b = LootOpen
           then b\<lparr>b_drops := closeDrops (b_drops b), b_lootResolution := LootResolved\<rparr>
           else b)"

definition freezeParticipant :: "session_id \<Rightarrow> exit_status \<Rightarrow> battle \<Rightarrow> battle" where
  "freezeParticipant s exitStatus b =
     (upd s (\<lambda>p. p\<lparr>pt_gameplayEligible := False, pt_inputEnabled := False, pt_tickDeltaX := 0,
        pt_tickDeltaY := 0, pt_exitStatus := exitStatus\<rparr>) b)
     \<lparr>b_captured := update_first (\<lambda>c. ca_sessionId c = s) (\<lambda>c. c\<lparr>ca_exitStatus := exitStatus\<rparr>) (b_captured b)\<rparr>"

definition freezeExited :: "load_command \<Rightarrow> exit_status \<Rightarrow> battle_time \<Rightarrow> battle \<Rightarrow> load_code \<times> battle" where
  "freezeExited c exitStatus completedAt b =
     (case correlate c b of
        Inl e \<Rightarrow> (e, b)
      | Inr candidate \<Rightarrow>
          if b_state b \<noteq> GameplayCommitted then (LoadOk, b)
          else case participantRecord (lc_sessionId c) b of
                 None \<Rightarrow> (LoadOk, b)
               | Some p \<Rightarrow>
                   if pt_exitStatus p \<noteq> GameplayEligible then (LoadOk, b)
                   else (LoadOk, commitResultIfReady completedAt (applyCancellationIfNoActiveParticipants
                          (freezeParticipant (lc_sessionId c) exitStatus (observeBattleTime completedAt b)))))"

definition disconnectCandidate :: "load_command \<Rightarrow> battle_time \<Rightarrow> battle \<Rightarrow> load_code \<times> battle" where
  "disconnectCandidate c completedAt b =
     (case correlate c b of
        Inl e \<Rightarrow> (e, b)
      | Inr candidate \<Rightarrow>
          if b_state b = GameplayCommitted then freezeExited c ExitDisconnected completedAt b
          else if b_state b \<noteq> LoadBarrierOpen \<or> cd_state candidate \<noteq> PendingLoad then (LoadOk, b)
          else (LoadOk, resolveIfComplete
                 (upd_candidate (lc_sessionId c) CandidateDisconnected (observeBattleTime completedAt b))))"

definition leaveBattle :: "load_command \<Rightarrow> battle_time \<Rightarrow> battle \<Rightarrow> load_code \<times> battle" where
  "leaveBattle c completedAt b = freezeExited c VoluntaryLeft completedAt b"

end
