(* ===== verification/BattleCombat.thy ===== *)
theory BattleCombat
  imports BattleCore
begin

text \<open>
  \<open>BattleInstance.cpp\<close>, second part, and \<open>application/LootHandler.cpp\<close>: input
  ownership, movement, snapshots, attacks, the deadlines of combat and loot, and claims. Where the
  code calls \<open>std::terminate\<close> the operation is \<open>None\<close>; the theory BattleSafety
  shows that no reachable battle gets there.
\<close>

section \<open>Input ownership\<close>

datatype input_code = InputOk | InputStaleSession | InputStaleBattle | InputNotEligible

definition suspendInput :: "session_id \<Rightarrow> session_generation \<Rightarrow> battle_time \<Rightarrow> battle \<Rightarrow> input_code \<times> battle" where
  "suspendInput s generation at b =
     (if b_state b \<noteq> GameplayCommitted then (InputNotEligible, b)
      else case participantRecord s b of
             None \<Rightarrow> (InputNotEligible, b)
           | Some p \<Rightarrow>
               if pt_generation p \<noteq> generation then (InputStaleSession, b)
               else if pt_inputEnabled p \<or> pt_tickDeltaX p \<noteq> 0 \<or> pt_tickDeltaY p \<noteq> 0
               then (InputOk, upd s (\<lambda>p. p\<lparr>pt_inputEnabled := False, pt_tickDeltaX := 0, pt_tickDeltaY := 0\<rparr>)
                      (observeBattleTime at b))
               else (InputOk, b))"

definition resumeInput :: "session_id \<Rightarrow> session_generation \<Rightarrow> battle_time \<Rightarrow> battle \<Rightarrow> input_code \<times> battle" where
  "resumeInput s generation at b =
     (if b_state b \<noteq> GameplayCommitted then (InputNotEligible, b)
      else case participantRecord s b of
             None \<Rightarrow> (InputNotEligible, b)
           | Some p \<Rightarrow>
               if pt_generation p \<noteq> generation then (InputStaleSession, b)
               else
                 let inputEnabled = (pt_gameplayEligible p \<and> b_resultState b = NotReady)
                 in if pt_inputEnabled p \<noteq> inputEnabled
                    then (InputOk, upd s (\<lambda>p. p\<lparr>pt_inputEnabled := inputEnabled\<rparr>) (observeBattleTime at b))
                    else (InputOk, b))"

section \<open>Movement\<close>

datatype move_code =
    MoveOk | MoveInvalidArgument | MoveStaleSession | MoveStaleBattle | MoveNotEligible
  | StaleAction | StaleTick | MoveRateLimited

record move_command =
  mc_sessionId :: session_id
  mc_generation :: session_generation
  mc_battleId :: battle_id
  mc_actionSequence :: u32
  mc_desiredX :: "16 word"
  mc_desiredY :: "16 word"
  mc_inputFlags :: u16

definition acceptMove :: "move_command \<Rightarrow> battle_time \<Rightarrow> battle \<Rightarrow> move_code \<times> battle" where
  "acceptMove c at b =
     (if mc_battleId c \<noteq> b_battleId b then (MoveStaleBattle, b)
      else if b_state b \<noteq> GameplayCommitted then (MoveNotEligible, b)
      else case participantRecord (mc_sessionId c) b of
             None \<Rightarrow> (MoveNotEligible, b)
           | Some p \<Rightarrow>
               if pt_generation p \<noteq> mc_generation c then (MoveStaleSession, b)
               else if \<not> pt_gameplayEligible p then (MoveNotEligible, b)
               else if \<not> pt_inputEnabled p then (MoveNotEligible, b)
               else if mc_inputFlags c \<noteq> 0 \<or> mc_desiredX c = 0x8000 \<or> mc_desiredY c = 0x8000
               then (MoveInvalidArgument, b)
               else if (case pt_latestSeenActionSequence p of None \<Rightarrow> False
                        | Some latest \<Rightarrow> \<not> serialNewer (mc_actionSequence c) latest)
               then (StaleAction, b)
               else
                 let b = observeBattleTime at b; full = move_refill (bt_nanos at) (pt_moveBucket p)
                 in case bucket_take full of
                      None \<Rightarrow> (MoveRateLimited, upd (mc_sessionId c) (\<lambda>p. p\<lparr>pt_moveBucket := full\<rparr>) b)
                    | Some rest \<Rightarrow>
                        let (deltaX, deltaY) = tickDelta (mc_desiredX c) (mc_desiredY c)
                        in (MoveOk, upd (mc_sessionId c) (\<lambda>p. p\<lparr>pt_moveBucket := rest,
                              pt_latestSeenActionSequence := Some (mc_actionSequence c),
                              pt_tickDeltaX := deltaX, pt_tickDeltaY := deltaY\<rparr>) b))"

definition clamp_position :: "int \<Rightarrow> int" where
  "clamp_position v = (if v < - 10000 then - 10000 else if 10000 < v then 10000 else v)"

definition move_participant :: "participant \<Rightarrow> participant" where
  "move_participant p =
     (if \<not> pt_gameplayEligible p \<or> \<not> pt_inputEnabled p then p
      else p\<lparr>pt_posX := clamp_position (pt_posX p + pt_tickDeltaX p),
             pt_posY := clamp_position (pt_posY p + pt_tickDeltaY p)\<rparr>)"

definition integrateMovement :: "battle_id \<Rightarrow> u32 \<Rightarrow> battle_time \<Rightarrow> battle \<Rightarrow> move_code \<times> battle" where
  "integrateMovement battleId serverTick at b =
     (if battleId \<noteq> b_battleId b then (MoveStaleBattle, b)
      else if b_state b \<noteq> GameplayCommitted then (MoveNotEligible, b)
      else if (case b_lastIntegratedServerTick b of None \<Rightarrow> False
               | Some latest \<Rightarrow> \<not> serialNewer serverTick latest)
      then (StaleTick, b)
      else
        let b = observeBattleTime at b
        in (MoveOk, b\<lparr>b_participants := map move_participant (b_participants b),
              b_lastIntegratedServerTick := Some serverTick\<rparr>))"

definition serverTickOf :: "battle \<Rightarrow> u32" where
  "serverTickOf b = (case b_lastIntegratedServerTick b of None \<Rightarrow> 0 | Some tick \<Rightarrow> tick)"

record movement_projection =
  mp_battleId :: battle_id
  mp_serverTick :: u32
  mp_players :: "(session_id \<times> int \<times> int) list"

definition movementProjection :: "battle \<Rightarrow> movement_projection" where
  "movementProjection b = \<lparr>mp_battleId = b_battleId b, mp_serverTick = serverTickOf b,
     mp_players = map (\<lambda>p. (pt_sessionId p, pt_posX p, pt_posY p)) (b_participants b)\<rparr>"

text \<open>A snapshot is a numbered movement projection; the number is never 0.\<close>

definition bump :: "u32 \<Rightarrow> u32" where
  "bump n = (if n + 1 = 0 then 1 else n + 1)"

definition captureStateSnapshot :: "battle \<Rightarrow> (u32 \<times> movement_projection) option \<times> battle" where
  "captureStateSnapshot b =
     (if b_state b \<noteq> GameplayCommitted \<or> b_lastIntegratedServerTick b = None then (None, b)
      else (Some (b_nextSnapshotSequence b, movementProjection b),
            b\<lparr>b_nextSnapshotSequence := bump (b_nextSnapshotSequence b)\<rparr>))"

section \<open>Attacks\<close>

definition makeAttackResult :: "attack_command \<Rightarrow> attack_code \<Rightarrow> u32 \<Rightarrow> combat_outcome \<Rightarrow> attack_result" where
  "makeAttackResult c code remainingHitPoints outcome =
     \<lparr>ar_commandId = cm_commandId c, ar_battleId = cm_battleId c, ar_code = code, ar_monsterId = 1,
      ar_remainingHitPoints = remainingHitPoints, ar_rulesetVersion = 4, ar_outcome = outcome\<rparr>"

definition currentHitPoints :: "battle \<Rightarrow> u32" where
  "currentHitPoints b = (case b_monster b of None \<Rightarrow> 0 | Some m \<Rightarrow> mo_hitPoints m)"

definition currentOutcome :: "battle \<Rightarrow> combat_outcome" where
  "currentOutcome b = (case b_combatTerminal b of None \<Rightarrow> NoOutcome | Some t \<Rightarrow> ct_outcome t)"

definition attackResultNow :: "attack_command \<Rightarrow> attack_code \<Rightarrow> battle \<Rightarrow> attack_result" where
  "attackResultNow c code b = makeAttackResult c code (currentHitPoints b) (currentOutcome b)"

text \<open>The \<open>retain\<close> closure of \<open>attack\<close>.\<close>

definition retainAttack :: "attack_command \<Rightarrow> attack_code \<Rightarrow> battle \<Rightarrow> (attack_result \<times> battle) option" where
  "retainAttack c code b =
     (case participantRecord (cm_sessionId c) b of
        None \<Rightarrow> None
      | Some p \<Rightarrow>
          let result = attackResultNow c code b
          in case retain attack_answers c result (pt_attackResults p) of
               None \<Rightarrow> None
             | Some s \<Rightarrow> Some (result, upd (cm_sessionId c) (\<lambda>p. p\<lparr>pt_attackResults := s\<rparr>) b))"

definition terminalRecord :: "combat_outcome \<Rightarrow> battle \<Rightarrow> combat_terminal" where
  "terminalRecord outcome b = \<lparr>ct_eventId = EventId (battle_value (b_battleId b)) 2,
     ct_battleId = b_battleId b, ct_eventSequence = 2, ct_outcome = outcome,
     ct_monsterId = (case b_monster b of None \<Rightarrow> 0 | Some m \<Rightarrow> mo_id m),
     ct_serverTick = serverTickOf b, ct_rulesetVersion = 4\<rparr>"

definition markAttackResultsCompleted :: "battle_time \<Rightarrow> battle \<Rightarrow> battle" where
  "markAttackResultsCompleted at b = b\<lparr>b_participants := map (\<lambda>p. p\<lparr>pt_attackResults :=
     markBattleCompleted (bt_nanos at) (pt_attackResults p)\<rparr>) (b_participants b)\<rparr>"

text \<open>Drops exist only after the monster is defeated.\<close>

definition openLoot :: "battle_time \<Rightarrow> battle \<Rightarrow> battle" where
  "openLoot at b =
     (case generateDrops (b_seed b) 1 (of_nat (length (b_captured b))) v1Snapshot of
        Some drops \<Rightarrow>
          b\<lparr>b_drops := b_drops b @ map (\<lambda>d. \<lparr>ld_drop = d, ld_state = DropAvailable, ld_owner = None\<rparr>) drops,
            b_lootResolution := LootOpen, b_lootDeadlineTick := Some (addTicks (bt_tick at) 300)\<rparr>
      | None \<Rightarrow> markLootResultsCompleted at (b\<lparr>b_resultState := ResultGenerationFailed\<rparr>))"

text \<open>The part of \<open>attack\<close> after the monster died.\<close>

definition attackLethal :: "attack_command \<Rightarrow> battle_time \<Rightarrow> battle \<Rightarrow> (attack_result \<times> battle) option" where
  "attackLethal c at b =
     (let b = b\<lparr>b_combatTerminal := Some (terminalRecord MonsterDefeated b), b_combatDeadlineTick := None\<rparr>;
          b = openLoot at b
      in case retainAttack c AttackOk b of
           None \<Rightarrow> None
         | Some (result, b) \<Rightarrow> Some (result, commitResultIfReady at (markAttackResultsCompleted at b)))"

text \<open>Target, range, cooldown and damage.\<close>

definition coolingDown :: "u64 option \<Rightarrow> u64 \<Rightarrow> bool" where
  "coolingDown lastAccepted now =
     (case lastAccepted of None \<Rightarrow> False | Some since \<Rightarrow> now < since \<or> now - since < 750 * 1000000)"

definition attackStrike :: "attack_command \<Rightarrow> battle_time \<Rightarrow> participant \<Rightarrow> monster \<Rightarrow> battle
  \<Rightarrow> (attack_result \<times> battle) option" where
  "attackStrike c at p m b =
     (if cm_hint c \<noteq> mo_id m \<or> mo_state m \<noteq> Alive then retainAttack c AttackInvalidTarget b
      else if \<not> inAttackRange (pos (pt_posX p) (pt_posY p)) (mo_position m)
      then retainAttack c AttackOutOfRange b
      else if coolingDown (pt_lastAcceptedAttackNanos p) (bt_nanos at) then retainAttack c AttackCooldown b
      else
        let (damage, m) = applyAttack m;
            b = upd (cm_sessionId c) (\<lambda>p. p\<lparr>pt_lastAcceptedAttackNanos := Some (bt_nanos at)\<rparr>)
                  (b\<lparr>b_monster := Some m\<rparr>)
        in (case damage of
              DamageApplied \<Rightarrow> retainAttack c AttackOk b
            | NotAlive \<Rightarrow> None
            | DamageLethal \<Rightarrow>
                let (completed, m) = completeDeath m
                in if \<not> completed then None else attackLethal c at (b\<lparr>b_monster := Some m\<rparr>)))"

text \<open>Eligibility and the rate limit of a command that has no stored result.\<close>

definition attackFresh :: "attack_command \<Rightarrow> battle_time \<Rightarrow> participant \<Rightarrow> monster \<Rightarrow> battle
  \<Rightarrow> (attack_result \<times> battle) option" where
  "attackFresh c at p m b =
     (if \<not> pt_gameplayEligible p then retainAttack c AttackNotEligible b
      else if b_combatTerminal b \<noteq> None then retainAttack c AttackTerminalAlreadyDecided b
      else if \<not> pt_inputEnabled p then retainAttack c AttackNotEligible b
      else
        let full = attack_refill (bt_nanos at) (pt_attackBucket p)
        in case bucket_take full of
             None \<Rightarrow> retainAttack c AttackOverloaded
               (upd (cm_sessionId c) (\<lambda>p. p\<lparr>pt_attackBucket := full\<rparr>) b)
           | Some rest \<Rightarrow> attackStrike c at p m
               (upd (cm_sessionId c) (\<lambda>p. p\<lparr>pt_attackBucket := rest\<rparr>) b))"

definition attack :: "attack_command \<Rightarrow> battle_time \<Rightarrow> battle \<Rightarrow> (attack_result \<times> battle) option" where
  "attack c at b =
     (if cm_battleId c \<noteq> b_battleId b then Some (attackResultNow c AttackStaleBattle b, b)
      else if b_state b \<noteq> GameplayCommitted then Some (attackResultNow c AttackNotEligible b, b)
      else case b_monster b of
             None \<Rightarrow> Some (attackResultNow c AttackNotEligible b, b)
           | Some m \<Rightarrow>
      (case participantRecord (cm_sessionId c) b of
         None \<Rightarrow> Some (attackResultNow c AttackNotEligible b, b)
       | Some p \<Rightarrow>
           if pt_generation p \<noteq> cm_generation c then Some (attackResultNow c AttackStaleSession b, b)
           else
             let (evicted, s) = evictExpired (bt_nanos at) (pt_attackResults p);
                 b = upd (cm_sessionId c) (\<lambda>p. p\<lparr>pt_attackResults := s\<rparr>) b;
                 b = (if evicted \<noteq> 0 then observeBattleTime at b else b)
             in (case inspect c s of
                   Replay result \<Rightarrow> Some (result, b)
                 | Conflict \<Rightarrow> Some (attackResultNow c AttackCommandConflict b, b)
                 | StoreOverloaded \<Rightarrow> Some (attackResultNow c AttackOverloaded b, b)
                 | ScopeMismatch \<Rightarrow> None
                 | Available \<Rightarrow> attackFresh c at p m (observeBattleTime at b))))"

record attack_applied =
  aa_eventId :: event_id
  aa_battleId :: battle_id
  aa_eventSequence :: u32
  aa_attackerSessionId :: session_id
  aa_monsterId :: u64
  aa_actualDamage :: u32
  aa_remainingHitPoints :: u32
  aa_serverTick :: u32
  aa_outcome :: combat_outcome

definition appliedRecord :: "attack_command \<Rightarrow> u32 \<Rightarrow> u32 \<Rightarrow> battle \<Rightarrow> attack_applied" where
  "appliedRecord c hitPointsBefore sequence b =
     \<lparr>aa_eventId = EventId (battle_value (b_battleId b)) (push_bit 32 3 OR ucast sequence),
      aa_battleId = b_battleId b, aa_eventSequence = sequence, aa_attackerSessionId = cm_sessionId c,
      aa_monsterId = (case b_monster b of None \<Rightarrow> 0 | Some m \<Rightarrow> mo_id m),
      aa_actualDamage = hitPointsBefore - currentHitPoints b, aa_remainingHitPoints = currentHitPoints b,
      aa_serverTick = serverTickOf b, aa_outcome = currentOutcome b\<rparr>"

definition attackWithApplied :: "attack_command \<Rightarrow> battle_time \<Rightarrow> battle
  \<Rightarrow> ((attack_result \<times> attack_applied option) \<times> battle) option" where
  "attackWithApplied c at b0 =
     (case attack c at b0 of
        None \<Rightarrow> None
      | Some (result, b) \<Rightarrow>
          if ar_code result \<noteq> AttackOk \<or> currentHitPoints b0 \<le> currentHitPoints b then Some ((result, None), b)
          else
            let sequence = b_nextAttackAppliedSequence b;
                b = b\<lparr>b_nextAttackAppliedSequence := bump sequence\<rparr>
            in Some ((result, Some (appliedRecord c (currentHitPoints b0) sequence b)), b))"

section \<open>Deadlines\<close>

datatype combat_deadline_code = CombatDeadlineOk | CombatDeadlineNotEligible | CombatDeadlineStaleBattle
  | CombatTerminalAlreadyDecided

datatype loot_deadline_code = LootDeadlineOk | LootDeadlineNotEligible | LootDeadlineStaleBattle
  | LootResolutionClosed

definition notDue :: "battle_time \<Rightarrow> u64 option \<Rightarrow> bool" where
  "notDue at deadline \<longleftrightarrow>
     \<not> time_valid at \<or> (case deadline of None \<Rightarrow> True | Some tick \<Rightarrow> bt_tick at < tick)"

definition expireCombat :: "battle_id \<Rightarrow> battle_time \<Rightarrow> battle \<Rightarrow> combat_deadline_code \<times> battle" where
  "expireCombat battleId completedAt b =
     (if battleId \<noteq> b_battleId b then (CombatDeadlineStaleBattle, b)
      else if b_state b \<noteq> GameplayCommitted then (CombatDeadlineNotEligible, b)
      else case b_monster b of
             None \<Rightarrow> (CombatDeadlineNotEligible, b)
           | Some m \<Rightarrow>
               if b_combatTerminal b \<noteq> None \<or> b_terminalOutcome b \<noteq> None
               then (CombatTerminalAlreadyDecided, b)
               else if notDue completedAt (b_combatDeadlineTick b) then (CombatDeadlineNotEligible, b)
               else
                 let (timedOut, m) = monsterTimeout m
                 in if \<not> timedOut then (CombatTerminalAlreadyDecided, b)
                    else
                      let b = observeBattleTime completedAt (b\<lparr>b_monster := Some m\<rparr>);
                          b = b\<lparr>b_combatTerminal := Some (terminalRecord CombatTimeout b),
                                b_combatDeadlineTick := None\<rparr>
                      in (CombatDeadlineOk,
                          commitResultIfReady completedAt (markAttackResultsCompleted completedAt b)))"

definition expireCombatNow :: "battle_id \<Rightarrow> battle \<Rightarrow> combat_deadline_code \<times> battle" where
  "expireCombatNow battleId b =
     expireCombat battleId
       (case b_combatDeadlineTick b of Some deadline \<Rightarrow> fromLogicalTick deadline | None \<Rightarrow> b_time b) b"

definition expireLoot :: "battle_id \<Rightarrow> battle_time \<Rightarrow> battle \<Rightarrow> loot_deadline_code \<times> battle" where
  "expireLoot battleId completedAt b =
     (if battleId \<noteq> b_battleId b then (LootDeadlineStaleBattle, b)
      else if b_lootResolution b \<noteq> LootOpen
      then (if b_lootResolution b = LootResolved then LootResolutionClosed else LootDeadlineNotEligible, b)
      else if notDue completedAt (b_lootDeadlineTick b) then (LootDeadlineNotEligible, b)
      else
        let b = observeBattleTime completedAt b;
            b = b\<lparr>b_drops := closeDrops (b_drops b), b_lootResolution := LootResolved,
                  b_lootDeadlineTick := None\<rparr>
        in (LootDeadlineOk, commitResultIfReady completedAt b))"

definition expireLootNow :: "battle_id \<Rightarrow> battle \<Rightarrow> loot_deadline_code \<times> battle" where
  "expireLootNow battleId b =
     expireLoot battleId
       (case b_lootDeadlineTick b of Some deadline \<Rightarrow> fromLogicalTick deadline | None \<Rightarrow> b_time b) b"

section \<open>Projections\<close>

record combat_projection =
  cb_battleId :: battle_id
  cb_monsterId :: u64
  cb_hitPoints :: u32
  cb_monsterState :: monster_state
  cb_outcome :: combat_outcome
  cb_terminal :: "combat_terminal option"
  cb_serverTick :: u32

definition combatProjection :: "battle \<Rightarrow> combat_projection option" where
  "combatProjection b =
     map_option (\<lambda>m. \<lparr>cb_battleId = b_battleId b, cb_monsterId = mo_id m, cb_hitPoints = mo_hitPoints m,
       cb_monsterState = mo_state m, cb_outcome = currentOutcome b, cb_terminal = b_combatTerminal b,
       cb_serverTick = serverTickOf b\<rparr>) (b_monster b)"

record loot_projection =
  lp_battleId :: battle_id
  lp_resolution :: loot_resolution
  lp_drops :: "loot_drop list"
  lp_holdings :: "holding list"

definition lootProjection :: "battle \<Rightarrow> loot_projection" where
  "lootProjection b = \<lparr>lp_battleId = b_battleId b, lp_resolution = b_lootResolution b,
     lp_drops = b_drops b, lp_holdings = b_holdings b\<rparr>"

definition resultProjection :: "battle \<Rightarrow> result_state \<times> final_result option" where
  "resultProjection b = (b_resultState b, b_committedResult b)"

record load_projection =
  lj_roomId :: room_id
  lj_battleId :: battle_id
  lj_state :: load_state
  lj_candidates :: "(session_id \<times> session_generation \<times> candidate_state) list"
  lj_captured :: "captured_participant list"

definition loadProjection :: "battle \<Rightarrow> load_projection" where
  "loadProjection b = \<lparr>lj_roomId = b_roomId b, lj_battleId = b_battleId b, lj_state = b_state b,
     lj_candidates = map (\<lambda>c. (sc_sessionId (cd_identity c), sc_generation (cd_identity c), cd_state c))
       (b_candidates b),
     lj_captured = b_captured b\<rparr>"

record resume_participant =
  rp_sessionId :: session_id
  rp_generation :: session_generation
  rp_posX :: int
  rp_posY :: int
  rp_exitStatus :: exit_status
  rp_inputEnabled :: bool

record resume_projection =
  rj_roomId :: room_id
  rj_battleId :: battle_id
  rj_sessionId :: session_id
  rj_generation :: session_generation
  rj_battleState :: load_state
  rj_serverTick :: u32
  rj_inputEnabled :: bool
  rj_participants :: "resume_participant list"
  rj_combat :: "combat_projection option"
  rj_loot :: loot_projection
  rj_result :: "result_state \<times> final_result option"

definition resumeProjection :: "session_id \<Rightarrow> session_generation \<Rightarrow> battle \<Rightarrow> resume_projection option" where
  "resumeProjection s generation b =
     (if b_state b \<noteq> GameplayCommitted then None
      else case participantRecord s b of
             None \<Rightarrow> None
           | Some found \<Rightarrow>
               if pt_generation found \<noteq> generation then None
               else Some \<lparr>rj_roomId = b_roomId b, rj_battleId = b_battleId b, rj_sessionId = s,
                 rj_generation = generation, rj_battleState = b_state b, rj_serverTick = serverTickOf b,
                 rj_inputEnabled = pt_inputEnabled found,
                 rj_participants = map (\<lambda>p. \<lparr>rp_sessionId = pt_sessionId p, rp_generation = pt_generation p,
                   rp_posX = pt_posX p, rp_posY = pt_posY p, rp_exitStatus = pt_exitStatus p,
                   rp_inputEnabled = pt_inputEnabled p\<rparr>) (b_participants b),
                 rj_combat = combatProjection b, rj_loot = lootProjection b, rj_result = resultProjection b\<rparr>)"

definition retainedLootResults :: "battle \<Rightarrow> retained_results option" where
  "retainedLootResults b =
     map_option (\<lambda>completedAt. \<lparr>rl_battleId = b_battleId b, rl_completedAt = completedAt,
       rl_compatibility = None, rl_stores = map pt_lootResults (b_participants b)\<rparr>)
     (b_lootResultsCompletedAt b)"

end
