(* ===== verification/BattleLoot.thy ===== *)
theory BattleLoot
  imports BattleCombat
begin

text \<open>
  \<open>game-server/modules/battle/src/application/LootHandler.cpp\<close>: claiming a drop.
\<close>

section \<open>Claims\<close>

definition inClaimRange :: "drop_position \<Rightarrow> int \<Rightarrow> int \<Rightarrow> bool" where
  "inClaimRange d x y =
     (let deltaX = dp_x d - x; deltaY = dp_y d - y
      in if deltaX < - 1500 \<or> 1500 < deltaX \<or> deltaY < - 1500 \<or> 1500 < deltaY then False
         else deltaX * deltaX + deltaY * deltaY \<le> 1500 * 1500)"

text \<open>The \<open>retain\<close> closure of \<open>claimLoot\<close>.\<close>

definition retainClaim :: "claim_command \<Rightarrow> claim_code \<Rightarrow> battle \<Rightarrow> (claim_result \<times> battle) option" where
  "retainClaim c code b =
     (case participantRecord (cm_sessionId c) b of
        None \<Rightarrow> None
      | Some p \<Rightarrow>
          let result = reject_claim c code
          in case retain claim_answers c result (pt_lootResults p) of
               None \<Rightarrow> None
             | Some s \<Rightarrow> Some (result, upd (cm_sessionId c) (\<lambda>p. p\<lparr>pt_lootResults := s\<rparr>) b))"

text \<open>The owner's holding of the item grows, or is created.\<close>

definition addHolding :: "session_id \<Rightarrow> item_id \<Rightarrow> u64 \<Rightarrow> holding list \<Rightarrow> holding list" where
  "addHolding s itemId quantity hs =
     (if list_ex (\<lambda>h. ho_sessionId h = s \<and> ho_itemId h = itemId) hs
      then update_first (\<lambda>h. ho_sessionId h = s \<and> ho_itemId h = itemId)
             (\<lambda>h. h\<lparr>ho_quantity := ho_quantity h + quantity\<rparr>) hs
      else hs @ [\<lparr>ho_sessionId = s, ho_itemId = itemId, ho_quantity = quantity\<rparr>])"

definition takeDrop :: "session_id \<Rightarrow> relic_drop \<Rightarrow> battle \<Rightarrow> battle" where
  "takeDrop s d b = b\<lparr>
     b_drops := update_first (\<lambda>r. rd_dropId (ld_drop r) = rd_dropId d)
       (\<lambda>r. r\<lparr>ld_state := DropClaimed, ld_owner := Some s\<rparr>) (b_drops b),
     b_holdings := addHolding s (rd_itemId d) (rd_quantity d) (b_holdings b)\<rparr>"

text \<open>The last available drop closes the resolution and commits the result, before the answer is
  stored.\<close>

definition claimDrop :: "claim_command \<Rightarrow> battle_time \<Rightarrow> relic_drop \<Rightarrow> battle
  \<Rightarrow> (claim_result \<times> battle) option" where
  "claimDrop c at d b =
     (let b = takeDrop (cm_sessionId c) d b;
          b = (if list_ex (\<lambda>r. ld_state r = DropAvailable) (b_drops b) then b
               else commitResultIfReady at (b\<lparr>b_lootResolution := LootResolved, b_lootDeadlineTick := None\<rparr>))
      in retainClaim c ClaimOk b)"

definition claimTarget :: "claim_command \<Rightarrow> battle_time \<Rightarrow> participant \<Rightarrow> battle
  \<Rightarrow> (claim_result \<times> battle) option" where
  "claimTarget c at p b =
     (if \<not> pt_gameplayEligible p then retainClaim c ClaimNotEligible b
      else if \<not> pt_inputEnabled p \<and> b_resultState b = NotReady then retainClaim c ClaimNotEligible b
      else if currentOutcome b \<noteq> MonsterDefeated then retainClaim c ClaimNotEligible b
      else if b_lootResolution b \<noteq> LootOpen then retainClaim c ResolutionClosed b
      else if drop_value (cm_hint c) = 0 then retainClaim c InvalidDrop b
      else case find (\<lambda>r. rd_dropId (ld_drop r) = cm_hint c) (b_drops b) of
             None \<Rightarrow> retainClaim c UnknownDrop b
           | Some r \<Rightarrow>
               if ld_state r = DropClaimed then retainClaim c AlreadyClaimed b
               else if ld_state r = DropUnclaimed then retainClaim c ResolutionClosed b
               else if \<not> inClaimRange (rd_position (ld_drop r)) (pt_posX p) (pt_posY p)
               then retainClaim c ClaimOutOfRange b
               else if unitValueOf v1Snapshot (rd_itemId (ld_drop r)) = None \<or> rd_quantity (ld_drop r) = 0
               then retainClaim c CatalogRejected b
               else claimDrop c at (ld_drop r) b)"

definition claimLoot :: "claim_command \<Rightarrow> battle_time \<Rightarrow> battle \<Rightarrow> (claim_result \<times> battle) option" where
  "claimLoot c at b =
     (if cm_battleId c \<noteq> b_battleId b then Some (reject_claim c ClaimStaleBattle, b)
      else if b_state b \<noteq> GameplayCommitted then Some (reject_claim c ClaimNotEligible, b)
      else case participantRecord (cm_sessionId c) b of
             None \<Rightarrow> Some (reject_claim c ClaimNotEligible, b)
           | Some p \<Rightarrow>
               if pt_generation p \<noteq> cm_generation c then Some (reject_claim c ClaimStaleSession, b)
               else case inspect c (pt_lootResults p) of
                      Replay result \<Rightarrow> Some (result, b)
                    | Conflict \<Rightarrow> Some (reject_claim c ClaimCommandConflict, b)
                    | StoreOverloaded \<Rightarrow> Some (reject_claim c ClaimOverloaded, b)
                    | ScopeMismatch \<Rightarrow> None
                    | Available \<Rightarrow>
                        let b = observeBattleTime at b;
                            full = claim_refill (bt_nanos at) (pt_claimBucket p)
                        in (case bucket_take full of
                              None \<Rightarrow> retainClaim c ClaimOverloaded
                                (upd (cm_sessionId c) (\<lambda>p. p\<lparr>pt_claimBucket := full\<rparr>) b)
                            | Some rest \<Rightarrow> claimTarget c at p
                                (upd (cm_sessionId c) (\<lambda>p. p\<lparr>pt_claimBucket := rest\<rparr>) b)))"

section \<open>The battle as a system of steps\<close>

text \<open>Every operation of the battle that changes it. The overloads that take no time pass the
  battle's own time, or the deadline; those that take the live clock convert it first; both are
  instances of an operation here.\<close>

datatype battle_op =
    OpenBarrier battle_time
  | CompleteLoad load_command bool battle_time
  | ExpireBarrier room_id battle_id battle_time
  | DisconnectParticipant load_command battle_time
  | LeaveParticipant load_command battle_time
  | SuspendInput session_id session_generation battle_time
  | ResumeInput session_id session_generation battle_time
  | Move move_command battle_time
  | Integrate battle_id u32 battle_time
  | Snapshot
  | Attack attack_command battle_time
  | ExpireCombat battle_id battle_time
  | Claim claim_command battle_time
  | ExpireLoot battle_id battle_time

fun battle_step :: "battle_op \<Rightarrow> battle \<Rightarrow> battle option" where
  "battle_step (OpenBarrier at) b = Some (snd (openLoadBarrier at b))"
| "battle_step (CompleteLoad c ready at) b = Some (snd (completeLoad c ready at b))"
| "battle_step (ExpireBarrier r i at) b = Some (snd (expireLoadBarrier r i at b))"
| "battle_step (DisconnectParticipant c at) b = Some (snd (disconnectCandidate c at b))"
| "battle_step (LeaveParticipant c at) b = Some (snd (leaveBattle c at b))"
| "battle_step (SuspendInput s g at) b = Some (snd (suspendInput s g at b))"
| "battle_step (ResumeInput s g at) b = Some (snd (resumeInput s g at b))"
| "battle_step (Move c at) b = Some (snd (acceptMove c at b))"
| "battle_step (Integrate i tick at) b = Some (snd (integrateMovement i tick at b))"
| "battle_step Snapshot b = Some (snd (captureStateSnapshot b))"
| "battle_step (Attack c at) b = map_option snd (attackWithApplied c at b)"
| "battle_step (ExpireCombat i at) b = Some (snd (expireCombat i at b))"
| "battle_step (Claim c at) b = map_option snd (claimLoot c at b)"
| "battle_step (ExpireLoot i at) b = Some (snd (expireLoot i at b))"

fun battle_run :: "battle_op list \<Rightarrow> battle \<Rightarrow> battle option" where
  "battle_run [] b = Some b"
| "battle_run (op # ops) b = (case battle_step op b of None \<Rightarrow> None | Some b' \<Rightarrow> battle_run ops b')"

end
