(* ===== verification/BattleInvariant.thy ===== *)
theory BattleInvariant
  imports BattleLoot
begin

text \<open>
  What a battle keeps: the invariant of \<open>BattleInstance\<close>, and that the load barrier, the exits
  and the commit of the final result keep it. The commit always builds: the source of a battle that
  keeps the invariant is a consistent ledger of the theory ResultBuilder.
\<close>

section \<open>Fields that a helper leaves alone\<close>

lemma observe_keeps [simp]:
  "b_roomId (observeBattleTime at b) = b_roomId b" "b_battleId (observeBattleTime at b) = b_battleId b"
  "b_seed (observeBattleTime at b) = b_seed b" "b_state (observeBattleTime at b) = b_state b"
  "b_candidates (observeBattleTime at b) = b_candidates b" "b_captured (observeBattleTime at b) = b_captured b"
  "b_participants (observeBattleTime at b) = b_participants b"
  "b_loadDeadlineTick (observeBattleTime at b) = b_loadDeadlineTick b"
  "b_combatDeadlineTick (observeBattleTime at b) = b_combatDeadlineTick b"
  "b_lootDeadlineTick (observeBattleTime at b) = b_lootDeadlineTick b"
  "b_lastIntegratedServerTick (observeBattleTime at b) = b_lastIntegratedServerTick b"
  "b_monster (observeBattleTime at b) = b_monster b"
  "b_combatTerminal (observeBattleTime at b) = b_combatTerminal b"
  "b_terminalOutcome (observeBattleTime at b) = b_terminalOutcome b"
  "b_drops (observeBattleTime at b) = b_drops b" "b_holdings (observeBattleTime at b) = b_holdings b"
  "b_lootResolution (observeBattleTime at b) = b_lootResolution b"
  "b_resultState (observeBattleTime at b) = b_resultState b"
  "b_committedResult (observeBattleTime at b) = b_committedResult b"
  "b_lootResultsCompletedAt (observeBattleTime at b) = b_lootResultsCompletedAt b"
  "b_nextAttackAppliedSequence (observeBattleTime at b) = b_nextAttackAppliedSequence b"
  "b_nextSnapshotSequence (observeBattleTime at b) = b_nextSnapshotSequence b"
  "b_rulesetVersion (observeBattleTime at b) = b_rulesetVersion b"
  by (simp_all add: observeBattleTime_def)

lemma upd_keeps [simp]:
  "b_roomId (upd s f b) = b_roomId b" "b_battleId (upd s f b) = b_battleId b"
  "b_seed (upd s f b) = b_seed b" "b_state (upd s f b) = b_state b" "b_time (upd s f b) = b_time b"
  "b_candidates (upd s f b) = b_candidates b" "b_captured (upd s f b) = b_captured b"
  "b_loadDeadlineTick (upd s f b) = b_loadDeadlineTick b"
  "b_combatDeadlineTick (upd s f b) = b_combatDeadlineTick b"
  "b_lootDeadlineTick (upd s f b) = b_lootDeadlineTick b"
  "b_lastIntegratedServerTick (upd s f b) = b_lastIntegratedServerTick b"
  "b_monster (upd s f b) = b_monster b" "b_combatTerminal (upd s f b) = b_combatTerminal b"
  "b_terminalOutcome (upd s f b) = b_terminalOutcome b"
  "b_drops (upd s f b) = b_drops b" "b_holdings (upd s f b) = b_holdings b"
  "b_lootResolution (upd s f b) = b_lootResolution b" "b_resultState (upd s f b) = b_resultState b"
  "b_committedResult (upd s f b) = b_committedResult b"
  "b_lootResultsCompletedAt (upd s f b) = b_lootResultsCompletedAt b"
  "b_nextAttackAppliedSequence (upd s f b) = b_nextAttackAppliedSequence b"
  "b_nextSnapshotSequence (upd s f b) = b_nextSnapshotSequence b"
  "b_rulesetVersion (upd s f b) = b_rulesetVersion b"
  by (simp_all add: upd_def)

lemma now_keeps [simp]:
  "currentHitPoints (upd s f b) = currentHitPoints b" "currentOutcome (upd s f b) = currentOutcome b"
  "currentHitPoints (observeBattleTime at b) = currentHitPoints b"
  "currentOutcome (observeBattleTime at b) = currentOutcome b"
  by (simp_all add: currentHitPoints_def currentOutcome_def)

lemma set_update_first_found:
  "find P xs = Some p \<Longrightarrow> set (update_first P f xs) \<subseteq> insert (f p) (set xs)"
  by (induction xs) (auto split: if_splits)

lemma map_update_first_found:
  "find P xs = Some p \<Longrightarrow> g (f p) = g p \<Longrightarrow> map g (update_first P f xs) = map g xs"
  by (induction xs) (auto split: if_splits)

lemma participantRecord_set:
  "participantRecord s b = Some p \<Longrightarrow> p \<in> set (b_participants b) \<and> pt_sessionId p = s"
  unfolding participantRecord_def by (rule find_set)

lemma participantRecord_upd:
  assumes "\<And>p. pt_sessionId (f p) = pt_sessionId p"
  shows "participantRecord s (upd s f b) = map_option f (participantRecord s b)"
  unfolding participantRecord_def upd_def by (simp add: assms find_update_first)

lemma participantRecord_cong:
  "b_participants b = b_participants b' \<Longrightarrow> participantRecord s b = participantRecord s b'"
  by (simp add: participantRecord_def)

lemma participantRecord_observe [simp]:
  "participantRecord s (observeBattleTime at b) = participantRecord s b"
  by (rule participantRecord_cong) simp

section \<open>The invariant\<close>

definition part_ok :: "battle_id \<Rightarrow> participant \<Rightarrow> bool" where
  "part_ok i p \<longleftrightarrow>
     st_sessionId (pt_attackResults p) = pt_sessionId p \<and> st_generation (pt_attackResults p) = pt_generation p \<and>
     st_battleId (pt_attackResults p) = i \<and> store_inv attack_entry_ok (pt_attackResults p) \<and>
     st_sessionId (pt_lootResults p) = pt_sessionId p \<and> st_generation (pt_lootResults p) = pt_generation p \<and>
     st_battleId (pt_lootResults p) = i \<and> store_inv loot_entry_ok (pt_lootResults p) \<and>
     \<bar>pt_posX p\<bar> \<le> 10000 \<and> \<bar>pt_posY p\<bar> \<le> 10000 \<and> \<bar>pt_tickDeltaX p\<bar> \<le> 250 \<and> \<bar>pt_tickDeltaY p\<bar> \<le> 250 \<and>
     snd (pt_moveBucket p) \<le> 6000000000 \<and> snd (pt_attackBucket p) \<le> 4000000000 \<and>
     snd (pt_claimBucket p) \<le> 4000000000 \<and>
     (pt_gameplayEligible p \<longleftrightarrow> pt_exitStatus p = GameplayEligible \<or> pt_exitStatus p = TerminalPresent) \<and>
     (pt_inputEnabled p \<longrightarrow> pt_gameplayEligible p) \<and>
     (\<not> pt_gameplayEligible p \<longrightarrow> pt_tickDeltaX p = 0 \<and> pt_tickDeltaY p = 0)"

definition captured_key :: "captured_participant \<Rightarrow> session_id \<times> session_generation \<times> exit_status" where
  "captured_key c = (ca_sessionId c, ca_generation c, ca_exitStatus c)"

definition participant_key :: "participant \<Rightarrow> session_id \<times> session_generation \<times> exit_status" where
  "participant_key p = (pt_sessionId p, pt_generation p, pt_exitStatus p)"

definition roster_ok :: "battle \<Rightarrow> bool" where
  "roster_ok b \<longleftrightarrow>
     2 \<le> length (b_captured b) \<and> length (b_captured b) \<le> 10 \<and>
     distinct (map ca_sessionId (b_captured b)) \<and>
     (\<forall>c \<in> set (b_captured b). session_value (ca_sessionId c) \<noteq> 0) \<and>
     map captured_key (b_captured b) = map participant_key (b_participants b) \<and>
     map pt_slot (b_participants b) = map of_nat [1..<length (b_participants b) + 1] \<and>
     (\<forall>p \<in> set (b_participants b). part_ok (b_battleId b) p)"

definition no_loot :: "battle \<Rightarrow> bool" where
  "no_loot b \<longleftrightarrow> b_lootResolution b = LootNotStarted \<and> b_drops b = [] \<and> b_holdings b = []"

definition loot_ok :: "battle \<Rightarrow> bool" where
  "loot_ok b \<longleftrightarrow>
     b_lootResolution b \<noteq> LootNotStarted \<and> length (b_drops b) = length (b_captured b) \<and>
     drops_ok (map ca_sessionId (b_captured b)) (b_drops b) \<and> holdings_ok (b_drops b) (b_holdings b) \<and>
     (b_lootResolution b = LootResolved \<longleftrightarrow> (\<forall>d \<in> set (b_drops b). ld_state d \<noteq> DropAvailable))"

definition monster_ok :: "battle \<Rightarrow> monster \<Rightarrow> bool" where
  "monster_ok b m \<longleftrightarrow>
     mo_id m = 1 \<and> mo_position m = pos 0 0 \<and> 100 dvd unat (mo_hitPoints m) \<and>
     unat (mo_hitPoints m) \<le> 800 * length (b_captured b)"

definition combat_ok :: "battle \<Rightarrow> bool" where
  "combat_ok b \<longleftrightarrow>
     (\<exists>m. b_monster b = Some m \<and> monster_ok b m \<and>
       (b_combatTerminal b = None \<and> mo_state m = Alive \<and> mo_hitPoints m \<noteq> 0 \<and> no_loot b \<or>
        currentOutcome b = MonsterDefeated \<and> mo_state m = Dead \<and> mo_hitPoints m = 0 \<and> loot_ok b \<or>
        currentOutcome b = CombatTimeout \<and> mo_state m = TimedOut \<and> mo_hitPoints m \<noteq> 0 \<and> no_loot b))"

text \<open>The committed result speaks of the captured participants and gives away exactly what was
  claimed.\<close>

definition result_of :: "battle \<Rightarrow> final_result \<Rightarrow> bool" where
  "result_of b fr \<longleftrightarrow>
     fr_roomId fr = b_roomId b \<and> fr_battleId fr = b_battleId b \<and>
     mset (map en_sessionId (fr_entries fr)) = mset (map ca_sessionId (b_captured b)) \<and>
     sum_list (map (\<lambda>e. unat (en_finalAssetValue e)) (fr_entries fr)) = claimed_value (b_drops b)"

definition result_open :: "battle \<Rightarrow> bool" where
  "result_open b \<longleftrightarrow>
     b_resultState b = NotReady \<and> b_committedResult b = None \<and> b_lootResultsCompletedAt b = None \<and>
     (\<forall>p \<in> set (b_participants b). pt_exitStatus p \<noteq> TerminalPresent \<and> pt_exitStatus p \<noteq> TerminalExited) \<and>
     (b_terminalOutcome b = None \<or> b_terminalOutcome b = Some OutcomeCancelled \<and>
        (\<forall>p \<in> set (b_participants b). \<not> pt_gameplayEligible p) \<and> b_lootResolution b \<noteq> LootOpen)"

definition outcome_ok :: "battle \<Rightarrow> battle_outcome \<Rightarrow> bool" where
  "outcome_ok b outcome \<longleftrightarrow>
     (outcome = OutcomeCancelled \<and> (\<forall>p \<in> set (b_participants b). \<not> pt_gameplayEligible p) \<or>
      outcome = OutcomeMonsterDefeated \<and> currentOutcome b = MonsterDefeated \<or>
      outcome = OutcomeCombatTimeout \<and> currentOutcome b = CombatTimeout)"

definition result_committed :: "battle \<Rightarrow> bool" where
  "result_committed b \<longleftrightarrow>
     b_resultState b = Committed \<and> b_lootResultsCompletedAt b \<noteq> None \<and> b_loadDeadlineTick b = None \<and>
     b_combatDeadlineTick b = None \<and> b_lootDeadlineTick b = None \<and> b_lootResolution b \<noteq> LootOpen \<and>
     (\<forall>p \<in> set (b_participants b). \<not> pt_inputEnabled p) \<and>
     (\<forall>p \<in> set (b_participants b). pt_exitStatus p \<noteq> GameplayEligible) \<and>
     (\<exists>fr. b_committedResult b = Some fr \<and> result_of b fr \<and> b_terminalOutcome b = Some (fr_outcome fr) \<and>
        outcome_ok b (fr_outcome fr))"

definition result_ok :: "battle \<Rightarrow> bool" where
  "result_ok b \<longleftrightarrow> result_open b \<or> result_committed b"

definition not_started :: "battle \<Rightarrow> bool" where
  "not_started b \<longleftrightarrow>
     b_captured b = [] \<and> b_participants b = [] \<and> b_monster b = None \<and> b_combatTerminal b = None \<and>
     b_terminalOutcome b = None \<and> no_loot b \<and> b_resultState b = NotReady \<and> b_committedResult b = None \<and>
     b_lootResultsCompletedAt b = None \<and> b_combatDeadlineTick b = None \<and> b_lootDeadlineTick b = None"

definition admission_ok :: "battle \<Rightarrow> bool" where
  "admission_ok b \<longleftrightarrow>
     room_value (b_roomId b) \<noteq> 0 \<and> battle_value (b_battleId b) \<noteq> 0 \<and> b_seed b \<noteq> 0 \<and>
     length (b_candidates b) \<le> 10 \<and> distinct (map (\<lambda>c. sc_sessionId (cd_identity c)) (b_candidates b)) \<and>
     (\<forall>c \<in> set (b_candidates b). session_value (sc_sessionId (cd_identity c)) \<noteq> 0)"

definition base_inv :: "battle \<Rightarrow> bool" where
  "base_inv b \<longleftrightarrow> admission_ok b \<and>
     (if b_state b = GameplayCommitted then roster_ok b \<and> combat_ok b \<and> result_ok b else not_started b)"

text \<open>While the result is open, somebody plays and a deadline is set that ends it.\<close>

definition open_ok :: "battle \<Rightarrow> bool" where
  "open_ok b \<longleftrightarrow>
     (b_state b = LoadBarrierOpen \<longrightarrow> b_loadDeadlineTick b \<noteq> None) \<and>
     (b_state b = GameplayCommitted \<and> b_resultState b = NotReady \<longrightarrow>
        b_terminalOutcome b = None \<and> (\<exists>p \<in> set (b_participants b). pt_gameplayEligible p) \<and>
        (b_combatTerminal b = None \<and> b_combatDeadlineTick b \<noteq> None \<or>
         currentOutcome b = MonsterDefeated \<and> b_lootResolution b = LootOpen \<and> b_lootDeadlineTick b \<noteq> None))"

definition battle_inv :: "battle \<Rightarrow> bool" where
  "battle_inv b \<longleftrightarrow> base_inv b \<and> open_ok b"

lemmas inv_parts = admission_ok_def roster_ok_def combat_ok_def monster_ok_def no_loot_def loot_ok_def
  result_ok_def result_open_def result_committed_def result_of_def outcome_ok_def not_started_def open_ok_def
  currentOutcome_def

lemma result_ok_state:
  "result_ok b \<Longrightarrow> b_resultState b = NotReady \<and> result_open b \<or> b_resultState b = Committed \<and> result_committed b"
  by (auto simp: result_ok_def result_open_def result_committed_def)

text \<open>Invariants only read what they name.\<close>

lemma battle_inv_cong:
  assumes "battle_inv b" "b_roomId b' = b_roomId b" "b_battleId b' = b_battleId b" "b_seed b' = b_seed b"
    "b_candidates b' = b_candidates b" "b_state b' = b_state b" "b_captured b' = b_captured b"
    "b_participants b' = b_participants b" "b_monster b' = b_monster b" "b_combatTerminal b' = b_combatTerminal b"
    "b_terminalOutcome b' = b_terminalOutcome b" "b_drops b' = b_drops b" "b_holdings b' = b_holdings b"
    "b_lootResolution b' = b_lootResolution b" "b_resultState b' = b_resultState b"
    "b_committedResult b' = b_committedResult b" "b_lootResultsCompletedAt b' = b_lootResultsCompletedAt b"
    "b_loadDeadlineTick b' = b_loadDeadlineTick b" "b_combatDeadlineTick b' = b_combatDeadlineTick b"
    "b_lootDeadlineTick b' = b_lootDeadlineTick b"
  shows "battle_inv b'"
  using assms(1) unfolding battle_inv_def base_inv_def inv_parts assms(2-) .

lemma combat_ok_cong:
  assumes "b_monster b' = b_monster b" "b_combatTerminal b' = b_combatTerminal b" "b_drops b' = b_drops b"
    "b_holdings b' = b_holdings b" "b_lootResolution b' = b_lootResolution b"
    "map ca_sessionId (b_captured b') = map ca_sessionId (b_captured b)"
  shows "combat_ok b' = combat_ok b"
proof -
  have len: "length (b_captured b') = length (b_captured b)" using assms(6) by (metis length_map)
  show ?thesis
    unfolding combat_ok_def monster_ok_def no_loot_def loot_ok_def currentOutcome_def assms len ..
qed

lemma battle_inv_observe [simp]: "battle_inv b \<Longrightarrow> battle_inv (observeBattleTime at b)"
  by (rule battle_inv_cong) simp_all

section \<open>Changing the participants\<close>

lemma eligible_key:
  assumes "\<forall>p \<in> set ps. part_ok i p" "\<forall>p \<in> set qs. part_ok i p" "map participant_key ps = map participant_key qs"
  shows "(\<exists>p \<in> set ps. pt_gameplayEligible p) \<longleftrightarrow> (\<exists>p \<in> set qs. pt_gameplayEligible p)"
proof -
  define playing :: "session_id \<times> session_generation \<times> exit_status \<Rightarrow> bool" where
    "playing = (\<lambda>(s, g, e). e = GameplayEligible \<or> e = TerminalPresent)"
  have "(\<exists>p \<in> set xs. pt_gameplayEligible p) \<longleftrightarrow> (\<exists>k \<in> set (map participant_key xs). playing k)"
    if "\<forall>p \<in> set xs. part_ok i p" for xs
    using that by (auto simp: playing_def participant_key_def part_ok_def)
  then show ?thesis using assms by metis
qed

lemma status_key:
  assumes "map participant_key ps = map participant_key qs"
  shows "(\<forall>p \<in> set ps. P (pt_exitStatus p)) \<longleftrightarrow> (\<forall>p \<in> set qs. P (pt_exitStatus p))"
proof -
  have "map pt_exitStatus ps = map (snd \<circ> snd \<circ> participant_key) ps" for ps
    by (simp add: participant_key_def comp_def)
  then have "map pt_exitStatus ps = map pt_exitStatus qs"
    using assms by (metis map_map)
  then have "set (map pt_exitStatus ps) = set (map pt_exitStatus qs)" by simp
  then show ?thesis by (auto simp: set_eq_iff image_iff) metis+
qed

lemma participants_frame [simp]:
  "result_of (b\<lparr>b_participants := ps\<rparr>) fr = result_of b fr"
  "currentOutcome (b\<lparr>b_participants := ps\<rparr>) = currentOutcome b"
  "currentHitPoints (b\<lparr>b_participants := ps\<rparr>) = currentHitPoints b"
  "no_loot (b\<lparr>b_participants := ps\<rparr>) = no_loot b"
  "loot_ok (b\<lparr>b_participants := ps\<rparr>) = loot_ok b"
  "monster_ok (b\<lparr>b_participants := ps\<rparr>) = monster_ok b"
  "admission_ok (b\<lparr>b_participants := ps\<rparr>) = admission_ok b"
  by (simp_all add: result_of_def currentOutcome_def currentHitPoints_def no_loot_def loot_ok_def monster_ok_def
      admission_ok_def fun_eq_iff)

lemma participants_base_inv:
  assumes "base_inv b" "b_state b = GameplayCommitted" "\<forall>p \<in> set ps. part_ok (b_battleId b) p"
    "map participant_key ps = map participant_key (b_participants b)"
    "map pt_slot ps = map pt_slot (b_participants b)"
    "b_resultState b = NotReady \<or> (\<forall>p \<in> set ps. \<not> pt_inputEnabled p)"
  shows "base_inv (b\<lparr>b_participants := ps\<rparr>)"
proof -
  have ok: "\<forall>p \<in> set (b_participants b). part_ok (b_battleId b) p" and roster: "roster_ok b"
    and res: "result_ok b" and comb: "combat_ok b"
    using assms(1,2) by (auto simp: base_inv_def roster_ok_def)
  have len: "length ps = length (b_participants b)" using assms(4) by (metis length_map)
  have "roster_ok (b\<lparr>b_participants := ps\<rparr>)"
    using roster assms(3,4,5) unfolding roster_ok_def by (simp add: len)
  moreover have "combat_ok (b\<lparr>b_participants := ps\<rparr>)"
    using comb unfolding combat_ok_def by simp
  moreover have none: "(\<forall>p \<in> set ps. \<not> pt_gameplayEligible p) \<longleftrightarrow>
      (\<forall>p \<in> set (b_participants b). \<not> pt_gameplayEligible p)"
    using eligible_key[OF assms(3) ok assms(4)] by blast
  moreover have "result_ok (b\<lparr>b_participants := ps\<rparr>)"
  proof (cases "b_resultState b = NotReady")
    case True
    then have "result_open b" using result_ok_state[OF res] by simp
    then have "result_open (b\<lparr>b_participants := ps\<rparr>)"
      using eligible_key[OF assms(3) ok assms(4)]
        status_key[OF assms(4), of "\<lambda>e. e \<noteq> TerminalPresent \<and> e \<noteq> TerminalExited"]
      unfolding result_open_def by auto
    then show ?thesis by (simp add: result_ok_def)
  next
    case False
    then have "result_committed b" using result_ok_state[OF res] by simp
    then have "result_committed (b\<lparr>b_participants := ps\<rparr>)"
      using none assms(6) False status_key[OF assms(4), of "\<lambda>e. e \<noteq> GameplayEligible"]
      unfolding result_committed_def outcome_ok_def by simp
    then show ?thesis by (simp add: result_ok_def)
  qed
  ultimately show ?thesis using assms(1,2) by (simp add: base_inv_def admission_ok_def)
qed

lemma participants_inv:
  assumes "battle_inv b" "b_state b = GameplayCommitted" "\<forall>p \<in> set ps. part_ok (b_battleId b) p"
    "map participant_key ps = map participant_key (b_participants b)"
    "map pt_slot ps = map pt_slot (b_participants b)"
    "b_resultState b = NotReady \<or> (\<forall>p \<in> set ps. \<not> pt_inputEnabled p)"
  shows "battle_inv (b\<lparr>b_participants := ps\<rparr>)"
proof -
  have base: "base_inv b" using assms(1) by (simp add: battle_inv_def)
  then have ok: "\<forall>p \<in> set (b_participants b). part_ok (b_battleId b) p"
    using assms(2) by (auto simp: base_inv_def roster_ok_def)
  have "open_ok (b\<lparr>b_participants := ps\<rparr>)"
    using assms(1,2) eligible_key[OF assms(3) ok assms(4)]
    by (simp add: battle_inv_def open_ok_def currentOutcome_def)
  then show ?thesis using participants_base_inv[OF base assms(2-)] by (simp add: battle_inv_def)
qed

lemma upd_inv:
  assumes "battle_inv b" "b_state b = GameplayCommitted" "participantRecord s b = Some p"
    "part_ok (b_battleId b) p \<Longrightarrow> part_ok (b_battleId b) (f p)"
    "participant_key (f p) = participant_key p" "pt_slot (f p) = pt_slot p"
    "pt_inputEnabled (f p) \<Longrightarrow> pt_inputEnabled p \<or> b_resultState b = NotReady"
  shows "battle_inv (upd s f b)"
  unfolding upd_def
proof (rule participants_inv[OF assms(1,2)])
  have base: "base_inv b" using assms(1) by (simp add: battle_inv_def)
  then have ok: "\<forall>p \<in> set (b_participants b). part_ok (b_battleId b) p" and res: "result_ok b"
    using assms(2) by (auto simp: base_inv_def roster_ok_def)
  have found: "find (\<lambda>p. pt_sessionId p = s) (b_participants b) = Some p" "p \<in> set (b_participants b)"
    using assms(3) participantRecord_set[OF assms(3)] by (auto simp: participantRecord_def)
  have members: "q = f p \<or> q \<in> set (b_participants b)"
    if "q \<in> set (update_first (\<lambda>p. pt_sessionId p = s) f (b_participants b))" for q
    using that set_update_first_found[OF found(1), of f] by blast
  show "\<forall>q \<in> set (update_first (\<lambda>p. pt_sessionId p = s) f (b_participants b)). part_ok (b_battleId b) q"
    using members ok assms(4) found(2) by blast
  show "map participant_key (update_first (\<lambda>p. pt_sessionId p = s) f (b_participants b)) =
      map participant_key (b_participants b)"
    by (rule map_update_first_found[where f = f and p = p, OF found(1)]) (rule assms(5))
  show "map pt_slot (update_first (\<lambda>p. pt_sessionId p = s) f (b_participants b)) = map pt_slot (b_participants b)"
    by (rule map_update_first_found[where f = f and p = p, OF found(1)]) (rule assms(6))
  show "b_resultState b = NotReady \<or>
      (\<forall>q \<in> set (update_first (\<lambda>p. pt_sessionId p = s) f (b_participants b)). \<not> pt_inputEnabled q)"
  proof (cases "b_resultState b = NotReady")
    case False
    then have "\<forall>q \<in> set (b_participants b). \<not> pt_inputEnabled q"
      using result_ok_state[OF res] by (simp add: result_committed_def)
    then show ?thesis using members assms(7) False found(2) by blast
  qed simp
qed

section \<open>Creation and the load barrier\<close>

lemma valid_candidates_iff:
  "valid_candidates cs \<longleftrightarrow> distinct (map sc_sessionId cs) \<and>
     (\<forall>c \<in> set cs. session_value (sc_sessionId c) \<noteq> 0 \<and> generation_value (sc_generation c) \<noteq> 0 \<and> sc_nickname c \<noteq> [])"
  by (induction cs) (auto simp: list_ex_iff)

lemma create_inv: "createBattle a = Inr b \<Longrightarrow> battle_inv b"
  by (auto simp: createBattle_def newBattle_def validAdmission_def valid_candidates_iff battle_inv_def base_inv_def
      admission_ok_def not_started_def no_loot_def open_ok_def comp_def split: if_splits)

lemma open_barrier_inv: "battle_inv b \<Longrightarrow> battle_inv (snd (openLoadBarrier at b))"
  by (auto simp: openLoadBarrier_def Let_def battle_inv_def base_inv_def admission_ok_def not_started_def no_loot_def
      open_ok_def)

lemma spawn_bounds:
  assumes "2 \<le> n" "n \<le> 10" "i < n"
  shows "\<bar>cp_x (participantSpawnPosition n i)\<bar> \<le> 10000" "\<bar>cp_y (participantSpawnPosition n i)\<bar> \<le> 10000"
proof -
  have "list_all (\<lambda>n. list_all (\<lambda>i. \<bar>cp_x (participantSpawnPosition n i)\<bar> \<le> 10000 \<and>
      \<bar>cp_y (participantSpawnPosition n i)\<bar> \<le> 10000) [0..<n]) [2..<11]"
    by (simp add: upt_rec participantSpawnPosition_def participantSpawnPositions_def pos_def)
  moreover have "n \<in> set [2..<11]" "i \<in> set [0..<n]" using assms by auto
  ultimately show "\<bar>cp_x (participantSpawnPosition n i)\<bar> \<le> 10000" "\<bar>cp_y (participantSpawnPosition n i)\<bar> \<le> 10000"
    unfolding list_all_iff by blast+
qed

lemma store_new [simp]:
  "st_sessionId (new_store s g i) = s" "st_generation (new_store s g i) = g" "st_battleId (new_store s g i) = i"
  by (simp_all add: new_store_def)

lemma newParticipant_ok:
  assumes "2 \<le> n" "n \<le> 10" "i < n"
  shows "part_ok battleId (newParticipant battleId n i c)"
  using spawn_bounds[OF assms] by (simp add: part_ok_def newParticipant_def Let_def)

lemma monster_hit_points:
  assumes "n \<le> 10"
  shows "unat (monsterHitPointsForParticipants (of_nat n)) = 800 * n"
  using assms by (simp add: monsterHitPointsForParticipants_def unat_word_ariths unat_of_nat take_bit_nat_eq_self)

lemma commit_gameplay_inv:
  assumes "admission_ok b" "not_started b" "2 \<le> length (filter (\<lambda>c. cd_state c = Ready) (b_candidates b))"
  shows "battle_inv (commitGameplay b)"
proof -
  define ready where "ready = filter (\<lambda>c. cd_state c = Ready) (b_candidates b)"
  define n where "n = length ready"
  define ps where "ps = map2 (newParticipant (b_battleId b) n) [0..<n] ready"
  have n: "2 \<le> n" "n \<le> 10"
    using assms(1,3) order_trans[OF length_filter_le[of "\<lambda>c. cd_state c = Ready" "b_candidates b"], of 10]
    by (auto simp: n_def ready_def admission_ok_def)
  have len: "length ps = n" by (simp add: ps_def n_def)
  have nth: "ps ! i = newParticipant (b_battleId b) n i (ready ! i)" if "i < n" for i
    using that by (simp add: ps_def n_def)
  have ok: "\<forall>p \<in> set ps. part_ok (b_battleId b) p"
    using newParticipant_ok n nth by (auto simp: in_set_conv_nth len)
  have keys: "map captured_key (map capture ready) = map participant_key ps"
    by (rule nth_equalityI) (auto simp: len nth n_def[symmetric] captured_key_def participant_key_def capture_def
        newParticipant_def Let_def)
  have slots: "map pt_slot ps = map of_nat [1..<n + 1]"
    by (rule nth_equalityI) (auto simp: len nth newParticipant_def Let_def simp del: upt_Suc)
  have dist: "distinct (map ca_sessionId (map capture ready))"
    using assms(1) distinct_map_filter[of "\<lambda>c. sc_sessionId (cd_identity c)"]
    by (auto simp: ready_def admission_ok_def capture_def comp_def)
  have nonzero: "\<forall>c \<in> set (map capture ready). session_value (ca_sessionId c) \<noteq> 0"
    using assms(1) by (auto simp: ready_def admission_ok_def capture_def)
  have eligible: "\<forall>p \<in> set ps. pt_gameplayEligible p \<and> pt_exitStatus p = GameplayEligible"
    using nth by (auto simp: in_set_conv_nth len newParticipant_def Let_def)
  have "ps \<noteq> []" using len n by auto
  have b': "commitGameplay b = b\<lparr>b_captured := map capture ready, b_participants := ps,
      b_monster := Some (spawnMonster (monsterHitPointsForParticipants (of_nat n))),
      b_state := GameplayCommitted, b_loadDeadlineTick := None,
      b_combatDeadlineTick := Some (addTicks (bt_tick (b_time b)) 600)\<rparr>"
    using assms(2) len by (simp add: commitGameplay_def ready_def[symmetric] n_def[symmetric] ps_def[symmetric]
        not_started_def Let_def)
  have hp: "unat (monsterHitPointsForParticipants (of_nat n)) = 800 * n" by (rule monster_hit_points[OF n(2)])
  then have hp0: "monsterHitPointsForParticipants (of_nat n) \<noteq> 0" using n by (metis mult_is_0 unat_0 zero_neq_numeral not_numeral_le_zero)
  have "roster_ok (commitGameplay b)"
    using n ok keys slots dist nonzero by (simp add: b' roster_ok_def len n_def[symmetric] del: upt_Suc)
  moreover have "combat_ok (commitGameplay b)"
    using hp hp0 assms(2) by (simp add: b' combat_ok_def monster_ok_def no_loot_def not_started_def spawnMonster_def
        n_def[symmetric])
  moreover have "result_ok (commitGameplay b)"
    using eligible assms(2) by (simp add: b' result_ok_def result_open_def not_started_def)
  moreover have "open_ok (commitGameplay b)"
    using eligible \<open>ps \<noteq> []\<close> assms(2) by (cases ps) (auto simp: b' open_ok_def not_started_def)
  ultimately show ?thesis
    using assms(1) by (simp add: battle_inv_def base_inv_def b' admission_ok_def)
qed

lemma resolve_inv:
  assumes "admission_ok b" "not_started b" "b_state b = LoadBarrierOpen" "b_loadDeadlineTick b \<noteq> None"
  shows "battle_inv (resolveIfComplete b)"
proof -
  have "battle_inv b" using assms by (simp add: battle_inv_def base_inv_def open_ok_def)
  moreover have "battle_inv (b\<lparr>b_state := LoadCancelled, b_loadDeadlineTick := None\<rparr>)"
    using assms by (simp add: battle_inv_def base_inv_def open_ok_def admission_ok_def not_started_def no_loot_def)
  moreover have "battle_inv (commitGameplay b)" if "\<not> length (filter (\<lambda>c. cd_state c = Ready) (b_candidates b)) < 2"
    using commit_gameplay_inv[OF assms(1,2)] that by simp
  ultimately show ?thesis by (simp add: resolveIfComplete_def)
qed

text \<open>Resolving after the candidates of an open barrier changed their states.\<close>

lemma resolve_candidates_inv:
  assumes "battle_inv b" "b_state b = LoadBarrierOpen" "map cd_identity cs = map cd_identity (b_candidates b)"
  shows "battle_inv (resolveIfComplete (b\<lparr>b_candidates := cs\<rparr>))"
proof (rule resolve_inv)
  have base: "admission_ok b" "not_started b" "b_loadDeadlineTick b \<noteq> None"
    using assms(1,2) by (auto simp: battle_inv_def base_inv_def open_ok_def)
  have eq: "map (f \<circ> cd_identity) cs = map (f \<circ> cd_identity) (b_candidates b)" for f :: "start_candidate \<Rightarrow> session_id"
    using arg_cong[OF assms(3), of "map f"] by simp
  have sets: "cd_identity ` set cs = cd_identity ` set (b_candidates b)"
    using arg_cong[OF assms(3), of set] by simp
  have "length cs = length (b_candidates b)" using assms(3) by (metis length_map)
  then show "admission_ok (b\<lparr>b_candidates := cs\<rparr>)"
    using base(1) eq[of sc_sessionId] sets unfolding admission_ok_def
    by (simp add: comp_def) (metis (no_types, lifting) image_iff)
  show "not_started (b\<lparr>b_candidates := cs\<rparr>)" using base(2) by (simp add: not_started_def no_loot_def)
  show "b_state (b\<lparr>b_candidates := cs\<rparr>) = LoadBarrierOpen" "b_loadDeadlineTick (b\<lparr>b_candidates := cs\<rparr>) \<noteq> None"
    using assms(2) base(3) by simp_all
qed

lemma upd_candidate_inv:
  assumes "battle_inv b" "b_state b = LoadBarrierOpen"
  shows "battle_inv (resolveIfComplete (upd_candidate s st b))"
  unfolding upd_candidate_def by (rule resolve_candidates_inv[OF assms]) (simp add: map_update_first)

lemma complete_load_inv: "battle_inv b \<Longrightarrow> battle_inv (snd (completeLoad c ready at b))"
  by (auto simp: completeLoad_def split: sum.split intro!: upd_candidate_inv)

lemma expire_barrier_inv: "battle_inv b \<Longrightarrow> battle_inv (snd (expireLoadBarrier r i at b))"
  by (auto simp: expireLoadBarrier_def Let_def comp_def intro!: resolve_candidates_inv)

section \<open>The final result\<close>

lemma roster_sessions:
  assumes "roster_ok b"
  shows "map ca_sessionId (b_captured b) = map pt_sessionId (b_participants b)"
    "length (b_captured b) = length (b_participants b)"
proof -
  have keys: "map captured_key (b_captured b) = map participant_key (b_participants b)"
    using assms by (simp add: roster_ok_def)
  show "length (b_captured b) = length (b_participants b)" using keys by (metis length_map)
  have "map ca_sessionId (b_captured b) = map fst (map captured_key (b_captured b))"
    by (simp add: captured_key_def)
  also have "\<dots> = map pt_sessionId (b_participants b)" unfolding keys by (simp add: participant_key_def)
  finally show "map ca_sessionId (b_captured b) = map pt_sessionId (b_participants b)" .
qed

lemma roster_statuses:
  assumes "roster_ok b"
  shows "map ca_exitStatus (b_captured b) = map pt_exitStatus (b_participants b)"
proof -
  have "map ca_exitStatus (b_captured b) = map (snd \<circ> snd) (map captured_key (b_captured b))"
    by (simp add: captured_key_def comp_def)
  also have "\<dots> = map (snd \<circ> snd) (map participant_key (b_participants b))"
    using assms by (simp only: roster_ok_def)
  finally show ?thesis by (simp add: participant_key_def comp_def)
qed

lemma source_ready:
  assumes "base_inv b" "b_state b = GameplayCommitted"
  shows "source_ok (resultSource outcome b)"
  using assms by (simp add: source_ok_def resultSource_def base_inv_def roster_ok_def admission_ok_def)

lemma loot_ledger:
  assumes "loot_ok b" "b_lootResolution b = LootResolved"
  shows "ledger_ok (resultSource outcome b)"
  using assms by (simp add: ledger_ok_def loot_ok_def resultSource_def)

text \<open>When there is an outcome to commit, its ledger is closed and it is the outcome of the battle.\<close>

lemma ready_closed:
  assumes "base_inv b" "b_state b = GameplayCommitted" "b_resultState b = NotReady" "readyOutcome b = Some outcome"
  shows "outcome_ok b outcome" "b_lootResolution b \<noteq> LootOpen"
    "b_drops b = [] \<and> b_holdings b = [] \<or> ledger_ok (resultSource outcome b)"
    "outcome = OutcomeMonsterDefeated \<Longrightarrow> ledger_ok (resultSource outcome b)"
    "outcome = OutcomeCombatTimeout \<Longrightarrow> b_drops b = [] \<and> b_holdings b = []"
    "outcome = OutcomeCancelled \<Longrightarrow> \<forall>c \<in> set (b_captured b). terminalExitStatus (ca_exitStatus c) = TerminalExited"
proof -
  have roster: "roster_ok b" and comb: "combat_ok b" and res: "result_open b"
    using assms(1-3) result_ok_state[of b] by (auto simp: base_inv_def)
  show closed: "b_lootResolution b \<noteq> LootOpen"
  proof (cases "b_terminalOutcome b")
    case None
    then obtain t where "b_combatTerminal b = Some t"
      "\<not> (ct_outcome t = MonsterDefeated \<and> b_lootResolution b \<noteq> LootResolved)"
      using assms(4) by (auto simp: readyOutcome_def split: option.splits if_splits)
    then show ?thesis using comb by (auto simp: combat_ok_def currentOutcome_def no_loot_def)
  next
    case (Some x)
    then show ?thesis using res by (auto simp: result_open_def)
  qed
  have "no_loot b \<or> loot_ok b" using comb by (auto simp: combat_ok_def)
  then show led: "b_drops b = [] \<and> b_holdings b = [] \<or> ledger_ok (resultSource outcome b)"
    using loot_ledger[of b outcome] closed by (cases "b_lootResolution b") (auto simp: no_loot_def loot_ok_def)
  show "outcome_ok b outcome"
    using assms(4) res comb
    by (auto simp: readyOutcome_def outcome_ok_def result_open_def combat_ok_def currentOutcome_def
        split: option.splits if_splits)
  show "outcome = OutcomeMonsterDefeated \<Longrightarrow> ledger_ok (resultSource outcome b)"
    using assms(4) res comb loot_ledger[of b outcome]
    by (auto simp: readyOutcome_def result_open_def combat_ok_def currentOutcome_def split: option.splits if_splits)
  show "outcome = OutcomeCombatTimeout \<Longrightarrow> b_drops b = [] \<and> b_holdings b = []"
    using assms(4) res comb
    by (auto simp: readyOutcome_def result_open_def combat_ok_def currentOutcome_def no_loot_def
        split: option.splits if_splits)
  show "outcome = OutcomeCancelled \<Longrightarrow> \<forall>c \<in> set (b_captured b). terminalExitStatus (ca_exitStatus c) = TerminalExited"
  proof -
    assume "outcome = OutcomeCancelled"
    then have "b_terminalOutcome b = Some OutcomeCancelled"
      using assms(4) by (auto simp: readyOutcome_def split: option.splits if_splits)
    then have "\<forall>p \<in> set (b_participants b). \<not> pt_gameplayEligible p \<and> pt_exitStatus p \<noteq> TerminalPresent"
      using res by (auto simp: result_open_def)
    moreover have "\<forall>p \<in> set (b_participants b). part_ok (b_battleId b) p" using roster by (simp add: roster_ok_def)
    moreover have "terminalExitStatus (pt_exitStatus p) = TerminalExited"
      if "\<not> pt_gameplayEligible p" "pt_exitStatus p \<noteq> TerminalPresent" "part_ok (b_battleId b) p" for p
      using that by (cases "pt_exitStatus p") (simp_all add: part_ok_def)
    ultimately have "\<forall>e \<in> set (map pt_exitStatus (b_participants b)). terminalExitStatus e = TerminalExited"
      by auto
    then show ?thesis unfolding roster_statuses[OF roster, symmetric] by auto
  qed
qed

lemma ready_builds:
  assumes "base_inv b" "b_state b = GameplayCommitted" "b_resultState b = NotReady" "readyOutcome b = Some outcome"
  obtains fr where "buildFinalResult (resultSource outcome b) v1Snapshot = Inr fr" "result_of b fr"
    "fr_outcome fr = outcome"
proof -
  note r = ready_closed[OF assms]
  have "\<exists>fr. buildFinalResult (resultSource outcome b) v1Snapshot = Inr fr"
  proof (rule build_succeeds[OF source_ready[OF assms(1,2)]])
    show "bs_outcome (resultSource outcome b) = OutcomeMonsterDefeated \<Longrightarrow> ledger_ok (resultSource outcome b)"
      using r(4) by (simp add: resultSource_def)
    show "bs_outcome (resultSource outcome b) = OutcomeCombatTimeout \<Longrightarrow>
        bs_drops (resultSource outcome b) = [] \<and> bs_holdings (resultSource outcome b) = []"
      using r(5) by (simp add: resultSource_def)
    show "bs_outcome (resultSource outcome b) = OutcomeCancelled \<Longrightarrow>
        (\<forall>c \<in> set (bs_captured (resultSource outcome b)). terminalExitStatus (ca_exitStatus c) = TerminalExited) \<and>
        (bs_drops (resultSource outcome b) = [] \<and> bs_holdings (resultSource outcome b) = [] \<or>
         ledger_ok (resultSource outcome b))"
      using r(3,6) by (simp add: resultSource_def)
  qed
  then obtain fr where fr: "buildFinalResult (resultSource outcome b) v1Snapshot = Inr fr" by blast
  have "bs_drops (resultSource outcome b) = [] \<and> bs_holdings (resultSource outcome b) = [] \<or>
      ledger_ok (resultSource outcome b)"
    using r(3) by (simp add: resultSource_def)
  note acc = built_account[OF fr source_ready[OF assms(1,2)] this]
  show ?thesis
    using that[OF fr] acc by (simp add: result_of_def resultSource_def)
qed

definition terminal_participant :: "battle_outcome \<Rightarrow> battle_time \<Rightarrow> participant \<Rightarrow> participant" where
  "terminal_participant outcome at p =
     (let p = (if outcome = OutcomeCancelled then p
               else p\<lparr>pt_inputEnabled := False, pt_exitStatus := terminalExitStatus (pt_exitStatus p)\<rparr>)
      in p\<lparr>pt_lootResults := markBattleCompleted (bt_nanos at) (pt_lootResults p)\<rparr>)"

definition terminal_captured :: "battle_outcome \<Rightarrow> captured_participant \<Rightarrow> captured_participant" where
  "terminal_captured outcome c =
     (if outcome = OutcomeCancelled then c else c\<lparr>ca_exitStatus := terminalExitStatus (ca_exitStatus c)\<rparr>)"

lemma commit_built:
  assumes "b_resultState b = NotReady" "readyOutcome b = Some outcome" "b_lootResultsCompletedAt b = None"
    "buildFinalResult (resultSource outcome b) v1Snapshot = Inr fr"
  shows "commitResultIfReady at b = b\<lparr>b_captured := map (terminal_captured outcome) (b_captured b),
    b_participants := map (terminal_participant outcome at) (b_participants b), b_loadDeadlineTick := None,
    b_combatDeadlineTick := None, b_lootDeadlineTick := None, b_committedResult := Some fr,
    b_resultState := Committed, b_terminalOutcome := Some outcome,
    b_lootResultsCompletedAt := Some (bt_nanos at)\<rparr>"
proof (cases "outcome = OutcomeCancelled")
  case True
  then have "map (terminal_captured outcome) cs = cs" for cs
    by (simp add: terminal_captured_def[abs_def] True)
  then show ?thesis
    using assms True by (simp add: commitResultIfReady_def markLootResultsCompleted_def clearDeadlines_def
        terminal_participant_def[abs_def])
next
  case False
  then show ?thesis
    using assms by (simp add: commitResultIfReady_def markLootResultsCompleted_def clearDeadlines_def
        terminalStatuses_def terminal_participant_def[abs_def] terminal_captured_def[abs_def] comp_def)
qed

lemma mark_scope [simp]:
  "st_sessionId (markBattleCompleted t s) = st_sessionId s" "st_generation (markBattleCompleted t s) = st_generation s"
  "st_battleId (markBattleCompleted t s) = st_battleId s"
  by (simp_all add: markBattleCompleted_def)

lemma terminal_participant_ok:
  assumes "part_ok i p"
  shows "part_ok i (terminal_participant outcome at p)" "pt_slot (terminal_participant outcome at p) = pt_slot p"
    "pt_gameplayEligible (terminal_participant outcome at p) = pt_gameplayEligible p"
    "outcome \<noteq> OutcomeCancelled \<or> \<not> pt_gameplayEligible p \<Longrightarrow>
     \<not> pt_inputEnabled (terminal_participant outcome at p) \<and>
     pt_exitStatus (terminal_participant outcome at p) \<noteq> GameplayEligible"
  using assms by (cases "pt_exitStatus p"; auto simp: terminal_participant_def part_ok_def Let_def)+

lemma terminal_keys:
  assumes "map captured_key cs = map participant_key ps"
  shows "map captured_key (map (terminal_captured outcome) cs) = map participant_key (map (terminal_participant outcome at) ps)"
proof -
  define h :: "session_id \<times> session_generation \<times> exit_status \<Rightarrow> session_id \<times> session_generation \<times> exit_status"
    where "h = (\<lambda>(s, g, e). (s, g, if outcome = OutcomeCancelled then e else terminalExitStatus e))"
  have "captured_key (terminal_captured outcome c) = h (captured_key c)"
    "participant_key (terminal_participant outcome at p) = h (participant_key p)" for c p
    by (simp_all add: h_def captured_key_def participant_key_def terminal_captured_def terminal_participant_def Let_def)
  then show ?thesis using arg_cong[OF assms, of "map h"] by (simp add: comp_def)
qed

lemma commit_inv:
  assumes "base_inv b" "b_state b = GameplayCommitted"
    "b_resultState b = NotReady \<Longrightarrow> readyOutcome b = None \<Longrightarrow> open_ok b"
  shows "battle_inv (commitResultIfReady at b)"
proof (cases "b_resultState b = NotReady")
  case False
  then show ?thesis
    using assms(1,2) by (simp add: commitResultIfReady_def battle_inv_def open_ok_def)
next
  case True
  show ?thesis
  proof (cases "readyOutcome b")
    case None
    then show ?thesis using assms True by (simp add: commitResultIfReady_def battle_inv_def)
  next
    case (Some outcome)
    note ready = ready_closed[OF assms(1,2) True Some]
    obtain fr where fr: "buildFinalResult (resultSource outcome b) v1Snapshot = Inr fr" "result_of b fr"
      "fr_outcome fr = outcome"
      by (rule ready_builds[OF assms(1,2) True Some])
    have roster: "roster_ok b" and comb: "combat_ok b" and res: "result_open b"
      using assms(1,2) True result_ok_state[of b] by (auto simp: base_inv_def)
    then have none: "b_lootResultsCompletedAt b = None" by (simp add: result_open_def)
    define b' where "b' = commitResultIfReady at b"
    note b' = b'_def[unfolded commit_built[OF True Some none fr(1)]]
    have parts: "\<forall>p \<in> set (b_participants b). part_ok (b_battleId b) p" using roster by (simp add: roster_ok_def)
    have sess: "map ca_sessionId (map (terminal_captured outcome) (b_captured b)) = map ca_sessionId (b_captured b)"
      by (simp add: terminal_captured_def)
    have fields: "b_captured b' = map (terminal_captured outcome) (b_captured b)"
      "b_participants b' = map (terminal_participant outcome at) (b_participants b)" "b_battleId b' = b_battleId b"
      by (simp_all add: b')
    have slots: "map pt_slot (map (terminal_participant outcome at) ps) = map pt_slot ps" for ps
      by (simp add: terminal_participant_def Let_def)
    have "\<forall>c \<in> set (map (terminal_captured outcome) (b_captured b)). session_value (ca_sessionId c) \<noteq> 0"
      using roster by (auto simp: roster_ok_def terminal_captured_def)
    moreover have "\<forall>p \<in> set (map (terminal_participant outcome at) (b_participants b)). part_ok (b_battleId b) p"
      using parts terminal_participant_ok(1) by auto
    ultimately have "roster_ok b'"
      using roster terminal_keys[of "b_captured b" "b_participants b" outcome at]
      unfolding roster_ok_def fields sess slots length_map by (simp only: simp_thms)
    moreover have "combat_ok b'"
      using comb by (subst combat_ok_cong[of _ b]) (simp_all add: b' terminal_captured_def comp_def)
    moreover have "result_committed b'"
    proof -
      have "b_roomId b' = b_roomId b" "b_drops b' = b_drops b" by (simp_all add: b')
      then have "result_of b' fr" using fr(2) unfolding result_of_def fields sess by simp
      moreover have "outcome_ok b' outcome"
        using ready(1) terminal_participant_ok(3) parts unfolding outcome_ok_def b' by (auto simp: currentOutcome_def)
      moreover have "\<forall>p \<in> set (b_participants b'). \<not> pt_inputEnabled p \<and> pt_exitStatus p \<noteq> GameplayEligible"
        using ready(1) terminal_participant_ok(4) parts unfolding b' by (auto simp: outcome_ok_def)
      ultimately show ?thesis using ready(2) fr(3) unfolding result_committed_def by (simp add: b')
    qed
    moreover have "admission_ok b'" "b_state b' = GameplayCommitted" "b_resultState b' = Committed"
      using assms(1,2) by (simp_all add: b' base_inv_def admission_ok_def)
    ultimately show ?thesis
      unfolding b'_def[symmetric] by (simp add: battle_inv_def base_inv_def result_ok_def open_ok_def)
  qed
qed

section \<open>Exits\<close>

lemma closeDrops_ok:
  assumes "drops_ok ss ds" "holdings_ok ds hs"
  shows "drops_ok ss (closeDrops ds)" "holdings_ok (closeDrops ds) hs" "length (closeDrops ds) = length ds"
    "\<forall>d \<in> set (closeDrops ds). ld_state d \<noteq> DropAvailable"
proof -
  define f :: "loot_drop \<Rightarrow> loot_drop" where "f = (\<lambda>d. if ld_state d = DropAvailable then d\<lparr>ld_state := DropUnclaimed\<rparr> else d)"
  have c: "closeDrops ds = map f ds" by (simp add: closeDrops_def f_def)
  have keep: "ld_drop (f d) = ld_drop d" "ld_owner (f d) = ld_owner d" "claimed_by s i (f d) = claimed_by s i d"
    "ld_state (f d) = DropClaimed \<longleftrightarrow> ld_state d = DropClaimed" for d s i
    by (auto simp: f_def claimed_by_def)
  have "claimed_count s i (map f ds) = claimed_count s i ds" for s i
    by (simp add: claimed_count_def filter_map comp_def keep)
  then show "holdings_ok (closeDrops ds) hs" using assms(2) by (simp add: c holdings_ok_def keep)
  show "drops_ok ss (closeDrops ds)"
    using assms(1) by (auto simp: c drops_ok_def keep comp_def split: option.splits)
  show "length (closeDrops ds) = length ds" by (simp add: c)
  show "\<forall>d \<in> set (closeDrops ds). ld_state d \<noteq> DropAvailable" by (auto simp: c f_def)
qed

lemma freeze_keys:
  assumes "map captured_key cs = map participant_key ps"
  shows "map captured_key (update_first (\<lambda>c. ca_sessionId c = s) (\<lambda>c. c\<lparr>ca_exitStatus := e\<rparr>) cs) =
    map participant_key (update_first (\<lambda>p. pt_sessionId p = s) (\<lambda>p. p\<lparr>pt_gameplayEligible := False,
      pt_inputEnabled := False, pt_tickDeltaX := 0, pt_tickDeltaY := 0, pt_exitStatus := e\<rparr>) ps)"
  using assms
proof (induction cs arbitrary: ps)
  case (Cons c cs)
  then show ?case by (cases ps) (auto simp: captured_key_def participant_key_def)
qed simp

lemma freeze_participant_inv:
  assumes "battle_inv b" "b_state b = GameplayCommitted" "participantRecord s b = Some p"
    "pt_exitStatus p = GameplayEligible" "e = VoluntaryLeft \<or> e = ExitDisconnected"
  shows "base_inv (freezeParticipant s e b)" "b_resultState b = NotReady"
    "b_resultState (freezeParticipant s e b) = NotReady" "b_terminalOutcome (freezeParticipant s e b) = None"
    "list_ex pt_gameplayEligible (b_participants (freezeParticipant s e b)) \<Longrightarrow> open_ok (freezeParticipant s e b)"
proof -
  define f :: "participant \<Rightarrow> participant" where "f = (\<lambda>p. p\<lparr>pt_gameplayEligible := False,
      pt_inputEnabled := False, pt_tickDeltaX := 0, pt_tickDeltaY := 0, pt_exitStatus := e\<rparr>)"
  define b' where "b' = freezeParticipant s e b"
  have fields: "b_participants b' = update_first (\<lambda>p. pt_sessionId p = s) f (b_participants b)"
    "b_captured b' = update_first (\<lambda>c. ca_sessionId c = s) (\<lambda>c. c\<lparr>ca_exitStatus := e\<rparr>) (b_captured b)"
    "b_battleId b' = b_battleId b" "b_state b' = b_state b" "b_resultState b' = b_resultState b"
    "b_terminalOutcome b' = b_terminalOutcome b" "b_combatTerminal b' = b_combatTerminal b"
    "b_monster b' = b_monster b" "b_drops b' = b_drops b" "b_holdings b' = b_holdings b"
    "b_lootResolution b' = b_lootResolution b" "b_committedResult b' = b_committedResult b"
    "b_lootResultsCompletedAt b' = b_lootResultsCompletedAt b" "b_combatDeadlineTick b' = b_combatDeadlineTick b"
    "b_lootDeadlineTick b' = b_lootDeadlineTick b"
    by (simp_all add: b'_def freezeParticipant_def upd_def f_def)
  have base: "base_inv b" and op: "open_ok b" using assms(1) by (simp_all add: battle_inv_def)
  then have roster: "roster_ok b" and res: "result_ok b" and comb: "combat_ok b" and adm: "admission_ok b"
    using assms(2) by (simp_all add: base_inv_def)
  have found: "find (\<lambda>p. pt_sessionId p = s) (b_participants b) = Some p" "p \<in> set (b_participants b)"
    using assms(3) participantRecord_set[OF assms(3)] by (auto simp: participantRecord_def)
  show nr: "b_resultState b = NotReady"
    using result_ok_state[OF res] found(2) assms(4) by (auto simp: result_committed_def)
  then have tn: "b_terminalOutcome b = None" using op assms(2) by (simp add: open_ok_def)
  have ropen: "result_open b" using result_ok_state[OF res] nr by simp
  have parts: "\<forall>p \<in> set (b_participants b). part_ok (b_battleId b) p" using roster by (simp add: roster_ok_def)
  have members: "set (b_participants b') \<subseteq> insert (f p) (set (b_participants b))"
    unfolding fields by (rule set_update_first_found[OF found(1)])
  have "part_ok (b_battleId b) (f p)" using parts found(2) assms(5) by (auto simp: part_ok_def f_def)
  then have parts': "\<forall>p \<in> set (b_participants b'). part_ok (b_battleId b) p" using members parts by blast
  have slots: "map pt_slot (b_participants b') = map pt_slot (b_participants b)"
    unfolding fields by (rule map_update_first) (simp add: f_def)
  have sess: "map ca_sessionId (b_captured b') = map ca_sessionId (b_captured b)"
    unfolding fields by (rule map_update_first) simp
  have len: "length (b_participants b') = length (b_participants b)" "length (b_captured b') = length (b_captured b)"
    by (simp_all add: fields)
  have "\<forall>v \<in> set (map ca_sessionId (b_captured b)). session_value v \<noteq> 0" using roster by (simp add: roster_ok_def)
  then have "\<forall>c \<in> set (b_captured b'). session_value (ca_sessionId c) \<noteq> 0" unfolding sess[symmetric] by simp
  then have "roster_ok b'"
    using roster parts' freeze_keys[of "b_captured b" "b_participants b" s e]
    unfolding roster_ok_def slots sess len fields(3) by (simp add: fields(1,2) f_def)
  moreover have "combat_ok b'"
    using comb unfolding combat_ok_cong[OF fields(8) fields(7) fields(9-11) sess] .
  moreover have "result_open b'"
    using ropen tn members assms(5) unfolding result_open_def fields(5-) by (auto simp: f_def)
  ultimately show "base_inv (freezeParticipant s e b)"
    using adm assms(2) unfolding b'_def[symmetric]
    by (simp add: base_inv_def fields(4) result_ok_def) (simp add: b'_def freezeParticipant_def admission_ok_def)
  show "b_resultState (freezeParticipant s e b) = NotReady" "b_terminalOutcome (freezeParticipant s e b) = None"
    unfolding b'_def[symmetric] fields using nr tn by auto
  show "open_ok (freezeParticipant s e b)" if "list_ex pt_gameplayEligible (b_participants (freezeParticipant s e b))"
    using op assms(2) nr that unfolding b'_def[symmetric] open_ok_def currentOutcome_def fields(4-)
    by (simp add: list_ex_iff)
qed

lemma cancellation_inv:
  assumes "base_inv b" "b_state b = GameplayCommitted" "b_resultState b = NotReady" "b_terminalOutcome b = None"
    "list_ex pt_gameplayEligible (b_participants b) \<Longrightarrow> open_ok b"
  shows "battle_inv (commitResultIfReady at (applyCancellationIfNoActiveParticipants b))"
proof (cases "list_ex pt_gameplayEligible (b_participants b)")
  case True
  then show ?thesis
    using assms by (simp add: applyCancellationIfNoActiveParticipants_def) (rule commit_inv)
next
  case False
  define b' where "b' = applyCancellationIfNoActiveParticipants b"
  have roster: "roster_ok b" and comb: "combat_ok b" and res: "result_open b" and adm: "admission_ok b"
    using assms(1-3) result_ok_state[of b] by (auto simp: base_inv_def)
  have none: "\<forall>p \<in> set (b_participants b). \<not> pt_gameplayEligible p" using False by (simp add: list_ex_iff)
  have b': "b' = (if b_lootResolution b = LootOpen
      then (clearDeadlines (b\<lparr>b_terminalOutcome := Some OutcomeCancelled\<rparr>))
             \<lparr>b_drops := closeDrops (b_drops b), b_lootResolution := LootResolved\<rparr>
      else clearDeadlines (b\<lparr>b_terminalOutcome := Some OutcomeCancelled\<rparr>))"
    using assms(3,4) False by (simp add: b'_def applyCancellationIfNoActiveParticipants_def clearDeadlines_def)
  have fields: "b_participants b' = b_participants b" "b_captured b' = b_captured b" "b_battleId b' = b_battleId b"
    "b_state b' = b_state b" "b_monster b' = b_monster b" "b_combatTerminal b' = b_combatTerminal b"
    "b_terminalOutcome b' = Some OutcomeCancelled" "b_resultState b' = NotReady" "b_lootResolution b' \<noteq> LootOpen"
    "b_committedResult b' = b_committedResult b" "b_lootResultsCompletedAt b' = b_lootResultsCompletedAt b"
    "b_holdings b' = b_holdings b" "b_lootResolution b' = LootNotStarted \<longleftrightarrow> b_lootResolution b = LootNotStarted"
    "currentOutcome b' = currentOutcome b"
    using assms(3) by (auto simp: b' clearDeadlines_def currentOutcome_def)
  have "roster_ok b'" using roster unfolding roster_ok_def fields .
  moreover have "no_loot b \<Longrightarrow> no_loot b'"
    by (auto simp: no_loot_def b' clearDeadlines_def)
  moreover have "loot_ok b \<Longrightarrow> loot_ok b'"
    using closeDrops_ok[of "map ca_sessionId (b_captured b)" "b_drops b" "b_holdings b"]
    by (auto simp: loot_ok_def b' clearDeadlines_def)
  moreover have "combat_ok b'"
    using comb calculation(2,3) unfolding combat_ok_def monster_ok_def fields by blast
  moreover have "result_open b'"
    using res none unfolding result_open_def fields by (simp add: fields(9))
  moreover have "admission_ok b'" using adm by (simp add: b' admission_ok_def clearDeadlines_def)
  ultimately have "base_inv b'" using assms(2) by (simp add: base_inv_def fields(4) result_ok_def)
  moreover have "readyOutcome b' \<noteq> None" by (simp add: readyOutcome_def fields)
  ultimately show ?thesis
    unfolding b'_def[symmetric] using assms(2) fields(4) by (intro commit_inv) auto
qed

lemma freeze_inv:
  assumes "battle_inv b" "e = VoluntaryLeft \<or> e = ExitDisconnected"
  shows "battle_inv (snd (freezeExited c e at b))"
proof -
  have "battle_inv (commitResultIfReady at (applyCancellationIfNoActiveParticipants
      (freezeParticipant s e (observeBattleTime at b))))"
    if "b_state b = GameplayCommitted" "participantRecord s b = Some p" "pt_exitStatus p = GameplayEligible" for s p
  proof -
    have o: "battle_inv (observeBattleTime at b)" "b_state (observeBattleTime at b) = GameplayCommitted"
      "participantRecord s (observeBattleTime at b) = Some p"
      using assms(1) that by simp_all
    have "b_state (freezeParticipant s e (observeBattleTime at b)) = GameplayCommitted"
      using that(1) by (simp add: freezeParticipant_def)
    then show ?thesis
      by (intro cancellation_inv freeze_participant_inv[OF o that(3) assms(2)])
  qed
  then show ?thesis
    using assms(1) by (auto simp: freezeExited_def split: sum.split option.split)
qed

lemma disconnect_candidate_inv: "battle_inv b \<Longrightarrow> battle_inv (snd (disconnectCandidate c at b))"
  by (auto simp: disconnectCandidate_def split: sum.split intro!: upd_candidate_inv freeze_inv)

lemma leave_inv: "battle_inv b \<Longrightarrow> battle_inv (snd (leaveBattle c at b))"
  by (simp add: leaveBattle_def freeze_inv)

end
