(* ===== verification/BattleSafety.thy ===== *)
theory BattleSafety
  imports BattleInvariant
begin

text \<open>
  Every operation of a battle keeps the invariant of BattleInvariant, none of them reaches
  \<open>std::terminate\<close>, and none of them makes the result generation fail. From these the
  properties of whole battles follow by induction over the operations.
\<close>

section \<open>Input and movement\<close>

lemma suspend_input_inv: "battle_inv b \<Longrightarrow> battle_inv (snd (suspendInput s g at b))"
  by (auto simp: suspendInput_def part_ok_def participant_key_def split: option.split
      intro!: upd_inv battle_inv_observe)

lemma resume_input_inv: "battle_inv b \<Longrightarrow> battle_inv (snd (resumeInput s g at b))"
  by (auto simp: resumeInput_def Let_def part_ok_def participant_key_def split: option.split
      intro!: upd_inv battle_inv_observe)

lemma take_bounded: "bucket_take bkt = Some rest \<Longrightarrow> snd bkt \<le> cap \<Longrightarrow> snd rest \<le> cap"
  using attack_bucket.take_debit[of bkt rest] by auto

lemma refill_bounds:
  "snd m \<le> 6000000000 \<Longrightarrow> snd (move_refill now m) \<le> 6000000000"
  "snd a \<le> 4000000000 \<Longrightarrow> snd (attack_refill now a) \<le> 4000000000"
  "snd a \<le> 4000000000 \<Longrightarrow> snd (claim_refill now a) \<le> 4000000000"
  by (simp_all add: move_refill_def attack_refill_def claim_refill_def move_bucket.refill_bounded
      attack_bucket.refill_bounded)

lemma take_bounds:
  "bucket_take (move_refill now m) = Some rest \<Longrightarrow> snd m \<le> 6000000000 \<Longrightarrow> snd rest \<le> 6000000000"
  "bucket_take (attack_refill now a) = Some rest \<Longrightarrow> snd a \<le> 4000000000 \<Longrightarrow> snd rest \<le> 4000000000"
  "bucket_take (claim_refill now a) = Some rest \<Longrightarrow> snd a \<le> 4000000000 \<Longrightarrow> snd rest \<le> 4000000000"
  using take_bounded refill_bounds by blast+

lemma move_inv:
  assumes "battle_inv b"
  shows "battle_inv (snd (acceptMove c at b))"
proof -
  obtain dx dy where delta: "tickDelta (mc_desiredX c) (mc_desiredY c) = (dx, dy)"
    by (cases "tickDelta (mc_desiredX c) (mc_desiredY c)")
  have small: "\<bar>dx\<bar> \<le> 250" "\<bar>dy\<bar> \<le> 250" using tickDelta_bounds[of "mc_desiredX c" "mc_desiredY c"] delta by simp_all
  have "battle_inv (upd s (\<lambda>q. q\<lparr>pt_moveBucket := move_refill (bt_nanos at) (pt_moveBucket p)\<rparr>) (observeBattleTime at b))"
    and "bucket_take (move_refill (bt_nanos at) (pt_moveBucket p)) = Some rest \<Longrightarrow> pt_gameplayEligible p \<Longrightarrow>
      battle_inv (upd s (\<lambda>q. q\<lparr>pt_moveBucket := rest, pt_latestSeenActionSequence := Some n,
        pt_tickDeltaX := dx, pt_tickDeltaY := dy\<rparr>) (observeBattleTime at b))"
    if "b_state b = GameplayCommitted" "participantRecord s b = Some p" for s p rest n
    using assms that small
    by (auto intro!: upd_inv[where p = p] intro: refill_bounds take_bounds simp: part_ok_def participant_key_def)
  then show ?thesis
    using assms by (auto simp: acceptMove_def Let_def delta split: option.split)
qed

lemma move_participant_ok:
  assumes "part_ok i p"
  shows "part_ok i (move_participant p)" "participant_key (move_participant p) = participant_key p"
    "pt_slot (move_participant p) = pt_slot p" "pt_inputEnabled (move_participant p) = pt_inputEnabled p"
  using assms by (auto simp: move_participant_def part_ok_def participant_key_def clamp_position_def)

lemma integrate_inv:
  assumes "battle_inv b"
  shows "battle_inv (snd (integrateMovement i tick at b))"
proof -
  have "battle_inv (b\<lparr>b_participants := map move_participant (b_participants b)\<rparr>)"
    if "battle_inv b" "b_state b = GameplayCommitted" for b
  proof -
    have parts: "\<forall>p \<in> set (b_participants b). part_ok (b_battleId b) p" and res: "result_ok b"
      using that by (auto simp: battle_inv_def base_inv_def roster_ok_def)
    show ?thesis
    proof (rule participants_inv[OF that])
      show "b_resultState b = NotReady \<or> (\<forall>p \<in> set (map move_participant (b_participants b)). \<not> pt_inputEnabled p)"
        using result_ok_state[OF res] parts move_participant_ok by (auto simp: result_committed_def)
    qed (use parts move_participant_ok in auto)
  qed
  then have step: "battle_inv ((observeBattleTime at b)\<lparr>b_participants := map move_participant (b_participants b)\<rparr>)"
    if "b_state b = GameplayCommitted"
    using battle_inv_observe[OF assms] that by fastforce
  have "battle_inv ((observeBattleTime at b)\<lparr>b_participants := map move_participant (b_participants b),
      b_lastIntegratedServerTick := Some tick\<rparr>)" if "b_state b = GameplayCommitted"
    by (rule battle_inv_cong[OF step[OF that]]) simp_all
  then show ?thesis using assms by (auto simp: integrateMovement_def Let_def)
qed

lemma snapshot_inv: "battle_inv b \<Longrightarrow> battle_inv (snd (captureStateSnapshot b))"
  by (auto simp: captureStateSnapshot_def intro: battle_inv_cong)

section \<open>Attacks\<close>

lemma committed_parts:
  assumes "battle_inv b" "b_state b = GameplayCommitted"
  shows "roster_ok b" "combat_ok b" "result_ok b" "admission_ok b"
    "\<forall>p \<in> set (b_participants b). part_ok (b_battleId b) p"
  using assms by (auto simp: battle_inv_def base_inv_def roster_ok_def)

lemma participant_ok:
  "battle_inv b \<Longrightarrow> b_state b = GameplayCommitted \<Longrightarrow> participantRecord s b = Some p \<Longrightarrow>
   part_ok (b_battleId b) p \<and> pt_sessionId p = s \<and> p \<in> set (b_participants b)"
  using committed_parts(5) participantRecord_set by blast

text \<open>Retaining an answer that the store has room for succeeds and changes nothing else.\<close>

lemma retain_attack:
  assumes "battle_inv b" "b_state b = GameplayCommitted" "participantRecord (cm_sessionId c) b = Some p"
    "inspect c (pt_attackResults p) = Available"
  obtains s b' where "retainAttack c code b = Some (attackResultNow c code b, b')"
    "b' = upd (cm_sessionId c) (\<lambda>p. p\<lparr>pt_attackResults := s\<rparr>) b" "battle_inv b'"
    "retain attack_answers c (attackResultNow c code b) (pt_attackResults p) = Some s"
proof -
  have ans: "attack_answers c (attackResultNow c code b)"
    by (simp add: attack_answers_def attackResultNow_def makeAttackResult_def)
  then obtain s where s: "retain attack_answers c (attackResultNow c code b) (pt_attackResults p) = Some s"
    using attack_store.keep_some[OF assms(4)] by blast
  have "store_inv attack_entry_ok s" if "part_ok (b_battleId b) p"
    using that retain_inv[OF _ s] answers_entry(1)[of c] by (auto simp: part_ok_def)
  then have "battle_inv (upd (cm_sessionId c) (\<lambda>p. p\<lparr>pt_attackResults := s\<rparr>) b)"
    using assms retain_store[OF s]
    by (intro upd_inv[OF assms(1-3)]) (auto simp: part_ok_def participant_key_def)
  then show ?thesis using that s assms(3) by (simp add: retainAttack_def Let_def)
qed

lemma enabled_open:
  assumes "battle_inv b" "b_state b = GameplayCommitted" "participantRecord s b = Some p" "pt_inputEnabled p"
  shows "b_resultState b = NotReady" "b_terminalOutcome b = None" "pt_gameplayEligible p" "result_open b"
proof -
  have p: "p \<in> set (b_participants b)" "part_ok (b_battleId b) p" using participant_ok[OF assms(1-3)] by auto
  then show nr: "b_resultState b = NotReady"
    using result_ok_state[OF committed_parts(3)[OF assms(1,2)]] assms(4) by (auto simp: result_committed_def)
  then show "b_terminalOutcome b = None" using assms(1,2) by (simp add: battle_inv_def open_ok_def)
  show "pt_gameplayEligible p" using p(2) assms(4) by (auto simp: part_ok_def)
  show "result_open b" using result_ok_state[OF committed_parts(3)[OF assms(1,2)]] nr by simp
qed

text \<open>A hit that the monster survives.\<close>

lemma hit_inv:
  assumes "battle_inv b" "b_state b = GameplayCommitted" "b_combatTerminal b = None" "b_monster b = Some m"
    "\<not> mo_hitPoints m \<le> 100"
  shows "battle_inv (b\<lparr>b_monster := Some (m\<lparr>mo_hitPoints := mo_hitPoints m - 100\<rparr>)\<rparr>)"
proof -
  let ?m = "m\<lparr>mo_hitPoints := mo_hitPoints m - 100\<rparr>" and ?b = "b\<lparr>b_monster := Some (m\<lparr>mo_hitPoints := mo_hitPoints m - 100\<rparr>)\<rparr>"
  have m: "monster_ok b m" "mo_state m = Alive" "no_loot b"
    using committed_parts(2)[OF assms(1,2)] assms(3,4) by (auto simp: combat_ok_def currentOutcome_def)
  have "unat (mo_hitPoints m - 100) = unat (mo_hitPoints m) - 100" "100 < unat (mo_hitPoints m)"
    using assms(5) by (auto simp: unat_sub word_le_nat_alt not_le)
  then have "monster_ok b ?m" "mo_hitPoints ?m \<noteq> 0"
    using m(1) by (auto simp: monster_ok_def dvd_diff_nat unat_gt_0[symmetric])
  then have "combat_ok ?b"
    using m(2,3) assms(3) by (simp add: combat_ok_def monster_ok_def no_loot_def)
  moreover have "roster_ok ?b" "result_ok ?b" "admission_ok ?b" "open_ok ?b"
    using committed_parts[OF assms(1,2)] assms(1)
    by (simp_all add: battle_inv_def inv_parts)
  ultimately show ?thesis using assms(2) by (simp add: battle_inv_def base_inv_def)
qed

text \<open>The kill: the monster is dead, its drops are there and the loot is open.\<close>

definition killed :: "battle \<Rightarrow> monster \<Rightarrow> combat_terminal \<Rightarrow> relic_drop list \<Rightarrow> u64 \<Rightarrow> battle" where
  "killed b m t drops deadline = b\<lparr>b_monster := Some m, b_combatTerminal := Some t, b_combatDeadlineTick := None,
     b_drops := map (\<lambda>d. \<lparr>ld_drop = d, ld_state = DropAvailable, ld_owner = None\<rparr>) drops,
     b_lootResolution := LootOpen, b_lootDeadlineTick := Some deadline\<rparr>"

lemma killed_inv:
  assumes "battle_inv b" "b_state b = GameplayCommitted" "b_combatTerminal b = None" "b_resultState b = NotReady"
    "monster_ok b m" "mo_state m = Dead" "mo_hitPoints m = 0" "ct_outcome t = MonsterDefeated"
    "generateDrops (b_seed b) 1 (of_nat (length (b_captured b))) v1Snapshot = Some drops"
  shows "battle_inv (killed b m t drops deadline)"
proof -
  note parts = committed_parts[OF assms(1,2)]
  let ?b = "killed b m t drops deadline"
  let ?ds = "map (\<lambda>d. \<lparr>ld_drop = d, ld_state = DropAvailable, ld_owner = None\<rparr>) drops"
  have n: "2 \<le> length (b_captured b)" "length (b_captured b) \<le> 10" using parts(1) by (auto simp: roster_ok_def)
  then have "unat (of_nat (length (b_captured b)) :: u32) = length (b_captured b)"
    by (simp add: unat_of_nat take_bit_nat_eq_self)
  then have drops: "length drops = length (b_captured b)" "\<forall>d \<in> set drops. drop_ok d" "distinct (map rd_dropId drops)"
    using generateDrops_spec(3,4)[OF assms(9)] generateDrops_ids_distinct[OF assms(9)] by simp_all
  have "no_loot b" using parts(2) assms(3) by (auto simp: combat_ok_def currentOutcome_def)
  then have "holdings_ok ?ds (b_holdings b)" by (simp add: holdings_ok_def no_loot_def)
  moreover have "drops_ok (map ca_sessionId (b_captured b)) ?ds" using drops by (auto simp: drops_ok_def comp_def)
  moreover have "drops \<noteq> []" using drops(1) n by auto
  ultimately have "loot_ok ?b" using drops(1) by (auto simp: loot_ok_def killed_def)
  then have "combat_ok ?b"
    using assms(5-8) by (auto simp: combat_ok_def killed_def monster_ok_def currentOutcome_def)
  moreover have "roster_ok ?b" "admission_ok ?b" "open_ok ?b"
    using parts assms(1,2,4,8) by (auto simp: killed_def battle_inv_def roster_ok_def admission_ok_def open_ok_def
        currentOutcome_def)
  moreover have "result_open ?b"
    using result_ok_state[OF parts(3)] assms(1,2,4)
    by (auto simp: killed_def result_open_def battle_inv_def open_ok_def)
  ultimately show ?thesis using assms(2) by (simp add: battle_inv_def base_inv_def result_ok_def killed_def)
qed

lemma drops_generated_here:
  assumes "battle_inv b" "b_state b = GameplayCommitted"
  shows "\<exists>drops. generateDrops (b_seed b) 1 (of_nat (length (b_captured b))) v1Snapshot = Some drops"
proof (rule generateDrops_total)
  have "2 \<le> length (b_captured b)" "length (b_captured b) \<le> 10"
    using committed_parts(1)[OF assms] by (auto simp: roster_ok_def)
  then show "2 \<le> unat (of_nat (length (b_captured b)) :: u32)" "unat (of_nat (length (b_captured b)) :: u32) \<le> 10"
    by (simp_all add: unat_of_nat take_bit_nat_eq_self)
  show "b_seed b \<noteq> 0" using committed_parts(4)[OF assms] by (simp add: admission_ok_def)
qed

lemma mark_attacks_inv:
  assumes "battle_inv b" "b_state b = GameplayCommitted"
  shows "battle_inv (markAttackResultsCompleted at b)"
  unfolding markAttackResultsCompleted_def
proof (rule participants_inv[OF assms])
  note parts = committed_parts[OF assms]
  show "\<forall>p \<in> set (map (\<lambda>p. p\<lparr>pt_attackResults := markBattleCompleted (bt_nanos at) (pt_attackResults p)\<rparr>)
      (b_participants b)). part_ok (b_battleId b) p"
    using parts(5) by (auto simp: part_ok_def)
  show "b_resultState b = NotReady \<or> (\<forall>p \<in> set (map (\<lambda>p. p\<lparr>pt_attackResults :=
      markBattleCompleted (bt_nanos at) (pt_attackResults p)\<rparr>) (b_participants b)). \<not> pt_inputEnabled p)"
    using result_ok_state[OF parts(3)] by (auto simp: result_committed_def)
qed (simp_all add: participant_key_def comp_def)

lemma open_loot_killed:
  assumes "generateDrops (b_seed b) 1 (of_nat (length (b_captured b))) v1Snapshot = Some drops" "b_drops b = []"
  shows "openLoot at (b\<lparr>b_monster := Some m, b_combatTerminal := Some t, b_combatDeadlineTick := None\<rparr>) =
    killed b m t drops (addTicks (bt_tick at) 300)"
  using assms by (simp add: openLoot_def killed_def)

lemma no_loot_empty: "no_loot b \<Longrightarrow> b_drops b = []"
  by (simp add: no_loot_def)

lemma mark_attacks_fields [simp]:
  "b_state (markAttackResultsCompleted at b) = b_state b" "b_resultState (markAttackResultsCompleted at b) = b_resultState b"
  "b_captured (markAttackResultsCompleted at b) = b_captured b" "b_drops (markAttackResultsCompleted at b) = b_drops b"
  "b_combatTerminal (markAttackResultsCompleted at b) = b_combatTerminal b"
  "b_terminalOutcome (markAttackResultsCompleted at b) = b_terminalOutcome b"
  "b_lootResolution (markAttackResultsCompleted at b) = b_lootResolution b"
  "b_monster (markAttackResultsCompleted at b) = b_monster b"
  "b_battleId (markAttackResultsCompleted at b) = b_battleId b"
  "b_time (markAttackResultsCompleted at b) = b_time b"
  by (simp_all add: markAttackResultsCompleted_def)

lemma commit_of_inv:
  "battle_inv b \<Longrightarrow> b_state b = GameplayCommitted \<Longrightarrow> battle_inv (commitResultIfReady at b)"
  by (rule commit_inv) (auto simp: battle_inv_def)

text \<open>An open battle has nothing to commit yet.\<close>

lemma commit_idle:
  assumes "battle_inv b" "b_state b = GameplayCommitted"
  shows "commitResultIfReady at b = b"
proof (cases "b_resultState b = NotReady")
  case True
  then have "readyOutcome b = None"
    using assms by (auto simp: battle_inv_def open_ok_def readyOutcome_def currentOutcome_def split: option.splits)
  then show ?thesis by (simp add: commitResultIfReady_def)
qed (simp add: commitResultIfReady_def)

lemma strike_inv:
  assumes "battle_inv b" "b_state b = GameplayCommitted" "participantRecord (cm_sessionId c) b = Some q"
    "inspect c (pt_attackResults q) = Available" "b_combatTerminal b = None" "pt_inputEnabled q" "b_monster b = Some m"
  shows "\<exists>r b'. attackStrike c at p m b = Some (r, b') \<and> battle_inv b'"
proof -
  let ?s = "cm_sessionId c"
  have ret: "\<exists>r b'. retainAttack c code b1 = Some (r, b') \<and> battle_inv b'"
    if "battle_inv b1" "b_state b1 = GameplayCommitted" "participantRecord ?s b1 = Some q1"
      "pt_attackResults q1 = pt_attackResults q" for code b1 q1
    using retain_attack[OF that(1-3), of code] assms(4) that(4) by metis
  let ?f = "\<lambda>p. p\<lparr>pt_lastAcceptedAttackNanos := Some (bt_nanos at)\<rparr>"
  define b1 where "b1 = upd ?s ?f b"
  have i1: "battle_inv b1"
    unfolding b1_def by (rule upd_inv[OF assms(1-3)]) (auto simp: part_ok_def participant_key_def)
  have f1: "b_state b1 = GameplayCommitted" "b_combatTerminal b1 = None" "b_monster b1 = Some m"
    "participantRecord ?s b1 = Some (?f q)" "b_resultState b1 = NotReady"
    using assms enabled_open(1)[OF assms(1-3,6)] by (simp_all add: b1_def participantRecord_upd)
  have mon: "monster_ok b1 m" "mo_state m = Alive" "no_loot b1"
    using committed_parts(2)[OF i1 f1(1)] f1(2,3) by (auto simp: combat_ok_def currentOutcome_def)
  have moved: "upd ?s ?f (b\<lparr>b_monster := x\<rparr>) = b1\<lparr>b_monster := x\<rparr>" for x
    by (simp add: b1_def upd_def)
  show ?thesis
  proof (cases "mo_hitPoints m \<le> 100")
    case False
    have "\<exists>r b'. retainAttack c AttackOk (b1\<lparr>b_monster := Some (m\<lparr>mo_hitPoints := mo_hitPoints m - 100\<rparr>)\<rparr>) = Some (r, b') \<and>
        battle_inv b'"
      by (rule ret[OF hit_inv[OF i1 f1(1-3) False], of "?f q"])
        (use f1 in \<open>simp_all add: participantRecord_def\<close>)
    then show ?thesis
      using ret[OF assms(1-3)] False mon(2) by (simp add: attackStrike_def applyAttack_def moved)
  next
    case True
    let ?m = "m\<lparr>mo_hitPoints := 0, mo_state := Dead\<rparr>"
    obtain drops where drops: "generateDrops (b_seed b1) 1 (of_nat (length (b_captured b1))) v1Snapshot = Some drops"
      using drops_generated_here[OF i1 f1(1)] by blast
    have m': "monster_ok b1 ?m" using mon(1) by (simp add: monster_ok_def)
    let ?t = "terminalRecord MonsterDefeated (b1\<lparr>b_monster := Some ?m\<rparr>)"
    define b2 where "b2 = killed b1 ?m ?t drops (addTicks (bt_tick at) 300)"
    have i2: "battle_inv b2"
      unfolding b2_def using m' drops f1 by (intro killed_inv[OF i1]) (simp_all add: terminalRecord_def)
    have f2: "b_state b2 = GameplayCommitted" "participantRecord ?s b2 = Some (?f q)"
      using f1 by (simp_all add: b2_def killed_def participantRecord_def)
    obtain r b3 where b3: "retainAttack c AttackOk b2 = Some (r, b3)" "battle_inv b3" "b_state b3 = GameplayCommitted"
    proof (rule retain_attack[OF i2 f2, of AttackOk])
      show "inspect c (pt_attackResults (?f q)) = Available" using assms(4) by simp
    next
      fix s b' assume b': "retainAttack c AttackOk b2 = Some (attackResultNow c AttackOk b2, b')"
        "b' = upd ?s (\<lambda>p. p\<lparr>pt_attackResults := s\<rparr>) b2" "battle_inv b'"
      have "b_state b' = GameplayCommitted" unfolding b'(2) using f2(1) by simp
      then show thesis using that[OF b'(1,3)] by blast
    qed
    have "attackLethal c at (b1\<lparr>b_monster := Some ?m\<rparr>) =
        Some (r, commitResultIfReady at (markAttackResultsCompleted at b3))"
      using open_loot_killed[OF drops no_loot_empty[OF mon(3)], where at = at and m = ?m and t = ?t] b3(1)
      by (simp add: attackLethal_def Let_def b2_def)
    moreover have "battle_inv (commitResultIfReady at (markAttackResultsCompleted at b3))"
      using commit_of_inv mark_attacks_inv b3(2,3) by simp
    ultimately show ?thesis
      using ret[OF assms(1-3)] True mon(2)
      by (simp add: attackStrike_def applyAttack_def completeDeath_def moved)
  qed
qed

lemma fresh_inv:
  assumes "battle_inv b" "b_state b = GameplayCommitted" "participantRecord (cm_sessionId c) b = Some q"
    "inspect c (pt_attackResults q) = Available" "b_monster b = Some m" "pt_inputEnabled p = pt_inputEnabled q"
    "pt_attackBucket p = pt_attackBucket q"
  shows "\<exists>r b'. attackFresh c at p m b = Some (r, b') \<and> battle_inv b'"
proof -
  let ?s = "cm_sessionId c"
  have ret: "\<exists>r b'. retainAttack c code b1 = Some (r, b') \<and> battle_inv b'"
    if "battle_inv b1" "b_state b1 = GameplayCommitted" "participantRecord ?s b1 = Some q1"
      "pt_attackResults q1 = pt_attackResults q" for code b1 q1
    using retain_attack[OF that(1-3), of code] assms(4) that(4) by metis
  have bucket: "battle_inv (upd ?s (\<lambda>p. p\<lparr>pt_attackBucket := bkt\<rparr>) b)" if "snd bkt \<le> 4000000000" for bkt
    using that by (intro upd_inv[OF assms(1-3)]) (auto simp: part_ok_def participant_key_def)
  have cap: "snd (pt_attackBucket q) \<le> 4000000000"
    using participant_ok[OF assms(1-3)] by (simp add: part_ok_def)
  show ?thesis
  proof (cases "bucket_take (attack_refill (bt_nanos at) (pt_attackBucket q))")
    case None
    have "\<exists>r b'. retainAttack c AttackOverloaded (upd ?s (\<lambda>p. p\<lparr>pt_attackBucket :=
        attack_refill (bt_nanos at) (pt_attackBucket q)\<rparr>) b) = Some (r, b') \<and> battle_inv b'"
      by (rule ret[OF bucket[OF refill_bounds(2)[OF cap]],
            where ?q1.0 = "q\<lparr>pt_attackBucket := attack_refill (bt_nanos at) (pt_attackBucket q)\<rparr>"])
        (use assms in \<open>auto simp: participantRecord_upd\<close>)
    then show ?thesis using ret[OF assms(1-3)] None assms(7) by (simp add: attackFresh_def Let_def)
  next
    case (Some rest)
    have "\<exists>r b'. attackStrike c at p m (upd ?s (\<lambda>p. p\<lparr>pt_attackBucket := rest\<rparr>) b) = Some (r, b') \<and> battle_inv b'"
      if "b_combatTerminal b = None" "pt_inputEnabled q"
      by (rule strike_inv[OF bucket[OF take_bounds(2)[OF Some cap]], where q = "q\<lparr>pt_attackBucket := rest\<rparr>"])
        (use assms that in \<open>auto simp: participantRecord_upd\<close>)
    then show ?thesis
      using ret[OF assms(1-3)] Some assms(6,7) by (auto simp: attackFresh_def Let_def)
  qed
qed

lemma evict_scope [simp]:
  "st_sessionId (snd (evictExpired t s)) = st_sessionId s" "st_generation (snd (evictExpired t s)) = st_generation s"
  "st_battleId (snd (evictExpired t s)) = st_battleId s"
  by (simp_all add: evictExpired_def)

lemma attack_inv:
  assumes "battle_inv b"
  shows "\<exists>r b'. attack c at b = Some (r, b') \<and> battle_inv b'"
proof (cases "cm_battleId c = b_battleId b \<and> b_state b = GameplayCommitted")
  case False
  then show ?thesis using assms by (auto simp: attack_def)
next
  case True
  note gc = conjunct2[OF True]
  let ?s = "cm_sessionId c"
  obtain m where m: "b_monster b = Some m" using committed_parts(2)[OF assms gc] by (auto simp: combat_ok_def)
  show ?thesis
  proof (cases "participantRecord ?s b")
    case None
    then show ?thesis using assms True m by (simp add: attack_def)
  next
    case (Some p)
    show ?thesis
    proof (cases "pt_generation p = cm_generation c")
      case False
      then show ?thesis using assms True m Some by (simp add: attack_def)
    next
      case gen: True
      obtain n s where ev: "evictExpired (bt_nanos at) (pt_attackResults p) = (n, s)"
        by (cases "evictExpired (bt_nanos at) (pt_attackResults p)")
      have ok: "part_ok (b_battleId b) p" "pt_sessionId p = ?s" using participant_ok[OF assms gc Some] by auto
      have s: "st_sessionId s = ?s" "st_generation s = cm_generation c" "st_battleId s = b_battleId b"
        "store_inv attack_entry_ok s"
        using ok gen evict_scope[of "bt_nanos at" "pt_attackResults p"]
          store_inv_other(3)[of attack_entry_ok "pt_attackResults p" "bt_nanos at"] by (auto simp: ev part_ok_def)
      have scope: "inspect c s \<noteq> ScopeMismatch"
        using s True by (auto simp: inspect_def scopeMatches_def split: option.split)
      define b1 where "b1 = upd ?s (\<lambda>p. p\<lparr>pt_attackResults := s\<rparr>) b"
      define b2 where "b2 = (if n \<noteq> 0 then observeBattleTime at b1 else b1)"
      let ?q = "p\<lparr>pt_attackResults := s\<rparr>"
      have "battle_inv b1"
        unfolding b1_def using s ok by (intro upd_inv[OF assms gc Some]) (auto simp: part_ok_def participant_key_def gen)
      moreover have "participantRecord ?s b1 = Some ?q" "b_state b1 = GameplayCommitted" "b_monster b1 = Some m"
        using Some gc m by (simp_all add: b1_def participantRecord_upd)
      ultimately have i2: "battle_inv b2" "participantRecord ?s b2 = Some ?q" "b_state b2 = GameplayCommitted" "b_monster b2 = Some m"
        by (simp_all add: b2_def)
      have i3: "battle_inv (observeBattleTime at b2)" "participantRecord ?s (observeBattleTime at b2) = Some ?q"
        "b_state (observeBattleTime at b2) = GameplayCommitted" "b_monster (observeBattleTime at b2) = Some m"
        using i2 by simp_all
      have step: "attack c at b = (case inspect c s of
          Replay result \<Rightarrow> Some (result, b2)
        | Conflict \<Rightarrow> Some (attackResultNow c AttackCommandConflict b2, b2)
        | StoreOverloaded \<Rightarrow> Some (attackResultNow c AttackOverloaded b2, b2)
        | ScopeMismatch \<Rightarrow> None
        | Available \<Rightarrow> attackFresh c at p m (observeBattleTime at b2))"
        using True m Some gen unfolding b2_def b1_def by (cases "inspect c s") (simp_all add: attack_def ev Let_def)
      show ?thesis
      proof (cases "inspect c s = Available")
        case True
        then have "\<exists>r b'. attackFresh c at p m (observeBattleTime at b2) = Some (r, b') \<and> battle_inv b'"
          by (intro fresh_inv[OF i3(1,3,2) _ i3(4)]) simp_all
        then show ?thesis using step True by simp
      next
        case False
        then show ?thesis using step scope i2(1) by (auto split: inspection.splits)
      qed
    qed
  qed
qed

lemma attack_applied_inv:
  assumes "battle_inv b"
  shows "\<exists>r b'. attackWithApplied c at b = Some (r, b') \<and> battle_inv b'"
proof -
  obtain r b' where "attack c at b = Some (r, b')" "battle_inv b'" using attack_inv[OF assms] by blast
  then show ?thesis
    by (auto simp: attackWithApplied_def Let_def intro: battle_inv_cong)
qed

section \<open>Deadlines\<close>

lemma expire_combat_inv:
  assumes "battle_inv b"
  shows "battle_inv (snd (expireCombat i at b))"
proof (cases "b_state b = GameplayCommitted \<and> b_combatTerminal b = None \<and> b_terminalOutcome b = None")
  case False
  then show ?thesis using assms by (auto simp: expireCombat_def split: option.split)
next
  case True
  then have gc: "b_state b = GameplayCommitted" "b_combatTerminal b = None" "b_terminalOutcome b = None" by auto
  note parts = committed_parts[OF assms gc(1)]
  obtain m where m: "b_monster b = Some m" "monster_ok b m" "mo_state m = Alive" "mo_hitPoints m \<noteq> 0" "no_loot b"
    using parts(2) gc(2) by (auto simp: combat_ok_def currentOutcome_def)
  have nr: "b_resultState b = NotReady" "result_open b"
    using result_ok_state[OF parts(3)] gc(3) by (auto simp: result_committed_def)
  let ?b1 = "observeBattleTime at (b\<lparr>b_monster := Some (m\<lparr>mo_state := TimedOut\<rparr>)\<rparr>)"
  let ?t = "terminalRecord CombatTimeout ?b1"
  define b2 where "b2 = ?b1\<lparr>b_combatTerminal := Some ?t, b_combatDeadlineTick := None\<rparr>"
  have fields: "b_state b2 = GameplayCommitted" "b_resultState b2 = NotReady" "currentOutcome b2 = CombatTimeout"
    "b_terminalOutcome b2 = None" "b_combatTerminal b2 = Some ?t" "b_monster b2 = Some (m\<lparr>mo_state := TimedOut\<rparr>)"
    using gc nr by (simp_all add: b2_def currentOutcome_def terminalRecord_def)
  have "monster_ok b2 (m\<lparr>mo_state := TimedOut\<rparr>)" "no_loot b2"
    using m(2,5) by (simp_all add: b2_def monster_ok_def no_loot_def)
  then have "combat_ok b2" using m(4) fields by (simp add: combat_ok_def)
  moreover have "roster_ok b2" "admission_ok b2" "result_open b2"
    using parts(1,4) nr(2) by (simp_all add: b2_def roster_ok_def admission_ok_def result_open_def)
  ultimately have base: "base_inv b2" using fields(1) by (simp add: base_inv_def result_ok_def)
  have "base_inv (markAttackResultsCompleted at b2)"
    unfolding markAttackResultsCompleted_def
    using base fields by (intro participants_base_inv)
      (auto simp: base_inv_def roster_ok_def part_ok_def participant_key_def comp_def)
  moreover have "readyOutcome (markAttackResultsCompleted at b2) \<noteq> None"
    using fields(3-5) by (simp add: readyOutcome_def currentOutcome_def)
  ultimately have "battle_inv (commitResultIfReady at (markAttackResultsCompleted at b2))"
    using fields(1) by (intro commit_inv) auto
  then show ?thesis
    using assms m(1,3) gc by (simp add: expireCombat_def monsterTimeout_def Let_def b2_def)
qed

lemma loot_open_parts:
  assumes "battle_inv b" "b_lootResolution b = LootOpen"
  shows "b_state b = GameplayCommitted" "loot_ok b" "currentOutcome b = MonsterDefeated"
    "b_resultState b = NotReady" "result_open b" "b_terminalOutcome b = None"
proof -
  show gc: "b_state b = GameplayCommitted"
    using assms by (auto simp: battle_inv_def base_inv_def not_started_def no_loot_def split: if_splits)
  show "loot_ok b" "currentOutcome b = MonsterDefeated"
    using committed_parts(2)[OF assms(1) gc] assms(2) by (auto simp: combat_ok_def no_loot_def)
  show nr: "b_resultState b = NotReady" "result_open b"
    using result_ok_state[OF committed_parts(3)[OF assms(1) gc]] assms(2) by (auto simp: result_committed_def)
  show "b_terminalOutcome b = None" using assms(1) gc nr by (simp add: battle_inv_def open_ok_def)
qed

text \<open>Closing the loot commits.\<close>

lemma close_loot_base:
  assumes "battle_inv b" "b_lootResolution b = LootOpen" "length ds = length (b_captured b)"
    "drops_ok (map ca_sessionId (b_captured b)) ds" "holdings_ok ds hs" "\<forall>d \<in> set ds. ld_state d \<noteq> DropAvailable"
  shows "base_inv (b\<lparr>b_drops := ds, b_holdings := hs, b_lootResolution := LootResolved,
    b_lootDeadlineTick := None\<rparr>)"
proof -
  note o = loot_open_parts[OF assms(1,2)]
  let ?b = "b\<lparr>b_drops := ds, b_holdings := hs, b_lootResolution := LootResolved, b_lootDeadlineTick := None\<rparr>"
  note parts = committed_parts[OF assms(1) o(1)]
  obtain m where m: "b_monster b = Some m" "monster_ok b m" "mo_state m = Dead" "mo_hitPoints m = 0"
    using parts(2) o(3) by (auto simp: combat_ok_def currentOutcome_def)
  have "loot_ok ?b" using assms(3-6) by (simp add: loot_ok_def)
  then have "combat_ok ?b"
    using m o(3) by (simp add: combat_ok_def monster_ok_def currentOutcome_def)
  moreover have "roster_ok ?b" "admission_ok ?b" "result_open ?b"
    using parts(1,4) o(5,6) by (simp_all add: roster_ok_def admission_ok_def result_open_def)
  ultimately show ?thesis using o(1) by (simp add: base_inv_def result_ok_def)
qed

lemma close_loot_inv:
  assumes "battle_inv b" "b_lootResolution b = LootOpen" "length ds = length (b_captured b)"
    "drops_ok (map ca_sessionId (b_captured b)) ds" "holdings_ok ds hs" "\<forall>d \<in> set ds. ld_state d \<noteq> DropAvailable"
  shows "battle_inv (commitResultIfReady at (b\<lparr>b_drops := ds, b_holdings := hs, b_lootResolution := LootResolved,
    b_lootDeadlineTick := None\<rparr>))"
proof -
  note o = loot_open_parts[OF assms(1,2)]
  let ?b = "b\<lparr>b_drops := ds, b_holdings := hs, b_lootResolution := LootResolved, b_lootDeadlineTick := None\<rparr>"
  have "readyOutcome ?b \<noteq> None"
    using o(3,6) by (auto simp: readyOutcome_def currentOutcome_def split: option.splits)
  then show ?thesis using o(1) close_loot_base[OF assms] by (intro commit_inv) auto
qed

lemma expire_loot_inv:
  assumes "battle_inv b"
  shows "battle_inv (snd (expireLoot i at b))"
proof (cases "b_lootResolution b = LootOpen")
  case False
  then show ?thesis using assms by (simp add: expireLoot_def)
next
  case True
  let ?b = "observeBattleTime at b"
  have i: "battle_inv ?b" "b_lootResolution ?b = LootOpen" using assms True by simp_all
  have l: "loot_ok ?b" by (rule loot_open_parts(2)[OF i])
  then have c: "drops_ok (map ca_sessionId (b_captured ?b)) (b_drops ?b)" "holdings_ok (b_drops ?b) (b_holdings ?b)"
    "length (b_drops ?b) = length (b_captured ?b)"
    unfolding loot_ok_def by blast+
  note cl = closeDrops_ok[OF c(1,2)]
  have "battle_inv (commitResultIfReady at (?b\<lparr>b_drops := closeDrops (b_drops ?b), b_holdings := b_holdings ?b,
      b_lootResolution := LootResolved, b_lootDeadlineTick := None\<rparr>))"
    by (rule close_loot_inv[OF i]) (use cl c(3) in auto)
  moreover have "?b\<lparr>b_drops := closeDrops (b_drops ?b), b_holdings := b_holdings ?b,
      b_lootResolution := LootResolved, b_lootDeadlineTick := None\<rparr> =
      ?b\<lparr>b_drops := closeDrops (b_drops ?b), b_lootResolution := LootResolved, b_lootDeadlineTick := None\<rparr>"
    by (rule battle.equality) simp_all
  ultimately have "battle_inv (commitResultIfReady at (?b\<lparr>b_drops := closeDrops (b_drops ?b),
      b_lootResolution := LootResolved, b_lootDeadlineTick := None\<rparr>))" by (simp only:)
  then show ?thesis using assms True by (simp add: expireLoot_def Let_def)
qed

section \<open>Claims\<close>

lemma set_update_first_distinct:
  "find P xs = Some x \<Longrightarrow> distinct (map k xs) \<Longrightarrow> (\<And>y. P y \<Longrightarrow> k y = a) \<Longrightarrow>
   set (update_first P f xs) = insert (f x) {y \<in> set xs. \<not> P y}"
proof (induction xs)
  case (Cons y ys)
  show ?case
  proof (cases "P y")
    case True
    then have "\<forall>z \<in> set ys. \<not> P z" using Cons.prems by (metis distinct.simps(2) image_eqI list.simps(9) set_map)
    then show ?thesis using True Cons.prems(1) by auto
  next
    case False
    then show ?thesis using Cons by auto
  qed
qed simp

lemma claimed_count_update:
  "find P ds = Some r \<Longrightarrow>
   claimed_count t i (update_first P f ds) + (if claimed_by t i r then 1 else 0) =
   claimed_count t i ds + (if claimed_by t i (f r) then 1 else 0)"
  by (induction ds) (auto simp: claimed_count_def)

lemma addHolding_keys:
  assumes "distinct (map (\<lambda>h. (ho_sessionId h, ho_itemId h)) hs)"
  shows "distinct (map (\<lambda>h. (ho_sessionId h, ho_itemId h)) (addHolding s i q hs))"
    "set (addHolding s i q hs) =
      {h \<in> set hs. (ho_sessionId h, ho_itemId h) \<noteq> (s, i)} \<union>
      {\<lparr>ho_sessionId = s, ho_itemId = i, ho_quantity =
         (case find (\<lambda>h. ho_sessionId h = s \<and> ho_itemId h = i) hs of None \<Rightarrow> q | Some h \<Rightarrow> ho_quantity h + q)\<rparr>}"
proof -
  let ?P = "\<lambda>h. ho_sessionId h = s \<and> ho_itemId h = i" and ?f = "\<lambda>h. h\<lparr>ho_quantity := ho_quantity h + q\<rparr>"
  have "distinct (map (\<lambda>h. (ho_sessionId h, ho_itemId h)) (addHolding s i q hs)) \<and> set (addHolding s i q hs) =
      {h \<in> set hs. (ho_sessionId h, ho_itemId h) \<noteq> (s, i)} \<union>
      {\<lparr>ho_sessionId = s, ho_itemId = i, ho_quantity =
         (case find ?P hs of None \<Rightarrow> q | Some h \<Rightarrow> ho_quantity h + q)\<rparr>}"
  proof (cases "find ?P hs")
    case None
    then have none: "\<forall>h \<in> set hs. \<not> ?P h" by (simp add: find_None_iff)
    then have "\<not> list_ex ?P hs" by (simp add: list_ex_iff)
    then have a: "addHolding s i q hs = hs @ [\<lparr>ho_sessionId = s, ho_itemId = i, ho_quantity = q\<rparr>]"
      by (simp only: addHolding_def if_False)
    show ?thesis unfolding a None option.case using assms none by auto
  next
    case (Some h)
    then have h: "h \<in> set hs" "?P h" using find_set[of ?P hs h] by auto
    have "list_ex ?P hs" using h by (auto simp: list_ex_iff)
    then have a: "addHolding s i q hs = update_first ?P ?f hs" by (simp add: addHolding_def)
    have "map (\<lambda>h. (ho_sessionId h, ho_itemId h)) (update_first ?P ?f hs) = map (\<lambda>h. (ho_sessionId h, ho_itemId h)) hs"
      by (rule map_update_first) simp
    moreover have "set (update_first ?P ?f hs) = insert (?f h) {y \<in> set hs. \<not> ?P y}"
      by (rule set_update_first_distinct[OF Some assms]) simp
    moreover have "?f h = \<lparr>ho_sessionId = s, ho_itemId = i, ho_quantity = ho_quantity h + q\<rparr>"
      by (rule holding.equality) (use h(2) in simp_all)
    ultimately show ?thesis using assms Some by (auto simp: a)
  qed
  then show "distinct (map (\<lambda>h. (ho_sessionId h, ho_itemId h)) (addHolding s i q hs))"
    "set (addHolding s i q hs) =
      {h \<in> set hs. (ho_sessionId h, ho_itemId h) \<noteq> (s, i)} \<union>
      {\<lparr>ho_sessionId = s, ho_itemId = i, ho_quantity =
         (case find ?P hs of None \<Rightarrow> q | Some h \<Rightarrow> ho_quantity h + q)\<rparr>}" by blast+
qed

text \<open>Giving an available drop to a captured participant keeps the ledger consistent.\<close>

lemma take_drop_ledger:
  assumes "drops_ok ss ds" "holdings_ok ds hs" "find (\<lambda>r. rd_dropId (ld_drop r) = i) ds = Some r"
    "ld_state r = DropAvailable" "s \<in> set ss"
  defines "ds' \<equiv> update_first (\<lambda>r. rd_dropId (ld_drop r) = i) (\<lambda>r. r\<lparr>ld_state := DropClaimed, ld_owner := Some s\<rparr>) ds"
    and "hs' \<equiv> addHolding s (rd_itemId (ld_drop r)) (rd_quantity (ld_drop r)) hs"
  shows "drops_ok ss ds'" "holdings_ok ds' hs'" "length ds' = length ds"
proof -
  let ?f = "\<lambda>r. r\<lparr>ld_state := DropClaimed, ld_owner := Some s\<rparr>" and ?item = "rd_itemId (ld_drop r)"
  have r: "r \<in> set ds" "rd_dropId (ld_drop r) = i" using find_set[OF assms(3)] by auto
  have q: "rd_quantity (ld_drop r) = 1" "drop_ok (ld_drop r)" using assms(1) r(1) by (auto simp: drops_ok_def drop_ok_def)
  have ids: "distinct (map (\<lambda>d. rd_dropId (ld_drop d)) ds)" using assms(1) by (simp add: drops_ok_def)
  have members: "set ds' = insert (?f r) {y \<in> set ds. rd_dropId (ld_drop y) \<noteq> i}"
    unfolding ds'_def by (rule set_update_first_distinct[OF assms(3) ids]) simp
  have "map (\<lambda>d. rd_dropId (ld_drop d)) ds' = map (\<lambda>d. rd_dropId (ld_drop d)) ds"
    unfolding ds'_def by (rule map_update_first) simp
  moreover have "\<forall>d \<in> set ds'. drop_ok (ld_drop d) \<and> (case ld_owner d of None \<Rightarrow> ld_state d \<noteq> DropClaimed
      | Some s \<Rightarrow> ld_state d = DropClaimed \<and> s \<in> set ss)"
    using assms(1,5) q(2) unfolding members drops_ok_def by auto
  ultimately show "drops_ok ss ds'" using ids by (simp add: drops_ok_def)
  show "length ds' = length ds" by (simp add: ds'_def)
  have count: "claimed_count t j ds' = claimed_count t j ds + (if t = s \<and> j = ?item then 1 else 0)" for t j
    using claimed_count_update[OF assms(3), of t j ?f] assms(4) by (auto simp: ds'_def claimed_by_def split: if_splits)
  have keys: "distinct (map (\<lambda>h. (ho_sessionId h, ho_itemId h)) hs)" using assms(2) by (simp add: holdings_ok_def)
  note hs' = addHolding_keys[OF keys, of s ?item "rd_quantity (ld_drop r)", folded hs'_def]
  have quantity: "(case find (\<lambda>h. ho_sessionId h = s \<and> ho_itemId h = ?item) hs of None \<Rightarrow> rd_quantity (ld_drop r)
      | Some h \<Rightarrow> ho_quantity h + rd_quantity (ld_drop r)) = of_nat (claimed_count s ?item ds')"
  proof (cases "find (\<lambda>h. ho_sessionId h = s \<and> ho_itemId h = ?item) hs")
    case None
    then have "claimed_count s ?item ds = 0"
      using assms(2) by (force simp: claimed_count_def filter_empty_conv claimed_by_def holdings_ok_def find_none)
    then show ?thesis using None q(1) by (simp add: count)
  next
    case (Some h)
    then have "h \<in> set hs" "ho_sessionId h = s" "ho_itemId h = ?item"
      using find_set[OF Some] by auto
    then have "ho_quantity h = of_nat (claimed_count s ?item ds)" using assms(2) by (auto simp: holdings_ok_def)
    then show ?thesis using Some q(1) by (simp add: count)
  qed
  have "0 < claimed_count (ho_sessionId h) (ho_itemId h) ds' \<and>
      ho_quantity h = of_nat (claimed_count (ho_sessionId h) (ho_itemId h) ds')" if "h \<in> set hs'" for h
    using that assms(2) quantity unfolding hs'(2) by (auto simp: holdings_ok_def count)
  moreover have "\<exists>h \<in> set hs'. ho_sessionId h = t \<and> ho_itemId h = rd_itemId (ld_drop d)"
    if d: "d \<in> set ds'" "ld_owner d = Some t" for d t
  proof (cases "(t, rd_itemId (ld_drop d)) = (s, ?item)")
    case True
    then show ?thesis unfolding hs'(2) by simp
  next
    case False
    then have "d \<in> set ds" using d unfolding members by auto
    then have "\<exists>h \<in> set hs. ho_sessionId h = t \<and> ho_itemId h = rd_itemId (ld_drop d)"
      using assms(2) d(2) unfolding holdings_ok_def by blast
    then show ?thesis using False unfolding hs'(2) by auto
  qed
  ultimately show "holdings_ok ds' hs'" using hs'(1) by (simp add: holdings_ok_def)
qed

lemma find_map: "find P (map f xs) = map_option f (find (\<lambda>x. P (f x)) xs)"
  by (induction xs) auto

lemma retain_claim:
  assumes "battle_inv b" "b_state b = GameplayCommitted" "participantRecord (cm_sessionId c) b = Some p"
    "inspect c (pt_lootResults p) = Available"
  shows "\<exists>r b'. retainClaim c code b = Some (r, b') \<and> battle_inv b'"
proof -
  have ans: "claim_answers c (reject_claim c code)" by (simp add: claim_answers_def reject_claim_def)
  then obtain s where s: "retain claim_answers c (reject_claim c code) (pt_lootResults p) = Some s"
    using loot_store.keep_some[OF assms(4)] by blast
  have "store_inv loot_entry_ok s" if "part_ok (b_battleId b) p"
    using that retain_inv[OF _ s] answers_entry(2)[of c] by (auto simp: part_ok_def)
  then have "battle_inv (upd (cm_sessionId c) (\<lambda>p. p\<lparr>pt_lootResults := s\<rparr>) b)"
    using assms retain_store[OF s]
    by (intro upd_inv[OF assms(1-3)]) (auto simp: part_ok_def participant_key_def)
  then show ?thesis using s assms(3) by (simp add: retainClaim_def Let_def)
qed

text \<open>The commit of the result keeps what a session has asked for.\<close>

lemma commit_keeps_answers:
  assumes "base_inv b" "b_state b = GameplayCommitted" "participantRecord s b = Some p"
  shows "b_state (commitResultIfReady at b) = GameplayCommitted"
    "\<exists>q. participantRecord s (commitResultIfReady at b) = Some q \<and>
      inspect c (pt_lootResults q) = inspect c (pt_lootResults p)"
proof -
  have "b_state (commitResultIfReady at b) = GameplayCommitted \<and>
    (\<exists>q. participantRecord s (commitResultIfReady at b) = Some q \<and>
      inspect c (pt_lootResults q) = inspect c (pt_lootResults p))"
  proof (cases "b_resultState b = NotReady \<and> readyOutcome b \<noteq> None")
    case False
    then have "commitResultIfReady at b = b" by (auto simp: commitResultIfReady_def)
    then show ?thesis using assms by simp
  next
    case True
    then obtain outcome where nr: "b_resultState b = NotReady" and out: "readyOutcome b = Some outcome" by auto
    obtain fr where fr: "buildFinalResult (resultSource outcome b) v1Snapshot = Inr fr"
      using ready_builds[OF assms(1,2) nr out] by blast
    have "b_lootResultsCompletedAt b = None"
      using result_ok_state[of b] nr assms(1,2) by (auto simp: base_inv_def result_open_def)
    note com = commit_built[OF nr out this fr, of at]
    have "pt_sessionId (terminal_participant outcome at p) = pt_sessionId p"
      "inspect c (pt_lootResults (terminal_participant outcome at p)) = inspect c (pt_lootResults p)" for p
      by (simp_all add: terminal_participant_def Let_def inspect_completed)
    then show ?thesis
      using assms(2,3) unfolding com participantRecord_def by (auto simp: find_map)
  qed
  then show "b_state (commitResultIfReady at b) = GameplayCommitted"
    "\<exists>q. participantRecord s (commitResultIfReady at b) = Some q \<and>
      inspect c (pt_lootResults q) = inspect c (pt_lootResults p)" by blast+
qed

text \<open>A claim that leaves other drops to take keeps the loot open.\<close>

lemma keep_loot_inv:
  assumes "battle_inv b" "b_lootResolution b = LootOpen" "length ds = length (b_captured b)"
    "drops_ok (map ca_sessionId (b_captured b)) ds" "holdings_ok ds hs" "\<exists>d \<in> set ds. ld_state d = DropAvailable"
  shows "battle_inv (b\<lparr>b_drops := ds, b_holdings := hs\<rparr>)"
proof -
  note o = loot_open_parts[OF assms(1,2)]
  let ?b = "b\<lparr>b_drops := ds, b_holdings := hs\<rparr>"
  note parts = committed_parts[OF assms(1) o(1)]
  obtain m where m: "b_monster b = Some m" "monster_ok b m" "mo_state m = Dead" "mo_hitPoints m = 0"
    using parts(2) o(3) by (auto simp: combat_ok_def currentOutcome_def)
  have "loot_ok ?b" using assms(2-6) by (auto simp: loot_ok_def)
  then have "combat_ok ?b" using m o(3) by (simp add: combat_ok_def monster_ok_def currentOutcome_def)
  moreover have "roster_ok ?b" "admission_ok ?b" "result_open ?b" "open_ok ?b"
    using parts(1,4) o(5,6) assms(1)
    by (simp_all add: roster_ok_def admission_ok_def result_open_def battle_inv_def open_ok_def currentOutcome_def)
  ultimately show ?thesis using o(1) by (simp add: battle_inv_def base_inv_def result_ok_def)
qed

lemma claim_drop_inv:
  assumes "battle_inv b" "b_lootResolution b = LootOpen" "participantRecord (cm_sessionId c) b = Some q"
    "inspect c (pt_lootResults q) = Available" "find (\<lambda>r. rd_dropId (ld_drop r) = i) (b_drops b) = Some r"
    "ld_state r = DropAvailable"
  shows "\<exists>a b'. claimDrop c at (ld_drop r) b = Some (a, b') \<and> battle_inv b'"
proof -
  let ?s = "cm_sessionId c" and ?d = "ld_drop r"
  note o = loot_open_parts[OF assms(1,2)]
  have loot: "drops_ok (map ca_sessionId (b_captured b)) (b_drops b)" "holdings_ok (b_drops b) (b_holdings b)"
    "length (b_drops b) = length (b_captured b)"
    using o(2) unfolding loot_ok_def by blast+
  have i: "rd_dropId ?d = i" using find_set[OF assms(5)] by simp
  have "?s \<in> set (map pt_sessionId (b_participants b))"
    using participantRecord_set[OF assms(3)] by (auto intro: image_eqI[where x = q])
  then have s: "?s \<in> set (map ca_sessionId (b_captured b))"
    using roster_sessions(1)[OF committed_parts(1)[OF assms(1) o(1)]] by simp
  note led = take_drop_ledger[OF loot(1,2) assms(5,6) s]
  obtain ds hs where taken: "takeDrop ?s ?d b = b\<lparr>b_drops := ds, b_holdings := hs\<rparr>"
    and led': "drops_ok (map ca_sessionId (b_captured b)) ds" "holdings_ok ds hs" "length ds = length (b_captured b)"
  proof
    show "takeDrop ?s ?d b = b\<lparr>b_drops := update_first (\<lambda>r. rd_dropId (ld_drop r) = i)
        (\<lambda>r. r\<lparr>ld_state := DropClaimed, ld_owner := Some ?s\<rparr>) (b_drops b),
        b_holdings := addHolding ?s (rd_itemId ?d) (rd_quantity ?d) (b_holdings b)\<rparr>"
      by (simp add: takeDrop_def i)
  qed (use led loot(3) in simp_all)
  show ?thesis
  proof (cases "list_ex (\<lambda>r. ld_state r = DropAvailable) ds")
    case True
    have inv: "battle_inv (b\<lparr>b_drops := ds, b_holdings := hs\<rparr>)"
      by (rule keep_loot_inv[OF assms(1,2) led'(3,1,2)]) (use True in \<open>auto simp: list_ex_iff\<close>)
    have "\<exists>a b'. retainClaim c ClaimOk (b\<lparr>b_drops := ds, b_holdings := hs\<rparr>) = Some (a, b') \<and> battle_inv b'"
      by (rule retain_claim[OF inv _ _ assms(4)]) (use o(1) assms(3) in \<open>simp_all add: participantRecord_def\<close>)
    then show ?thesis using True by (simp add: claimDrop_def taken)
  next
    case False
    let ?b1 = "b\<lparr>b_drops := ds, b_holdings := hs, b_lootResolution := LootResolved, b_lootDeadlineTick := None\<rparr>"
    let ?b2 = "commitResultIfReady at ?b1"
    have closed: "\<forall>d \<in> set ds. ld_state d \<noteq> DropAvailable" using False by (auto simp: list_ex_iff)
    have b1: "base_inv ?b1" "b_state ?b1 = GameplayCommitted" "participantRecord ?s ?b1 = Some q"
      using close_loot_base[OF assms(1,2) led'(3,1,2) closed] o(1) assms(3) by (simp_all add: participantRecord_def)
    have inv: "battle_inv ?b2" by (rule close_loot_inv[OF assms(1,2) led'(3,1,2) closed])
    obtain q' where q': "participantRecord ?s ?b2 = Some q'" "inspect c (pt_lootResults q') = Available"
      using commit_keeps_answers(2)[OF b1, of at c] assms(4) by auto
    have "\<exists>a b'. retainClaim c ClaimOk ?b2 = Some (a, b') \<and> battle_inv b'"
      by (rule retain_claim[OF inv commit_keeps_answers(1)[OF b1] q'])
    then show ?thesis using False by (simp add: claimDrop_def taken)
  qed
qed

lemma claim_target_inv:
  assumes "battle_inv b" "b_state b = GameplayCommitted" "participantRecord (cm_sessionId c) b = Some q"
    "inspect c (pt_lootResults q) = Available"
  shows "\<exists>r b'. claimTarget c at p b = Some (r, b') \<and> battle_inv b'"
proof -
  note ret = retain_claim[OF assms]
  have take: "\<exists>a b'. claimDrop c at (ld_drop r) b = Some (a, b') \<and> battle_inv b'"
    if "b_lootResolution b = LootOpen" "find (\<lambda>r. rd_dropId (ld_drop r) = cm_hint c) (b_drops b) = Some r"
      "ld_state r \<noteq> DropClaimed" "ld_state r \<noteq> DropUnclaimed" for r
  proof (rule claim_drop_inv[OF assms(1) that(1) assms(3,4) that(2)])
    show "ld_state r = DropAvailable" using that(3,4) by (cases "ld_state r") auto
  qed
  show ?thesis
    using ret take unfolding claimTarget_def by (auto split: option.split)
qed

lemma claim_inv:
  assumes "battle_inv b"
  shows "\<exists>r b'. claimLoot c at b = Some (r, b') \<and> battle_inv b'"
proof (cases "cm_battleId c = b_battleId b \<and> b_state b = GameplayCommitted")
  case False
  then show ?thesis using assms by (auto simp: claimLoot_def)
next
  case True
  note gc = conjunct2[OF True]
  let ?s = "cm_sessionId c"
  show ?thesis
  proof (cases "participantRecord ?s b")
    case None
    then show ?thesis using assms True by (simp add: claimLoot_def)
  next
    case (Some p)
    have ok: "part_ok (b_battleId b) p" "pt_sessionId p = ?s" using participant_ok[OF assms gc Some] by auto
    have scope: "inspect c (pt_lootResults p) \<noteq> ScopeMismatch" if "pt_generation p = cm_generation c"
      using that ok True by (auto simp: inspect_def scopeMatches_def part_ok_def split: option.split)
    have fresh: "\<exists>r b'. claimTarget c at p (upd ?s (\<lambda>p. p\<lparr>pt_claimBucket := bkt\<rparr>) (observeBattleTime at b)) = Some (r, b') \<and>
        battle_inv b'"
      "\<exists>r b'. retainClaim c ClaimOverloaded (upd ?s (\<lambda>p. p\<lparr>pt_claimBucket := bkt\<rparr>) (observeBattleTime at b)) = Some (r, b') \<and>
        battle_inv b'"
      if "snd bkt \<le> 4000000000" "inspect c (pt_lootResults p) = Available" for bkt
    proof -
      have "battle_inv (upd ?s (\<lambda>p. p\<lparr>pt_claimBucket := bkt\<rparr>) (observeBattleTime at b))"
        using that(1) gc Some assms by (intro upd_inv[where p = p]) (auto simp: part_ok_def participant_key_def)
      moreover have "participantRecord ?s (upd ?s (\<lambda>p. p\<lparr>pt_claimBucket := bkt\<rparr>) (observeBattleTime at b)) =
          Some (p\<lparr>pt_claimBucket := bkt\<rparr>)"
        using Some by (simp add: participantRecord_upd)
      ultimately show "\<exists>r b'. claimTarget c at p (upd ?s (\<lambda>p. p\<lparr>pt_claimBucket := bkt\<rparr>) (observeBattleTime at b)) = Some (r, b') \<and>
          battle_inv b'"
        "\<exists>r b'. retainClaim c ClaimOverloaded (upd ?s (\<lambda>p. p\<lparr>pt_claimBucket := bkt\<rparr>) (observeBattleTime at b)) = Some (r, b') \<and>
          battle_inv b'"
        using claim_target_inv retain_claim gc that(2) by simp_all
    qed
    have cap: "snd (pt_claimBucket p) \<le> 4000000000" using ok(1) by (simp add: part_ok_def)
    show ?thesis
      using assms True Some scope fresh refill_bounds(3)[OF cap] take_bounds(3)[OF _ cap]
      by (auto simp: claimLoot_def Let_def split: inspection.split option.split)
  qed
qed

section \<open>Runs\<close>

lemma step_inv:
  assumes "battle_inv b"
  shows "\<exists>b'. battle_step op b = Some b' \<and> battle_inv b'"
proof (cases op)
  case (Attack c at)
  then show ?thesis using attack_applied_inv[OF assms, of c at] by auto
next
  case (Claim c at)
  then show ?thesis using claim_inv[OF assms, of c at] by auto
qed (use assms open_barrier_inv complete_load_inv expire_barrier_inv disconnect_candidate_inv leave_inv suspend_input_inv
    resume_input_inv move_inv integrate_inv snapshot_inv expire_combat_inv expire_loot_inv in auto)

end
