(* ===== verification/BattleEvolution.thy ===== *)
theory BattleEvolution
  imports BattleSafety
begin

text \<open>
  How a battle moves on: the relation \<open>evolves\<close> says what no operation ever takes back
  (identity, time, roster, exit reasons, the monster's wounds, decided drops, the terminal event,
  the committed result), and every operation of the battle is shown to respect it. The relation is
  a preorder, so a handler respects it because each of its assignments does.
\<close>

section \<open>The relation\<close>

definition time_le :: "battle_time \<Rightarrow> battle_time \<Rightarrow> bool" where
  "time_le t u \<longleftrightarrow> bt_tick t < bt_tick u \<or> bt_tick t = bt_tick u \<and> bt_nanos t \<le> bt_nanos u"

text \<open>An exit reason is decided once; the end of the battle only closes it.\<close>

definition exit_next :: "exit_status \<Rightarrow> exit_status \<Rightarrow> bool" where
  "exit_next e e' \<longleftrightarrow> e = GameplayEligible \<or> e' = e \<or> e' = terminalExitStatus e"

text \<open>Two accepted attacks of a participant are at least 750 ms apart.\<close>

definition spaced :: "u64 option \<Rightarrow> u64 option \<Rightarrow> bool" where
  "spaced a a' \<longleftrightarrow>
     (\<forall>n. a = Some n \<longrightarrow> (\<exists>n'. a' = Some n' \<and> (n' = n \<or> unat n + 750000000 \<le> unat n')))"

definition part_next :: "participant \<Rightarrow> participant \<Rightarrow> bool" where
  "part_next p p' \<longleftrightarrow>
     pt_slot p' = pt_slot p \<and> pt_sessionId p' = pt_sessionId p \<and> pt_generation p' = pt_generation p \<and>
     exit_next (pt_exitStatus p) (pt_exitStatus p') \<and> (pt_gameplayEligible p' \<longrightarrow> pt_gameplayEligible p) \<and>
     spaced (pt_lastAcceptedAttackNanos p) (pt_lastAcceptedAttackNanos p') \<and>
     (\<forall>c r. inspect c (pt_lootResults p) = Replay r \<longrightarrow> inspect c (pt_lootResults p') = Replay r)"

definition drop_next :: "loot_drop \<Rightarrow> loot_drop \<Rightarrow> bool" where
  "drop_next d d' \<longleftrightarrow> ld_drop d' = ld_drop d \<and> (d' = d \<or> ld_state d = DropAvailable)"

definition monster_next :: "monster \<Rightarrow> monster \<Rightarrow> bool" where
  "monster_next m m' \<longleftrightarrow>
     mo_id m' = mo_id m \<and> mo_position m' = mo_position m \<and> mo_hitPoints m' \<le> mo_hitPoints m \<and>
     (mo_state m \<noteq> Alive \<longrightarrow> m' = m)"

definition evolves :: "battle \<Rightarrow> battle \<Rightarrow> bool" where
  "evolves b b' \<longleftrightarrow>
     b_roomId b' = b_roomId b \<and> b_battleId b' = b_battleId b \<and> b_seed b' = b_seed b \<and>
     b_rulesetVersion b' = b_rulesetVersion b \<and> time_le (b_time b) (b_time b') \<and>
     (b_state b = GameplayCommitted \<or> b_state b = LoadCancelled \<longrightarrow> b_state b' = b_state b) \<and>
     (b_participants b = [] \<or> list_all2 part_next (b_participants b) (b_participants b')) \<and>
     (\<forall>m. b_monster b = Some m \<longrightarrow> (\<exists>m'. b_monster b' = Some m' \<and> monster_next m m')) \<and>
     (b_drops b = [] \<or> list_all2 drop_next (b_drops b) (b_drops b')) \<and>
     (b_combatTerminal b \<noteq> None \<longrightarrow> b_combatTerminal b' = b_combatTerminal b) \<and>
     (b_terminalOutcome b \<noteq> None \<longrightarrow> b_terminalOutcome b' = b_terminalOutcome b) \<and>
     (b_lootResultsCompletedAt b \<noteq> None \<longrightarrow> b_lootResultsCompletedAt b' = b_lootResultsCompletedAt b) \<and>
     (b_resultState b = Committed \<longrightarrow>
        b_resultState b' = Committed \<and> b_committedResult b' = b_committedResult b)"

lemma next_refl [simp]:
  "time_le t t" "exit_next e e" "spaced a a" "part_next p p" "drop_next d d" "monster_next m m"
  by (simp_all add: time_le_def exit_next_def spaced_def part_next_def drop_next_def monster_next_def)

lemma list_next_refl [simp]:
  "list_all2 part_next ps ps" "list_all2 drop_next ds ds"
  by (simp_all add: list_all2_refl)

lemma next_trans:
  "time_le t u \<Longrightarrow> time_le u v \<Longrightarrow> time_le t v"
  "drop_next d d' \<Longrightarrow> drop_next d' d'' \<Longrightarrow> drop_next d d''"
  "monster_next m m' \<Longrightarrow> monster_next m' m'' \<Longrightarrow> monster_next m m''"
  by (auto simp: time_le_def drop_next_def monster_next_def)

lemma exit_next_trans: "exit_next e e' \<Longrightarrow> exit_next e' e'' \<Longrightarrow> exit_next e e''"
  by (cases e; cases e') (auto simp: exit_next_def)

lemma spaced_trans: "spaced a a' \<Longrightarrow> spaced a' a'' \<Longrightarrow> spaced a a''"
  by (fastforce simp: spaced_def)

lemma part_next_trans: "part_next p p' \<Longrightarrow> part_next p' p'' \<Longrightarrow> part_next p p''"
  using exit_next_trans spaced_trans by (auto simp: part_next_def)

lemma list_next_trans:
  "list_all2 part_next ps ps' \<Longrightarrow> list_all2 part_next ps' ps'' \<Longrightarrow> list_all2 part_next ps ps''"
  by (rule list_all2_trans[where ?P1.0 = part_next and ?P2.0 = part_next and ?P3.0 = part_next])
    (rule part_next_trans, assumption+)

lemma drops_next_trans:
  "list_all2 drop_next ds ds' \<Longrightarrow> list_all2 drop_next ds' ds'' \<Longrightarrow> list_all2 drop_next ds ds''"
  by (rule list_all2_trans[where ?P1.0 = drop_next and ?P2.0 = drop_next and ?P3.0 = drop_next])
    (rule next_trans(2), assumption+)

lemma evolves_refl [simp]: "evolves b b"
  by (simp add: evolves_def)

lemma evolves_parts:
  assumes "evolves b b'"
  shows "b_roomId b' = b_roomId b" "b_battleId b' = b_battleId b" "b_seed b' = b_seed b"
    "b_rulesetVersion b' = b_rulesetVersion b" "time_le (b_time b) (b_time b')"
    "b_state b = GameplayCommitted \<or> b_state b = LoadCancelled \<Longrightarrow> b_state b' = b_state b"
    "b_participants b = [] \<or> list_all2 part_next (b_participants b) (b_participants b')"
    "b_monster b = Some m \<Longrightarrow> \<exists>m'. b_monster b' = Some m' \<and> monster_next m m'"
    "b_drops b = [] \<or> list_all2 drop_next (b_drops b) (b_drops b')"
    "b_combatTerminal b \<noteq> None \<Longrightarrow> b_combatTerminal b' = b_combatTerminal b"
    "b_terminalOutcome b \<noteq> None \<Longrightarrow> b_terminalOutcome b' = b_terminalOutcome b"
    "b_lootResultsCompletedAt b \<noteq> None \<Longrightarrow> b_lootResultsCompletedAt b' = b_lootResultsCompletedAt b"
    "b_resultState b = Committed \<Longrightarrow> b_resultState b' = Committed"
    "b_resultState b = Committed \<Longrightarrow> b_committedResult b' = b_committedResult b"
  using assms unfolding evolves_def by blast+

lemma evolves_trans [trans]:
  assumes "evolves a b" "evolves b c"
  shows "evolves a c"
proof -
  note ab = evolves_parts[OF assms(1)] and bc = evolves_parts[OF assms(2)]
  have "b_participants a = [] \<or> list_all2 part_next (b_participants a) (b_participants c)"
    using ab(7) bc(7) list_next_trans by (metis list_all2_Nil2)
  moreover have "b_drops a = [] \<or> list_all2 drop_next (b_drops a) (b_drops c)"
    using ab(9) bc(9) drops_next_trans by (metis list_all2_Nil2)
  moreover have "\<exists>m''. b_monster c = Some m'' \<and> monster_next m m''" if "b_monster a = Some m" for m
    using ab(8)[OF that] bc(8) next_trans(3) by blast
  moreover have "time_le (b_time a) (b_time c)" by (rule next_trans(1)[OF ab(5) bc(5)])
  moreover have "b_state a = GameplayCommitted \<or> b_state a = LoadCancelled \<Longrightarrow> b_state c = b_state a"
    using ab(6) bc(6) by simp
  moreover have "b_combatTerminal a \<noteq> None \<Longrightarrow> b_combatTerminal c = b_combatTerminal a" using ab(10) bc(10) by simp
  moreover have "b_terminalOutcome a \<noteq> None \<Longrightarrow> b_terminalOutcome c = b_terminalOutcome a" using ab(11) bc(11) by simp
  moreover have "b_lootResultsCompletedAt a \<noteq> None \<Longrightarrow> b_lootResultsCompletedAt c = b_lootResultsCompletedAt a"
    using ab(12) bc(12) by simp
  moreover have "b_resultState a = Committed \<Longrightarrow> b_resultState c = Committed \<and> b_committedResult c = b_committedResult a"
    using ab(13,14) bc(13,14) by simp
  ultimately show ?thesis using ab(1-4) bc(1-4) unfolding evolves_def by simp
qed

section \<open>Assignments\<close>

lemma update_first_next:
  assumes "\<And>x. R x x" "\<And>x. find P xs = Some x \<Longrightarrow> R x (f x)"
  shows "list_all2 R xs (update_first P f xs)"
  using assms(2)
proof (induction xs)
  case (Cons x xs)
  then show ?case using assms(1) by (simp add: list_all2_refl)
qed simp

lemma map_next: "(\<And>x. x \<in> set xs \<Longrightarrow> R x (f x)) \<Longrightarrow> list_all2 R xs (map f xs)"
  by (simp add: list_all2_conv_all_nth)

lemma ev_observe [intro]: "evolves b (observeBattleTime at b)"
  by (auto simp: evolves_def observeBattleTime_def time_le_def)

lemma ev_upd:
  assumes "\<And>p. participantRecord s b = Some p \<Longrightarrow> part_next p (f p)"
  shows "evolves b (upd s f b)"
proof -
  have "list_all2 part_next (b_participants b) (update_first (\<lambda>p. pt_sessionId p = s) f (b_participants b))"
    using assms by (intro update_first_next) (simp_all add: participantRecord_def)
  then show ?thesis by (simp add: evolves_def upd_def)
qed

lemma ev_map:
  "(\<And>p. part_next p (f p)) \<Longrightarrow> evolves b (b\<lparr>b_participants := map f (b_participants b)\<rparr>)"
  by (simp add: evolves_def map_next)

lemma ev_mark_attacks [intro]: "evolves b (markAttackResultsCompleted at b)"
  unfolding markAttackResultsCompleted_def by (rule ev_map) (simp add: part_next_def)

lemma ev_mark_loot [intro]: "evolves b (markLootResultsCompleted at b)"
  by (auto simp: markLootResultsCompleted_def evolves_def part_next_def inspect_completed intro!: map_next)

lemma ev_commit [intro]: "evolves b (commitResultIfReady at b)"
proof (cases "b_resultState b = NotReady \<and> readyOutcome b \<noteq> None")
  case False
  then show ?thesis by (auto simp: commitResultIfReady_def)
next
  case True
  then obtain outcome where nr: "b_resultState b = NotReady" and out: "readyOutcome b = Some outcome" by auto
  have "b_terminalOutcome b \<noteq> None \<Longrightarrow> b_terminalOutcome b = Some outcome"
    using out by (auto simp: readyOutcome_def)
  then have closed: "evolves b ((clearDeadlines (b\<lparr>b_committedResult := Some fr, b_resultState := Committed\<rparr>))
      \<lparr>b_terminalOutcome := Some outcome\<rparr>)" for fr
    using nr by (auto simp: evolves_def clearDeadlines_def)
  have status: "evolves b (terminalStatuses b)" for b
    by (auto simp: evolves_def terminalStatuses_def part_next_def exit_next_def intro!: map_next)
  show ?thesis
  proof (cases "buildFinalResult (resultSource outcome b) v1Snapshot")
    case (Inl e)
    have "evolves b (clearDeadlines (b\<lparr>b_resultState := ResultGenerationFailed\<rparr>))"
      using nr by (simp add: evolves_def clearDeadlines_def)
    then show ?thesis using nr out Inl ev_mark_loot evolves_trans
      by (auto simp: commitResultIfReady_def)
  next
    case (Inr fr)
    then show ?thesis using nr out closed[of fr] status ev_mark_loot evolves_trans
      by (auto simp: commitResultIfReady_def Let_def) (meson evolves_trans)+
  qed
qed

lemma closeDrops_next: "list_all2 drop_next ds (closeDrops ds)"
  by (auto simp: closeDrops_def drop_next_def intro!: map_next)

lemma ev_cancel [intro]: "evolves b (applyCancellationIfNoActiveParticipants b)"
  by (auto simp: applyCancellationIfNoActiveParticipants_def evolves_def clearDeadlines_def Let_def closeDrops_next)

lemma ev_freeze:
  assumes "participantRecord s b = Some p" "pt_exitStatus p = GameplayEligible"
  shows "evolves b (freezeParticipant s e b)"
proof -
  have "evolves b (upd s (\<lambda>p. p\<lparr>pt_gameplayEligible := False, pt_inputEnabled := False, pt_tickDeltaX := 0,
      pt_tickDeltaY := 0, pt_exitStatus := e\<rparr>) b)"
    by (rule ev_upd) (use assms in \<open>simp add: part_next_def exit_next_def\<close>)
  then show ?thesis by (simp add: freezeParticipant_def evolves_def)
qed

lemma ev_retain_claim: "retainClaim c code b = Some (r, b') \<Longrightarrow> evolves b b'"
  using loot_store.keep_others
  by (auto simp: retainClaim_def Let_def part_next_def intro!: ev_upd split: option.splits)

lemma ev_retain_attack: "retainAttack c code b = Some (r, b') \<Longrightarrow> evolves b b'"
  by (auto simp: retainAttack_def Let_def part_next_def intro!: ev_upd split: option.splits)

section \<open>Operations\<close>

lemma ev_candidates [intro]: "evolves b (b\<lparr>b_candidates := cs\<rparr>)"
  by (simp add: evolves_def)

lemma ev_resolve:
  assumes "b_state b = LoadBarrierOpen" "not_started b"
  shows "evolves b (resolveIfComplete b)"
  using assms by (simp add: resolveIfComplete_def commitGameplay_def Let_def evolves_def not_started_def no_loot_def)

lemma not_started_open: "battle_inv b \<Longrightarrow> b_state b = LoadBarrierOpen \<Longrightarrow> not_started b"
  by (simp add: battle_inv_def base_inv_def)

lemma ev_resolve_candidates:
  assumes "battle_inv b" "b_state b = LoadBarrierOpen"
  shows "evolves b (resolveIfComplete ((observeBattleTime at b)\<lparr>b_candidates := cs\<rparr>))"
proof -
  have "not_started ((observeBattleTime at b)\<lparr>b_candidates := cs\<rparr>)"
    using not_started_open[OF assms] by (simp add: not_started_def no_loot_def)
  then have "evolves ((observeBattleTime at b)\<lparr>b_candidates := cs\<rparr>)
      (resolveIfComplete ((observeBattleTime at b)\<lparr>b_candidates := cs\<rparr>))"
    using assms(2) by (intro ev_resolve) simp_all
  then show ?thesis using evolves_trans[OF evolves_trans[OF ev_observe ev_candidates]] by blast
qed

lemma ev_open_barrier: "evolves b (snd (openLoadBarrier at b))"
proof -
  have "evolves (observeBattleTime at b) ((observeBattleTime at b)\<lparr>b_state := LoadBarrierOpen, b_loadDeadlineTick := t\<rparr>)"
    if "b_state b = Created" for t
    using that by (simp add: evolves_def)
  then show ?thesis using evolves_trans[OF ev_observe] by (auto simp: openLoadBarrier_def Let_def)
qed

lemma ev_complete_load: "battle_inv b \<Longrightarrow> evolves b (snd (completeLoad c ready at b))"
  using ev_resolve_candidates[of b]
  by (auto simp: completeLoad_def upd_candidate_def split: sum.split)

lemma ev_expire_barrier: "battle_inv b \<Longrightarrow> evolves b (snd (expireLoadBarrier r i at b))"
  using ev_resolve_candidates[of b] by (auto simp: expireLoadBarrier_def Let_def)

lemma ev_freeze_exited: "evolves b (snd (freezeExited c e at b))"
proof -
  have "evolves b (commitResultIfReady at (applyCancellationIfNoActiveParticipants
      (freezeParticipant s e (observeBattleTime at b))))"
    if "participantRecord s b = Some p" "pt_exitStatus p = GameplayEligible" for s p
    using that ev_freeze[of s "observeBattleTime at b" p e] ev_observe ev_cancel ev_commit
    by (metis evolves_trans participantRecord_observe)
  then show ?thesis by (auto simp: freezeExited_def split: sum.split option.split)
qed

lemma ev_disconnect: "battle_inv b \<Longrightarrow> evolves b (snd (disconnectCandidate c at b))"
  using ev_resolve_candidates[of b] ev_freeze_exited[of b c ExitDisconnected at]
  by (auto simp: disconnectCandidate_def upd_candidate_def split: sum.split)

lemma ev_leave: "evolves b (snd (leaveBattle c at b))"
  by (simp add: leaveBattle_def ev_freeze_exited)

lemma ev_observe_upd: "(\<And>p. part_next p (f p)) \<Longrightarrow> evolves b (upd s f (observeBattleTime at b))"
  by (rule evolves_trans[OF ev_observe]) (rule ev_upd)

lemma ev_input:
  "evolves b (snd (suspendInput s g at b))" "evolves b (snd (resumeInput s g at b))"
  by (auto simp: suspendInput_def resumeInput_def Let_def part_next_def split: option.split intro!: ev_observe_upd)

lemma ev_move: "evolves b (snd (acceptMove c at b))"
  by (auto simp: acceptMove_def Let_def part_next_def split: option.split prod.split intro!: ev_observe_upd)

lemma ev_integrate: "evolves b (snd (integrateMovement i tick at b))"
proof -
  have "evolves b (b\<lparr>b_participants := map move_participant (b_participants b)\<rparr>)" for b
    by (rule ev_map) (simp add: move_participant_def part_next_def)
  moreover have "evolves b (b\<lparr>b_lastIntegratedServerTick := t\<rparr>)" for b t by (simp add: evolves_def)
  ultimately have "evolves b (b\<lparr>b_participants := map move_participant (b_participants b),
      b_lastIntegratedServerTick := t\<rparr>)" for b t
    using evolves_trans by blast
  from evolves_trans[OF ev_observe this] show ?thesis
    by (auto simp: integrateMovement_def Let_def)
qed

lemma ev_snapshot: "evolves b (snd (captureStateSnapshot b))"
  by (auto simp: captureStateSnapshot_def evolves_def)

section \<open>Attacks and claims\<close>

lemma ev_monster:
  "b_monster b = Some m \<Longrightarrow> monster_next m m' \<Longrightarrow> evolves b (b\<lparr>b_monster := Some m'\<rparr>)"
  by (simp add: evolves_def)

lemma ev_open_loot: "b_drops b = [] \<Longrightarrow> b_resultState b \<noteq> Committed \<Longrightarrow> evolves b (openLoot at b)"
  using ev_mark_loot[of "b\<lparr>b_resultState := ResultGenerationFailed\<rparr>" at]
    evolves_trans[of b "b\<lparr>b_resultState := ResultGenerationFailed\<rparr>"]
  by (auto simp: openLoot_def evolves_def split: option.split)

lemma ev_lethal:
  assumes "attackLethal c at b = Some (r, b')" "b_drops b = []" "b_resultState b \<noteq> Committed" "b_combatTerminal b = None"
  shows "evolves b b'"
proof -
  let ?b = "b\<lparr>b_combatTerminal := Some (terminalRecord MonsterDefeated b), b_combatDeadlineTick := None\<rparr>"
  obtain b1 where b1: "retainAttack c AttackOk (openLoot at ?b) = Some (r, b1)"
    "b' = commitResultIfReady at (markAttackResultsCompleted at b1)"
    using assms(1) by (auto simp: attackLethal_def Let_def split: option.splits)
  have "evolves b ?b" using assms(4) by (simp add: evolves_def)
  also have "evolves ?b (openLoot at ?b)" using assms by (intro ev_open_loot) simp_all
  also have "evolves (openLoot at ?b) b1" by (rule ev_retain_attack[OF b1(1)])
  also have "evolves b1 (markAttackResultsCompleted at b1)" ..
  also have "evolves (markAttackResultsCompleted at b1) b'" unfolding b1(2) ..
  finally show ?thesis .
qed

lemma cooled: "\<not> coolingDown since now \<Longrightarrow> spaced since (Some now)"
proof (cases since)
  case (Some n)
  assume "\<not> coolingDown since now"
  then have "n \<le> now" "\<not> now - n < 750000000" using Some by (auto simp: coolingDown_def not_less)
  then have "unat n + 750000000 \<le> unat now" by (simp add: word_less_nat_alt word_le_nat_alt unat_sub)
  then show ?thesis using Some by (simp add: spaced_def)
qed (simp add: spaced_def)

lemma ev_strike:
  assumes "attackStrike c at p m b = Some (r, b')" "b_drops b = []" "b_resultState b \<noteq> Committed"
    "b_combatTerminal b = None" "b_monster b = Some m" "participantRecord (cm_sessionId c) b = Some q"
    "pt_lastAcceptedAttackNanos q = pt_lastAcceptedAttackNanos p"
  shows "evolves b b'"
proof (cases "cm_hint c \<noteq> mo_id m \<or> mo_state m \<noteq> Alive \<or>
    \<not> inAttackRange (pos (pt_posX p) (pt_posY p)) (mo_position m) \<or>
    coolingDown (pt_lastAcceptedAttackNanos p) (bt_nanos at)")
  case True
  then show ?thesis using assms(1) by (auto simp: attackStrike_def ev_retain_attack split: if_splits)
next
  case False
  let ?f = "\<lambda>p. p\<lparr>pt_lastAcceptedAttackNanos := Some (bt_nanos at)\<rparr>"
  have struck: "evolves b (upd (cm_sessionId c) ?f (b\<lparr>b_monster := Some m'\<rparr>))"
    if "monster_next m m'" for m'
  proof (rule evolves_trans[OF ev_monster[OF assms(5) that]], rule ev_upd)
    fix p' assume "participantRecord (cm_sessionId c) (b\<lparr>b_monster := Some m'\<rparr>) = Some p'"
    then have "p' = q" using assms(6) by (simp add: participantRecord_def)
    then show "part_next p' (?f p')" using cooled False assms(7) by (simp add: part_next_def)
  qed
  show ?thesis
  proof (cases "mo_hitPoints m \<le> 100")
    case True
    let ?m = "m\<lparr>mo_hitPoints := 0, mo_state := Dead\<rparr>"
    let ?b = "upd (cm_sessionId c) ?f (b\<lparr>b_monster := Some ?m\<rparr>)"
    have moved: "(upd (cm_sessionId c) ?f (b\<lparr>b_monster := x\<rparr>))\<lparr>b_monster := y\<rparr> =
        upd (cm_sessionId c) ?f (b\<lparr>b_monster := y\<rparr>)" for x y
      by (rule battle.equality) (simp_all add: upd_def)
    have "attackLethal c at ?b = Some (r, b')"
      using assms(1) False True by (simp add: attackStrike_def applyAttack_def completeDeath_def moved)
    then have "evolves ?b b'" using assms by (intro ev_lethal) simp_all
    moreover have "evolves b ?b" using False by (intro struck) (simp add: monster_next_def)
    ultimately show ?thesis using evolves_trans by blast
  next
    case hit: False
    then have "evolves b (upd (cm_sessionId c) ?f (b\<lparr>b_monster := Some (m\<lparr>mo_hitPoints := mo_hitPoints m - 100\<rparr>)\<rparr>))"
      using False by (intro struck) (simp add: monster_next_def word_le_nat_alt unat_sub)
    moreover have "retainAttack c AttackOk (upd (cm_sessionId c) ?f
        (b\<lparr>b_monster := Some (m\<lparr>mo_hitPoints := mo_hitPoints m - 100\<rparr>)\<rparr>)) = Some (r, b')"
      using assms(1) False hit by (simp add: attackStrike_def applyAttack_def)
    ultimately show ?thesis using ev_retain_attack evolves_trans by blast
  qed
qed

lemma ev_fresh:
  assumes "attackFresh c at p m b = Some (r, b')" "b_monster b = Some m" "participantRecord (cm_sessionId c) b = Some q"
    "pt_lastAcceptedAttackNanos q = pt_lastAcceptedAttackNanos p"
    "b_combatTerminal b = None \<Longrightarrow> pt_inputEnabled p \<Longrightarrow> b_drops b = [] \<and> b_resultState b \<noteq> Committed"
  shows "evolves b b'"
proof -
  let ?full = "attack_refill (bt_nanos at) (pt_attackBucket p)"
  have bucket: "evolves b (upd s (\<lambda>p. p\<lparr>pt_attackBucket := bkt\<rparr>) b)" for s bkt
    by (rule ev_upd) (simp add: part_next_def)
  show ?thesis
  proof (cases "b_combatTerminal b = None \<and> pt_inputEnabled p \<and> pt_gameplayEligible p")
    case False
    then show ?thesis using assms(1) by (auto simp: attackFresh_def ev_retain_attack split: if_splits)
  next
    case True
    show ?thesis
    proof (cases "bucket_take ?full")
      case None
      then have "retainAttack c AttackOverloaded (upd (cm_sessionId c) (\<lambda>p. p\<lparr>pt_attackBucket := ?full\<rparr>) b) = Some (r, b')"
        using assms(1) True by (simp add: attackFresh_def)
      then show ?thesis using ev_retain_attack bucket evolves_trans by blast
    next
      case (Some rest)
      let ?b = "upd (cm_sessionId c) (\<lambda>p. p\<lparr>pt_attackBucket := rest\<rparr>) b"
      have "attackStrike c at p m ?b = Some (r, b')" using assms(1) True Some by (simp add: attackFresh_def)
      then have "evolves ?b b'"
        using assms(2-5) True
        by (intro ev_strike[where q = "q\<lparr>pt_attackBucket := rest\<rparr>"]) (auto simp: participantRecord_upd)
      then show ?thesis using bucket evolves_trans by blast
    qed
  qed
qed

lemma ev_attack:
  assumes "battle_inv b" "attack c at b = Some (r, b')"
  shows "evolves b b'"
proof (cases "cm_battleId c = b_battleId b \<and> b_state b = GameplayCommitted \<and>
    (\<exists>p. participantRecord (cm_sessionId c) b = Some p \<and> pt_generation p = cm_generation c)")
  case False
  then show ?thesis using assms(2) by (auto simp: attack_def split: option.splits if_splits)
next
  case True
  let ?s = "cm_sessionId c"
  obtain p where gc: "b_state b = GameplayCommitted" and p: "participantRecord ?s b = Some p" "pt_generation p = cm_generation c"
    using True by blast
  obtain m where m: "b_monster b = Some m" using committed_parts(2)[OF assms(1) gc] by (auto simp: combat_ok_def)
  obtain n s where ev: "evictExpired (bt_nanos at) (pt_attackResults p) = (n, s)"
    by (cases "evictExpired (bt_nanos at) (pt_attackResults p)")
  define b1 where "b1 = upd ?s (\<lambda>p. p\<lparr>pt_attackResults := s\<rparr>) b"
  define b2 where "b2 = (if n \<noteq> 0 then observeBattleTime at b1 else b1)"
  have "evolves b b1" unfolding b1_def by (rule ev_upd) (simp add: part_next_def)
  then have b2: "evolves b b2" using ev_observe[of b1 at] evolves_trans by (auto simp: b2_def)
  have drops: "b_drops b = [] \<and> b_resultState b \<noteq> Committed" if "b_combatTerminal b = None" "pt_inputEnabled p"
    using committed_parts(2)[OF assms(1) gc] enabled_open(1)[OF assms(1) gc p(1) that(2)] that(1)
    by (auto simp: combat_ok_def currentOutcome_def no_loot_def)
  have step: "attack c at b = (case inspect c s of
      Replay result \<Rightarrow> Some (result, b2)
    | Conflict \<Rightarrow> Some (attackResultNow c AttackCommandConflict b2, b2)
    | StoreOverloaded \<Rightarrow> Some (attackResultNow c AttackOverloaded b2, b2)
    | ScopeMismatch \<Rightarrow> None
    | Available \<Rightarrow> attackFresh c at p m (observeBattleTime at b2))"
    using True m p unfolding b2_def b1_def by (cases "inspect c s") (simp_all add: attack_def ev Let_def)
  show ?thesis
  proof (cases "inspect c s = Available")
    case False
    then show ?thesis using step assms(2) b2 by (auto split: inspection.splits)
  next
    case av: True
    have "attackFresh c at p m (observeBattleTime at b2) = Some (r, b')" using step assms(2) av by simp
    then have "evolves (observeBattleTime at b2) b'"
    proof (rule ev_fresh)
      show "participantRecord ?s (observeBattleTime at b2) = Some (p\<lparr>pt_attackResults := s\<rparr>)"
        using p(1) by (simp add: b2_def b1_def participantRecord_upd)
    qed (use m drops in \<open>auto simp: b2_def b1_def\<close>)
    then show ?thesis using b2 ev_observe evolves_trans by blast
  qed
qed

lemma ev_attack_applied:
  assumes "battle_inv b" "attackWithApplied c at b = Some (r, b')"
  shows "evolves b b'"
proof -
  obtain r0 b0 where b0: "attack c at b = Some (r0, b0)"
    using assms(2) by (auto simp: attackWithApplied_def split: option.splits)
  have "evolves b0 b'"
    using assms(2) b0 by (auto simp: attackWithApplied_def Let_def evolves_def split: if_splits)
  then show ?thesis using ev_attack[OF assms(1) b0] evolves_trans by blast
qed

lemma ev_claim_target:
  assumes "claimTarget c at p b = Some (r, b')"
  shows "evolves b b'"
proof -
  have take: "evolves b b'"
    if drop: "claimDrop c at (ld_drop d) b = Some (r, b')" "find (\<lambda>r. rd_dropId (ld_drop r) = cm_hint c) (b_drops b) = Some d"
      "ld_state d \<noteq> DropClaimed" "ld_state d \<noteq> DropUnclaimed" for d
  proof -
    have d: "rd_dropId (ld_drop d) = cm_hint c" "ld_state d = DropAvailable"
      using find_set[OF drop(2)] drop(3,4) by (cases "ld_state d"; simp)+
    let ?t = "takeDrop (cm_sessionId c) (ld_drop d) b"
    have "list_all2 drop_next (b_drops b) (b_drops ?t)"
      unfolding takeDrop_def d(1) using drop(2) d(2)
      by (simp, intro update_first_next) (auto simp: drop_next_def)
    then have t: "evolves b ?t" by (simp add: evolves_def takeDrop_def)
    have "evolves ?t (?t\<lparr>b_lootResolution := LootResolved, b_lootDeadlineTick := None\<rparr>)"
      by (simp add: evolves_def)
    note closed = evolves_trans[OF evolves_trans[OF t this] ev_commit[of _ at]]
    show ?thesis
    proof (cases "list_ex (\<lambda>r. ld_state r = DropAvailable) (b_drops ?t)")
      case True
      then have "retainClaim c ClaimOk ?t = Some (r, b')" using drop(1) by (simp add: claimDrop_def)
      then show ?thesis using evolves_trans[OF t] ev_retain_claim by blast
    next
      case False
      then have "retainClaim c ClaimOk (commitResultIfReady at
          (?t\<lparr>b_lootResolution := LootResolved, b_lootDeadlineTick := None\<rparr>)) = Some (r, b')"
        using drop(1) by (simp add: claimDrop_def)
      then show ?thesis using evolves_trans[OF closed] ev_retain_claim by blast
    qed
  qed
  show ?thesis
    using assms ev_retain_claim take by (auto simp: claimTarget_def split: if_splits option.splits)
qed

lemma ev_claim:
  assumes "claimLoot c at b = Some (r, b')"
  shows "evolves b b'"
proof -
  have "evolves b (upd s (\<lambda>p. p\<lparr>pt_claimBucket := bkt\<rparr>) (observeBattleTime at b))" for s bkt
    by (rule ev_observe_upd) (simp add: part_next_def)
  then have "claimTarget c at p (upd s (\<lambda>p. p\<lparr>pt_claimBucket := bkt\<rparr>) (observeBattleTime at b)) = Some (r, b') \<Longrightarrow> evolves b b'"
    "retainClaim c code (upd s (\<lambda>p. p\<lparr>pt_claimBucket := bkt\<rparr>) (observeBattleTime at b)) = Some (r, b') \<Longrightarrow> evolves b b'"
    for s bkt p code
    using ev_claim_target ev_retain_claim evolves_trans by blast+
  then show ?thesis
    using assms by (auto simp: claimLoot_def Let_def split: if_splits option.splits inspection.splits)
qed

section \<open>Deadlines\<close>

lemma ev_expire_combat: "evolves b (snd (expireCombat i at b))"
proof -
  have "evolves b (commitResultIfReady at (markAttackResultsCompleted at ((observeBattleTime at (b\<lparr>b_monster := Some m'\<rparr>))
      \<lparr>b_combatTerminal := Some t, b_combatDeadlineTick := None\<rparr>)))"
    if "b_monster b = Some m" "monster_next m m'" "b_combatTerminal b = None" for m m' t
  proof -
    let ?b = "observeBattleTime at (b\<lparr>b_monster := Some m'\<rparr>)"
    let ?t = "?b\<lparr>b_combatTerminal := Some t, b_combatDeadlineTick := None\<rparr>"
    have "evolves b (b\<lparr>b_monster := Some m'\<rparr>)" by (rule ev_monster[OF that(1,2)])
    also have "evolves (b\<lparr>b_monster := Some m'\<rparr>) ?b" ..
    also have "evolves ?b ?t" using that(3) by (simp add: evolves_def)
    also have "evolves ?t (markAttackResultsCompleted at ?t)" ..
    also have "evolves (markAttackResultsCompleted at ?t) (commitResultIfReady at (markAttackResultsCompleted at ?t))" ..
    finally show ?thesis .
  qed
  then show ?thesis
    by (auto simp: expireCombat_def monsterTimeout_def Let_def monster_next_def split: option.split)
qed

lemma ev_expire_loot: "evolves b (snd (expireLoot i at b))"
proof -
  have "evolves b (b\<lparr>b_drops := closeDrops (b_drops b), b_lootResolution := LootResolved, b_lootDeadlineTick := None\<rparr>)" for b
    by (simp add: evolves_def closeDrops_next)
  from evolves_trans[OF evolves_trans[OF ev_observe this] ev_commit] show ?thesis
    by (simp add: expireLoot_def Let_def)
qed

lemma step_evolves:
  assumes "battle_inv b" "battle_step op b = Some b'"
  shows "evolves b b'"
  using assms ev_attack_applied ev_claim
  by (cases op) (auto simp: ev_open_barrier ev_complete_load ev_expire_barrier ev_disconnect ev_leave ev_input ev_move
      ev_integrate ev_snapshot ev_expire_combat ev_expire_loot)

end
