(* ===== verification/BattleCommands.thy ===== *)
theory BattleCommands
  imports BattleEvolution
begin

text \<open>
  What a single command does to a battle: the damage of an attack, the stored answer of a claim, the
  effect of a deadline. These lemmas are about one call; the theory BattleProperties carries them to
  whole runs.
\<close>

section \<open>Damage\<close>

text \<open>An attack that is not stored as a hit leaves the monster alone; a hit takes 100 hit points.\<close>

definition hit_of :: "battle \<Rightarrow> attack_result \<Rightarrow> battle \<Rightarrow> bool" where
  "hit_of b r b' \<longleftrightarrow>
     currentHitPoints b' = currentHitPoints b \<or>
     ar_code r = AttackOk \<and> ar_remainingHitPoints r = currentHitPoints b' \<and>
     unat (currentHitPoints b) = unat (currentHitPoints b') + 100"

lemma commit_monster [simp]:
  "b_monster (commitResultIfReady at b) = b_monster b"
  "b_lootResolution (commitResultIfReady at b) = b_lootResolution b"
  "b_combatTerminal (commitResultIfReady at b) = b_combatTerminal b"
  by (simp_all add: commitResultIfReady_def markLootResultsCompleted_def clearDeadlines_def terminalStatuses_def
      Let_def split: option.split sum.split)

lemma retain_attack_monster:
  assumes "retainAttack c code b = Some (r, b')"
  shows "b_monster b' = b_monster b" "currentHitPoints b' = currentHitPoints b" "ar_code r = code"
    "ar_remainingHitPoints r = currentHitPoints b" "b_lootResolution b' = b_lootResolution b"
    "b_resultState b' = b_resultState b" "b_combatTerminal b' = b_combatTerminal b"
  using assms by (auto simp: retainAttack_def Let_def attackResultNow_def makeAttackResult_def split: option.splits)

lemma open_loot_monster: "b_monster (openLoot at b) = b_monster b"
  by (simp add: openLoot_def markLootResultsCompleted_def split: option.split)

lemma lethal_hit:
  assumes "attackLethal c at b = Some (r, b')"
  shows "b_monster b' = b_monster b" "ar_code r = AttackOk" "ar_remainingHitPoints r = currentHitPoints b"
proof -
  let ?b = "b\<lparr>b_combatTerminal := Some (terminalRecord MonsterDefeated b), b_combatDeadlineTick := None\<rparr>"
  obtain b1 where b1: "retainAttack c AttackOk (openLoot at ?b) = Some (r, b1)"
    "b' = commitResultIfReady at (markAttackResultsCompleted at b1)"
    using assms by (auto simp: attackLethal_def Let_def split: option.splits)
  show "b_monster b' = b_monster b" "ar_code r = AttackOk" "ar_remainingHitPoints r = currentHitPoints b"
    using retain_attack_monster[OF b1(1)] b1(2) by (simp_all add: open_loot_monster currentHitPoints_def)
qed

lemma strike_hit:
  assumes "attackStrike c at p m b = Some (r, b')" "b_monster b = Some m" "100 dvd unat (mo_hitPoints m)"
    "mo_hitPoints m \<noteq> 0"
  shows "hit_of b r b'"
proof -
  let ?f = "\<lambda>p. p\<lparr>pt_lastAcceptedAttackNanos := Some (bt_nanos at)\<rparr>"
  show ?thesis
  proof (cases "cm_hint c \<noteq> mo_id m \<or> mo_state m \<noteq> Alive \<or>
      \<not> inAttackRange (pos (pt_posX p) (pt_posY p)) (mo_position m) \<or>
      coolingDown (pt_lastAcceptedAttackNanos p) (bt_nanos at)")
    case True
    then show ?thesis
      using assms(1) by (auto simp: attackStrike_def hit_of_def dest: retain_attack_monster(2) split: if_splits)
  next
    case fair: False
    have hp: "currentHitPoints b = mo_hitPoints m" using assms(2) by (simp add: currentHitPoints_def)
    show ?thesis
    proof (cases "mo_hitPoints m \<le> 100")
      case True
      then have "unat (mo_hitPoints m) \<le> 100" by (simp add: word_le_nat_alt)
      moreover have "0 < unat (mo_hitPoints m)" using assms(4) by (simp add: unat_gt_0)
      ultimately have hundred: "unat (mo_hitPoints m) = 100" using assms(3) by (auto elim!: dvdE)
      have "attackLethal c at ((upd (cm_sessionId c) ?f (b\<lparr>b_monster := Some (m\<lparr>mo_hitPoints := 0, mo_state := Dying\<rparr>)\<rparr>))
          \<lparr>b_monster := Some (m\<lparr>mo_hitPoints := 0, mo_state := Dead\<rparr>)\<rparr>) = Some (r, b')"
        using assms(1) fair True by (simp add: attackStrike_def applyAttack_def completeDeath_def)
      from lethal_hit[OF this] show ?thesis
        using hp hundred by (simp add: hit_of_def currentHitPoints_def)
    next
      case False
      have "retainAttack c AttackOk (upd (cm_sessionId c) ?f
          (b\<lparr>b_monster := Some (m\<lparr>mo_hitPoints := mo_hitPoints m - 100\<rparr>)\<rparr>)) = Some (r, b')"
        using assms(1) fair False by (simp add: attackStrike_def applyAttack_def)
      moreover have "unat (mo_hitPoints m) = unat (mo_hitPoints m - 100) + 100"
        using False by (simp add: word_le_nat_alt unat_sub)
      ultimately show ?thesis
        using retain_attack_monster(2-4) assms(2) unfolding hit_of_def by (fastforce simp: currentHitPoints_def)
    qed
  qed
qed

lemma fresh_hit:
  assumes "attackFresh c at p m b = Some (r, b')" "b_monster b = Some m"
    "b_combatTerminal b = None \<Longrightarrow> 100 dvd unat (mo_hitPoints m) \<and> mo_hitPoints m \<noteq> 0"
  shows "hit_of b r b'"
proof -
  have "hit_of b r b'" if "attackStrike c at p m (upd s f b) = Some (r, b')" "b_combatTerminal b = None" for s f
    using strike_hit[OF that(1)] assms(2,3) that(2) by (simp add: hit_of_def)
  moreover have "hit_of b r b'" if "retainAttack c code (upd s f b) = Some (r, b')" for code s f
    using retain_attack_monster(2)[OF that] by (simp add: hit_of_def)
  moreover have "hit_of b r b'" if "retainAttack c code b = Some (r, b')" for code
    using retain_attack_monster(2)[OF that] by (simp add: hit_of_def)
  ultimately show ?thesis
    using assms(1) by (auto simp: attackFresh_def Let_def split: if_splits option.splits)
qed

lemma attack_hit:
  assumes "battle_inv b" "attack c at b = Some (r, b')"
  shows "hit_of b r b'"
proof -
  have "100 dvd unat (mo_hitPoints m) \<and> mo_hitPoints m \<noteq> 0"
    if "b_state b = GameplayCommitted" "b_combatTerminal b = None" "b_monster b = Some m" for m
    using committed_parts(2)[OF assms(1) that(1)] that(2,3) by (auto simp: combat_ok_def monster_ok_def currentOutcome_def)
  then have fresh: "hit_of b r b'"
    if "attackFresh c at p m (observeBattleTime at b1) = Some (r, b')" "b_state b = GameplayCommitted"
      "b_monster b = Some m" "b_monster b1 = b_monster b" "b_combatTerminal b1 = b_combatTerminal b"
      "currentHitPoints b1 = currentHitPoints b" for p m b1
    using fresh_hit[OF that(1)] that(2-) by (simp add: hit_of_def)
  have same: "hit_of b r b" "hit_of b r (upd s f b)" "hit_of b r (observeBattleTime at (upd s f b))" for s f
    by (simp_all add: hit_of_def)
  show ?thesis
    using assms(2) same fresh
    by (auto simp: attack_def Let_def split: if_splits option.splits prod.splits inspection.splits)
qed

section \<open>Answers of claims\<close>

lemma retain_claim_replays:
  assumes "retainClaim c code b = Some (r, b')"
  shows "\<exists>p. participantRecord (cm_sessionId c) b' = Some p \<and> inspect c (pt_lootResults p) = Replay r"
  using assms loot_store.keep_replay
  by (auto simp: retainClaim_def Let_def participantRecord_upd split: option.splits)

lemma claim_target_replays:
  assumes "claimTarget c at p b = Some (r, b')"
  shows "\<exists>p. participantRecord (cm_sessionId c) b' = Some p \<and> inspect c (pt_lootResults p) = Replay r"
  using assms
  by (auto simp: claimTarget_def claimDrop_def Let_def split: if_splits option.splits elim!: retain_claim_replays)

lemma claim_replays:
  assumes "claimLoot c at b = Some (r, b')" "cr_code r = ClaimOk"
  shows "b_state b = GameplayCommitted" "b_battleId b = cm_battleId c"
    "\<exists>p. participantRecord (cm_sessionId c) b' = Some p \<and> inspect c (pt_lootResults p) = Replay r"
proof -
  have no: "cr_code (reject_claim c code) = code" for code by (simp add: reject_claim_def)
  show "b_state b = GameplayCommitted" "b_battleId b = cm_battleId c"
    using assms no by (auto simp: claimLoot_def split: if_splits)
  show "\<exists>p. participantRecord (cm_sessionId c) b' = Some p \<and> inspect c (pt_lootResults p) = Replay r"
    using assms no retain_claim_replays claim_target_replays
    by (auto simp: claimLoot_def Let_def split: if_splits option.splits inspection.splits)
qed

lemma find_list_all2:
  "list_all2 R xs ys \<Longrightarrow> (\<And>x y. R x y \<Longrightarrow> P x = P y) \<Longrightarrow> rel_option R (find P xs) (find P ys)"
  by (induction xs ys rule: list_all2_induct) auto

lemma participant_next:
  assumes "evolves b b'" "participantRecord s b = Some p"
  shows "\<exists>p'. participantRecord s b' = Some p' \<and> part_next p p'"
proof -
  have "p \<in> set (b_participants b)" using participantRecord_set[OF assms(2)] by simp
  then have "list_all2 part_next (b_participants b) (b_participants b')" using evolves_parts(7)[OF assms(1)] by auto
  then have "rel_option part_next (participantRecord s b) (participantRecord s b')"
    unfolding participantRecord_def by (rule find_list_all2) (simp add: part_next_def)
  then show ?thesis using assms(2) by (simp add: option_rel_Some1)
qed

lemma claim_replayed:
  assumes "battle_inv b" "b_state b = GameplayCommitted" "b_battleId b = cm_battleId c"
    "participantRecord (cm_sessionId c) b = Some p" "inspect c (pt_lootResults p) = Replay r"
  shows "claimLoot c at b = Some (r, b)"
proof -
  have "st_generation (pt_lootResults p) = cm_generation c"
    using assms(5) by (auto simp: inspect_def scopeMatches_def split: if_splits option.splits)
  then have "pt_generation p = cm_generation c"
    using participant_ok[OF assms(1,2,4)] by (simp add: part_ok_def)
  then show ?thesis using assms by (simp add: claimLoot_def)
qed

section \<open>Deadlines\<close>

lemma barrier_resolved:
  "\<not> list_ex (\<lambda>c. cd_state c = PendingLoad) (b_candidates b) \<Longrightarrow>
   b_state (resolveIfComplete b) \<in> {GameplayCommitted, LoadCancelled}"
  by (simp add: resolveIfComplete_def commitGameplay_def Let_def)

lemma barrier_due:
  assumes "b_state b = LoadBarrierOpen" "b_loadDeadlineTick b = Some d" "time_valid at" "d \<le> bt_tick at"
  shows "b_state (snd (expireLoadBarrier (b_roomId b) (b_battleId b) at b)) \<in> {GameplayCommitted, LoadCancelled}"
proof -
  let ?b = "(observeBattleTime at b)\<lparr>b_candidates := map (\<lambda>c. if cd_state c = PendingLoad
    then c\<lparr>cd_state := CandidateTimedOut\<rparr> else c) (b_candidates b)\<rparr>"
  have "\<not> list_ex (\<lambda>c. cd_state c = PendingLoad) (b_candidates ?b)" by (auto simp: list_ex_iff)
  then have "b_state (resolveIfComplete ?b) \<in> {GameplayCommitted, LoadCancelled}" by (rule barrier_resolved)
  then show ?thesis using assms by (simp add: expireLoadBarrier_def Let_def not_less)
qed

lemma combat_due:
  assumes "battle_inv b" "b_state b = GameplayCommitted" "b_resultState b = NotReady" "b_combatTerminal b = None"
    "b_combatDeadlineTick b = Some d" "time_valid at" "d \<le> bt_tick at"
  shows "currentOutcome (snd (expireCombat (b_battleId b) at b)) = CombatTimeout"
proof -
  obtain m where m: "b_monster b = Some m" "mo_state m = Alive"
    using committed_parts(2)[OF assms(1,2)] assms(4) by (auto simp: combat_ok_def currentOutcome_def)
  have "b_terminalOutcome b = None" using assms(1-3) by (simp add: battle_inv_def open_ok_def)
  then show ?thesis
    using assms m by (simp add: expireCombat_def notDue_def monsterTimeout_def Let_def currentOutcome_def
        terminalRecord_def not_less)
qed

lemma loot_due:
  assumes "b_lootResolution b = LootOpen" "b_lootDeadlineTick b = Some d" "time_valid at" "d \<le> bt_tick at"
  shows "b_lootResolution (snd (expireLoot (b_battleId b) at b)) = LootResolved"
  using assms by (simp add: expireLoot_def notDue_def Let_def not_less)

section \<open>The committed result\<close>

lemma committed_result:
  assumes "battle_inv b" "b_committedResult b = Some fr"
  shows "b_state b = GameplayCommitted" "result_committed b" "combat_ok b"
proof -
  show gc: "b_state b = GameplayCommitted"
    using assms by (auto simp: battle_inv_def base_inv_def not_started_def split: if_splits)
  show "result_committed b"
    using result_ok_state[OF committed_parts(3)[OF assms(1) gc]] assms(2) by (auto simp: result_open_def)
  show "combat_ok b" by (rule committed_parts(2)[OF assms(1) gc])
qed

end
