(* ===== verification/BattlePhases.thy ===== *)
theory BattlePhases
  imports BattleCommands
begin

text \<open>
  The abstract specification of a battle: the phases it goes through and the steps between them.
  Every operation of the model either stays in its phase or takes one of the steps, so the battle
  refines this state machine.
\<close>

section \<open>The state machine\<close>

datatype phase = Waiting | Loading | LoadFailed | Fighting | Looting | Over battle_outcome

inductive phase_step :: "phase \<Rightarrow> phase \<Rightarrow> bool" where
  opened: "phase_step Waiting Loading"
| load_failed: "phase_step Loading LoadFailed"
| started: "phase_step Loading Fighting"
| defeated: "phase_step Fighting Looting"
| timed_out: "phase_step Fighting (Over OutcomeCombatTimeout)"
| abandoned: "phase_step Fighting (Over OutcomeCancelled)"
| looted: "phase_step Looting (Over OutcomeMonsterDefeated)"
| loot_abandoned: "phase_step Looting (Over OutcomeCancelled)"

code_pred phase_step .

inductive_cases over_stepE: "phase_step (Over outcome) p"

inductive_simps phase_step_simps:
  "phase_step Waiting p" "phase_step Loading p" "phase_step Fighting p" "phase_step Looting p"

definition phase_of :: "battle \<Rightarrow> phase" where
  "phase_of b =
     (case b_state b of
        Created \<Rightarrow> Waiting
      | LoadBarrierOpen \<Rightarrow> Loading
      | LoadCancelled \<Rightarrow> LoadFailed
      | GameplayCommitted \<Rightarrow>
          (case b_committedResult b of
             Some fr \<Rightarrow> Over (fr_outcome fr)
           | None \<Rightarrow> if b_combatTerminal b = None then Fighting else Looting))"

section \<open>Before play\<close>

lemma resolve_fields:
  "b_combatTerminal (resolveIfComplete b) = b_combatTerminal b"
  "b_committedResult (resolveIfComplete b) = b_committedResult b"
  "b_state b = LoadBarrierOpen \<Longrightarrow> b_state (resolveIfComplete b) \<noteq> Created"
  by (simp_all add: resolveIfComplete_def commitGameplay_def Let_def)

lemma before_play:
  assumes "battle_inv b" "b_state b \<noteq> GameplayCommitted" "battle_step op b = Some b'"
  shows "b_combatTerminal b' = None \<and> b_committedResult b' = None \<and>
    (b_state b = Created \<longrightarrow> b_state b' = Created \<or> b_state b' = LoadBarrierOpen) \<and>
    (b_state b = LoadBarrierOpen \<longrightarrow> b_state b' \<noteq> Created)"
proof -
  have ns: "b_combatTerminal b = None" "b_committedResult b = None" "b_lootResolution b = LootNotStarted" "b_monster b = None"
    using assms(1,2) by (simp_all add: battle_inv_def base_inv_def not_started_def no_loot_def)
  then show ?thesis
    using assms(2,3)
  proof (cases op)
    case (OpenBarrier at)
    then show ?thesis using assms(2,3) ns by (auto simp: openLoadBarrier_def Let_def)
  next
    case (CompleteLoad c ready at)
    then show ?thesis using assms(2,3) ns
      by (auto simp: completeLoad_def upd_candidate_def resolve_fields split: sum.splits if_splits)
  next
    case (ExpireBarrier r i at)
    then show ?thesis using assms(2,3) ns
      by (auto simp: expireLoadBarrier_def Let_def resolve_fields split: if_splits)
  next
    case (DisconnectParticipant c at)
    then show ?thesis using assms(2,3) ns
      by (auto simp: disconnectCandidate_def upd_candidate_def resolve_fields split: sum.splits if_splits)
  next
    case (LeaveParticipant c at)
    then show ?thesis using assms(2,3) ns by (auto simp: leaveBattle_def freezeExited_def split: sum.splits)
  qed (use ns in \<open>auto simp: suspendInput_def resumeInput_def acceptMove_def integrateMovement_def captureStateSnapshot_def
      attackWithApplied_def attack_def attackResultNow_def makeAttackResult_def expireCombat_def claimLoot_def expireLoot_def split: if_splits\<close>)
qed

section \<open>While playing\<close>

lemma attack_opens_loot:
  assumes "attack c at b = Some (r, b')"
  shows "b_combatTerminal b' = b_combatTerminal b \<or> b_lootResolution b' = LootOpen \<or>
    b_resultState b' = ResultGenerationFailed"
proof -
  have lethal: "b_lootResolution b' = LootOpen \<or> b_resultState b' = ResultGenerationFailed"
    if kill: "attackLethal c at b = Some (r, b')" for b
  proof -
    let ?b = "b\<lparr>b_combatTerminal := Some (terminalRecord MonsterDefeated b), b_combatDeadlineTick := None\<rparr>"
    obtain b1 where b1: "retainAttack c AttackOk (openLoot at ?b) = Some (r, b1)"
      "b' = commitResultIfReady at (markAttackResultsCompleted at b1)"
      using kill by (auto simp: attackLethal_def Let_def split: option.splits)
    have "b_lootResolution (openLoot at ?b) = LootOpen \<or> b_resultState (openLoot at ?b) = ResultGenerationFailed"
      by (simp add: openLoot_def markLootResultsCompleted_def split: option.split)
    then have "b_lootResolution b1 = LootOpen \<or> b_resultState b1 = ResultGenerationFailed"
      using retain_attack_monster(5,6)[OF b1(1)] by simp
    moreover have "commitResultIfReady at (markAttackResultsCompleted at b1) = markAttackResultsCompleted at b1"
      if "b_resultState b1 = ResultGenerationFailed"
      using that by (simp add: commitResultIfReady_def)
    ultimately show ?thesis unfolding b1(2) by auto
  qed
  have strike: "b_combatTerminal b' = b_combatTerminal b \<or> b_lootResolution b' = LootOpen \<or>
      b_resultState b' = ResultGenerationFailed" if "attackStrike c at p m b = Some (r, b')" for p m b
    using that lethal
    by (auto simp: attackStrike_def applyAttack_def completeDeath_def dest: retain_attack_monster(7) split: if_splits)
  have fresh: "b_combatTerminal b' = b_combatTerminal b \<or> b_lootResolution b' = LootOpen \<or>
      b_resultState b' = ResultGenerationFailed" if "attackFresh c at p m b = Some (r, b')" for p m b
    using that by (auto simp: attackFresh_def Let_def dest!: strike retain_attack_monster(7) split: if_splits option.splits)
  show ?thesis
    using assms
    by (auto simp: attack_def Let_def dest!: fresh split: if_splits option.splits prod.splits inspection.splits)
qed

lemma retain_claim_terminal: "retainClaim c code b = Some (r, b') \<Longrightarrow> b_combatTerminal b' = b_combatTerminal b"
  by (auto simp: retainClaim_def Let_def split: option.splits)

lemma claim_target_terminal: "claimTarget c at p b = Some (r, b') \<Longrightarrow> b_combatTerminal b' = b_combatTerminal b"
  by (auto simp: claimTarget_def claimDrop_def takeDrop_def Let_def dest!: retain_claim_terminal split: if_splits option.splits)

lemma claim_terminal: "claimLoot c at b = Some (r, b') \<Longrightarrow> b_combatTerminal b' = b_combatTerminal b"
  by (auto simp: claimLoot_def Let_def dest!: retain_claim_terminal claim_target_terminal
      split: if_splits option.splits inspection.splits)

lemma cancel_terminal [simp]: "b_combatTerminal (applyCancellationIfNoActiveParticipants b) = b_combatTerminal b"
  by (simp add: applyCancellationIfNoActiveParticipants_def clearDeadlines_def Let_def)

lemma freeze_terminal: "b_combatTerminal (snd (freezeExited c e at b)) = b_combatTerminal b"
  by (simp add: freezeExited_def freezeParticipant_def split: sum.split option.split)

text \<open>A battle that was fighting is not looted in the same step.\<close>

lemma not_looted_at_once:
  assumes "battle_inv b" "b_state b = GameplayCommitted" "b_combatTerminal b = None" "battle_step op b = Some b'"
    "b_committedResult b' = Some fr"
  shows "currentOutcome b' \<noteq> MonsterDefeated"
proof -
  have com: "result_committed b'"
    using committed_result[OF _ assms(5)] step_inv[OF assms(1), of op] assms(4) by auto
  have "b_combatTerminal b' = None \<or> currentOutcome b' = CombatTimeout"
  proof (cases op)
    case (Attack c at)
    then obtain r0 b1 where b1: "attack c at b = Some (r0, b1)" "b_combatTerminal b' = b_combatTerminal b1"
      "b_lootResolution b' = b_lootResolution b1" "b_resultState b' = b_resultState b1"
      using assms(4) by (auto simp: attackWithApplied_def Let_def split: option.splits if_splits)
    then show ?thesis using attack_opens_loot[OF b1(1)] com assms(3) by (auto simp: result_committed_def)
  next
    case (ExpireCombat i at)
    then show ?thesis using assms(3,4)
      by (auto simp: expireCombat_def monsterTimeout_def Let_def currentOutcome_def terminalRecord_def
          split: option.splits if_splits)
  next
    case (Claim c at)
    then show ?thesis using assms(3,4) by (auto dest: claim_terminal)
  next
    case (ExpireLoot i at)
    then show ?thesis using assms(3,4) by (auto simp: expireLoot_def Let_def split: if_splits)
  next
    case (DisconnectParticipant c at)
    then show ?thesis using assms(2-4) freeze_terminal[of c ExitDisconnected at b]
      by (auto simp: disconnectCandidate_def split: sum.splits)
  next
    case (LeaveParticipant c at)
    then show ?thesis using assms(3,4) freeze_terminal[of c VoluntaryLeft at b] by (auto simp: leaveBattle_def)
  qed (use assms(2-4) in \<open>auto simp: openLoadBarrier_def completeLoad_def expireLoadBarrier_def suspendInput_def
      resumeInput_def acceptMove_def integrateMovement_def captureStateSnapshot_def Let_def
      split: option.splits if_splits sum.splits prod.splits\<close>)
  then show ?thesis by (auto simp: currentOutcome_def)
qed

section \<open>Refinement\<close>

text \<open>What the phase of a battle that is being played says.\<close>

lemma played_phase:
  assumes "battle_inv b" "b_state b = GameplayCommitted"
  shows "phase_of b = Fighting \<and> b_combatTerminal b = None \<and> b_committedResult b = None \<or>
    phase_of b = Looting \<and> currentOutcome b = MonsterDefeated \<and> b_committedResult b = None \<or>
    (\<exists>fr. phase_of b = Over (fr_outcome fr) \<and> b_committedResult b = Some fr \<and> outcome_ok b (fr_outcome fr))"
proof (cases "b_committedResult b")
  case None
  then have "b_resultState b = NotReady"
    using result_ok_state[OF committed_parts(3)[OF assms]] by (auto simp: result_committed_def)
  then show ?thesis using assms None by (auto simp: phase_of_def battle_inv_def open_ok_def)
next
  case (Some fr)
  then show ?thesis using committed_result(2)[OF assms(1) Some] assms(2) by (auto simp: phase_of_def result_committed_def)
qed

lemma phase_refines:
  assumes "battle_inv b" "battle_step op b = Some b'"
  shows "phase_of b' = phase_of b \<or> phase_step (phase_of b) (phase_of b')"
proof (cases "b_state b = GameplayCommitted")
  case False
  have inv: "battle_inv b'" using step_inv[OF assms(1), of op] assms(2) by auto
  note pre = before_play[OF assms(1) False assms(2)]
  show ?thesis
  proof (cases "b_state b")
    case Created
    then show ?thesis using pre by (auto simp: phase_of_def phase_step_simps)
  next
    case LoadBarrierOpen
    then show ?thesis using pre by (cases "b_state b'") (auto simp: phase_of_def phase_step_simps)
  next
    case LoadCancelled
    then show ?thesis using evolves_parts(6)[OF step_evolves[OF assms]] by (simp add: phase_of_def)
  qed (use False in simp)
next
  case True
  have inv: "battle_inv b'" using step_inv[OF assms(1), of op] assms(2) by auto
  note ev = evolves_parts[OF step_evolves[OF assms]]
  have gc: "b_state b' = GameplayCommitted" using ev(6) True by simp
  note ph = played_phase[OF assms(1) True] and ph' = played_phase[OF inv gc]
  show ?thesis
  proof (cases "b_committedResult b")
    case (Some fr)
    then have "b_committedResult b' = Some fr"
      using ev(14) committed_result(2)[OF assms(1) Some] by (simp add: result_committed_def)
    then show ?thesis using Some True gc by (simp add: phase_of_def)
  next
    case None
    have over: "outcome = OutcomeCancelled \<or> outcome = OutcomeMonsterDefeated \<and> currentOutcome b' = MonsterDefeated \<or>
        outcome = OutcomeCombatTimeout \<and> currentOutcome b' = CombatTimeout" if "outcome_ok b' outcome" for outcome
      using that by (auto simp: outcome_ok_def)
    show ?thesis
    proof (cases "b_combatTerminal b = None")
      case True
      then have "phase_of b = Fighting" using ph None by (auto simp: currentOutcome_def)
      moreover have "currentOutcome b' \<noteq> MonsterDefeated" if "b_committedResult b' = Some fr" for fr
        by (rule not_looted_at_once[OF assms(1) \<open>b_state b = GameplayCommitted\<close> True assms(2) that])
      ultimately show ?thesis using ph' by (auto simp: phase_step_simps dest: over)
    next
      case False
      then have "phase_of b = Looting" "currentOutcome b = MonsterDefeated" using ph None by auto
      moreover have "currentOutcome b' = currentOutcome b" using ev(10)[OF False] by (simp add: currentOutcome_def)
      moreover have "b_combatTerminal b' \<noteq> None" using ev(10)[OF False] False by simp
      ultimately show ?thesis using ph' by (auto simp: phase_step_simps dest: over)
    qed
  qed
qed

end
