(* ===== verification/BattleProperties.thy ===== *)
theory BattleProperties
  imports BattlePhases
begin

text \<open>
  What holds of every battle that starts from an admitted roster, however its operations are
  ordered: the properties of the aggregate \<open>BattleInstance\<close>. They rest on the invariant
  (BattleInvariant, BattleSafety) and on the preorder of BattleEvolution, which a whole run respects.
\<close>

section \<open>Runs\<close>

interpretation battle_system: invariant_system "\<lambda>op b. the (battle_step op b)" battle_inv
proof
  fix b op assume "battle_inv b"
  then show "battle_inv (the (battle_step op b))" using step_inv[of b op] by auto
qed

lemma run_fold: "battle_inv b \<Longrightarrow> battle_run ops b = Some (fold (\<lambda>op b. the (battle_step op b)) ops b)"
proof (induction ops arbitrary: b)
  case (Cons op ops)
  obtain b' where "battle_step op b = Some b'" "battle_inv b'" using step_inv[OF Cons.prems] by blast
  then show ?case using Cons.IH by simp
qed simp

lemma run_total: "battle_inv b \<Longrightarrow> \<exists>b'. battle_run ops b = Some b' \<and> battle_inv b'"
  using run_fold battle_system.run_inv by blast

lemma battle_run_inv: "battle_inv b \<Longrightarrow> battle_run ops b = Some b' \<Longrightarrow> battle_inv b'"
  using run_total[of b ops] by auto

lemma run_evolves: "battle_inv b \<Longrightarrow> battle_run ops b = Some b' \<Longrightarrow> evolves b b'"
proof (induction ops arbitrary: b)
  case (Cons op ops)
  obtain b1 where b1: "battle_step op b = Some b1" "battle_inv b1" using step_inv[OF Cons.prems(1)] by blast
  then show ?case using Cons step_evolves[OF Cons.prems(1) b1(1)] evolves_trans by auto
qed simp

lemma reached_inv: "createBattle a = Inr b0 \<Longrightarrow> battle_run ops b0 = Some b \<Longrightarrow> battle_inv b"
  using create_inv battle_run_inv by blast

lemma reached_evolves:
  "createBattle a = Inr b0 \<Longrightarrow> battle_run ops b0 = Some b \<Longrightarrow> battle_run ops' b = Some b' \<Longrightarrow> evolves b b'"
  using reached_inv run_evolves by blast

section \<open>An example battle\<close>

definition exampleAdmission :: admission_snapshot where
  "exampleAdmission = \<lparr>as_roomId = RoomId 1, as_battleId = BattleInstanceId 1,
     as_candidates =
       [\<lparr>sc_accountId = AccountId [1], sc_sessionId = SessionId 1, sc_generation = SessionGeneration 1, sc_nickname = [65]\<rparr>,
        \<lparr>sc_accountId = AccountId [2], sc_sessionId = SessionId 2, sc_generation = SessionGeneration 1, sc_nickname = [66]\<rparr>],
     as_rulesetVersion = 1, as_seed = 14\<rparr>"

definition exampleCommand :: "u64 \<Rightarrow> load_command" where
  "exampleCommand s = \<lparr>lc_sessionId = SessionId s, lc_generation = SessionGeneration 1, lc_roomId = RoomId 1,
     lc_battleId = BattleInstanceId 1\<rparr>"

definition exampleStart :: "battle_op list" where
  "exampleStart = [OpenBarrier (fromLogicalTick 0), CompleteLoad (exampleCommand 1) True (fromLogicalTick 1),
     CompleteLoad (exampleCommand 2) True (fromLogicalTick 2)]"

definition exampleTimeout :: "battle_op list" where
  "exampleTimeout = [ExpireCombat (BattleInstanceId 1) (fromLogicalTick 700)]"

definition exampleBattle :: battle where
  "exampleBattle = the (battle_run exampleStart (newBattle exampleAdmission))"

definition exampleOver :: battle where
  "exampleOver = the (battle_run exampleTimeout exampleBattle)"

lemma example_created: "createBattle exampleAdmission = Inr (newBattle exampleAdmission)"
proof -
  have "validAdmission exampleAdmission" by code_simp
  then show ?thesis by (simp add: createBattle_def)
qed

lemma example_started: "battle_run exampleStart (newBattle exampleAdmission) = Some exampleBattle"
  using run_total[OF create_inv[OF example_created], of exampleStart] by (auto simp: exampleBattle_def)

lemma example_over: "battle_run exampleTimeout exampleBattle = Some exampleOver"
  using run_total[OF reached_inv[OF example_created example_started], of exampleTimeout] by (auto simp: exampleOver_def)

lemma run_append: "battle_run (ops @ ops') b = (case battle_run ops b of None \<Rightarrow> None | Some b' \<Rightarrow> battle_run ops' b')"
  by (induction ops arbitrary: b) (auto split: option.split)

lemma example_finished: "battle_run (exampleStart @ exampleTimeout) (newBattle exampleAdmission) = Some exampleOver"
  by (simp add: run_append example_started example_over)

lemma example_state:
  "b_state exampleBattle = GameplayCommitted" "b_resultState exampleBattle = NotReady"
  "b_combatDeadlineTick exampleBattle = Some 602" "b_lootDeadlineTick exampleBattle = None"
  "b_battleId exampleBattle = BattleInstanceId 1"
  by code_simp+

lemma example_result:
  "b_resultState exampleOver = Committed" "b_committedResult exampleOver \<noteq> None"
  "b_state exampleOver = GameplayCommitted"
  by code_simp+

text \<open>The two players hit in turns, every 15 ticks, and one of them claims a drop.\<close>

definition exampleAttack :: "nat \<Rightarrow> attack_command" where
  "exampleAttack n = \<lparr>cm_commandId = CommandId (of_nat (n + 1)) 1, cm_sessionId = SessionId (of_nat (n mod 2 + 1)),
     cm_generation = SessionGeneration 1, cm_battleId = BattleInstanceId 1, cm_hint = 1\<rparr>"

definition exampleFight :: "battle_op list" where
  "exampleFight = map (\<lambda>n. Attack (exampleAttack n) (fromLogicalTick (of_nat (10 + 15 * (n div 2))))) [0..<16]"

definition exampleClaim :: claim_command where
  "exampleClaim = \<lparr>cm_commandId = CommandId 1 2, cm_sessionId = SessionId 2,
     cm_generation = SessionGeneration 1, cm_battleId = BattleInstanceId 1, cm_hint = DropId 2\<rparr>"

definition exampleLooting :: battle where
  "exampleLooting = the (battle_run exampleFight exampleBattle)"

lemma example_looting:
  "battle_run (exampleStart @ exampleFight) (newBattle exampleAdmission) = Some exampleLooting"
  using run_total[OF reached_inv[OF example_created example_started], of exampleFight]
  by (auto simp: exampleLooting_def run_append example_started)

lemma example_claimed:
  "map_option (\<lambda>b. (b_drops b = [], map_option (\<lambda>(r, _). cr_code r) (claimLoot exampleClaim (fromLogicalTick 160) b)))
     (battle_run exampleFight exampleBattle) = Some (False, Some ClaimOk)"
  by code_simp

lemma example_loot_state:
  "b_drops exampleLooting \<noteq> []"
  "\<exists>r b. claimLoot exampleClaim (fromLogicalTick 160) exampleLooting = Some (r, b) \<and> cr_code r = ClaimOk"
proof -
  have run: "battle_run exampleFight exampleBattle = Some exampleLooting"
    using example_looting by (simp add: run_append example_started)
  show "b_drops exampleLooting \<noteq> []" using example_claimed by (simp add: run)
  show "\<exists>r b. claimLoot exampleClaim (fromLogicalTick 160) exampleLooting = Some (r, b) \<and> cr_code r = ClaimOk"
    using example_claimed by (auto simp: run)
qed

section \<open>No operation aborts the server\<close>

text \<open>Property C1. From an admitted roster no sequence of operations, whatever their order, times and
  commands, reaches \<open>std::terminate\<close> (the operations return a battle), and none leaves the
  battle with a result that could not be generated.\<close>

theorem battle_never_terminates:
  assumes "createBattle a = Inr b0"
  shows "\<exists>b. battle_run ops b0 = Some b \<and> b_resultState b \<noteq> ResultGenerationFailed"
proof -
  obtain b where b: "battle_run ops b0 = Some b" "battle_inv b" using run_total[OF create_inv[OF assms]] by blast
  have "b_resultState b \<noteq> ResultGenerationFailed"
  proof (cases "b_state b = GameplayCommitted")
    case True
    then show ?thesis using result_ok_state[OF committed_parts(3)[OF b(2)]] by auto
  next
    case False
    then show ?thesis using b(2) by (simp add: battle_inv_def base_inv_def not_started_def)
  qed
  then show ?thesis using b(1) by blast
qed

theorem battle_never_terminates_witness:
  "\<exists>b. battle_run (exampleStart @ exampleTimeout) (newBattle exampleAdmission) = Some b \<and>
     b_resultState b \<noteq> ResultGenerationFailed"
  by (rule battle_never_terminates[OF example_created])

section \<open>The final result\<close>


text \<open>Property C24. The committed result is final: later operations, in any order, keep the same result
  and the same outcome.\<close>

theorem committed_result_is_final:
  assumes "createBattle a = Inr b0" "battle_run ops b0 = Some b" "b_committedResult b = Some fr"
    "battle_run ops' b = Some b'"
  shows "b_committedResult b' = Some fr \<and> b_resultState b' = Committed \<and>
    b_terminalOutcome b' = Some (fr_outcome fr)"
proof -
  have com: "result_committed b" by (rule committed_result(2)[OF reached_inv[OF assms(1,2)] assms(3)])
  have ev: "evolves b b'" by (rule reached_evolves[OF assms(1,2,4)])
  show ?thesis
    using com assms(3) evolves_parts(11,13,14)[OF ev] by (auto simp: result_committed_def)
qed

theorem committed_result_is_final_witness:
  "b_resultState (the (battle_run [ExpireCombat (BattleInstanceId 1) (fromLogicalTick 900),
     LeaveParticipant (exampleCommand 1) (fromLogicalTick 901)] exampleOver)) = Committed"
proof -
  obtain fr where fr: "b_committedResult exampleOver = Some fr" using example_result(2) by blast
  obtain b' where b': "battle_run [ExpireCombat (BattleInstanceId 1) (fromLogicalTick 900),
     LeaveParticipant (exampleCommand 1) (fromLogicalTick 901)] exampleOver = Some b'"
    using run_total[OF reached_inv[OF example_created example_finished]] by blast
  then show ?thesis
    using committed_result_is_final[OF example_created example_finished fr b'] by (simp only: option.sel)
qed

text \<open>Property C21. The committed result accounts for the battle: it names the room, the battle and
  exactly the captured participants, the values it hands out sum to the value of the claimed drops,
  and its outcome is what happened: the monster is dead, or it survived the deadline and nothing was
  dropped, or nobody was left playing.\<close>

theorem result_accounts_for_battle:
  assumes "createBattle a = Inr b0" "battle_run ops b0 = Some b" "b_committedResult b = Some fr"
  shows "fr_roomId fr = as_roomId a \<and> fr_battleId fr = as_battleId a \<and>
    mset (map en_sessionId (fr_entries fr)) = mset (map ca_sessionId (b_captured b)) \<and>
    sum_list (map (\<lambda>e. unat (en_finalAssetValue e)) (fr_entries fr)) = claimed_value (b_drops b) \<and>
    (fr_outcome fr = OutcomeMonsterDefeated \<and> currentHitPoints b = 0 \<or>
     fr_outcome fr = OutcomeCombatTimeout \<and> currentHitPoints b \<noteq> 0 \<and> b_drops b = [] \<or>
     fr_outcome fr = OutcomeCancelled \<and> (\<forall>p \<in> set (b_participants b). \<not> pt_gameplayEligible p))"
proof -
  note com = committed_result[OF reached_inv[OF assms(1,2)] assms(3)]
  have "evolves b0 b" using run_evolves[OF create_inv[OF assms(1)] assms(2)] .
  then have ids: "b_roomId b = as_roomId a" "b_battleId b = as_battleId a"
    using assms(1) evolves_parts(1,2) by (auto simp: createBattle_def newBattle_def split: if_splits)
  have res: "result_of b fr" "outcome_ok b (fr_outcome fr)" using com(2) assms(3) by (auto simp: result_committed_def)
  have "fr_outcome fr = OutcomeMonsterDefeated \<and> currentHitPoints b = 0 \<or>
     fr_outcome fr = OutcomeCombatTimeout \<and> currentHitPoints b \<noteq> 0 \<and> b_drops b = [] \<or>
     fr_outcome fr = OutcomeCancelled \<and> (\<forall>p \<in> set (b_participants b). \<not> pt_gameplayEligible p)"
    using res(2) com(3)
    by (auto simp: outcome_ok_def combat_ok_def currentHitPoints_def currentOutcome_def no_loot_def)
  then show ?thesis using res(1) ids by (simp add: result_of_def)
qed

theorem result_accounts_for_battle_witness:
  "fr_battleId (the (b_committedResult exampleOver)) = BattleInstanceId 1"
proof -
  obtain fr where fr: "b_committedResult exampleOver = Some fr" using example_result(2) by blast
  have "fr_battleId fr = as_battleId exampleAdmission"
    by (rule result_accounts_for_battle[OF example_created example_finished fr, THEN conjunct2, THEN conjunct1])
  then show ?thesis using fr by (simp add: exampleAdmission_def)
qed

section \<open>Loot\<close>

text \<open>Property C2. Loot is never lost or duplicated. The list of drops never changes once the monster is
  dead; a drop that was claimed stays with its owner and one that was closed stays unclaimed; at any
  time, the holdings of a session count exactly the drops it claimed, and every claimed drop belongs
  to a captured participant.\<close>

theorem loot_conserved:
  assumes "createBattle a = Inr b0" "battle_run ops b0 = Some b" "b_drops b \<noteq> []" "battle_run ops' b = Some b'"
  shows "map ld_drop (b_drops b') = map ld_drop (b_drops b) \<and>
    (\<forall>i < length (b_drops b). ld_state (b_drops b ! i) \<noteq> DropAvailable \<longrightarrow> b_drops b' ! i = b_drops b ! i) \<and>
    (\<forall>h \<in> set (b_holdings b'). unat (ho_quantity h) =
       length (filter (\<lambda>d. ld_state d = DropClaimed \<and> ld_owner d = Some (ho_sessionId h) \<and>
         rd_itemId (ld_drop d) = ho_itemId h) (b_drops b'))) \<and>
    (\<forall>d \<in> set (b_drops b'). \<forall>s. ld_owner d = Some s \<longrightarrow> s \<in> set (map ca_sessionId (b_captured b')) \<and>
       (\<exists>h \<in> set (b_holdings b'). ho_sessionId h = s \<and> ho_itemId h = rd_itemId (ld_drop d)))"
proof -
  have ev: "evolves b b'" by (rule reached_evolves[OF assms(1,2,4)])
  then have grow: "list_all2 drop_next (b_drops b) (b_drops b')" using evolves_parts(9)[OF ev] assms(3) by simp
  then have "map ld_drop (b_drops b') = map ld_drop (b_drops b)"
    by (auto simp: list_all2_conv_all_nth drop_next_def list_eq_iff_nth_eq)
  moreover have "\<forall>i < length (b_drops b). ld_state (b_drops b ! i) \<noteq> DropAvailable \<longrightarrow> b_drops b' ! i = b_drops b ! i"
    using grow by (auto simp: list_all2_conv_all_nth drop_next_def)
  moreover have inv: "battle_inv b'" using reached_inv[OF assms(1,2)] battle_run_inv assms(4) by blast
  have "b_drops b' \<noteq> []" using grow assms(3) by auto
  then have gc: "b_state b' = GameplayCommitted" and loot: "loot_ok b'"
    using inv by (auto simp: battle_inv_def base_inv_def not_started_def no_loot_def combat_ok_def split: if_splits)
  have led: "holdings_ok (b_drops b') (b_holdings b')" "drops_ok (map ca_sessionId (b_captured b')) (b_drops b')"
    "length (b_drops b') \<le> 10"
    using loot committed_parts(1)[OF inv gc] by (simp_all add: loot_ok_def roster_ok_def)
  have "unat (ho_quantity h) = claimed_count (ho_sessionId h) (ho_itemId h) (b_drops b')" if "h \<in> set (b_holdings b')" for h
  proof -
    have "claimed_count (ho_sessionId h) (ho_itemId h) (b_drops b') \<le> 10"
      using order_trans[OF claimed_count_le led(3)] .
    then show ?thesis using that led(1) by (simp add: holdings_ok_def unat_of_nat take_bit_nat_eq_self)
  qed
  moreover have "s \<in> set (map ca_sessionId (b_captured b'))" if "d \<in> set (b_drops b')" "ld_owner d = Some s" for d s
    using that led(2) by (auto simp: drops_ok_def split: option.splits)
  moreover have "\<exists>h \<in> set (b_holdings b'). ho_sessionId h = s \<and> ho_itemId h = rd_itemId (ld_drop d)"
    if "d \<in> set (b_drops b')" "ld_owner d = Some s" for d s
    using that led(1) unfolding holdings_ok_def by blast
  ultimately show ?thesis by (simp add: claimed_count_def claimed_by_def[abs_def])
qed

theorem loot_conserved_witness:
  "\<exists>b'. battle_run [Claim exampleClaim (fromLogicalTick 160), ExpireLoot (BattleInstanceId 1) (fromLogicalTick 600)]
     exampleLooting = Some b' \<and> map ld_drop (b_drops b') = map ld_drop (b_drops exampleLooting)"
proof -
  obtain b' where b': "battle_run [Claim exampleClaim (fromLogicalTick 160), ExpireLoot (BattleInstanceId 1) (fromLogicalTick 600)]
     exampleLooting = Some b'"
    using run_total[OF reached_inv[OF example_created example_looting]] by blast
  from loot_conserved[OF example_created example_looting example_loot_state(1) b'] b' show ?thesis by blast
qed

section \<open>The monster\<close>

lemma monster_committed: "battle_inv b \<Longrightarrow> b_monster b = Some m \<Longrightarrow> b_state b = GameplayCommitted"
  by (simp add: battle_inv_def base_inv_def not_started_def split: if_splits)

text \<open>The monster's hit points are a multiple of the damage of one attack, at most 800 per
  captured participant, never grow, and are 0 exactly when the monster is dead; the monster of a
  decided combat no longer changes.\<close>

theorem monster_only_weakens:
  assumes "createBattle a = Inr b0" "battle_run ops b0 = Some b" "b_monster b = Some m" "battle_run ops' b = Some b'"
  shows "\<exists>m'. b_monster b' = Some m' \<and> mo_hitPoints m' \<le> mo_hitPoints m \<and>
    100 dvd unat (mo_hitPoints m') \<and> unat (mo_hitPoints m') \<le> 800 * length (b_captured b') \<and>
    (mo_hitPoints m' = 0 \<longleftrightarrow> mo_state m' = Dead) \<and> (mo_state m' = Dead \<longleftrightarrow> currentOutcome b' = MonsterDefeated) \<and>
    (b_combatTerminal b \<noteq> None \<longrightarrow> m' = m \<and> b_combatTerminal b' = b_combatTerminal b)"
proof -
  have ev: "evolves b b'" by (rule reached_evolves[OF assms(1,2,4)])
  obtain m' where m': "b_monster b' = Some m'" "monster_next m m'" using evolves_parts(8)[OF ev assms(3)] by blast
  have inv: "battle_inv b" "battle_inv b'" using reached_inv[OF assms(1,2)] battle_run_inv[OF _ assms(4)] by blast+
  have gc: "b_state b' = GameplayCommitted" "b_state b = GameplayCommitted"
    using monster_committed inv assms(3) m'(1) by blast+
  have "b_combatTerminal b \<noteq> None \<Longrightarrow> mo_state m \<noteq> Alive"
    using committed_parts(2)[OF inv(1) gc(2)] assms(3) by (auto simp: combat_ok_def)
  then have "b_combatTerminal b \<noteq> None \<longrightarrow> m' = m \<and> b_combatTerminal b' = b_combatTerminal b"
    using m'(2) evolves_parts(10)[OF ev] by (simp add: monster_next_def)
  moreover have "monster_ok b' m'" "mo_hitPoints m' = 0 \<longleftrightarrow> mo_state m' = Dead"
    "mo_state m' = Dead \<longleftrightarrow> currentOutcome b' = MonsterDefeated"
    using m'(1) committed_parts(2)[OF inv(2) gc(1)] by (auto simp: combat_ok_def currentOutcome_def)
  ultimately show ?thesis using m' by (simp add: monster_ok_def monster_next_def)
qed

theorem monster_only_weakens_witness:
  "\<exists>m'. b_monster exampleOver = Some m' \<and> mo_hitPoints m' \<noteq> 0 \<and> 100 dvd unat (mo_hitPoints m')"
proof -
  obtain m where m: "b_monster exampleBattle = Some m"
    using committed_parts(2)[OF reached_inv[OF example_created example_started] example_state(1)] by (auto simp: combat_ok_def)
  have "currentHitPoints exampleOver \<noteq> 0" by code_simp
  then show ?thesis
    using monster_only_weakens[OF example_created example_started m example_over] by (auto simp: currentHitPoints_def)
qed

section \<open>Participants\<close>

text \<open>Property C27. The roster is fixed when play begins: slots, sessions and generations never change;
  a participant that stopped playing never plays again, the reason why it stopped is only closed by
  the end of the battle, and the accepted attacks of a participant are at least 750 ms apart.\<close>

theorem roster_is_fixed:
  assumes "createBattle a = Inr b0" "battle_run ops b0 = Some b" "i < length (b_participants b)" "battle_run ops' b = Some b'"
  defines "p \<equiv> b_participants b ! i" and "p' \<equiv> b_participants b' ! i"
  shows "length (b_participants b') = length (b_participants b) \<and>
    pt_slot p' = of_nat (i + 1) \<and> pt_sessionId p' = pt_sessionId p \<and> pt_generation p' = pt_generation p \<and>
    (\<not> pt_gameplayEligible p \<longrightarrow> \<not> pt_gameplayEligible p' \<and> \<not> pt_inputEnabled p' \<and>
       pt_exitStatus p' \<in> {pt_exitStatus p, terminalExitStatus (pt_exitStatus p)}) \<and>
    (\<forall>n. pt_lastAcceptedAttackNanos p = Some n \<longrightarrow>
       (\<exists>n'. pt_lastAcceptedAttackNanos p' = Some n' \<and> (n' = n \<or> unat n + 750000000 \<le> unat n')))"
proof -
  have ev: "evolves b b'" by (rule reached_evolves[OF assms(1,2,4)])
  have all: "list_all2 part_next (b_participants b) (b_participants b')" using evolves_parts(7)[OF ev] assms(3) by auto
  then have len: "length (b_participants b') = length (b_participants b)" and nx: "part_next p p'"
    using assms(3) by (auto simp: p_def p'_def list_all2_conv_all_nth)
  have inv: "battle_inv b" "battle_inv b'" using reached_inv[OF assms(1,2)] battle_run_inv assms(4) by auto
  have parts: "b_participants b \<noteq> []" "b_participants b' \<noteq> []" using assms(3) len by auto
  then have gc: "b_state b = GameplayCommitted" "b_state b' = GameplayCommitted"
    using inv by (auto simp: battle_inv_def base_inv_def not_started_def split: if_splits)
  have mem: "p \<in> set (b_participants b)" "p' \<in> set (b_participants b')" using assms(3) len by (auto simp: p_def p'_def)
  have ok: "part_ok (b_battleId b) p" "part_ok (b_battleId b') p'"
    using mem committed_parts(5)[OF inv(1) gc(1)] committed_parts(5)[OF inv(2) gc(2)] by auto
  have "map pt_slot (b_participants b') ! i = map of_nat [1..<length (b_participants b') + 1] ! i"
    using committed_parts(1)[OF inv(2) gc(2)] unfolding roster_ok_def by metis
  then have "pt_slot p' = of_nat (i + 1)" using assms(3) len by (simp add: p'_def del: upt_Suc)
  then show ?thesis using len nx ok by (auto simp: part_next_def part_ok_def exit_next_def spaced_def)
qed

theorem roster_is_fixed_witness:
  "length (b_participants exampleOver) = length (b_participants exampleBattle)"
proof -
  have "0 < length (b_participants exampleBattle)" by code_simp
  from roster_is_fixed[OF example_created example_started this example_over] show ?thesis by blast
qed

section \<open>The phases\<close>

lemma run_phases: "battle_inv b \<Longrightarrow> battle_run ops b = Some b' \<Longrightarrow> phase_step\<^sup>*\<^sup>* (phase_of b) (phase_of b')"
proof (induction ops arbitrary: b)
  case (Cons op ops)
  obtain b1 where b1: "battle_step op b = Some b1" "battle_inv b1" using step_inv[OF Cons.prems(1)] by blast
  then have "phase_step\<^sup>*\<^sup>* (phase_of b1) (phase_of b')" using Cons by auto
  then show ?case using phase_refines[OF Cons.prems(1) b1(1)] by (auto intro: converse_rtranclp_into_rtranclp)
qed simp

text \<open>Property C22. A battle refines its abstract state machine: it starts waiting, opens its load barrier,
  fights or fails to load, and ends by the deadline, by the defeat of the monster followed by the
  loot, or because everybody left; each operation takes at most one of these steps, and the outcome
  of the committed result is the one of the phase that was reached.\<close>

theorem battle_refines_phases:
  assumes "createBattle a = Inr b0" "battle_run ops b0 = Some b" "battle_step op b = Some b'"
  shows "phase_of b0 = Waiting \<and> phase_step\<^sup>*\<^sup>* Waiting (phase_of b) \<and>
    (phase_of b' = phase_of b \<or> phase_step (phase_of b) (phase_of b'))"
proof -
  have "phase_of b0 = Waiting" using assms(1) by (auto simp: createBattle_def newBattle_def phase_of_def split: if_splits)
  then show ?thesis
    using run_phases[OF create_inv[OF assms(1)] assms(2)] phase_refines[OF reached_inv[OF assms(1,2)] assms(3)] by simp
qed

theorem battle_refines_phases_witness: "phase_step\<^sup>*\<^sup>* Waiting (phase_of exampleOver)"
proof -
  obtain b' where "battle_step Snapshot exampleOver = Some b'" by simp
  from battle_refines_phases[OF example_created example_finished this] show ?thesis by blast
qed

text \<open>Property C23. A battle that has begun ends. When the load deadline is due, expiring the barrier
  starts or cancels the battle; when the deadlines of the combat and of the loot are due, expiring
  both commits the result, whatever happened before.\<close>

theorem deadlines_end_battle:
  assumes "createBattle a = Inr b0" "battle_run ops b0 = Some b" "time_valid at"
    "\<forall>d. b_loadDeadlineTick b = Some d \<or> b_combatDeadlineTick b = Some d \<or> b_lootDeadlineTick b = Some d \<longrightarrow> d \<le> bt_tick at"
  shows "(b_state b = LoadBarrierOpen \<longrightarrow>
      b_state (snd (expireLoadBarrier (b_roomId b) (b_battleId b) at b)) \<in> {GameplayCommitted, LoadCancelled}) \<and>
    (b_state b = GameplayCommitted \<longrightarrow>
      (\<exists>b'. battle_run [ExpireCombat (b_battleId b) at, ExpireLoot (b_battleId b) at] b = Some b' \<and>
         b_resultState b' = Committed))"
proof (intro conjI impI)
  note inv = reached_inv[OF assms(1,2)]
  show "b_state (snd (expireLoadBarrier (b_roomId b) (b_battleId b) at b)) \<in> {GameplayCommitted, LoadCancelled}"
    if opened: "b_state b = LoadBarrierOpen"
  proof -
    obtain d where "b_loadDeadlineTick b = Some d" using inv opened by (auto simp: battle_inv_def open_ok_def)
    then show ?thesis using barrier_due[OF opened _ assms(3)] assms(4) by blast
  qed
  show "\<exists>b'. battle_run [ExpireCombat (b_battleId b) at, ExpireLoot (b_battleId b) at] b = Some b' \<and>
      b_resultState b' = Committed" if gc: "b_state b = GameplayCommitted"
  proof -
    let ?b1 = "snd (expireCombat (b_battleId b) at b)"
    let ?b2 = "snd (expireLoot (b_battleId b) at ?b1)"
    have i1: "battle_inv ?b1" by (rule expire_combat_inv[OF inv])
    have i2: "battle_inv ?b2" by (rule expire_loot_inv[OF i1])
    note ev1 = evolves_parts[OF ev_expire_combat[of b "b_battleId b" at]]
      and ev2 = evolves_parts[OF ev_expire_loot[of ?b1 "b_battleId b" at]]
    have state: "b_state ?b1 = GameplayCommitted" "b_state ?b2 = GameplayCommitted" using ev1(6) ev2(6) gc by simp_all
    have decided: "b_resultState ?b2 \<noteq> NotReady"
    proof
      assume nr: "b_resultState ?b2 = NotReady"
      then have nr1: "b_resultState ?b1 = NotReady"
        using ev2(13) result_ok_state[OF committed_parts(3)[OF i1 state(1)]] by auto
      then have nr0: "b_resultState b = NotReady"
        using ev1(13) result_ok_state[OF committed_parts(3)[OF inv gc]] by auto
      have "b_combatTerminal b \<noteq> None"
      proof
        assume none: "b_combatTerminal b = None"
        then obtain d where "b_combatDeadlineTick b = Some d"
          using inv gc nr0 by (auto simp: battle_inv_def open_ok_def currentOutcome_def)
        then have "currentOutcome ?b1 = CombatTimeout"
          using combat_due[OF inv gc nr0 none _ assms(3)] assms(4) by blast
        then show False using i1 state(1) nr1 by (auto simp: battle_inv_def open_ok_def currentOutcome_def)
      qed
      then have same: "?b1 = b" and loot: "b_lootResolution b = LootOpen" "b_lootDeadlineTick b \<noteq> None"
        using inv gc nr0 by (auto simp: expireCombat_def battle_inv_def open_ok_def split: option.split)
      then have "b_lootResolution ?b2 = LootResolved"
        using loot_due[OF loot(1) _ assms(3)] assms(4) by auto
      moreover have "b_combatTerminal ?b2 \<noteq> None" using ev2(10) same \<open>b_combatTerminal b \<noteq> None\<close> by simp
      ultimately show False using i2 state(2) nr by (auto simp: battle_inv_def open_ok_def)
    qed
    then have "b_resultState ?b2 = Committed" using result_ok_state[OF committed_parts(3)[OF i2 state(2)]] by auto
    then show ?thesis by simp
  qed
qed

theorem deadlines_end_battle_witness:
  "\<exists>b'. battle_run [ExpireCombat (BattleInstanceId 1) (fromLogicalTick 700), ExpireLoot (BattleInstanceId 1) (fromLogicalTick 700)]
     exampleBattle = Some b' \<and> b_resultState b' = Committed"
proof -
  have "b_loadDeadlineTick exampleBattle = None" by code_simp
  moreover have "time_valid (fromLogicalTick 700)" "bt_tick (fromLogicalTick 700) = 700"
    by (simp add: fromLogicalTick_valid) (simp add: fromLogicalTick_def)
  ultimately show ?thesis
    using deadlines_end_battle[OF example_created example_started, of "fromLogicalTick 700"] example_state by simp
qed

section \<open>Commands\<close>

text \<open>Property C26. An attack either leaves the hit points alone or is accepted and takes exactly 100 of
  them, and its answer tells what is left; the applied event is recorded exactly then, with a
  damage of 100.\<close>

theorem attack_takes_hundred:
  assumes "createBattle a = Inr b0" "battle_run ops b0 = Some b"
  shows "\<exists>r applied b'. attackWithApplied c at b = Some ((r, applied), b') \<and>
    (case applied of
       None \<Rightarrow> currentHitPoints b' = currentHitPoints b
     | Some event \<Rightarrow> ar_code r = AttackOk \<and> unat (currentHitPoints b) = unat (currentHitPoints b') + 100 \<and>
         ar_remainingHitPoints r = currentHitPoints b' \<and> aa_actualDamage event = 100 \<and>
         aa_remainingHitPoints event = currentHitPoints b' \<and> aa_attackerSessionId event = cm_sessionId c)"
proof -
  note inv = reached_inv[OF assms]
  obtain r b1 where b1: "attack c at b = Some (r, b1)" using attack_inv[OF inv] by blast
  have hit: "hit_of b r b1" by (rule attack_hit[OF inv b1])
  have hundred: "hp - hp' = (100 :: u32)" if "unat hp = unat hp' + 100" for hp hp' :: u32
    using that by (simp add: word_unat_eq_iff unat_sub word_le_nat_alt)
  show ?thesis
  proof (cases "currentHitPoints b \<le> currentHitPoints b1")
    case True
    then have "currentHitPoints b1 = currentHitPoints b" using hit by (auto simp: hit_of_def word_le_nat_alt)
    then show ?thesis using True b1 by (simp add: attackWithApplied_def)
  next
    case False
    then have h: "ar_code r = AttackOk" "ar_remainingHitPoints r = currentHitPoints b1"
      "unat (currentHitPoints b) = unat (currentHitPoints b1) + 100" using hit by (auto simp: hit_of_def)
    have same: "currentHitPoints (b1\<lparr>b_nextAttackAppliedSequence := n\<rparr>) = currentHitPoints b1" for n
      by (simp add: currentHitPoints_def)
    show ?thesis
      using False b1 h hundred[OF h(3)] by (simp add: attackWithApplied_def Let_def appliedRecord_def same)
  qed
qed

theorem attack_takes_hundred_witness:
  "\<exists>r applied b'. attackWithApplied (exampleAttack 0) (fromLogicalTick 30) exampleBattle = Some ((r, applied), b')"
  using attack_takes_hundred[OF example_created example_started, of "exampleAttack 0" "fromLogicalTick 30"] by blast

text \<open>Property C25. A claim that succeeded is answered the same way whenever it is sent again, at any later
  time and after any other operations, and changes nothing any more.\<close>

theorem successful_claim_is_replayed:
  assumes "createBattle a = Inr b0" "battle_run ops b0 = Some b" "claimLoot c at b = Some (r, b1)" "cr_code r = ClaimOk"
    "battle_run ops' b1 = Some b2"
  shows "claimLoot c at' b2 = Some (r, b2)"
proof -
  note cl = claim_replays[OF assms(3,4)]
  have inv: "battle_inv b1" "battle_inv b2"
    using claim_inv[OF reached_inv[OF assms(1,2)], of c at] assms(3) battle_run_inv[OF _ assms(5)] by auto
  note ev = evolves_parts[OF evolves_trans[OF ev_claim[OF assms(3)] run_evolves[OF inv(1) assms(5)]]]
  obtain p where p: "participantRecord (cm_sessionId c) b1 = Some p" "inspect c (pt_lootResults p) = Replay r"
    using cl(3) by blast
  obtain p' where "participantRecord (cm_sessionId c) b2 = Some p'" "part_next p p'"
    using participant_next[OF run_evolves[OF inv(1) assms(5)] p(1)] by blast
  then show ?thesis using claim_replayed[OF inv(2)] ev(2,6) cl(1,2) p(2) by (simp add: part_next_def)
qed

theorem successful_claim_is_replayed_witness:
  "\<exists>r b1 b2. claimLoot exampleClaim (fromLogicalTick 160) exampleLooting = Some (r, b1) \<and>
     battle_run [ExpireLoot (BattleInstanceId 1) (fromLogicalTick 600)] b1 = Some b2 \<and>
     claimLoot exampleClaim (fromLogicalTick 900) b2 = Some (r, b2)"
proof -
  obtain r b1 where c: "claimLoot exampleClaim (fromLogicalTick 160) exampleLooting = Some (r, b1)" "cr_code r = ClaimOk"
    using example_loot_state(2) by blast
  have "battle_inv b1" using claim_inv[OF reached_inv[OF example_created example_looting], of exampleClaim "fromLogicalTick 160"] c(1) by auto
  then obtain b2 where b2: "battle_run [ExpireLoot (BattleInstanceId 1) (fromLogicalTick 600)] b1 = Some b2"
    using run_total by blast
  from successful_claim_is_replayed[OF example_created example_looting c b2] c(1) b2 show ?thesis by blast
qed

end
