(* ===== verification/BattleImage.thy ===== *)
theory BattleImage
  imports BattleProperties
begin

text \<open>
  \<open>BattleInstance::exportDeterministicState\<close> and \<open>importDeterministicState\<close>:
  the value image of a battle that recovery and replay carry, with slots in the place of sessions,
  and every check that the import makes before it believes an image. A check of the code that an
  enumeration has one of its values is vacuous here, because the image is typed. After the first
  checks all refusals have the same code, so the parts of the import return an option.
\<close>

section \<open>The image\<close>

datatype import_code = ImportInvalidArgument | ImportIdentityMismatch | ImportRulesetMismatch | ImportInvariantBroken

record image_candidate =
  ic_slot :: u16
  ic_sessionId :: session_id
  ic_state :: candidate_state

record image_captured =
  ix_slot :: u16
  ix_sessionId :: session_id
  ix_exitStatus :: exit_status

record image_participant =
  ip_slot :: u16
  ip_sessionId :: session_id
  ip_posX :: int
  ip_posY :: int
  ip_tickDeltaX :: int
  ip_tickDeltaY :: int
  ip_latestSeenActionSequence :: "u32 option"
  ip_moveBucket :: bucket
  ip_attackBucket :: bucket
  ip_claimBucket :: bucket
  ip_lastAcceptedAttackNanos :: "u64 option"
  ip_attackResults :: "(u64, attack_result) store_image"
  ip_lootResults :: "(drop_id, claim_result) store_image"
  ip_gameplayEligible :: bool
  ip_inputEnabled :: bool
  ip_exitStatus :: exit_status

record image_drop =
  id_drop :: relic_drop
  id_state :: drop_state
  id_ownerSlot :: "u16 option"

record image_holding =
  ih_ownerSlot :: u16
  ih_itemId :: item_id
  ih_quantity :: u64

record image_entry =
  ie_slot :: u16
  ie_exitStatus :: exit_status
  ie_finalAssetValue :: u64
  ie_rank :: "u32 option"
  ie_isTop :: bool

record image_result =
  ir_outcome :: battle_outcome
  ir_entries :: "image_entry list"

record battle_image =
  im_roomId :: room_id
  im_battleId :: battle_id
  im_rulesetVersion :: u32
  im_seed :: u64
  im_time :: battle_time
  im_state :: load_state
  im_candidates :: "image_candidate list"
  im_captured :: "image_captured list"
  im_participants :: "image_participant list"
  im_loadDeadlineTick :: "u64 option"
  im_combatDeadlineTick :: "u64 option"
  im_lootDeadlineTick :: "u64 option"
  im_lastIntegratedServerTick :: "u32 option"
  im_nextSnapshotSequence :: u32
  im_nextAttackAppliedSequence :: u32
  im_monster :: "monster option"
  im_combatTerminal :: "combat_terminal option"
  im_terminalOutcome :: "battle_outcome option"
  im_drops :: "image_drop list"
  im_holdings :: "image_holding list"
  im_lootResolution :: loot_resolution
  im_resultState :: result_state
  im_committedResult :: "image_result option"
  im_lootResultsCompletedAt :: "u64 option"

section \<open>Export\<close>

definition export_participant :: "participant \<Rightarrow> image_participant" where
  "export_participant p = \<lparr>ip_slot = pt_slot p, ip_sessionId = pt_sessionId p, ip_posX = pt_posX p, ip_posY = pt_posY p,
     ip_tickDeltaX = pt_tickDeltaX p, ip_tickDeltaY = pt_tickDeltaY p,
     ip_latestSeenActionSequence = pt_latestSeenActionSequence p, ip_moveBucket = pt_moveBucket p,
     ip_attackBucket = pt_attackBucket p, ip_claimBucket = pt_claimBucket p,
     ip_lastAcceptedAttackNanos = pt_lastAcceptedAttackNanos p, ip_attackResults = exportStore (pt_attackResults p),
     ip_lootResults = exportStore (pt_lootResults p), ip_gameplayEligible = pt_gameplayEligible p,
     ip_inputEnabled = pt_inputEnabled p, ip_exitStatus = pt_exitStatus p\<rparr>"

definition export_drop :: "battle \<Rightarrow> loot_drop \<Rightarrow> image_drop" where
  "export_drop b d =
     (let ownerSlot = (case ld_owner d of Some owner \<Rightarrow> slotForSession b owner | None \<Rightarrow> 0)
      in \<lparr>id_drop = ld_drop d, id_state = ld_state d, id_ownerSlot = (if ownerSlot = 0 then None else Some ownerSlot)\<rparr>)"

definition export_holding :: "battle \<Rightarrow> holding \<Rightarrow> image_holding" where
  "export_holding b h = \<lparr>ih_ownerSlot = slotForSession b (ho_sessionId h), ih_itemId = ho_itemId h,
     ih_quantity = ho_quantity h\<rparr>"

definition holding_key :: "image_holding \<Rightarrow> u16 \<times> u64" where
  "holding_key h = (ih_ownerSlot h, item_value (ih_itemId h))"

definition export_result :: "battle \<Rightarrow> final_result \<Rightarrow> image_result" where
  "export_result b fr = \<lparr>ir_outcome = fr_outcome fr,
     ir_entries = map (\<lambda>e. \<lparr>ie_slot = slotForSession b (en_sessionId e), ie_exitStatus = en_exitStatus e,
       ie_finalAssetValue = en_finalAssetValue e, ie_rank = en_rank e, ie_isTop = en_isTop e\<rparr>) (fr_entries fr)\<rparr>"

definition exportState :: "battle \<Rightarrow> battle_image" where
  "exportState b = \<lparr>im_roomId = b_roomId b, im_battleId = b_battleId b, im_rulesetVersion = b_rulesetVersion b,
     im_seed = b_seed b, im_time = b_time b, im_state = b_state b,
     im_candidates = map2 (\<lambda>i c. \<lparr>ic_slot = of_nat (i + 1), ic_sessionId = sc_sessionId (cd_identity c),
       ic_state = cd_state c\<rparr>) [0..<length (b_candidates b)] (b_candidates b),
     im_captured = map (\<lambda>c. \<lparr>ix_slot = slotForSession b (ca_sessionId c), ix_sessionId = ca_sessionId c,
       ix_exitStatus = ca_exitStatus c\<rparr>) (b_captured b),
     im_participants = map export_participant (b_participants b),
     im_loadDeadlineTick = b_loadDeadlineTick b, im_combatDeadlineTick = b_combatDeadlineTick b,
     im_lootDeadlineTick = b_lootDeadlineTick b, im_lastIntegratedServerTick = b_lastIntegratedServerTick b,
     im_nextSnapshotSequence = b_nextSnapshotSequence b,
     im_nextAttackAppliedSequence = b_nextAttackAppliedSequence b, im_monster = b_monster b,
     im_combatTerminal = b_combatTerminal b, im_terminalOutcome = b_terminalOutcome b,
     im_drops = map (export_drop b) (b_drops b),
     im_holdings = sort_key holding_key (map (export_holding b) (b_holdings b)),
     im_lootResolution = b_lootResolution b, im_resultState = b_resultState b,
     im_committedResult = map_option (export_result b) (b_committedResult b),
     im_lootResultsCompletedAt = b_lootResultsCompletedAt b\<rparr>"

section \<open>Import: the parts\<close>

definition valid_slot :: "nat \<Rightarrow> u16 \<Rightarrow> bool" where
  "valid_slot n slot \<longleftrightarrow> slot \<noteq> 0 \<and> unat slot \<le> n"

text \<open>The load states of the candidates: a state per slot, each slot once, with the session this
  battle was admitted with. An entry of \<open>None\<close> has not been seen.\<close>

fun import_candidates :: "candidate list \<Rightarrow> candidate_state option list \<Rightarrow> image_candidate list
  \<Rightarrow> candidate_state option list option" where
  "import_candidates cds seen [] = Some seen"
| "import_candidates cds seen (c # cs) =
     (if \<not> valid_slot (length cds) (ic_slot c) \<or> session_value (ic_sessionId c) = 0 then None
      else let index = unat (ic_slot c) - 1
           in if seen ! index \<noteq> None \<or> sc_sessionId (cd_identity (cds ! index)) \<noteq> ic_sessionId c then None
              else import_candidates cds (seen[index := Some (ic_state c)]) cs)"

definition candidate_states :: "battle \<Rightarrow> battle_image \<Rightarrow> candidate_state list option" where
  "candidate_states b im =
     (case import_candidates (b_candidates b) (replicate (length (b_candidates b)) None) (im_candidates im) of
        None \<Rightarrow> None
      | Some seen \<Rightarrow>
          if list_ex (\<lambda>s. s = None) seen then None
          else
            let states = map the seen;
                allTerminal = list_all (\<lambda>s. s \<noteq> PendingLoad) states;
                readyCount = length (filter (\<lambda>s. s = Ready) states)
            in if (case im_state im of
                     Created \<Rightarrow> allTerminal \<or> readyCount \<noteq> 0
                   | LoadBarrierOpen \<Rightarrow> allTerminal
                   | GameplayCommitted \<Rightarrow> \<not> allTerminal \<or> readyCount < 2
                   | LoadCancelled \<Rightarrow> \<not> allTerminal \<or> 2 \<le> readyCount)
               then None else Some states)"

text \<open>The captured participants, sorted by slot: each slot once, each a ready candidate, each candidate
  once; the identity comes from this battle.\<close>

definition find_index :: "('a \<Rightarrow> bool) \<Rightarrow> 'a list \<Rightarrow> nat option" where
  "find_index P xs = (let i = length (takeWhile (\<lambda>x. \<not> P x) xs) in if i < length xs then Some i else None)"

fun import_captured :: "candidate list \<Rightarrow> candidate_state list \<Rightarrow> nat \<Rightarrow> bool list \<Rightarrow> bool list
  \<Rightarrow> image_captured list \<Rightarrow> (captured_participant list \<times> bool list \<times> bool list) option" where
  "import_captured cds states n slotSeen candidateSeen [] = Some ([], slotSeen, candidateSeen)"
| "import_captured cds states n slotSeen candidateSeen (x # xs) =
     (if \<not> valid_slot n (ix_slot x) then None
      else
        let slotIndex = unat (ix_slot x) - 1
        in case find_index (\<lambda>c. sc_sessionId (cd_identity c) = ix_sessionId x) cds of
             None \<Rightarrow> None
           | Some index \<Rightarrow>
               if slotSeen ! slotIndex then None
               else if candidateSeen ! index \<or> states ! index \<noteq> Ready then None
               else
                 let identity = cd_identity (cds ! index);
                     captured = \<lparr>ca_accountId = sc_accountId identity, ca_sessionId = sc_sessionId identity,
                       ca_generation = sc_generation identity, ca_nickname = sc_nickname identity,
                       ca_exitStatus = ix_exitStatus x\<rparr>
                 in (case import_captured cds states n (slotSeen[slotIndex := True])
                         (candidateSeen[index := True]) xs of
                       None \<Rightarrow> None
                     | Some (rest, slots, candidates) \<Rightarrow> Some (captured # rest, slots, candidates)))"

definition captured_participants :: "battle \<Rightarrow> battle_image \<Rightarrow> candidate_state list \<Rightarrow> captured_participant list option" where
  "captured_participants b im states =
     (let captured = sort_key ix_slot (im_captured im)
      in case import_captured (b_candidates b) states (length captured) (replicate (length captured) False)
             (replicate (length (b_candidates b)) False) captured of
           None \<Rightarrow> None
         | Some (newCaptured, slotSeen, candidateSeen) \<Rightarrow>
             if \<not> list_all id slotSeen then None
             else if im_state im = GameplayCommitted
             then (if list_ex (\<lambda>(state, seen). state = Ready \<and> \<not> seen) (zip states candidateSeen) then None
                   else Some newCaptured)
             else if newCaptured \<noteq> [] then None
             else Some newCaptured)"

definition after :: "u64 option \<Rightarrow> u64 \<Rightarrow> bool" where
  "after completed now = (case completed of None \<Rightarrow> False | Some nanos \<Rightarrow> now < nanos)"

text \<open>One participant: a slot per captured participant, the same session, stored results that import and
  that were not completed after the image was taken.\<close>

definition import_participant :: "candidate list \<Rightarrow> captured_participant list \<Rightarrow> battle_id \<Rightarrow> u64 \<Rightarrow> image_participant
  \<Rightarrow> participant option" where
  "import_participant cds captured battleId now x =
     (if ca_sessionId (captured ! (unat (ip_slot x) - 1)) \<noteq> ip_sessionId x then None
      else case find (\<lambda>c. sc_sessionId (cd_identity c) = ip_sessionId x) cds of
             None \<Rightarrow> None
           | Some candidate \<Rightarrow>
               let sessionId = sc_sessionId (cd_identity candidate); generation = sc_generation (cd_identity candidate)
               in if after (fst (ip_attackResults x)) now \<or> after (fst (ip_lootResults x)) now then None
                  else case importStore attack_entry_ok (ip_attackResults x) (new_store sessionId generation battleId) of
                         None \<Rightarrow> None
                       | Some attacks \<Rightarrow>
                           (case importStore loot_entry_ok (ip_lootResults x) (new_store sessionId generation battleId) of
                              None \<Rightarrow> None
                            | Some loots \<Rightarrow> Some
                                \<lparr>pt_slot = ip_slot x, pt_sessionId = sessionId, pt_generation = generation,
                                 pt_posX = ip_posX x, pt_posY = ip_posY x, pt_tickDeltaX = ip_tickDeltaX x,
                                 pt_tickDeltaY = ip_tickDeltaY x,
                                 pt_latestSeenActionSequence = ip_latestSeenActionSequence x,
                                 pt_moveBucket = ip_moveBucket x, pt_attackBucket = ip_attackBucket x,
                                 pt_claimBucket = ip_claimBucket x,
                                 pt_lastAcceptedAttackNanos = ip_lastAcceptedAttackNanos x,
                                 pt_attackResults = attacks, pt_lootResults = loots,
                                 pt_gameplayEligible = ip_gameplayEligible x, pt_inputEnabled = ip_inputEnabled x,
                                 pt_exitStatus = ip_exitStatus x\<rparr>))"

fun import_participants :: "candidate list \<Rightarrow> captured_participant list \<Rightarrow> battle_id \<Rightarrow> u64 \<Rightarrow> bool list
  \<Rightarrow> image_participant list \<Rightarrow> (participant list \<times> bool list) option" where
  "import_participants cds captured battleId now seen [] = Some ([], seen)"
| "import_participants cds captured battleId now seen (x # xs) =
     (if \<not> valid_slot (length captured) (ip_slot x) then None
      else let slotIndex = unat (ip_slot x) - 1
           in if seen ! slotIndex then None
              else case import_participant cds captured battleId now x of
                     None \<Rightarrow> None
                   | Some p \<Rightarrow>
                       (case import_participants cds captured battleId now (seen[slotIndex := True]) xs of
                          None \<Rightarrow> None
                        | Some (ps, seen) \<Rightarrow> Some (p # ps, seen)))"

definition participant_records :: "battle \<Rightarrow> battle_image \<Rightarrow> captured_participant list \<Rightarrow> participant list option" where
  "participant_records b im captured =
     (let participants = sort_key ip_slot (im_participants im)
      in if length participants \<noteq> length captured then None
         else case import_participants (b_candidates b) captured (b_battleId b) (bt_nanos (im_time im))
                  (replicate (length participants) False) participants of
                None \<Rightarrow> None
              | Some (newParticipants, seen) \<Rightarrow>
                  if \<not> list_all id seen \<and> participants \<noteq> [] then None
                  else if im_state im = GameplayCommitted \<and> newParticipants = [] then None
                  else if im_state im \<noteq> GameplayCommitted \<and> newParticipants \<noteq> [] then None
                  else Some newParticipants)"

section \<open>Import: consistency of the rest\<close>

definition combat_consistent :: "battle_id \<Rightarrow> battle_image \<Rightarrow> bool" where
  "combat_consistent battleId im =
     (if (case im_monster im of None \<Rightarrow> False | Some m \<Rightarrow> mo_id m \<noteq> 1) then False
      else if (im_state im = GameplayCommitted) \<noteq> (im_monster im \<noteq> None) then False
      else case im_combatTerminal im of
             Some t \<Rightarrow>
               \<not> (ct_battleId t \<noteq> battleId \<or> ct_monsterId t \<noteq> 1 \<or> ct_outcome t = NoOutcome \<or> ct_rulesetVersion t \<noteq> 4) \<and>
               (case im_monster im of
                  None \<Rightarrow> False
                | Some m \<Rightarrow> \<not> (ct_outcome t = MonsterDefeated \<and> mo_state m \<noteq> Dead \<or>
                                ct_outcome t = CombatTimeout \<and> mo_state m \<noteq> TimedOut))
           | None \<Rightarrow>
               \<not> (im_state im = GameplayCommitted \<and>
                  (case im_monster im of None \<Rightarrow> True | Some m \<Rightarrow> mo_state m \<noteq> Alive)))"

definition terminal_outcome :: "battle_image \<Rightarrow> combat_outcome" where
  "terminal_outcome im = (case im_combatTerminal im of None \<Rightarrow> NoOutcome | Some t \<Rightarrow> ct_outcome t)"

definition outcome_consistent :: "battle_image \<Rightarrow> bool" where
  "outcome_consistent im =
     (if (case im_terminalOutcome im of
            None \<Rightarrow> False
          | Some outcome \<Rightarrow>
              outcome = OutcomeCancelled \<and> im_combatTerminal im \<noteq> None \<or>
              outcome = OutcomeMonsterDefeated \<and>
                (im_combatTerminal im = None \<or> terminal_outcome im \<noteq> MonsterDefeated) \<or>
              outcome = OutcomeCombatTimeout \<and>
                (im_combatTerminal im = None \<or> terminal_outcome im \<noteq> CombatTimeout))
      then False
      else if im_lootResolution im = LootOpen \<and>
              (im_combatTerminal im = None \<or> terminal_outcome im \<noteq> MonsterDefeated)
      then False
      else if im_lootResolution im = LootResolved \<and> im_combatTerminal im = None \<and>
              im_terminalOutcome im \<noteq> Some OutcomeCancelled
      then False
      else \<not> (im_lootResolution im = LootResolved \<and> im_combatTerminal im \<noteq> None \<and>
              terminal_outcome im \<noteq> MonsterDefeated))"

definition deadlines_consistent :: "battle_image \<Rightarrow> bool" where
  "deadlines_consistent im \<longleftrightarrow>
     (im_loadDeadlineTick im \<noteq> None) = (im_state im = LoadBarrierOpen) \<and>
     (im_combatDeadlineTick im \<noteq> None) =
       (im_state im = GameplayCommitted \<and> im_resultState im = NotReady \<and> im_combatTerminal im = None) \<and>
     (im_lootDeadlineTick im \<noteq> None) =
       (im_state im = GameplayCommitted \<and> im_resultState im = NotReady \<and> im_lootResolution im = LootOpen)"

text \<open>\<open>importedSessionForSlot\<close>.\<close>

definition imported_session :: "participant list \<Rightarrow> u16 \<Rightarrow> session_id option" where
  "imported_session ps slot = map_option pt_sessionId (find (\<lambda>p. pt_slot p = slot) ps)"

fun import_drops :: "participant list \<Rightarrow> loot_drop list \<Rightarrow> image_drop list \<Rightarrow> loot_drop list option" where
  "import_drops ps drops [] = Some drops"
| "import_drops ps drops (x # xs) =
     (if drop_value (rd_dropId (id_drop x)) = 0 \<or> item_value (rd_itemId (id_drop x)) = 0 \<or> rd_quantity (id_drop x) = 0
      then None
      else if (id_state x = DropClaimed) \<noteq> (id_ownerSlot x \<noteq> None) then None
      else if (case id_ownerSlot x of
                 None \<Rightarrow> False
               | Some slot \<Rightarrow> \<not> valid_slot (length ps) slot \<or> imported_session ps slot = None)
      then None
      else if list_ex (\<lambda>d. rd_dropId (ld_drop d) = rd_dropId (id_drop x)) drops then None
      else import_drops ps (drops @ [\<lparr>ld_drop = id_drop x, ld_state = id_state x,
             ld_owner = (case id_ownerSlot x of None \<Rightarrow> None | Some slot \<Rightarrow> imported_session ps slot)\<rparr>]) xs)"

definition loot_drops :: "battle_image \<Rightarrow> participant list \<Rightarrow> loot_drop list option" where
  "loot_drops im ps =
     (case import_drops ps [] (im_drops im) of
        None \<Rightarrow> None
      | Some drops \<Rightarrow>
          if im_lootResolution im = LootNotStarted then (if drops \<noteq> [] then None else Some drops)
          else if length drops \<noteq> length ps then None
          else if (im_lootResolution im = LootOpen) \<noteq> list_ex (\<lambda>d. ld_state d = DropAvailable) drops then None
          else Some drops)"

fun import_holdings :: "participant list \<Rightarrow> image_holding list \<Rightarrow> holding list option" where
  "import_holdings ps [] = Some []"
| "import_holdings ps (x # xs) =
     (if \<not> valid_slot (length ps) (ih_ownerSlot x) \<or> item_value (ih_itemId x) = 0 \<or> ih_quantity x = 0 then None
      else case imported_session ps (ih_ownerSlot x) of
             None \<Rightarrow> None
           | Some s \<Rightarrow>
               (case import_holdings ps xs of
                  None \<Rightarrow> None
                | Some hs \<Rightarrow> Some (\<lparr>ho_sessionId = s, ho_itemId = ih_itemId x, ho_quantity = ih_quantity x\<rparr> # hs)))"

text \<open>The committed result is not read from the image but built again, and the image must agree.\<close>

fun result_slots :: "participant list \<Rightarrow> bool list \<Rightarrow> image_entry list \<Rightarrow> bool list option" where
  "result_slots ps seen [] = Some seen"
| "result_slots ps seen (e # es) =
     (if \<not> valid_slot (length ps) (ie_slot e) then None
      else if seen ! (unat (ie_slot e) - 1) then None
      else if imported_session ps (ie_slot e) = None then None
      else result_slots ps (seen[unat (ie_slot e) - 1 := True]) es)"

definition entry_agrees :: "participant list \<Rightarrow> result_entry list \<Rightarrow> image_entry \<Rightarrow> bool" where
  "entry_agrees ps rebuilt e =
     (case find (\<lambda>r. imported_session ps (ie_slot e) = Some (en_sessionId r)) rebuilt of
        None \<Rightarrow> False
      | Some r \<Rightarrow> \<not> (en_exitStatus r \<noteq> ie_exitStatus e \<or> en_finalAssetValue r \<noteq> ie_finalAssetValue e \<or>
                       en_rank r \<noteq> ie_rank e \<or> en_isTop r \<noteq> ie_isTop e))"

definition rebuild_result :: "battle \<Rightarrow> battle_image \<Rightarrow> captured_participant list \<Rightarrow> participant list \<Rightarrow> loot_drop list
  \<Rightarrow> holding list \<Rightarrow> image_result \<Rightarrow> final_result option" where
  "rebuild_result b im captured ps drops holdings img =
     (case result_slots ps (replicate (length ps) False) (ir_entries img) of
        None \<Rightarrow> None
      | Some seen \<Rightarrow>
          if \<not> list_all id seen then None
          else if im_terminalOutcome im \<noteq> Some (ir_outcome img) then None
          else case buildFinalResult \<lparr>bs_roomId = b_roomId b, bs_battleId = b_battleId b, bs_outcome = ir_outcome img,
                      bs_captured = captured, bs_drops = drops, bs_holdings = holdings\<rparr> v1Snapshot of
                 Inl e \<Rightarrow> None
               | Inr rebuilt \<Rightarrow>
                   if length (fr_entries rebuilt) \<noteq> length (ir_entries img) then None
                   else if \<not> list_all (entry_agrees ps (fr_entries rebuilt)) (ir_entries img) then None
                   else Some rebuilt)"

definition imported_result :: "battle \<Rightarrow> battle_image \<Rightarrow> captured_participant list \<Rightarrow> participant list \<Rightarrow> loot_drop list
  \<Rightarrow> holding list \<Rightarrow> final_result option option" where
  "imported_result b im captured ps drops holdings =
     (case (case im_committedResult im of
              None \<Rightarrow> Some None
            | Some img \<Rightarrow> map_option Some (rebuild_result b im captured ps drops holdings img)) of
        None \<Rightarrow> None
      | Some result \<Rightarrow>
          if (im_resultState im = Committed) \<noteq> (result \<noteq> None) \<or> im_resultState im \<noteq> Committed \<and> result \<noteq> None then None
          else if im_resultState im \<noteq> Committed \<and> im_terminalOutcome im \<noteq> None then None
          else if im_resultState im \<noteq> NotReady \<and> im_state im \<noteq> GameplayCommitted then None
          else if after (im_lootResultsCompletedAt im) (bt_nanos (im_time im)) then None
          else Some result)"

section \<open>Import\<close>

definition import_header :: "battle \<Rightarrow> battle_image \<Rightarrow> import_code option" where
  "import_header b im =
     (if im_roomId im \<noteq> b_roomId b \<or> im_battleId im \<noteq> b_battleId b then Some ImportIdentityMismatch
      else if im_rulesetVersion im \<noteq> b_rulesetVersion b \<or> im_rulesetVersion im \<noteq> 1 \<or> im_seed im \<noteq> b_seed b
      then Some ImportRulesetMismatch
      else if im_seed im = 0 \<or> \<not> time_valid (im_time im) \<or> im_nextSnapshotSequence im = 0 \<or>
              im_nextAttackAppliedSequence im = 0 \<or> length (im_candidates im) \<noteq> length (b_candidates b) \<or>
              length (im_candidates im) < 2 \<or> 10 < length (im_candidates im)
      then Some ImportInvalidArgument
      else if im_state im = LoadBarrierOpen \<and> im_loadDeadlineTick im = None then Some ImportInvariantBroken
      else if im_state im = GameplayCommitted \<and> im_resultState im = NotReady \<and>
              (im_combatTerminal im = None \<and> im_combatDeadlineTick im = None \<or>
               im_combatTerminal im \<noteq> None \<and> terminal_outcome im = MonsterDefeated \<and>
               im_lootResolution im = LootOpen \<and> im_lootDeadlineTick im = None)
      then Some ImportInvariantBroken
      else None)"

definition import_body :: "battle \<Rightarrow> battle_image \<Rightarrow> battle option" where
  "import_body b im =
     (case candidate_states b im of
        None \<Rightarrow> None
      | Some states \<Rightarrow>
     (case captured_participants b im states of
        None \<Rightarrow> None
      | Some captured \<Rightarrow>
     (case participant_records b im captured of
        None \<Rightarrow> None
      | Some participants \<Rightarrow>
          if \<not> combat_consistent (b_battleId b) im \<or> \<not> outcome_consistent im \<or> \<not> deadlines_consistent im then None
          else
     (case loot_drops im participants of
        None \<Rightarrow> None
      | Some drops \<Rightarrow>
     (case import_holdings participants (im_holdings im) of
        None \<Rightarrow> None
      | Some holdings \<Rightarrow>
     (case imported_result b im captured participants drops holdings of
        None \<Rightarrow> None
      | Some result \<Rightarrow> Some (b\<lparr>
          b_candidates := map2 (\<lambda>c s. c\<lparr>cd_state := s\<rparr>) (b_candidates b) states,
          b_captured := captured, b_participants := participants, b_time := im_time im, b_state := im_state im,
          b_loadDeadlineTick := im_loadDeadlineTick im, b_combatDeadlineTick := im_combatDeadlineTick im,
          b_lootDeadlineTick := im_lootDeadlineTick im,
          b_lastIntegratedServerTick := im_lastIntegratedServerTick im,
          b_nextSnapshotSequence := im_nextSnapshotSequence im,
          b_nextAttackAppliedSequence := im_nextAttackAppliedSequence im, b_monster := im_monster im,
          b_combatTerminal := im_combatTerminal im, b_terminalOutcome := im_terminalOutcome im,
          b_drops := drops, b_holdings := holdings, b_lootResolution := im_lootResolution im,
          b_resultState := im_resultState im, b_committedResult := result,
          b_lootResultsCompletedAt := im_lootResultsCompletedAt im\<rparr>)))))))"

definition importState :: "battle \<Rightarrow> battle_image \<Rightarrow> import_code + battle" where
  "importState b im =
     (case import_header b im of
        Some code \<Rightarrow> Inl code
      | None \<Rightarrow>
          (case import_body b im of
             None \<Rightarrow> Inl ImportInvariantBroken
           | Some b' \<Rightarrow> Inr b'))"

end
