(* ===== verification/BattleMoves.thy ===== *)
theory BattleMoves
  imports BattleEvolution
begin

text \<open>
  The moves that operations of a battle are made of. A move is one group of assignments with what
  the code has checked before it; every operation is a sequence of moves at its time. An invariant
  about single fields is proved by induction over the moves instead of over the operations.
\<close>

section \<open>Moves\<close>

text \<open>A stamp of a participant is kept or becomes the time of the operation, once the battle has seen
  that time.\<close>

definition stamp_next :: "battle_time \<Rightarrow> battle \<Rightarrow> u64 option \<Rightarrow> u64 option \<Rightarrow> bool" where
  "stamp_next at b v v' \<longleftrightarrow> v' = v \<or> time_le at (b_time b) \<and> v' = Some (bt_nanos at)"

text \<open>What every stored answer satisfies.\<close>

definition attack_kept :: "attack_result \<Rightarrow> bool" where
  "attack_kept r \<longleftrightarrow> ar_monsterId r = 1 \<and> ar_rulesetVersion r = 4"

definition claim_kept :: "claim_result \<Rightarrow> bool" where
  "claim_kept r \<longleftrightarrow> (cr_code r = ClaimOk \<longrightarrow> drop_value (cr_dropId r) \<noteq> 0)"

definition stores_next :: "participant \<Rightarrow> participant \<Rightarrow> bool" where
  "stores_next p q \<longleftrightarrow>
     (\<forall>e \<in> set (st_records (pt_attackResults q)). e \<in> set (st_records (pt_attackResults p)) \<or> attack_kept (sr_result e)) \<and>
     (\<forall>e \<in> set (st_records (pt_lootResults q)). e \<in> set (st_records (pt_lootResults p)) \<or> claim_kept (sr_result e))"

text \<open>A quiet change of a participant: nothing of its identity, its status or its stored completions.\<close>

definition quiet :: "battle_time \<Rightarrow> battle \<Rightarrow> participant \<Rightarrow> participant \<Rightarrow> bool" where
  "quiet at b p q \<longleftrightarrow>
     participant_key q = participant_key p \<and> pt_slot q = pt_slot p \<and>
     st_completedAt (pt_attackResults q) = st_completedAt (pt_attackResults p) \<and>
     st_completedAt (pt_lootResults q) = st_completedAt (pt_lootResults p) \<and>
     stamp_next at b (fst (pt_moveBucket p)) (fst (pt_moveBucket q)) \<and>
     stamp_next at b (fst (pt_attackBucket p)) (fst (pt_attackBucket q)) \<and>
     stamp_next at b (fst (pt_claimBucket p)) (fst (pt_claimBucket q)) \<and>
     stamp_next at b (pt_lastAcceptedAttackNanos p) (pt_lastAcceptedAttackNanos q) \<and> stores_next p q"

lemma stamp_refl [simp]: "stamp_next at b v v"
  by (simp add: stamp_next_def)

lemma stores_refl [simp]: "stores_next p p"
  by (simp add: stores_next_def)

lemma refill_stamp: "fst (bucket_refill capacity rate full now bkt) = fst bkt \<or> fst (bucket_refill capacity rate full now bkt) = Some now"
  by (auto simp: bucket_refill_def Let_def split: prod.split option.split)

lemma take_stamp: "bucket_take bkt = Some bkt' \<Longrightarrow> fst bkt' = fst bkt"
  by (auto simp: bucket_take_def split: if_splits)

lemma request_stamps:
  assumes "time_le at (b_time b)"
  shows "stamp_next at b (fst bkt) (fst (move_refill (bt_nanos at) bkt))"
    "stamp_next at b (fst bkt) (fst (attack_refill (bt_nanos at) bkt))"
    "stamp_next at b (fst bkt) (fst (claim_refill (bt_nanos at) bkt))"
  using assms refill_stamp by (auto simp: stamp_next_def move_refill_def attack_refill_def claim_refill_def)

text \<open>The candidates of an open barrier after some of them stopped being pending.\<close>

definition settles :: "candidate list \<Rightarrow> candidate list \<Rightarrow> bool" where
  "settles cs cs' \<longleftrightarrow> map cd_identity cs' = map cd_identity cs"

text \<open>The number of a drop; a battle lists its drops in ascending order.\<close>

definition drop_key :: "loot_drop \<Rightarrow> u64" where
  "drop_key d = drop_value (rd_dropId (ld_drop d))"

inductive move :: "battle_time \<Rightarrow> battle \<Rightarrow> battle \<Rightarrow> bool" for at where
  observed: "move at b (observeBattleTime at b)"
| participants: "list_all2 (quiet at b) (b_participants b) ps \<Longrightarrow> move at b (b\<lparr>b_participants := ps\<rparr>)"
| ticked: "move at b (b\<lparr>b_lastIntegratedServerTick := Some t\<rparr>)"
| snapped: "move at b (b\<lparr>b_nextSnapshotSequence := bump (b_nextSnapshotSequence b)\<rparr>)"
| applied: "move at b (b\<lparr>b_nextAttackAppliedSequence := bump (b_nextAttackAppliedSequence b)\<rparr>)"
| wounded: "move at b (b\<lparr>b_monster := Some m\<rparr>)"
| decided: "b_combatTerminal b = None \<Longrightarrow> b_monster b = Some m \<Longrightarrow> mo_id m = 1 \<Longrightarrow> outcome \<noteq> NoOutcome \<Longrightarrow>
    move at b (b\<lparr>b_combatTerminal := Some (terminalRecord outcome b), b_combatDeadlineTick := None\<rparr>)"
| dropped: "b_state b = GameplayCommitted \<Longrightarrow> b_resultState b = NotReady \<Longrightarrow> b_committedResult b = None \<Longrightarrow>
    sorted (map drop_key ds) \<Longrightarrow> move at b (b\<lparr>b_drops := ds, b_lootResolution := LootOpen, b_lootDeadlineTick := Some t\<rparr>)"
| completed: "time_le at (b_time b) \<Longrightarrow> move at b (markAttackResultsCompleted at b)"
| committed: "time_le at (b_time b) \<Longrightarrow> b_state b = GameplayCommitted \<Longrightarrow> move at b (commitResultIfReady at b)"
| frozen: "participantRecord s b = Some p \<Longrightarrow> pt_exitStatus p = GameplayEligible \<Longrightarrow> b_committedResult b = None \<Longrightarrow>
    move at b (freezeParticipant s e b)"
| cancelled: "b_committedResult b = None \<Longrightarrow> move at b (applyCancellationIfNoActiveParticipants b)"
| taken: "b_committedResult b = None \<Longrightarrow> map drop_key ds = map drop_key (b_drops b) \<Longrightarrow> move at b (b\<lparr>b_drops := ds, b_holdings := hs\<rparr>)"
| closed: "b_committedResult b = None \<Longrightarrow> map drop_key ds = map drop_key (b_drops b) \<Longrightarrow>
    move at b (b\<lparr>b_drops := ds, b_lootResolution := LootResolved, b_lootDeadlineTick := None\<rparr>)"
| opened: "b_state b = Created \<Longrightarrow> move at b (b\<lparr>b_state := LoadBarrierOpen, b_loadDeadlineTick := Some t\<rparr>)"
| settled: "b_state b = LoadBarrierOpen \<Longrightarrow> not_started b \<Longrightarrow> settles (b_candidates b) cs \<Longrightarrow>
    move at b (resolveIfComplete (b\<lparr>b_candidates := cs\<rparr>))"

abbreviation moves :: "battle_time \<Rightarrow> battle \<Rightarrow> battle \<Rightarrow> bool" where
  "moves at \<equiv> (move at)\<^sup>*\<^sup>*"

text \<open>An invariant of the moves is an invariant of a sequence of moves.\<close>

lemma moves_inv:
  assumes "moves at b b'" "\<And>b b'. move at b b' \<Longrightarrow> P b \<Longrightarrow> P b'" "P b"
  shows "P b'"
  using assms(1,3) by (induction rule: rtranclp_induct) (auto intro: assms(2))

lemma moves_trans [trans]: "moves at a b \<Longrightarrow> moves at b c \<Longrightarrow> moves at a c"
  by (rule rtranclp_trans)

lemma one: "move at b b' \<Longrightarrow> moves at b b'"
  by (rule r_into_rtranclp)

lemma quiet_refl [simp]: "quiet at b p p"
  by (simp add: quiet_def)

lemma mv_observe [intro]: "moves at b (observeBattleTime at b)"
  by (rule one) (rule observed)

lemma mv_upd:
  assumes "\<And>p. participantRecord s b = Some p \<Longrightarrow> quiet at b p (f p)"
  shows "moves at b (upd s f b)"
  unfolding upd_def
  by (rule one, rule participants, rule update_first_next) (use assms in \<open>simp_all add: participantRecord_def\<close>)

lemma mv_observe_upd:
  "(\<And>p. participantRecord s b = Some p \<Longrightarrow> quiet at (observeBattleTime at b) p (f p)) \<Longrightarrow>
   moves at b (upd s f (observeBattleTime at b))"
  by (rule moves_trans[OF mv_observe mv_upd]) simp

text \<open>After an observation the battle's time is not before the operation's.\<close>

lemma observed_le: "time_valid at \<Longrightarrow> time_le at (b_time (observeBattleTime at b))"
  by (auto simp: observeBattleTime_def time_le_def)

lemma time_fields [simp]:
  "b_time (upd s f b) = b_time b" "b_time (markAttackResultsCompleted at b) = b_time b"
  "b_time (freezeParticipant s e b) = b_time b" "b_time (applyCancellationIfNoActiveParticipants b) = b_time b"
  by (simp_all add: upd_def markAttackResultsCompleted_def freezeParticipant_def clearDeadlines_def
      applyCancellationIfNoActiveParticipants_def Let_def)

section \<open>The operations are sequences of moves\<close>

lemma mv_settle:
  assumes "battle_inv b" "b_state b = LoadBarrierOpen" "map cd_identity cs = map cd_identity (b_candidates b)"
  shows "moves at b (resolveIfComplete ((observeBattleTime at b)\<lparr>b_candidates := cs\<rparr>))"
proof -
  have "not_started (observeBattleTime at b)"
    using not_started_open[OF assms(1,2)] by (simp add: not_started_def no_loot_def)
  then have "move at (observeBattleTime at b) (resolveIfComplete ((observeBattleTime at b)\<lparr>b_candidates := cs\<rparr>))"
    using assms(2,3) by (intro settled) (simp_all add: settles_def)
  from moves_trans[OF mv_observe one[OF this]] show ?thesis .
qed

lemma mv_open_barrier: "moves at b (snd (openLoadBarrier at b))"
proof -
  have "move at (observeBattleTime at b) ((observeBattleTime at b)\<lparr>b_state := LoadBarrierOpen, b_loadDeadlineTick := Some t\<rparr>)"
    if "b_state b = Created" for t
    using that by (intro opened) simp
  then show ?thesis using moves_trans[OF mv_observe one] by (auto simp: openLoadBarrier_def Let_def)
qed

lemma mv_complete_load: "battle_inv b \<Longrightarrow> moves at b (snd (completeLoad c ready at b))"
  by (auto simp: completeLoad_def upd_candidate_def map_update_first intro!: mv_settle split: sum.split)

lemma mv_expire_barrier: "battle_inv b \<Longrightarrow> moves at b (snd (expireLoadBarrier r i at b))"
  by (auto simp: expireLoadBarrier_def Let_def comp_def intro!: mv_settle)

lemma open_result:
  assumes "battle_inv b" "b_state b = GameplayCommitted" "b_resultState b = NotReady"
  shows "b_committedResult b = None"
  using result_ok_state[OF committed_parts(3)[OF assms(1,2)]] assms(3) by (simp add: result_open_def)

lemma eligible_open:
  assumes "battle_inv b" "b_state b = GameplayCommitted" "participantRecord s b = Some p" "pt_exitStatus p = GameplayEligible"
  shows "b_committedResult b = None"
  using result_ok_state[OF committed_parts(3)[OF assms(1,2)]] participantRecord_set[OF assms(3)] assms(4)
  by (auto simp: result_open_def result_committed_def)

lemma cancel_fields [simp]:
  "b_state (applyCancellationIfNoActiveParticipants b) = b_state b" "b_state (freezeParticipant s e b) = b_state b"
  "b_committedResult (freezeParticipant s e b) = b_committedResult b"
  by (simp_all add: applyCancellationIfNoActiveParticipants_def freezeParticipant_def clearDeadlines_def Let_def)

lemma mv_freeze_exited:
  assumes "battle_inv b" "time_valid at"
  shows "moves at b (snd (freezeExited c e at b))"
proof -
  have "moves at b (commitResultIfReady at (applyCancellationIfNoActiveParticipants
      (freezeParticipant s e (observeBattleTime at b))))"
    if p: "participantRecord s b = Some p" "pt_exitStatus p = GameplayEligible" and gc: "b_state b = GameplayCommitted" for s p
  proof -
    let ?b = "observeBattleTime at b"
    have none: "b_committedResult ?b = None" using eligible_open[OF assms(1) gc p] by simp
    have "moves at b ?b" ..
    also have "moves at ?b (freezeParticipant s e ?b)"
      by (rule one) (rule frozen[where p = p], use p none in simp_all)
    also have "moves at \<dots> (applyCancellationIfNoActiveParticipants (freezeParticipant s e ?b))"
      by (rule one) (rule cancelled, simp add: none[simplified])
    also have "moves at \<dots> (commitResultIfReady at (applyCancellationIfNoActiveParticipants (freezeParticipant s e ?b)))"
      by (rule one) (rule committed, use gc observed_le[OF assms(2)] in simp_all)
    finally show ?thesis .
  qed
  then show ?thesis by (auto simp: freezeExited_def split: sum.split option.split)
qed

lemma mv_disconnect:
  "battle_inv b \<Longrightarrow> time_valid at \<Longrightarrow> moves at b (snd (disconnectCandidate c at b))"
  using mv_freeze_exited[of b at c ExitDisconnected]
  by (auto simp: disconnectCandidate_def upd_candidate_def map_update_first intro!: mv_settle split: sum.split)

lemma mv_leave: "battle_inv b \<Longrightarrow> time_valid at \<Longrightarrow> moves at b (snd (leaveBattle c at b))"
  by (simp add: leaveBattle_def mv_freeze_exited)

lemma mv_input:
  "moves at b (snd (suspendInput s g at b))" "moves at b (snd (resumeInput s g at b))"
  by (auto simp: suspendInput_def resumeInput_def Let_def quiet_def participant_key_def stores_next_def
      split: option.split intro!: mv_observe_upd)

lemma mv_move:
  assumes "time_valid at"
  shows "moves at b (snd (acceptMove c at b))"
  using request_stamps(1)[OF observed_le[OF assms], of b "pt_moveBucket (the (participantRecord (mc_sessionId c) b))"]
  by (auto simp: acceptMove_def Let_def quiet_def participant_key_def stores_next_def dest!: take_stamp
      split: option.split prod.split intro!: mv_observe_upd)

lemma mv_integrate: "moves at b (snd (integrateMovement i tick at b))"
proof -
  let ?b = "observeBattleTime at b"
  let ?c = "?b\<lparr>b_participants := map move_participant (b_participants ?b)\<rparr>"
  have "moves at b ?b" ..
  also have "moves at ?b ?c"
    by (rule one, rule participants, rule map_next) (simp add: move_participant_def quiet_def participant_key_def stores_next_def)
  also have "moves at ?c (?c\<lparr>b_lastIntegratedServerTick := Some tick\<rparr>)" by (rule one) (rule ticked)
  finally show ?thesis by (simp add: integrateMovement_def Let_def)
qed

lemma mv_snapshot: "moves at b (snd (captureStateSnapshot b))"
  by (auto simp: captureStateSnapshot_def intro: one snapped)

section \<open>Attacks\<close>

lemma mv_retain_attack:
  assumes "retainAttack c code b = Some (r, b')"
  shows "moves at b b'"
proof -
  obtain p s where p: "participantRecord (cm_sessionId c) b = Some p"
    "retain attack_answers c (attackResultNow c code b) (pt_attackResults p) = Some s"
    "b' = upd (cm_sessionId c) (\<lambda>p. p\<lparr>pt_attackResults := s\<rparr>) b"
    using assms by (auto simp: retainAttack_def Let_def split: option.splits)
  have "attack_kept (attackResultNow c code b)"
    by (simp add: attack_kept_def attackResultNow_def makeAttackResult_def)
  then show ?thesis unfolding p(3) using p(1) retain_store[OF p(2)]
    by (intro mv_upd) (simp add: quiet_def participant_key_def stores_next_def)
qed

lemma mv_retain_claim:
  assumes "retainClaim c code b = Some (r, b')" "code = ClaimOk \<Longrightarrow> drop_value (cm_hint c) \<noteq> 0"
  shows "moves at b b'"
proof -
  obtain p s where p: "participantRecord (cm_sessionId c) b = Some p"
    "retain claim_answers c (reject_claim c code) (pt_lootResults p) = Some s"
    "b' = upd (cm_sessionId c) (\<lambda>p. p\<lparr>pt_lootResults := s\<rparr>) b"
    using assms(1) by (auto simp: retainClaim_def Let_def split: option.splits)
  have "claim_kept (reject_claim c code)" using assms(2) by (simp add: claim_kept_def reject_claim_def)
  then show ?thesis unfolding p(3) using p(1) retain_store[OF p(2)]
    by (intro mv_upd) (simp add: quiet_def participant_key_def stores_next_def)
qed

lemma retain_attack_frame:
  assumes "retainAttack c code b = Some (r, b')"
  shows "b_time b' = b_time b" "b_state b' = b_state b"
  using assms by (auto simp: retainAttack_def Let_def split: option.splits)

lemma generated_sorted:
  assumes "generateDrops seed 1 n v1Snapshot = Some ds"
  shows "sorted (map drop_key (map (\<lambda>d. \<lparr>ld_drop = d, ld_state = DropAvailable, ld_owner = None\<rparr>) ds))"
proof -
  have "sorted (map (\<lambda>d. unat (drop_value (rd_dropId d))) ds)"
    unfolding generateDrops_spec(5)[OF assms] by (rule sorted_upt)
  then show ?thesis by (simp add: drop_key_def comp_def sorted_wrt_map word_le_nat_alt)
qed

lemma mv_lethal:
  assumes "attackLethal c at b = Some (r, b')" "b_combatTerminal b = None" "b_monster b = Some m" "mo_id m = 1"
    "b_state b = GameplayCommitted" "b_resultState b = NotReady" "b_committedResult b = None" "time_le at (b_time b)"
    "generateDrops (b_seed b) 1 (of_nat (length (b_captured b))) v1Snapshot = Some drops" "b_drops b = []"
  shows "moves at b b'"
proof -
  let ?b = "b\<lparr>b_combatTerminal := Some (terminalRecord MonsterDefeated b), b_combatDeadlineTick := None\<rparr>"
  obtain b1 where b1: "retainAttack c AttackOk (openLoot at ?b) = Some (r, b1)"
    "b' = commitResultIfReady at (markAttackResultsCompleted at b1)"
    using assms(1) by (auto simp: attackLethal_def Let_def split: option.splits)
  have loot: "openLoot at ?b = ?b\<lparr>b_drops := b_drops b @ map (\<lambda>d. \<lparr>ld_drop = d, ld_state = DropAvailable, ld_owner = None\<rparr>) drops,
      b_lootResolution := LootOpen, b_lootDeadlineTick := Some (addTicks (bt_tick at) 300)\<rparr>"
    using assms(9) by (simp add: openLoot_def)
  have t: "b_time b1 = b_time b" "b_state b1 = GameplayCommitted"
    using retain_attack_frame[OF b1(1)] assms(5) by (simp_all add: loot)
  have "move at b ?b" using assms(2-4) by (intro decided) simp_all
  then have "moves at b ?b" by (rule one)
  also have "moves at ?b (openLoot at ?b)" unfolding loot using assms(5-7,10) generated_sorted[OF assms(9)] by (intro one dropped) simp_all
  also have "moves at (openLoot at ?b) b1" by (rule mv_retain_attack[OF b1(1)])
  also have "moves at b1 (markAttackResultsCompleted at b1)" using assms(8) t(1) by (intro one completed) simp
  also have "moves at (markAttackResultsCompleted at b1) b'"
    unfolding b1(2) using assms(8) t by (intro one committed) (simp_all add: markAttackResultsCompleted_def)
  finally show ?thesis .
qed

lemma mv_strike:
  assumes "attackStrike c at p m b = Some (r, b')" "b_combatTerminal b = None" "b_monster b = Some m" "mo_id m = 1"
    "b_state b = GameplayCommitted" "b_resultState b = NotReady" "b_committedResult b = None" "time_le at (b_time b)"
    "generateDrops (b_seed b) 1 (of_nat (length (b_captured b))) v1Snapshot = Some drops" "b_drops b = []"
  shows "moves at b b'"
proof (cases "cm_hint c \<noteq> mo_id m \<or> mo_state m \<noteq> Alive \<or>
    \<not> inAttackRange (pos (pt_posX p) (pt_posY p)) (mo_position m) \<or>
    coolingDown (pt_lastAcceptedAttackNanos p) (bt_nanos at)")
  case True
  then show ?thesis using assms(1) by (auto simp: attackStrike_def mv_retain_attack split: if_splits)
next
  case False
  let ?f = "\<lambda>p. p\<lparr>pt_lastAcceptedAttackNanos := Some (bt_nanos at)\<rparr>"
  let ?struck = "\<lambda>m'. upd (cm_sessionId c) ?f (b\<lparr>b_monster := Some m'\<rparr>)"
  have struck: "moves at b (?struck m')" for m'
    by (rule moves_trans[OF one[OF wounded] mv_upd])
      (use assms(8) in \<open>simp add: quiet_def participant_key_def stores_next_def stamp_next_def\<close>)
  show ?thesis
  proof (cases "mo_hitPoints m \<le> 100")
    case True
    let ?m = "m\<lparr>mo_hitPoints := 0, mo_state := Dead\<rparr>"
    have moved: "(?struck x)\<lparr>b_monster := Some y\<rparr> = ?struck y" for x y
      by (rule battle.equality) (simp_all add: upd_def)
    have "attackLethal c at (?struck ?m) = Some (r, b')"
      using assms(1) False True by (simp add: attackStrike_def applyAttack_def completeDeath_def moved)
    then have "moves at (?struck ?m) b'" by (rule mv_lethal[where m = ?m]) (use assms in simp_all)
    with struck show ?thesis by (rule moves_trans)
  next
    case hit: False
    have "retainAttack c AttackOk (?struck (m\<lparr>mo_hitPoints := mo_hitPoints m - 100\<rparr>)) = Some (r, b')"
      using assms(1) False hit by (simp add: attackStrike_def applyAttack_def)
    from moves_trans[OF struck mv_retain_attack[OF this]] show ?thesis .
  qed
qed

lemma mv_fresh:
  assumes "attackFresh c at p m b = Some (r, b')" "b_monster b = Some m" "time_le at (b_time b)"
    "\<exists>q. participantRecord (cm_sessionId c) b = Some q \<and> pt_attackBucket q = pt_attackBucket p"
    "b_combatTerminal b = None \<Longrightarrow> pt_inputEnabled p \<Longrightarrow> mo_id m = 1 \<and> b_state b = GameplayCommitted \<and>
      b_resultState b = NotReady \<and> b_committedResult b = None \<and> b_drops b = [] \<and>
      (\<exists>drops. generateDrops (b_seed b) 1 (of_nat (length (b_captured b))) v1Snapshot = Some drops)"
  shows "moves at b b'"
proof -
  let ?full = "attack_refill (bt_nanos at) (pt_attackBucket p)"
  have bucket: "moves at b (upd (cm_sessionId c) (\<lambda>p. p\<lparr>pt_attackBucket := bkt\<rparr>) b)" if "fst bkt = fst ?full" for bkt
    by (rule mv_upd)
      (use assms(4) request_stamps(2)[OF assms(3), of "pt_attackBucket p"] that in \<open>auto simp: quiet_def participant_key_def stores_next_def\<close>)
  show ?thesis
  proof (cases "b_combatTerminal b = None \<and> pt_inputEnabled p \<and> pt_gameplayEligible p")
    case False
    then show ?thesis using assms(1) by (auto simp: attackFresh_def mv_retain_attack split: if_splits)
  next
    case True
    show ?thesis
    proof (cases "bucket_take ?full")
      case None
      then have "retainAttack c AttackOverloaded (upd (cm_sessionId c) (\<lambda>p. p\<lparr>pt_attackBucket := ?full\<rparr>) b) = Some (r, b')"
        using assms(1) True by (simp add: attackFresh_def)
      from moves_trans[OF bucket[OF refl] mv_retain_attack[OF this]] show ?thesis .
    next
      case (Some rest)
      let ?b = "upd (cm_sessionId c) (\<lambda>p. p\<lparr>pt_attackBucket := rest\<rparr>) b"
      obtain drops where "generateDrops (b_seed b) 1 (of_nat (length (b_captured b))) v1Snapshot = Some drops"
        using assms(5) True by auto
      moreover have "attackStrike c at p m ?b = Some (r, b')" using assms(1) True Some by (simp add: attackFresh_def)
      moreover note at = assms(5)[OF conjunct1[OF True]] True
      ultimately have "moves at ?b b'" using assms(2,3) by (intro mv_strike[where drops = drops and m = m]) auto
      with bucket[OF take_stamp[OF Some]] show ?thesis by (rule moves_trans)
    qed
  qed
qed

lemma mv_attack:
  assumes "battle_inv b" "time_valid at" "attack c at b = Some (r, b')"
  shows "moves at b b'"
proof (cases "cm_battleId c = b_battleId b \<and> b_state b = GameplayCommitted \<and>
    (\<exists>p. participantRecord (cm_sessionId c) b = Some p \<and> pt_generation p = cm_generation c)")
  case False
  then show ?thesis using assms(3) by (auto simp: attack_def split: option.splits if_splits)
next
  case True
  let ?s = "cm_sessionId c"
  obtain p where gc: "b_state b = GameplayCommitted" and p: "participantRecord ?s b = Some p" "pt_generation p = cm_generation c"
    using True by blast
  obtain m where m: "b_monster b = Some m" "mo_id m = 1"
    using committed_parts(2)[OF assms(1) gc] by (auto simp: combat_ok_def monster_ok_def)
  obtain n s where ev: "evictExpired (bt_nanos at) (pt_attackResults p) = (n, s)"
    by (cases "evictExpired (bt_nanos at) (pt_attackResults p)")
  have kept: "st_completedAt s = st_completedAt (pt_attackResults p)"
    "\<forall>e \<in> set (st_records s). e \<in> set (st_records (pt_attackResults p))"
    using ev by (auto simp: evictExpired_def split: if_splits)
  define b1 where "b1 = upd ?s (\<lambda>p. p\<lparr>pt_attackResults := s\<rparr>) b"
  define b2 where "b2 = (if n \<noteq> 0 then observeBattleTime at b1 else b1)"
  have "moves at b b1" unfolding b1_def by (rule mv_upd) (simp add: p(1) quiet_def participant_key_def stores_next_def kept)
  then have b2: "moves at b b2" using moves_trans mv_observe by (auto simp: b2_def)
  have open_now: "b_resultState b = NotReady \<and> b_committedResult b = None" if "pt_inputEnabled p"
    using enabled_open(1)[OF assms(1) gc p(1) that] open_result[OF assms(1) gc] by simp
  have no_drops: "b_drops b = []" if "b_combatTerminal b = None"
    using committed_parts(2)[OF assms(1) gc] that by (auto simp: combat_ok_def currentOutcome_def no_loot_def)
  have step: "attack c at b = (case inspect c s of
      Replay result \<Rightarrow> Some (result, b2)
    | Conflict \<Rightarrow> Some (attackResultNow c AttackCommandConflict b2, b2)
    | StoreOverloaded \<Rightarrow> Some (attackResultNow c AttackOverloaded b2, b2)
    | ScopeMismatch \<Rightarrow> None
    | Available \<Rightarrow> attackFresh c at p m (observeBattleTime at b2))"
    using True m p unfolding b2_def b1_def by (cases "inspect c s") (simp_all add: attack_def ev Let_def)
  show ?thesis
  proof (cases "inspect c s = Available")
    case False
    then show ?thesis using step assms(3) b2 by (auto split: inspection.splits)
  next
    case av: True
    have fresh: "attackFresh c at p m (observeBattleTime at b2) = Some (r, b')" using step assms(3) av by simp
    have "participantRecord ?s b1 = Some (p\<lparr>pt_attackResults := s\<rparr>)"
      unfolding b1_def using p(1) by (simp add: participantRecord_upd)
    then have "\<exists>q. participantRecord ?s (observeBattleTime at b2) = Some q \<and> pt_attackBucket q = pt_attackBucket p"
      by (simp add: b2_def)
    from fresh _ _ this have "moves at (observeBattleTime at b2) b'"
      by (rule mv_fresh)
        (use m gc open_now no_drops drops_generated_here[OF assms(1) gc] observed_le[OF assms(2)]
          in \<open>auto simp: b2_def b1_def split: if_splits\<close>)
    with moves_trans[OF b2 mv_observe] show ?thesis by (rule moves_trans)
  qed
qed

lemma mv_attack_applied:
  assumes "battle_inv b" "time_valid at" "attackWithApplied c at b = Some (r, b')"
  shows "moves at b b'"
proof -
  obtain r0 b0 where b0: "attack c at b = Some (r0, b0)"
    using assms(3) by (auto simp: attackWithApplied_def split: option.splits)
  have "moves at b0 b'"
    using assms(3) b0 by (auto simp: attackWithApplied_def Let_def intro: one applied split: if_splits)
  with mv_attack[OF assms(1,2) b0] show ?thesis by (rule moves_trans)
qed

section \<open>Claims and deadlines\<close>

lemma mv_claim_target:
  assumes "claimTarget c at p b = Some (r, b')" "time_le at (b_time b)" "b_state b = GameplayCommitted"
    "b_lootResolution b = LootOpen \<Longrightarrow> b_committedResult b = None"
  shows "moves at b b'"
proof -
  have take: "moves at b b'"
    if drop: "claimDrop c at d b = Some (r, b')" "b_lootResolution b = LootOpen" and hint: "drop_value (cm_hint c) \<noteq> 0" for d
  proof -
    let ?t = "takeDrop (cm_sessionId c) d b"
    have none: "b_committedResult b = None" using assms(4) drop(2) by simp
    have t: "moves at b ?t" unfolding takeDrop_def
      by (rule one, rule taken, rule none, rule map_update_first) (simp add: drop_key_def)
    show ?thesis
    proof (cases "list_ex (\<lambda>r. ld_state r = DropAvailable) (b_drops ?t)")
      case True
      then have "retainClaim c ClaimOk ?t = Some (r, b')" using drop(1) by (simp add: claimDrop_def)
      from moves_trans[OF t mv_retain_claim[OF this hint]] show ?thesis .
    next
      case False
      let ?c = "?t\<lparr>b_lootResolution := LootResolved, b_lootDeadlineTick := None\<rparr>"
      have "move at ?t (?t\<lparr>b_drops := b_drops ?t, b_lootResolution := LootResolved, b_lootDeadlineTick := None\<rparr>)"
        by (rule closed) (simp_all add: takeDrop_def none)
      then have "move at ?t ?c" by simp
      note t
      also have "moves at ?t ?c" by (rule one) fact
      also have "moves at ?c (commitResultIfReady at ?c)"
        using assms(2,3) by (intro one committed) (simp_all add: takeDrop_def)
      also have "retainClaim c ClaimOk (commitResultIfReady at ?c) = Some (r, b')"
        using drop(1) False by (simp add: claimDrop_def)
      then have "moves at (commitResultIfReady at ?c) b'" by (rule mv_retain_claim) (rule hint)
      finally show ?thesis .
    qed
  qed
  have other: "moves at b b'" if "retainClaim c code b = Some (r, b')" "code \<noteq> ClaimOk" for code
    by (rule mv_retain_claim[OF that(1)]) (use that(2) in simp)
  show ?thesis using assms(1) take by (auto simp: claimTarget_def split: if_splits option.splits intro: other)
qed

lemma mv_claim:
  assumes "battle_inv b" "time_valid at" "claimLoot c at b = Some (r, b')"
  shows "moves at b b'"
proof -
  let ?b = "\<lambda>bkt. upd (cm_sessionId c) (\<lambda>p. p\<lparr>pt_claimBucket := bkt\<rparr>) (observeBattleTime at b)"
  let ?full = "\<lambda>p. claim_refill (bt_nanos at) (pt_claimBucket p)"
  have bucket: "moves at b (?b bkt)" if "participantRecord (cm_sessionId c) b = Some p" "fst bkt = fst (?full p)" for bkt p
    by (rule mv_observe_upd)
      (use request_stamps(3)[OF observed_le[OF assms(2)], of b "pt_claimBucket p"] that
        in \<open>auto simp: quiet_def participant_key_def stores_next_def\<close>)
  have "moves at b b'"
    if "participantRecord (cm_sessionId c) b = Some p" "bucket_take (?full p) = Some rest"
      "claimTarget c at p (?b rest) = Some (r, b')" "b_state b = GameplayCommitted" for rest p
  proof -
    have "moves at (?b rest) b'"
      using that(4) observed_le[OF assms(2)] open_result[OF assms(1) that(4)] loot_open_parts(4)[OF assms(1)]
      by (intro mv_claim_target[OF that(3)]) simp_all
    with bucket[OF that(1) take_stamp[OF that(2)]] show ?thesis by (rule moves_trans)
  qed
  moreover have "moves at b b'"
    if "participantRecord (cm_sessionId c) b = Some p" "retainClaim c ClaimOverloaded (?b (?full p)) = Some (r, b')" for p
    by (rule moves_trans[OF bucket[OF that(1) refl] mv_retain_claim[OF that(2)]]) simp
  ultimately show ?thesis
    using assms(3) by (auto simp: claimLoot_def Let_def split: if_splits option.splits inspection.splits)
qed

lemma mv_expire_combat:
  assumes "battle_inv b" "time_valid at"
  shows "moves at b (snd (expireCombat i at b))"
proof -
  have "moves at b (commitResultIfReady at (markAttackResultsCompleted at ((observeBattleTime at (b\<lparr>b_monster := Some m'\<rparr>))
      \<lparr>b_combatTerminal := Some (terminalRecord CombatTimeout (observeBattleTime at (b\<lparr>b_monster := Some m'\<rparr>))),
       b_combatDeadlineTick := None\<rparr>)))"
    if that: "mo_id m' = 1" "b_combatTerminal b = None" "b_state b = GameplayCommitted" for m'
  proof -
    let ?b = "observeBattleTime at (b\<lparr>b_monster := Some m'\<rparr>)"
    let ?t = "?b\<lparr>b_combatTerminal := Some (terminalRecord CombatTimeout ?b), b_combatDeadlineTick := None\<rparr>"
    have "moves at b (b\<lparr>b_monster := Some m'\<rparr>)" by (rule one) (rule wounded)
    also have "moves at (b\<lparr>b_monster := Some m'\<rparr>) ?b" ..
    also have "moves at ?b ?t" using that by (intro one decided) simp_all
    also have "moves at ?t (markAttackResultsCompleted at ?t)" using observed_le[OF assms(2)] by (intro one completed) simp
    also have "moves at \<dots> (commitResultIfReady at (markAttackResultsCompleted at ?t))"
      using observed_le[OF assms(2)] that by (intro one committed) (simp_all add: markAttackResultsCompleted_def)
    finally show ?thesis .
  qed
  moreover have "mo_id m = 1" if "b_state b = GameplayCommitted" "b_monster b = Some m" for m
    using committed_parts(2)[OF assms(1) that(1)] that(2) by (auto simp: combat_ok_def monster_ok_def)
  ultimately show ?thesis
    by (auto simp: expireCombat_def monsterTimeout_def Let_def split: option.split)
qed

lemma mv_expire_loot:
  assumes "battle_inv b" "time_valid at"
  shows "moves at b (snd (expireLoot i at b))"
proof (cases "b_lootResolution b = LootOpen")
  case True
  note o = loot_open_parts[OF assms(1) True]
  let ?b = "observeBattleTime at b"
  let ?c = "?b\<lparr>b_drops := closeDrops (b_drops ?b), b_lootResolution := LootResolved, b_lootDeadlineTick := None\<rparr>"
  have "moves at b ?b" ..
  also have "moves at ?b ?c" using open_result[OF assms(1) o(1,4)] by (intro one closed) (simp_all add: closeDrops_def drop_key_def comp_def)
  also have "moves at ?c (commitResultIfReady at ?c)"
    using o(1) observed_le[OF assms(2)] by (intro one committed) simp_all
  finally show ?thesis by (simp add: expireLoot_def Let_def)
qed (simp add: expireLoot_def)

section \<open>Steps\<close>

fun op_time :: "battle_op \<Rightarrow> battle_time" where
  "op_time (OpenBarrier at) = at"
| "op_time (CompleteLoad c ready at) = at"
| "op_time (ExpireBarrier r i at) = at"
| "op_time (DisconnectParticipant c at) = at"
| "op_time (LeaveParticipant c at) = at"
| "op_time (SuspendInput s g at) = at"
| "op_time (ResumeInput s g at) = at"
| "op_time (Move c at) = at"
| "op_time (Integrate i tick at) = at"
| "op_time Snapshot = fromLogicalTick 0"
| "op_time (Attack c at) = at"
| "op_time (ExpireCombat i at) = at"
| "op_time (Claim c at) = at"
| "op_time (ExpireLoot i at) = at"

lemma step_moves:
  assumes "battle_inv b" "time_valid (op_time op)" "battle_step op b = Some b'"
  shows "moves (op_time op) b b'"
  using assms mv_attack_applied mv_claim
  by (cases op) (auto simp: mv_open_barrier mv_complete_load mv_expire_barrier mv_disconnect mv_leave mv_input mv_move
      mv_integrate mv_snapshot mv_expire_combat mv_expire_loot)

end
