(* ===== verification/BattleImageInv.thy ===== *)
theory BattleImageInv
  imports BattleImage BattleMoves
begin

text \<open>
  What the import of an image relies on beyond the invariant of the battle: the candidates and the
  captured participants of the admission, the clock, the deadlines, the terminal event and the
  committed result. Each is an invariant of the moves of BattleMoves, and so of every operation
  whose time is valid.
\<close>

section \<open>What an image needs\<close>

definition pending :: "battle \<Rightarrow> bool" where
  "pending b \<longleftrightarrow> (\<exists>c \<in> set (b_candidates b). cd_state c = PendingLoad)"

definition ready_candidates :: "battle \<Rightarrow> candidate list" where
  "ready_candidates b = filter (\<lambda>c. cd_state c = Ready) (b_candidates b)"

definition restored :: "captured_participant \<Rightarrow> captured_participant" where
  "restored c = c\<lparr>ca_exitStatus := GameplayEligible\<rparr>"

definition cand_ok :: "admission_snapshot \<Rightarrow> battle \<Rightarrow> bool" where
  "cand_ok a b \<longleftrightarrow>
     map cd_identity (b_candidates b) = as_candidates a \<and> 2 \<le> length (b_candidates b) \<and>
     (b_state b = Created \<longrightarrow> (\<forall>c \<in> set (b_candidates b). cd_state c = PendingLoad)) \<and>
     (b_state b = LoadBarrierOpen \<longrightarrow> pending b) \<and>
     (b_state b = LoadCancelled \<longrightarrow> \<not> pending b \<and> length (ready_candidates b) < 2) \<and>
     (b_state b = GameplayCommitted \<longrightarrow> \<not> pending b \<and> 2 \<le> length (ready_candidates b) \<and>
        map restored (b_captured b) = map capture (ready_candidates b))"

definition clock_ok :: "battle \<Rightarrow> bool" where
  "clock_ok b \<longleftrightarrow>
     time_valid (b_time b) \<and> \<not> after (b_lootResultsCompletedAt b) (bt_nanos (b_time b)) \<and>
     (\<forall>p \<in> set (b_participants b). \<not> after (st_completedAt (pt_attackResults p)) (bt_nanos (b_time b)) \<and>
        \<not> after (st_completedAt (pt_lootResults p)) (bt_nanos (b_time b)))"

definition fields_ok :: "battle \<Rightarrow> bool" where
  "fields_ok b \<longleftrightarrow>
     b_rulesetVersion b = 1 \<and> b_nextSnapshotSequence b \<noteq> 0 \<and> b_nextAttackAppliedSequence b \<noteq> 0 \<and>
     (b_loadDeadlineTick b \<noteq> None \<longrightarrow> b_state b = LoadBarrierOpen) \<and>
     (b_combatDeadlineTick b \<noteq> None \<longrightarrow>
        b_state b = GameplayCommitted \<and> b_resultState b = NotReady \<and> b_combatTerminal b = None) \<and>
     (b_lootDeadlineTick b \<noteq> None \<longrightarrow>
        b_state b = GameplayCommitted \<and> b_resultState b = NotReady \<and> b_lootResolution b = LootOpen) \<and>
     (\<forall>t. b_combatTerminal b = Some t \<longrightarrow> ct_battleId t = b_battleId b \<and> ct_monsterId t = 1 \<and>
        ct_outcome t \<noteq> NoOutcome \<and> ct_rulesetVersion t = 4)"

definition built_ok :: "battle \<Rightarrow> bool" where
  "built_ok b \<longleftrightarrow>
     (\<forall>fr. b_committedResult b = Some fr \<longrightarrow> buildFinalResult (resultSource (fr_outcome fr) b) v1Snapshot = Inr fr)"

definition image_ok :: "admission_snapshot \<Rightarrow> battle \<Rightarrow> bool" where
  "image_ok a b \<longleftrightarrow> cand_ok a b \<and> clock_ok b \<and> fields_ok b \<and> built_ok b"

lemmas image_parts = cand_ok_def clock_ok_def fields_ok_def built_ok_def

section \<open>The commit of the result\<close>

lemma commit_frame [simp]:
  "b_candidates (commitResultIfReady at b) = b_candidates b" "b_state (commitResultIfReady at b) = b_state b"
  "b_time (commitResultIfReady at b) = b_time b" "b_battleId (commitResultIfReady at b) = b_battleId b"
  "b_rulesetVersion (commitResultIfReady at b) = b_rulesetVersion b"
  "b_nextSnapshotSequence (commitResultIfReady at b) = b_nextSnapshotSequence b"
  "b_nextAttackAppliedSequence (commitResultIfReady at b) = b_nextAttackAppliedSequence b"
  "map restored (b_captured (commitResultIfReady at b)) = map restored (b_captured b)"
  by (simp_all add: commitResultIfReady_def markLootResultsCompleted_def clearDeadlines_def terminalStatuses_def
      restored_def comp_def Let_def split: option.split sum.split)

lemma commit_deadlines:
  "b_loadDeadlineTick (commitResultIfReady at b) = b_loadDeadlineTick b \<and>
   b_combatDeadlineTick (commitResultIfReady at b) = b_combatDeadlineTick b \<and>
   b_lootDeadlineTick (commitResultIfReady at b) = b_lootDeadlineTick b \<and>
   b_resultState (commitResultIfReady at b) = b_resultState b \<or>
   b_loadDeadlineTick (commitResultIfReady at b) = None \<and> b_combatDeadlineTick (commitResultIfReady at b) = None \<and>
   b_lootDeadlineTick (commitResultIfReady at b) = None"
  by (simp add: commitResultIfReady_def markLootResultsCompleted_def clearDeadlines_def terminalStatuses_def
      Let_def split: option.split sum.split)

lemma terminal_idem [simp]: "terminalExitStatus (terminalExitStatus e) = terminalExitStatus e"
  by (cases e) simp_all

text \<open>The builder only reads the terminal form of an exit reason, so building again after the commit
  gives the same result.\<close>

definition terminal_capture :: "captured_participant \<Rightarrow> captured_participant" where
  "terminal_capture c = c\<lparr>ca_exitStatus := terminalExitStatus (ca_exitStatus c)\<rparr>"

lemma terminal_capture_fields [simp]:
  "ca_sessionId (terminal_capture c) = ca_sessionId c"
  "terminalExitStatus (ca_exitStatus (terminal_capture c)) = terminalExitStatus (ca_exitStatus c)"
  "result_entry_of s v (terminal_capture c) = result_entry_of s v c"
  by (simp_all add: terminal_capture_def result_entry_of_def)

lemma owned_terminal [simp]: "ownedByCaptured s (map terminal_capture cs) = ownedByCaptured s cs"
  by (simp add: ownedByCaptured_def list_ex_iff)

lemma valid_drops_terminal [simp]: "valid_drops (map terminal_capture cs) ds = valid_drops cs ds"
  by (induction ds) (simp_all split: option.split)

lemma asset_totals_terminal [simp]: "assetTotals k hs (map terminal_capture cs) = assetTotals k hs cs"
  by (induction cs) (simp_all split: sum.split)

lemma valid_sessions_terminal [simp]: "valid_sessions (map terminal_capture cs) = valid_sessions cs"
  by (simp add: valid_sessions_iff comp_def)

lemma map2_terminal:
  "(\<And>v c. f v (terminal_capture c) = f v c) \<Longrightarrow> map2 f vs (map terminal_capture cs) = map2 f vs cs"
  by (induction vs cs rule: list_induct2') auto

lemma build_terminal:
  "buildFinalResult (src\<lparr>bs_captured := map terminal_capture (bs_captured src)\<rparr>) k = buildFinalResult src k"
proof -
  have ledger: "validResolvedDropLedger (src\<lparr>bs_captured := map terminal_capture (bs_captured src)\<rparr>) = validResolvedDropLedger src"
    "validHoldings (src\<lparr>bs_captured := map terminal_capture (bs_captured src)\<rparr>) = validHoldings src"
    "catalogComplete (src\<lparr>bs_captured := map terminal_capture (bs_captured src)\<rparr>) k = catalogComplete src k"
    "holdingsConserved (src\<lparr>bs_captured := map terminal_capture (bs_captured src)\<rparr>) = holdingsConserved src"
    by (simp_all add: validResolvedDropLedger_def validHoldings_def catalogComplete_def holdingsConserved_def)
  have maps: "map2 (result_entry_of s) vs (map terminal_capture cs) = map2 (result_entry_of s) vs cs"
    "map2 (\<lambda>acc c. result_entry_of (terminalExitStatus (ca_exitStatus c)) acc c) vs (map terminal_capture cs) =
     map2 (\<lambda>acc c. result_entry_of (terminalExitStatus (ca_exitStatus c)) acc c) vs cs" for s vs cs
    by (rule map2_terminal; simp)+
  let ?src = "src\<lparr>bs_captured := map terminal_capture (bs_captured src)\<rparr>"
  have final: "final_result_of ?src es = final_result_of src es" for es by (simp add: final_result_of_def)
  have "build_timeout ?src = build_timeout src" by (simp add: build_timeout_def final comp_def)
  moreover have "build_defeated ?src k = build_defeated src k"
    by (simp add: build_defeated_def ledger maps final split: sum.split)
  moreover have "build_cancelled ?src k = build_cancelled src k"
    by (simp add: build_cancelled_def ledger maps final list_ex_iff Let_def split: sum.split)
  ultimately show ?thesis by (simp add: buildFinalResult_def split: battle_outcome.split)
qed

lemma built_outcome: "buildFinalResult src k = Inr fr \<Longrightarrow> fr_outcome fr = bs_outcome src"
  by (auto simp: buildFinalResult_def build_timeout_def build_cancelled_def build_defeated_def final_result_of_def Let_def
      split: if_splits battle_outcome.splits sum.splits)

lemma commit_built_ok:
  assumes "built_ok b"
  shows "built_ok (commitResultIfReady at b)"
proof (cases "b_resultState b = NotReady \<and> readyOutcome b \<noteq> None")
  case False
  then have "commitResultIfReady at b = b" by (auto simp: commitResultIfReady_def)
  then show ?thesis using assms by simp
next
  case True
  then obtain outcome where nr: "b_resultState b = NotReady" and out: "readyOutcome b = Some outcome" by auto
  let ?b = "commitResultIfReady at b"
  show ?thesis
  proof (cases "buildFinalResult (resultSource outcome b) v1Snapshot")
    case (Inl e)
    then have "b_committedResult ?b = b_committedResult b" "resultSource o' ?b = resultSource o' b" for o'
      using nr out by (simp_all add: commitResultIfReady_def markLootResultsCompleted_def clearDeadlines_def resultSource_def)
    then show ?thesis using assms by (simp add: built_ok_def)
  next
    case (Inr fr)
    then have com: "b_committedResult ?b = Some fr"
      using nr out by (simp add: commitResultIfReady_def markLootResultsCompleted_def clearDeadlines_def terminalStatuses_def Let_def)
    have o: "fr_outcome fr = outcome" using built_outcome[OF Inr] by (simp add: resultSource_def)
    have "resultSource outcome ?b = (if outcome = OutcomeCancelled then resultSource outcome b
        else (resultSource outcome b)\<lparr>bs_captured := map terminal_capture (bs_captured (resultSource outcome b))\<rparr>)"
      using nr out Inr by (simp add: commitResultIfReady_def markLootResultsCompleted_def clearDeadlines_def
          terminalStatuses_def terminal_capture_def[abs_def] Let_def resultSource_def)
    then show ?thesis using com o Inr build_terminal by (cases "outcome = OutcomeCancelled") (simp_all add: built_ok_def)
  qed
qed

section \<open>The moves keep it\<close>

lemma move_candidates:
  assumes "move at b b'" "cand_ok a b"
  shows "cand_ok a b'"
  using assms
proof (induction rule: move.induct)
  case (frozen s b p e)
  have "map restored (b_captured (freezeParticipant s e b)) = map restored (b_captured b)"
    by (simp add: freezeParticipant_def restored_def map_update_first)
  then show ?case using frozen by (simp add: freezeParticipant_def cand_ok_def pending_def ready_candidates_def)
next
  case (settled b cs)
  have ids: "map cd_identity cs = as_candidates a" "length cs = length (b_candidates b)"
    using settled map_eq_imp_length_eq[of cd_identity cs cd_identity "b_candidates b"]
    by (auto simp: cand_ok_def settles_def)
  have "map restored (map capture xs) = map capture xs" for xs by (simp add: restored_def capture_def)
  then show ?case
    using settled ids
    by (auto simp: cand_ok_def pending_def ready_candidates_def resolveIfComplete_def commitGameplay_def not_started_def
        list_ex_iff Let_def)
next
  case (opened b t)
  then show ?case by (cases "b_candidates b") (auto simp: cand_ok_def pending_def)
qed (auto simp: cand_ok_def pending_def ready_candidates_def observeBattleTime_def markAttackResultsCompleted_def
    applyCancellationIfNoActiveParticipants_def clearDeadlines_def Let_def)

lemma after_simps [simp]: "\<not> after None n" "after (Some t) n \<longleftrightarrow> n < t"
  by (simp_all add: after_def)

lemma after_later: "\<not> after c n \<Longrightarrow> n \<le> n' \<Longrightarrow> \<not> after c n'"
  by (auto simp: after_def split: option.splits)

lemma time_le_nanos:
  assumes "time_le t u" "time_valid t" "time_valid u"
  shows "bt_nanos t \<le> bt_nanos u"
proof -
  have "unat (bt_tick t) \<le> unat (bt_tick u)" using assms(1) by (auto simp: time_le_def word_less_nat_alt)
  then show ?thesis using time_valid_nanos(1)[OF assms(2)] time_valid_nanos(1)[OF assms(3)] by (simp add: word_le_nat_alt)
qed

lemma clock_later:
  assumes "clock_ok b" "time_valid t" "time_le (b_time b) t" "b_time b' = t" "b_participants b' = b_participants b"
    "b_lootResultsCompletedAt b' = b_lootResultsCompletedAt b"
  shows "clock_ok b'"
proof -
  have "bt_nanos (b_time b) \<le> bt_nanos t" using assms(1,2,3) by (intro time_le_nanos) (simp_all add: clock_ok_def)
  then show ?thesis using assms after_later unfolding clock_ok_def by metis
qed

lemma completed_before:
  "\<not> after (st_completedAt s) n \<Longrightarrow> t \<le> n \<Longrightarrow> \<not> after (st_completedAt (markBattleCompleted t s)) n"
  by (auto simp: markBattleCompleted_def after_def)

lemma mark_clock:
  assumes "clock_ok b" "bt_nanos at \<le> bt_nanos (b_time b)"
  shows "clock_ok (markAttackResultsCompleted at b)" "clock_ok (markLootResultsCompleted at b)"
  using assms completed_before
  by (auto simp: clock_ok_def markAttackResultsCompleted_def markLootResultsCompleted_def)

lemma commit_clock:
  assumes "clock_ok b" "bt_nanos at \<le> bt_nanos (b_time b)"
  shows "clock_ok (commitResultIfReady at b)"
proof -
  have "clock_ok (clearDeadlines (b\<lparr>b_resultState := r\<rparr>))" for r
    using assms(1) by (simp add: clock_ok_def clearDeadlines_def)
  moreover have "clock_ok ((clearDeadlines (b\<lparr>b_committedResult := fr, b_resultState := r\<rparr>))\<lparr>b_terminalOutcome := out\<rparr>)"
    "clock_ok (terminalStatuses ((clearDeadlines (b\<lparr>b_committedResult := fr, b_resultState := r\<rparr>))\<lparr>b_terminalOutcome := out\<rparr>))"
    for fr r out
    using assms(1) by (simp_all add: clock_ok_def clearDeadlines_def terminalStatuses_def)
  ultimately show ?thesis
    using assms mark_clock(2) by (simp add: commitResultIfReady_def Let_def clearDeadlines_def terminalStatuses_def
        split: option.split sum.split)
qed

lemma quiet_clock:
  assumes "list_all2 (quiet at b) ps qs" "\<forall>p \<in> set ps. \<not> after (st_completedAt (pt_attackResults p)) n \<and>
    \<not> after (st_completedAt (pt_lootResults p)) n"
  shows "\<forall>p \<in> set qs. \<not> after (st_completedAt (pt_attackResults p)) n \<and> \<not> after (st_completedAt (pt_lootResults p)) n"
  using assms by (induction rule: list_all2_induct) (auto simp: quiet_def)

lemma move_clock:
  assumes "move at b b'" "time_valid at" "clock_ok b"
  shows "clock_ok b'"
  using assms
proof (induction rule: move.induct)
  case (observed b)
  let ?b = "observeBattleTime at b"
  have le: "time_le (b_time b) (b_time ?b)" "?b = b \<or> b_time ?b = at"
    by (auto simp: observeBattleTime_def time_le_def)
  show ?case
  proof (cases "?b = b")
    case False
    then have now: "b_time ?b = at" using le(2) by blast
    show ?thesis by (rule clock_later[OF observed(2,1) le(1)[unfolded now] now]) simp_all
  next
    case True
    show ?thesis unfolding True by (rule observed(2))
  qed
next
  case (participants b ps)
  have "\<forall>p \<in> set ps. \<not> after (st_completedAt (pt_attackResults p)) (bt_nanos (b_time b)) \<and>
      \<not> after (st_completedAt (pt_lootResults p)) (bt_nanos (b_time b))"
    by (rule quiet_clock[OF participants(1)]) (use participants in \<open>simp add: clock_ok_def\<close>)
  then show ?case using participants unfolding clock_ok_def by simp
next
  case (completed b)
  then have "time_valid (b_time b)" by (simp add: clock_ok_def)
  then show ?case by (rule mark_clock(1)[OF completed(3) time_le_nanos[OF completed(1,2)]])
next
  case (committed b)
  then have "time_valid (b_time b)" by (simp add: clock_ok_def)
  then show ?case by (rule commit_clock[OF committed(4) time_le_nanos[OF committed(1,3)]])
next
  case (frozen s b p e)
  have "\<forall>q \<in> set (b_participants (freezeParticipant s e b)). \<exists>r \<in> set (b_participants b).
      st_completedAt (pt_attackResults q) = st_completedAt (pt_attackResults r) \<and>
      st_completedAt (pt_lootResults q) = st_completedAt (pt_lootResults r)"
    unfolding freezeParticipant_def upd_def by (auto dest!: set_update_first)
  then show ?case using frozen by (fastforce simp: clock_ok_def freezeParticipant_def)
next
  case (cancelled b)
  then show ?case by (simp add: clock_ok_def applyCancellationIfNoActiveParticipants_def clearDeadlines_def Let_def)
next
  case (settled b cs)
  have "\<not> after (st_completedAt (pt_attackResults p)) n \<and> \<not> after (st_completedAt (pt_lootResults p)) n"
    if "p \<in> set (map2 (newParticipant i k) is cs')" for p i k "is" cs' n
    using that by (auto simp: newParticipant_def new_store_def after_def Let_def)
  then show ?case
    using settled by (auto simp: clock_ok_def resolveIfComplete_def commitGameplay_def not_started_def Let_def)
qed (auto simp: clock_ok_def)

lemma bump_nonzero: "bump n \<noteq> 0"
  by (simp add: bump_def)

lemma move_fields:
  assumes "move at b b'" "fields_ok b"
  shows "fields_ok b'"
  using assms
proof (induction rule: move.induct)
  case (committed b)
  then show ?case using commit_deadlines[of at b] by (auto simp: fields_ok_def)
next
  case (settled b cs)
  then show ?case by (simp add: fields_ok_def resolveIfComplete_def commitGameplay_def not_started_def Let_def)
qed (auto simp: fields_ok_def bump_nonzero terminalRecord_def freezeParticipant_def clearDeadlines_def
    markAttackResultsCompleted_def applyCancellationIfNoActiveParticipants_def Let_def)

lemma move_built:
  assumes "move at b b'" "built_ok b"
  shows "built_ok b'"
  using assms
proof (induction rule: move.induct)
  case (committed b)
  then show ?case using commit_built_ok by simp
next
  case (settled b cs)
  then show ?case
    by (simp add: built_ok_def resolveIfComplete_def commitGameplay_def not_started_def Let_def)
next
  case (cancelled b)
  then show ?case by (simp add: built_ok_def applyCancellationIfNoActiveParticipants_def clearDeadlines_def Let_def)
qed (auto simp: built_ok_def resultSource_def observeBattleTime_def markAttackResultsCompleted_def)

lemma moves_image:
  assumes "moves at b b'" "time_valid at" "image_ok a b"
  shows "image_ok a b'"
  using assms(1)
proof (rule moves_inv)
  fix b b' assume "move at b b'" "image_ok a b"
  then show "image_ok a b'" using move_candidates move_clock[OF _ assms(2)] move_fields move_built
    unfolding image_ok_def by blast
qed (rule assms(3))

lemma created_image: "createBattle a = Inr b \<Longrightarrow> image_ok a b"
  by (auto simp: createBattle_def newBattle_def validAdmission_def image_ok_def image_parts fromLogicalTick_valid after_def
      comp_def split: if_splits)

lemma run_image:
  "battle_inv b \<Longrightarrow> image_ok a b \<Longrightarrow> list_all (\<lambda>op. time_valid (op_time op)) ops \<Longrightarrow> battle_run ops b = Some b' \<Longrightarrow>
   image_ok a b'"
proof (induction ops arbitrary: b)
  case (Cons op ops)
  obtain b1 where b1: "battle_step op b = Some b1" "battle_inv b1" using step_inv[OF Cons.prems(1)] by blast
  have "image_ok a b1" using moves_image[OF step_moves[OF Cons.prems(1) _ b1(1)]] Cons.prems(2,3) by simp
  then show ?case using Cons b1 by auto
qed simp

end
