(* ===== verification/BattleImageRoundtrip.thy ===== *)
theory BattleImageRoundtrip
  imports BattleImageInv
begin

text \<open>
  Importing the exported image of a battle restores it. The parts of the import are followed one by
  one on the image of a battle that keeps the invariants: each loop accepts what the export wrote.
  The exception is proved too: a battle that was abandoned while its loot was open is refused.
\<close>

section \<open>Slots\<close>

lemma sort_key_sorted: "sorted (map f xs) \<Longrightarrow> sort_key f xs = xs"
  by (rule properties_for_sort_key) simp_all

lemma slot_nat: "i < 10 \<Longrightarrow> unat (of_nat (i + 1) :: u16) = i + 1"
  by (simp add: unat_of_nat take_bit_nat_eq_self del: of_nat_add of_nat_Suc)

lemma slot_valid: "i < n \<Longrightarrow> n \<le> 10 \<Longrightarrow> valid_slot n (of_nat (i + 1))"
  using slot_nat[of i] by (auto simp: valid_slot_def simp del: of_nat_add of_nat_Suc)

lemma slots_sorted:
  assumes "n \<le> 10"
  shows "sorted (map (\<lambda>i. of_nat (i + 1) :: u16) [0..<n])"
  unfolding sorted_iff_nth_mono using slot_nat assms
  by (auto simp: word_le_nat_alt simp del: of_nat_add of_nat_Suc)

lemma find_nth_key:
  assumes "distinct (map k xs)" "i < length xs"
  shows "find (\<lambda>x. k x = k (xs ! i)) xs = Some (xs ! i)"
  using find_key_distinct[OF assms(1), of "xs ! i"] assms(2) by simp

text \<open>The roster of a battle in play, by index.\<close>

lemma roster_slot:
  assumes "roster_ok b" "i < length (b_participants b)"
  shows "pt_slot (b_participants b ! i) = of_nat (i + 1)"
    "pt_sessionId (b_participants b ! i) = ca_sessionId (b_captured b ! i)"
    "slotForSession b (pt_sessionId (b_participants b ! i)) = of_nat (i + 1)"
    "imported_session (b_participants b) (of_nat (i + 1)) = Some (pt_sessionId (b_participants b ! i))"
proof -
  let ?ps = "b_participants b"
  have n: "length ?ps \<le> 10" "length (b_captured b) = length ?ps"
    using assms(1) roster_sessions(2)[OF assms(1)] by (simp_all add: roster_ok_def)
  have slots: "map pt_slot ?ps = map of_nat [1..<length ?ps + 1]" using assms(1) by (simp only: roster_ok_def)
  have slot: "pt_slot (?ps ! j) = of_nat (j + 1)" if "j < length ?ps" for j
    using arg_cong[OF slots, of "\<lambda>xs. xs ! j"] that by (simp del: upt_Suc)
  have sess: "map ca_sessionId (b_captured b) = map pt_sessionId ?ps" by (rule roster_sessions(1)[OF assms(1)])
  then have dist: "distinct (map pt_sessionId ?ps)" using assms(1) by (simp add: roster_ok_def)
  show "pt_slot (?ps ! i) = of_nat (i + 1)" by (rule slot[OF assms(2)])
  show "pt_sessionId (?ps ! i) = ca_sessionId (b_captured b ! i)"
    using arg_cong[OF sess, of "\<lambda>xs. xs ! i"] assms(2) n(2) by simp
  show "slotForSession b (pt_sessionId (?ps ! i)) = of_nat (i + 1)"
    using find_nth_key[OF dist assms(2)] slot[OF assms(2)] by (simp add: slotForSession_def participantRecord_def)
  have "distinct (map pt_slot ?ps)"
  proof (rule distinct_conv_nth[THEN iffD2], intro allI impI)
    fix j k assume jk: "j < length (map pt_slot ?ps)" "k < length (map pt_slot ?ps)" "j \<noteq> k"
    then have "unat (of_nat (j + 1) :: u16) \<noteq> unat (of_nat (k + 1) :: u16)"
      using slot_nat[of j] slot_nat[of k] n(1) by simp
    then show "map pt_slot ?ps ! j \<noteq> map pt_slot ?ps ! k" using jk slot by (metis length_map nth_map)
  qed
  from find_nth_key[OF this assms(2)] show "imported_session ?ps (of_nat (i + 1)) = Some (pt_sessionId (?ps ! i))"
    by (simp add: imported_session_def slot[OF assms(2)])
qed

lemma session_slot:
  assumes "roster_ok b" "s \<in> set (map ca_sessionId (b_captured b))"
  shows "valid_slot (length (b_participants b)) (slotForSession b s)"
    "imported_session (b_participants b) (slotForSession b s) = Some s" "slotForSession b s \<noteq> 0"
proof -
  have "s \<in> set (map pt_sessionId (b_participants b))" using assms(2) roster_sessions(1)[OF assms(1)] by simp
  then obtain i where i: "i < length (b_participants b)" "s = pt_sessionId (b_participants b ! i)"
    by (auto simp: in_set_conv_nth)
  have n: "length (b_participants b) \<le> 10"
    using assms(1) roster_sessions(2)[OF assms(1)] by (simp add: roster_ok_def)
  show v: "valid_slot (length (b_participants b)) (slotForSession b s)"
    unfolding i(2) roster_slot(3)[OF assms(1) i(1)] by (rule slot_valid[OF i(1) n])
  show "imported_session (b_participants b) (slotForSession b s) = Some s"
    unfolding i(2) roster_slot(3)[OF assms(1) i(1)] by (rule roster_slot(4)[OF assms(1) i(1)])
  show "slotForSession b s \<noteq> 0" using v by (simp add: valid_slot_def)
qed

section \<open>Candidates\<close>

definition image_candidate_of :: "nat \<Rightarrow> candidate \<Rightarrow> image_candidate" where
  "image_candidate_of i c = \<lparr>ic_slot = of_nat (i + 1), ic_sessionId = sc_sessionId (cd_identity c), ic_state = cd_state c\<rparr>"

lemma import_candidates_all:
  assumes "map cd_identity cds = map cd_identity (xs @ ys)" "length cds \<le> 10"
    "\<forall>c \<in> set ys. session_value (sc_sessionId (cd_identity c)) \<noteq> 0"
  shows "import_candidates cds (map (\<lambda>c. Some (cd_state c)) xs @ replicate (length ys) None)
      (map2 image_candidate_of [length xs..<length xs + length ys] ys) = Some (map (\<lambda>c. Some (cd_state c)) (xs @ ys))"
  using assms
proof (induction ys arbitrary: xs)
  case (Cons y ys)
  have len: "length cds = length xs + length (y # ys)" using Cons.prems(1) by (metis length_append length_map)
  then have k: "length xs < length cds" by simp
  have slot: "unat (of_nat (length xs + 1) :: u16) = length xs + 1" using slot_nat[of "length xs"] k Cons.prems(2) by simp
  have valid: "valid_slot (length cds) (of_nat (length xs + 1))" using slot_valid[OF k Cons.prems(2)] .
  have id: "cd_identity (cds ! length xs) = cd_identity y"
    using arg_cong[OF Cons.prems(1), of "\<lambda>xs'. xs' ! length xs"] k by (simp add: nth_append)
  have upt: "[length xs..<length xs + length (y # ys)] = length xs # [length (xs @ [y])..<length (xs @ [y]) + length ys]"
    by (simp add: upt_conv_Cons del: upt_Suc)
  have rest: "import_candidates cds (map (\<lambda>c. Some (cd_state c)) (xs @ [y]) @ replicate (length ys) None)
      (map2 image_candidate_of [length (xs @ [y])..<length (xs @ [y]) + length ys] ys) =
      Some (map (\<lambda>c. Some (cd_state c)) ((xs @ [y]) @ ys))"
    by (rule Cons.IH) (use Cons.prems in simp_all)
  have upd: "(map (\<lambda>c. Some (cd_state c)) xs @ replicate (length (y # ys)) None)[length xs := Some (cd_state y)] =
      map (\<lambda>c. Some (cd_state c)) (xs @ [y]) @ replicate (length ys) None"
    by (simp add: list_update_append)
  have seen: "(map (\<lambda>c. Some (cd_state c)) xs @ replicate (length (y # ys)) None) ! length xs = None"
    by (simp add: nth_append)
  have idx: "unat (ic_slot (image_candidate_of (length xs) y)) - 1 = length xs"
    using slot by (simp add: image_candidate_of_def del: of_nat_add of_nat_Suc)
  have step: "import_candidates cds (map (\<lambda>c. Some (cd_state c)) xs @ replicate (length (y # ys)) None)
      (image_candidate_of (length xs) y # cs) =
      import_candidates cds (map (\<lambda>c. Some (cd_state c)) (xs @ [y]) @ replicate (length ys) None) cs" for cs
    using valid Cons.prems(3) id seen upd idx
    by (simp add: image_candidate_of_def Let_def del: of_nat_add of_nat_Suc map_append replicate_Suc list.size)
  show ?case unfolding upt using rest step by simp
qed simp

lemma restore_states:
  fixes cds cs :: "candidate list"
  shows "map cd_identity cds = map cd_identity cs \<Longrightarrow> map2 (\<lambda>c s. c\<lparr>cd_state := s\<rparr>) cds (map cd_state cs) = cs"
proof (induction cs arbitrary: cds)
  case (Cons c cs)
  then show ?case by (cases cds) (auto intro: candidate.equality)
qed simp

lemma candidates_import:
  assumes "cand_ok a b" "map cd_identity (b_candidates b0) = as_candidates a" "admission_ok b"
  shows "candidate_states b0 (exportState b) = Some (map cd_state (b_candidates b))"
    "map2 (\<lambda>c s. c\<lparr>cd_state := s\<rparr>) (b_candidates b0) (map cd_state (b_candidates b)) = b_candidates b"
proof -
  let ?cds = "b_candidates b0" and ?cs = "b_candidates b"
  have ids: "map cd_identity ?cds = map cd_identity ([] @ ?cs)" using assms(1,2) by (simp add: cand_ok_def)
  then have len: "length ?cds = length ?cs" by (metis append_Nil length_map)
  have "import_candidates ?cds (replicate (length ?cds) None) (im_candidates (exportState b)) =
      Some (map (\<lambda>c. Some (cd_state c)) ?cs)"
    using import_candidates_all[OF ids] len assms(3)
    by (simp add: exportState_def admission_ok_def image_candidate_of_def[abs_def])
  moreover have "\<not> list_ex (\<lambda>s. s = None) (map (\<lambda>c. Some (cd_state c)) ?cs)" by (auto simp: list_ex_iff)
  moreover have "\<not> (case b_state b of
      Created \<Rightarrow> list_all (\<lambda>s. s \<noteq> PendingLoad) (map cd_state ?cs) \<or> length (filter (\<lambda>s. s = Ready) (map cd_state ?cs)) \<noteq> 0
    | LoadBarrierOpen \<Rightarrow> list_all (\<lambda>s. s \<noteq> PendingLoad) (map cd_state ?cs)
    | GameplayCommitted \<Rightarrow> \<not> list_all (\<lambda>s. s \<noteq> PendingLoad) (map cd_state ?cs) \<or> length (filter (\<lambda>s. s = Ready) (map cd_state ?cs)) < 2
    | LoadCancelled \<Rightarrow> \<not> list_all (\<lambda>s. s \<noteq> PendingLoad) (map cd_state ?cs) \<or> 2 \<le> length (filter (\<lambda>s. s = Ready) (map cd_state ?cs)))"
  proof (cases "b_state b")
    case Created
    then have "\<forall>c \<in> set ?cs. cd_state c = PendingLoad" "?cs \<noteq> []" using assms(1) by (auto simp: cand_ok_def)
    then show ?thesis using Created by (cases ?cs) (auto simp: filter_empty_conv filter_map)
  qed (use assms(1) in \<open>auto simp: cand_ok_def pending_def ready_candidates_def list_all_iff filter_map comp_def\<close>)
  ultimately show "candidate_states b0 (exportState b) = Some (map cd_state ?cs)"
    by (simp add: candidate_states_def Let_def exportState_def comp_def)
  show "map2 (\<lambda>c s. c\<lparr>cd_state := s\<rparr>) ?cds (map cd_state ?cs) = ?cs"
    using restore_states ids by simp
qed

section \<open>Captured participants\<close>

definition image_captured_of :: "nat \<Rightarrow> captured_participant \<Rightarrow> image_captured" where
  "image_captured_of i c = \<lparr>ix_slot = of_nat (i + 1), ix_sessionId = ca_sessionId c, ix_exitStatus = ca_exitStatus c\<rparr>"

text \<open>A captured participant is what its candidate and its exit reason say.\<close>

definition captured_from :: "candidate list \<Rightarrow> captured_participant \<Rightarrow> nat \<Rightarrow> bool" where
  "captured_from cds c j \<longleftrightarrow>
     j < length cds \<and> cd_state (cds ! j) = Ready \<and> restored c = capture (cds ! j)"

lemma captured_fields:
  assumes "captured_from cds c j" "cd_identity (cds0 ! j) = cd_identity (cds ! j)"
  shows "\<lparr>ca_accountId = sc_accountId (cd_identity (cds0 ! j)), ca_sessionId = sc_sessionId (cd_identity (cds0 ! j)),
    ca_generation = sc_generation (cd_identity (cds0 ! j)), ca_nickname = sc_nickname (cd_identity (cds0 ! j)),
    ca_exitStatus = ca_exitStatus c\<rparr> = c" "ca_sessionId c = sc_sessionId (cd_identity (cds ! j))"
    "ca_generation c = sc_generation (cd_identity (cds ! j))"
proof -
  have "restored c = capture (cds ! j)" using assms(1) by (simp add: captured_from_def)
  then have f: "ca_accountId c = sc_accountId (cd_identity (cds ! j))" "ca_sessionId c = sc_sessionId (cd_identity (cds ! j))"
    "ca_generation c = sc_generation (cd_identity (cds ! j))" "ca_nickname c = sc_nickname (cd_identity (cds ! j))"
    by (simp_all add: restored_def capture_def captured_participant.splits) (metis captured_participant.select_convs captured_participant.surjective captured_participant.update_convs(5))+
  then show "\<lparr>ca_accountId = sc_accountId (cd_identity (cds0 ! j)), ca_sessionId = sc_sessionId (cd_identity (cds0 ! j)),
    ca_generation = sc_generation (cd_identity (cds0 ! j)), ca_nickname = sc_nickname (cd_identity (cds0 ! j)),
    ca_exitStatus = ca_exitStatus c\<rparr> = c"
    unfolding assms(2) by (intro captured_participant.equality) simp_all
  show "ca_sessionId c = sc_sessionId (cd_identity (cds ! j))" "ca_generation c = sc_generation (cd_identity (cds ! j))"
    by (rule f)+
qed

lemma find_index_key:
  assumes "distinct (map k xs)" "j < length xs"
  shows "find_index (\<lambda>x. k x = k (xs ! j)) xs = Some j"
proof -
  have "length (takeWhile (\<lambda>x. k x \<noteq> k (xs ! j)) xs) = j"
    using assms
  proof (induction xs arbitrary: j)
    case (Cons x xs)
    show ?case
    proof (cases j)
      case (Suc i)
      then have "k x \<noteq> k (xs ! i)" using Cons.prems by auto
      then show ?thesis using Cons Suc by simp
    qed simp
  qed simp
  then show ?thesis using assms(2) by (simp add: find_index_def)
qed

lemma import_captured_all:
  assumes "distinct (map (\<lambda>c. sc_sessionId (cd_identity c)) cds)" "map cd_identity cds0 = map cd_identity cds"
    "n = k + length cs" "n \<le> 10" "length seen = length cds" "distinct (map ca_sessionId cs)"
    "\<forall>c \<in> set cs. \<exists>j. captured_from cds c j \<and> \<not> seen ! j"
  shows "\<exists>seen'. import_captured cds0 (map cd_state cds) n (replicate k True @ replicate (length cs) False) seen
      (map2 image_captured_of [k..<k + length cs] cs) = Some (cs, replicate n True, seen') \<and>
    length seen' = length cds \<and>
    (\<forall>j < length cds. seen' ! j \<longleftrightarrow> seen ! j \<or> (\<exists>c \<in> set cs. ca_sessionId c = sc_sessionId (cd_identity (cds ! j))))"
  using assms(3-)
proof (induction cs arbitrary: k seen)
  case (Cons c cs)
  obtain j where j: "captured_from cds c j" "\<not> seen ! j" using Cons.prems(5) by auto
  have jl: "j < length cds" "cd_state (cds ! j) = Ready" using j(1) by (simp_all add: captured_from_def)
  have len0: "length cds0 = length cds" using assms(2) by (metis length_map)
  have id: "cd_identity (cds0 ! i) = cd_identity (cds ! i)" if "i < length cds" for i
    using arg_cong[OF assms(2), of "\<lambda>xs. xs ! i"] that len0 by simp
  note f = captured_fields[OF j(1) id[OF jl(1)]]
  have dist0: "distinct (map (\<lambda>c. sc_sessionId (cd_identity c)) cds0)"
    using assms(1) arg_cong[OF assms(2), of "map sc_sessionId"] by (simp add: comp_def)
  have fi: "find_index (\<lambda>x. sc_sessionId (cd_identity x) = ca_sessionId c) cds0 = Some j"
    using find_index_key[OF dist0, of j] jl(1) len0 id[OF jl(1)] f(2) by simp
  have k: "k < n" using Cons.prems(1) by simp
  have valid: "valid_slot n (of_nat (k + 1))" by (rule slot_valid[OF k Cons.prems(2)])
  have idx: "unat (of_nat (k + 1) :: u16) - 1 = k" using slot_nat[of k] k Cons.prems(2) by simp
  have slots: "(replicate k True @ replicate (length (c # cs)) False)[k := True] =
      replicate (Suc k) True @ replicate (length cs) False"
    by (induction k) simp_all
  have unseen: "\<not> (replicate k True @ replicate (length (c # cs)) False) ! k" by (simp add: nth_append)
  have "\<exists>seen'. import_captured cds0 (map cd_state cds) n (replicate (Suc k) True @ replicate (length cs) False) (seen[j := True])
      (map2 image_captured_of [Suc k..<Suc k + length cs] cs) = Some (cs, replicate n True, seen') \<and>
    length seen' = length cds \<and>
    (\<forall>i < length cds. seen' ! i \<longleftrightarrow> seen[j := True] ! i \<or> (\<exists>c \<in> set cs. ca_sessionId c = sc_sessionId (cd_identity (cds ! i))))"
  proof (rule Cons.IH)
    show "\<forall>d \<in> set cs. \<exists>i. captured_from cds d i \<and> \<not> seen[j := True] ! i"
    proof
      fix d assume d: "d \<in> set cs"
      then obtain i where i: "captured_from cds d i" "\<not> seen ! i" using Cons.prems(5) by auto
      have "ca_sessionId d \<noteq> ca_sessionId c" using Cons.prems(4) d by (auto simp: image_iff)
      then have "i \<noteq> j" using captured_fields(2)[OF i(1) refl] f(2) by auto
      then show "\<exists>i. captured_from cds d i \<and> \<not> seen[j := True] ! i" using i by auto
    qed
  qed (use Cons.prems in auto)
  then obtain seen' where IH: "import_captured cds0 (map cd_state cds) n (replicate (Suc k) True @ replicate (length cs) False)
      (seen[j := True]) (map2 image_captured_of [Suc k..<Suc k + length cs] cs) = Some (cs, replicate n True, seen')"
    "length seen' = length cds"
    "\<forall>i < length cds. seen' ! i \<longleftrightarrow> seen[j := True] ! i \<or> (\<exists>c \<in> set cs. ca_sessionId c = sc_sessionId (cd_identity (cds ! i)))"
    by blast
  have upt: "[k..<k + length (c # cs)] = k # [Suc k..<Suc k + length cs]" by (simp add: upt_conv_Cons del: upt_Suc)
  have step: "import_captured cds0 (map cd_state cds) n (replicate k True @ replicate (length (c # cs)) False) seen
      (map2 image_captured_of [k..<k + length (c # cs)] (c # cs)) = Some (c # cs, replicate n True, seen')"
    unfolding upt using valid idx fi unseen j(2) jl slots IH(1) f(1) id[OF jl(1)]
    by (simp add: image_captured_of_def Let_def del: of_nat_add of_nat_Suc upt_Suc replicate_Suc list.size)
  have "\<forall>i < length cds. seen' ! i \<longleftrightarrow> seen ! i \<or> (\<exists>d \<in> set (c # cs). ca_sessionId d = sc_sessionId (cd_identity (cds ! i)))"
  proof (intro allI impI)
    fix i assume i: "i < length cds"
    have "ca_sessionId c = sc_sessionId (cd_identity (cds ! i)) \<longleftrightarrow> i = j"
      using f(2) assms(1) i jl(1) by (auto simp: distinct_conv_nth)
    then show "seen' ! i \<longleftrightarrow> seen ! i \<or> (\<exists>d \<in> set (c # cs). ca_sessionId d = sc_sessionId (cd_identity (cds ! i)))"
      using IH(3) i Cons.prems(3) by (cases "i = j") auto
  qed
  then show ?case using step IH(2) by blast
qed auto

lemma exported_captured:
  assumes "roster_ok b"
  shows "im_captured (exportState b) = map2 image_captured_of [0..<length (b_captured b)] (b_captured b)"
proof (rule nth_equalityI)
  fix i assume i: "i < length (im_captured (exportState b))"
  then have n: "i < length (b_participants b)" "i < length (b_captured b)"
    using roster_sessions(2)[OF assms] by (simp_all add: exportState_def)
  show "im_captured (exportState b) ! i = map2 image_captured_of [0..<length (b_captured b)] (b_captured b) ! i"
    using roster_slot(2,3)[OF assms n(1)] n(2) by (simp add: exportState_def image_captured_of_def)
qed (simp add: exportState_def)

lemma captured_import:
  assumes "cand_ok a b" "map cd_identity (b_candidates b0) = as_candidates a" "admission_ok b" "b_state b = GameplayCommitted"
    "roster_ok b"
  shows "captured_participants b0 (exportState b) (map cd_state (b_candidates b)) = Some (b_captured b)"
proof -
  let ?cds = "b_candidates b" and ?cs = "b_captured b"
  have dist: "distinct (map (\<lambda>c. sc_sessionId (cd_identity c)) ?cds)" using assms(3) by (simp add: admission_ok_def)
  have ids: "map cd_identity (b_candidates b0) = map cd_identity ?cds" using assms(1,2) by (simp add: cand_ok_def)
  have len0: "length (b_candidates b0) = length ?cds" using ids by (metis length_map)
  have n: "length ?cs \<le> 10" "distinct (map ca_sessionId ?cs)" using assms(5) by (simp_all add: roster_ok_def)
  have same: "map restored ?cs = map capture (ready_candidates b)" using assms(1,4) by (simp add: cand_ok_def)
  have source: "\<forall>c \<in> set ?cs. \<exists>j. captured_from ?cds c j \<and> \<not> replicate (length ?cds) False ! j"
  proof
    fix c assume "c \<in> set ?cs"
    then have "restored c \<in> set (map capture (ready_candidates b))" unfolding same[symmetric] by simp
    then obtain d where "d \<in> set ?cds" "cd_state d = Ready" "restored c = capture d" by (auto simp: ready_candidates_def)
    then show "\<exists>j. captured_from ?cds c j \<and> \<not> replicate (length ?cds) False ! j"
      by (auto simp: in_set_conv_nth captured_from_def)
  qed
  have im: "im_captured (exportState b) = map2 image_captured_of [0..<length ?cs] ?cs" by (rule exported_captured[OF assms(5)])
  have "map ix_slot (im_captured (exportState b)) = map (\<lambda>i. of_nat (i + 1)) [0..<length ?cs]"
    unfolding im by (rule nth_equalityI) (simp_all add: image_captured_of_def)
  then have sorted: "sort_key ix_slot (im_captured (exportState b)) = im_captured (exportState b)"
    using slots_sorted[OF n(1)] by (intro sort_key_sorted) simp
  obtain seen' where imp: "import_captured (b_candidates b0) (map cd_state ?cds) (length ?cs) (replicate (length ?cs) False)
      (replicate (length ?cds) False) (map2 image_captured_of [0..<length ?cs] ?cs) =
      Some (?cs, replicate (length ?cs) True, seen')" "length seen' = length ?cds"
    "\<forall>j < length ?cds. seen' ! j \<longleftrightarrow> (\<exists>c \<in> set ?cs. ca_sessionId c = sc_sessionId (cd_identity (?cds ! j)))"
    using import_captured_all[OF dist ids, of "length ?cs" 0 ?cs "replicate (length ?cds) False"] n source by auto
  have "\<not> list_ex (\<lambda>(state, seen). state = Ready \<and> \<not> seen) (zip (map cd_state ?cds) seen')"
  proof (rule notI)
    assume "list_ex (\<lambda>(state, seen). state = Ready \<and> \<not> seen) (zip (map cd_state ?cds) seen')"
    then obtain j where j: "j < length ?cds" "cd_state (?cds ! j) = Ready" "\<not> seen' ! j"
      using imp(2) by (auto simp: list_ex_iff set_zip)
    then have "capture (?cds ! j) \<in> set (map restored ?cs)" unfolding same by (auto simp: ready_candidates_def)
    then obtain c where c: "c \<in> set ?cs" "restored c = capture (?cds ! j)" by auto
    then have "captured_from ?cds c j" using j by (simp add: captured_from_def)
    then show False using captured_fields(2)[OF _ refl] c(1) imp(3) j by blast
  qed
  then show ?thesis
    using imp(1) sorted assms(4) len0 im
    by (simp add: captured_participants_def Let_def exportState_def[of b] list_all_iff)
qed

section \<open>Participants\<close>

lemma participant_import:
  assumes "part_ok i p" "find (\<lambda>c. sc_sessionId (cd_identity c) = pt_sessionId p) cds = Some c"
    "sc_generation (cd_identity c) = pt_generation p" "ca_sessionId (captured ! (unat (pt_slot p) - 1)) = pt_sessionId p"
    "\<not> after (st_completedAt (pt_attackResults p)) now" "\<not> after (st_completedAt (pt_lootResults p)) now"
  shows "import_participant cds captured i now (export_participant p) = Some p"
proof -
  have id: "sc_sessionId (cd_identity c) = pt_sessionId p" using find_set[OF assms(2)] by simp
  have "importStore attack_entry_ok (exportStore (pt_attackResults p)) (new_store (pt_sessionId p) (pt_generation p) i) =
      Some (pt_attackResults p)"
    "importStore loot_entry_ok (exportStore (pt_lootResults p)) (new_store (pt_sessionId p) (pt_generation p) i) =
      Some (pt_lootResults p)"
    using assms(1) by (auto simp: part_ok_def new_store_def intro!: import_export)
  moreover have "fst (exportStore (pt_attackResults p)) = st_completedAt (pt_attackResults p)"
    "fst (exportStore (pt_lootResults p)) = st_completedAt (pt_lootResults p)"
    by (simp_all add: exportStore_def)
  ultimately show ?thesis
    using assms(2-6) id by (simp add: import_participant_def export_participant_def Let_def)
qed

lemma import_participants_all:
  assumes "\<forall>p \<in> set ps. import_participant cds captured i now (export_participant p) = Some p"
    "map pt_slot ps = map of_nat [k + 1..<k + 1 + length ps]" "length captured = k + length ps" "length captured \<le> 10"
  shows "import_participants cds captured i now (replicate k True @ replicate (length ps) False) (map export_participant ps) =
    Some (ps, replicate (k + length ps) True)"
  using assms
proof (induction ps arbitrary: k)
  case (Cons p ps)
  have upt: "[k + 1..<k + 1 + length (p # ps)] = (k + 1) # [Suc k + 1..<Suc k + 1 + length ps]"
    by (simp add: upt_conv_Cons del: upt_Suc)
  have slot: "pt_slot p = of_nat (k + 1)" "map pt_slot ps = map of_nat [Suc k + 1..<Suc k + 1 + length ps]"
    using Cons.prems(2) unfolding upt by simp_all
  have k: "k < length captured" using Cons.prems(3) by simp
  have valid: "valid_slot (length captured) (pt_slot p)" unfolding slot(1) by (rule slot_valid[OF k Cons.prems(4)])
  have idx: "unat (pt_slot p) - 1 = k" using slot_nat[of k] k Cons.prems(4) slot(1) by simp
  have slots: "(replicate k True @ replicate (length (p # ps)) False)[k := True] = replicate (Suc k) True @ replicate (length ps) False"
    by (induction k) simp_all
  have unseen: "\<not> (replicate k True @ replicate (length (p # ps)) False) ! k" by (simp add: nth_append)
  have rest: "import_participants cds captured i now (replicate (Suc k) True @ replicate (length ps) False) (map export_participant ps) =
      Some (ps, replicate (Suc k + length ps) True)"
    by (rule Cons.IH) (use Cons.prems slot(2) in simp_all)
  have "ip_slot (export_participant p) = pt_slot p" by (simp add: export_participant_def)
  then show ?case
    using Cons.prems(1) valid idx unseen slots rest
    by (simp add: Let_def del: replicate_Suc list.size) simp
qed simp

lemma participants_import:
  assumes "cand_ok a b" "map cd_identity (b_candidates b0) = as_candidates a" "admission_ok b" "b_state b = GameplayCommitted"
    "roster_ok b" "clock_ok b" "b_battleId b0 = b_battleId b"
  shows "participant_records b0 (exportState b) (b_captured b) = Some (b_participants b)"
proof -
  let ?ps = "b_participants b" and ?cds = "b_candidates b0"
  have n: "length ?ps \<le> 10" "length (b_captured b) = length ?ps" "?ps \<noteq> []"
    using assms(5) roster_sessions(2)[OF assms(5)] by (auto simp: roster_ok_def)
  have ids: "map cd_identity ?cds = map cd_identity (b_candidates b)" using assms(1,2) by (simp add: cand_ok_def)
  have len0: "length ?cds = length (b_candidates b)" using ids by (metis length_map)
  have dist: "distinct (map (\<lambda>c. sc_sessionId (cd_identity c)) ?cds)"
    using assms(3) arg_cong[OF ids, of "map sc_sessionId"] by (simp add: admission_ok_def comp_def)
  have slots: "map pt_slot ?ps = map of_nat [0 + 1..<0 + 1 + length ?ps]"
    using assms(5) unfolding roster_ok_def by (simp add: add.commute del: upt_Suc)
  have same: "map restored (b_captured b) = map capture (ready_candidates b)" using assms(1,4) by (simp add: cand_ok_def)
  have "import_participant ?cds (b_captured b) (b_battleId b) (bt_nanos (b_time b)) (export_participant p) = Some p"
    if p: "p \<in> set ?ps" for p
  proof -
    obtain i where i: "i < length ?ps" "p = ?ps ! i" using p by (auto simp: in_set_conv_nth)
    note rs = roster_slot[OF assms(5) i(1)]
    have idx: "unat (pt_slot p) - 1 = i" using rs(1) slot_nat[of i] i n(1) by simp
    have "map captured_key (b_captured b) = map participant_key ?ps" using assms(5) unfolding roster_ok_def by blast
    from arg_cong[OF this, of "\<lambda>xs. xs ! i"] have key: "captured_key (b_captured b ! i) = participant_key p"
      using i n(2) by simp
    have "b_captured b ! i \<in> set (b_captured b)" using i n(2) by simp
    then have "restored (b_captured b ! i) \<in> set (map capture (ready_candidates b))" unfolding same[symmetric] by simp
    then obtain j where j: "captured_from (b_candidates b) (b_captured b ! i) j"
      by (auto simp: ready_candidates_def in_set_conv_nth captured_from_def)
    have jl: "j < length ?cds" using j len0 by (simp add: captured_from_def)
    have id: "cd_identity (?cds ! j) = cd_identity (b_candidates b ! j)"
      using arg_cong[OF ids, of "\<lambda>xs. xs ! j"] jl len0 by simp
    note f = captured_fields(2,3)[OF j id]
    have "find (\<lambda>c. sc_sessionId (cd_identity c) = pt_sessionId p) ?cds = Some (?cds ! j)"
      using find_nth_key[OF dist jl] f(1) id key by (simp add: captured_key_def participant_key_def)
    then show ?thesis
      using p assms(5,6) f id key idx rs(2) i(2)
      by (intro participant_import) (auto simp: roster_ok_def clock_ok_def captured_key_def participant_key_def)
  qed
  then have all: "import_participants ?cds (b_captured b) (b_battleId b) (bt_nanos (b_time b)) (replicate (length ?ps) False)
      (map export_participant ?ps) = Some (?ps, replicate (length ?ps) True)"
    using import_participants_all[of ?ps ?cds "b_captured b" "b_battleId b" "bt_nanos (b_time b)" 0] slots n by simp
  have "map ip_slot (map export_participant ?ps) = map (\<lambda>i. of_nat (i + 1)) [0..<length ?ps]"
    using roster_slot(1)[OF assms(5)] by (intro nth_equalityI) (simp_all add: export_participant_def)
  then have "sort_key ip_slot (map export_participant ?ps) = map export_participant ?ps"
    using slots_sorted[OF n(1)] by (intro sort_key_sorted) simp
  then show ?thesis
    using all n assms(4,7) by (simp add: list_all_iff participant_records_def Let_def exportState_def)
qed

end
