(* ===== verification/BattleRecovery.thy ===== *)
theory BattleRecovery
  imports BattleImageRoundtrip
begin

text \<open>
  The second half of the import of an exported image (the combat, the outcome, the deadlines, the
  loot and the committed result, which is built again and compared) and the theorem on recovery: a
  battle that any sequence of operations reaches is restored from its image, except the battle that
  was abandoned while its loot was open, which the import refuses.
\<close>

section \<open>Combat, outcome and deadlines\<close>

definition abandonedLoot :: "battle \<Rightarrow> bool" where
  "abandonedLoot b \<longleftrightarrow> b_terminalOutcome b = Some OutcomeCancelled \<and> b_combatTerminal b \<noteq> None"

lemma exported_terminal [simp]: "terminal_outcome (exportState b) = currentOutcome b"
  by (simp add: terminal_outcome_def exportState_def currentOutcome_def)

lemma exported_fields [simp]:
  "im_state (exportState b) = b_state b" "im_time (exportState b) = b_time b"
  "im_combatTerminal (exportState b) = b_combatTerminal b" "im_terminalOutcome (exportState b) = b_terminalOutcome b"
  "im_lootResolution (exportState b) = b_lootResolution b" "im_resultState (exportState b) = b_resultState b"
  "im_monster (exportState b) = b_monster b" "im_lootResultsCompletedAt (exportState b) = b_lootResultsCompletedAt b"
  "im_loadDeadlineTick (exportState b) = b_loadDeadlineTick b"
  "im_combatDeadlineTick (exportState b) = b_combatDeadlineTick b"
  "im_lootDeadlineTick (exportState b) = b_lootDeadlineTick b"
  "im_lastIntegratedServerTick (exportState b) = b_lastIntegratedServerTick b"
  "im_nextSnapshotSequence (exportState b) = b_nextSnapshotSequence b"
  "im_nextAttackAppliedSequence (exportState b) = b_nextAttackAppliedSequence b"
  "im_committedResult (exportState b) = map_option (export_result b) (b_committedResult b)"
  by (simp_all add: exportState_def)

lemma inv_cases:
  assumes "battle_inv b"
  obtains (started) "b_state b = GameplayCommitted" "roster_ok b" "combat_ok b" "result_ok b"
  | (waiting) "b_state b \<noteq> GameplayCommitted" "not_started b"
  using assms unfolding battle_inv_def base_inv_def by (metis)

lemma combat_import:
  assumes "battle_inv b" "fields_ok b"
  shows "combat_consistent (b_battleId b) (exportState b)"
  using assms(1)
proof (cases rule: inv_cases)
  case started
  then show ?thesis
    using assms(2)
    by (auto simp: combat_consistent_def combat_ok_def monster_ok_def currentOutcome_def fields_ok_def
        split: option.splits)
next
  case waiting
  then show ?thesis by (simp add: combat_consistent_def not_started_def)
qed

lemma outcome_import:
  assumes "battle_inv b"
  shows "outcome_consistent (exportState b) \<longleftrightarrow> \<not> abandonedLoot b"
  using assms
proof (cases rule: inv_cases)
  case started
  have comb: "b_combatTerminal b = None \<and> b_lootResolution b = LootNotStarted \<or>
      currentOutcome b = MonsterDefeated \<and> b_lootResolution b \<noteq> LootNotStarted \<or>
      currentOutcome b = CombatTimeout \<and> b_lootResolution b = LootNotStarted"
    using started(3) by (auto simp: combat_ok_def no_loot_def loot_ok_def)
  have terminal: "b_combatTerminal b \<noteq> None" if "currentOutcome b \<noteq> NoOutcome"
    using that by (auto simp: currentOutcome_def split: option.splits)
  have out: "b_terminalOutcome b = None \<or> b_terminalOutcome b = Some OutcomeCancelled \<or>
      b_terminalOutcome b = Some OutcomeMonsterDefeated \<and> currentOutcome b = MonsterDefeated \<or>
      b_terminalOutcome b = Some OutcomeCombatTimeout \<and> currentOutcome b = CombatTimeout"
    using started(4) by (auto simp: result_ok_def result_open_def result_committed_def outcome_ok_def)
  then show ?thesis
    using comb terminal unfolding outcome_consistent_def abandonedLoot_def exported_fields exported_terminal
    by (elim disjE) simp_all
next
  case waiting
  then show ?thesis by (simp add: outcome_consistent_def abandonedLoot_def not_started_def no_loot_def)
qed

lemma deadlines_import:
  assumes "battle_inv b" "fields_ok b"
  shows "deadlines_consistent (exportState b)"
proof -
  have "b_state b = LoadBarrierOpen \<Longrightarrow> b_loadDeadlineTick b \<noteq> None"
    "b_state b = GameplayCommitted \<and> b_resultState b = NotReady \<Longrightarrow>
      b_combatTerminal b = None \<and> b_combatDeadlineTick b \<noteq> None \<or>
      currentOutcome b = MonsterDefeated \<and> b_lootResolution b = LootOpen \<and> b_lootDeadlineTick b \<noteq> None"
    using assms(1) by (auto simp: battle_inv_def open_ok_def)
  moreover have "b_state b = GameplayCommitted \<Longrightarrow> b_combatTerminal b = None \<Longrightarrow> b_lootResolution b = LootNotStarted"
    using assms(1) by (cases rule: inv_cases) (auto simp: combat_ok_def no_loot_def currentOutcome_def)
  ultimately show ?thesis
    using assms(2) by (auto simp: deadlines_consistent_def fields_ok_def currentOutcome_def)
qed

lemma header_import:
  assumes "battle_inv b" "image_ok a b" "evolves b0 b" "length (b_candidates b0) = length (b_candidates b)"
  shows "import_header b0 (exportState b) = None"
proof -
  have f: "fields_ok b" "time_valid (b_time b)" "2 \<le> length (b_candidates b)"
    using assms(2) by (auto simp: image_ok_def clock_ok_def cand_ok_def)
  have ids: "b_roomId b0 = b_roomId b" "b_battleId b0 = b_battleId b" "b_seed b0 = b_seed b"
    "b_rulesetVersion b0 = b_rulesetVersion b"
    using assms(3) by (simp_all add: evolves_def)
  have adm: "b_seed b \<noteq> 0" "length (b_candidates b) \<le> 10"
    using assms(1) by (auto simp: battle_inv_def base_inv_def admission_ok_def)
  have "\<not> (b_state b = LoadBarrierOpen \<and> b_loadDeadlineTick b = None)"
    "\<not> (b_state b = GameplayCommitted \<and> b_resultState b = NotReady \<and>
      (b_combatTerminal b = None \<and> b_combatDeadlineTick b = None \<or>
       b_combatTerminal b \<noteq> None \<and> currentOutcome b = MonsterDefeated \<and>
       b_lootResolution b = LootOpen \<and> b_lootDeadlineTick b = None))"
    using assms(1) by (auto simp: battle_inv_def open_ok_def currentOutcome_def)
  then show ?thesis
    using f ids adm assms(4) by (simp add: import_header_def fields_ok_def) (auto simp: exportState_def)
qed

section \<open>Drops and holdings\<close>

lemma drop_import:
  assumes "roster_ok b" "drops_ok (map ca_sessionId (b_captured b)) ds" "d \<in> set ds"
  shows "import_drops (b_participants b) acc (export_drop b d # xs) =
    (if list_ex (\<lambda>e. rd_dropId (ld_drop e) = rd_dropId (ld_drop d)) acc then None
     else import_drops (b_participants b) (acc @ [d]) xs)"
proof -
  have d: "drop_ok (ld_drop d)" "case ld_owner d of None \<Rightarrow> ld_state d \<noteq> DropClaimed
      | Some s \<Rightarrow> ld_state d = DropClaimed \<and> s \<in> set (map ca_sessionId (b_captured b))"
    using assms(2,3) by (simp_all add: drops_ok_def)
  have vals: "drop_value (rd_dropId (ld_drop d)) \<noteq> 0" "rd_quantity (ld_drop d) \<noteq> 0" "item_value (rd_itemId (ld_drop d)) \<noteq> 0"
    using d(1) by (auto simp: drop_ok_def commonItemId_def rareItemId_def)
  show ?thesis
  proof (cases "ld_owner d")
    case None
    then have eq: "\<lparr>ld_drop = ld_drop d, ld_state = ld_state d, ld_owner = None\<rparr> = d" by (intro loot_drop.equality) simp_all
    then show ?thesis using None d(2) vals by (simp add: export_drop_def eq)
  next
    case (Some s)
    have s: "s \<in> set (map ca_sessionId (b_captured b))" "ld_state d = DropClaimed" using d(2) Some by simp_all
    have eq: "\<lparr>ld_drop = ld_drop d, ld_state = DropClaimed, ld_owner = Some s\<rparr> = d"
      using Some s(2) by (intro loot_drop.equality) simp_all
    note slot = session_slot[OF assms(1) s(1)]
    show ?thesis using Some s(2) vals slot by (simp add: export_drop_def eq)
  qed
qed

lemma drops_import:
  assumes "roster_ok b" "drops_ok (map ca_sessionId (b_captured b)) ds" "distinct (map (\<lambda>d. rd_dropId (ld_drop d)) (acc @ xs))"
    "set xs \<subseteq> set ds"
  shows "import_drops (b_participants b) acc (map (export_drop b) xs) = Some (acc @ xs)"
  using assms(3,4)
proof (induction xs arbitrary: acc)
  case (Cons x xs)
  have new: "\<not> list_ex (\<lambda>e. rd_dropId (ld_drop e) = rd_dropId (ld_drop x)) acc"
    using Cons.prems(1) by (auto simp: list_ex_iff image_iff)
  have "import_drops (b_participants b) (acc @ [x]) (map (export_drop b) xs) = Some ((acc @ [x]) @ xs)"
    using Cons.prems by (intro Cons.IH) simp_all
  then show ?case using drop_import[OF assms(1,2), of x acc "map (export_drop b) xs"] Cons.prems(2) new by simp
qed simp

lemma loot_import:
  assumes "battle_inv b" "roster_ok b" "no_loot b \<or> loot_ok b"
  shows "loot_drops (exportState b) (b_participants b) = Some (b_drops b)"
proof (cases "no_loot b")
  case True
  then show ?thesis by (simp add: loot_drops_def exportState_def no_loot_def)
next
  case False
  then have l: "loot_ok b" using assms(3) by simp
  then have drops: "drops_ok (map ca_sessionId (b_captured b)) (b_drops b)" by (simp add: loot_ok_def)
  then have dist: "distinct (map (\<lambda>d. rd_dropId (ld_drop d)) ([] @ b_drops b))" by (simp add: drops_ok_def)
  have "import_drops (b_participants b) [] (map (export_drop b) (b_drops b)) = Some (b_drops b)"
    using drops_import[OF assms(2) drops dist] by simp
  moreover have "(b_lootResolution b = LootOpen) = list_ex (\<lambda>d. ld_state d = DropAvailable) (b_drops b)"
    using l by (cases "b_lootResolution b") (auto simp: loot_ok_def list_ex_iff)
  ultimately show ?thesis
    using l roster_sessions(2)[OF assms(2)] by (simp add: loot_drops_def exportState_def loot_ok_def)
qed

definition holding_order :: "battle \<Rightarrow> holding list \<Rightarrow> holding list" where
  "holding_order b = sort_key (\<lambda>h. (slotForSession b (ho_sessionId h), item_value (ho_itemId h)))"

lemma holding_order_mset [simp]: "mset (holding_order b hs) = mset hs" "set (holding_order b hs) = set hs"
  by (simp_all add: holding_order_def)

lemma holding_order_nil [simp]: "holding_order b [] = []"
  by (simp add: holding_order_def)

lemma sort_key_map: "sort_key f (map g xs) = map g (sort_key (\<lambda>x. f (g x)) xs)"
proof -
  have "insort_key f (g x) (map g ys) = map g (insort_key (\<lambda>x. f (g x)) x ys)" for x ys
    by (induction ys) simp_all
  then show ?thesis by (induction xs) simp_all
qed

lemma exported_holdings: "im_holdings (exportState b) = map (export_holding b) (holding_order b (b_holdings b))"
  by (simp add: exportState_def sort_key_map holding_order_def holding_key_def export_holding_def)

lemma holdings_import:
  assumes "roster_ok b" "\<forall>h \<in> set hs. ho_sessionId h \<in> set (map ca_sessionId (b_captured b)) \<and> ho_quantity h \<noteq> 0 \<and>
    item_value (ho_itemId h) \<noteq> 0"
  shows "import_holdings (b_participants b) (map (export_holding b) hs) = Some hs"
  using assms(2)
proof (induction hs)
  case (Cons h hs)
  have s: "ho_sessionId h \<in> set (map ca_sessionId (b_captured b))" using Cons.prems by simp
  have "\<lparr>ho_sessionId = ho_sessionId h, ho_itemId = ho_itemId h, ho_quantity = ho_quantity h\<rparr> = h"
    by (intro holding.equality) simp_all
  then show ?case using Cons session_slot[OF assms(1) s] by (simp add: export_holding_def)
qed simp

lemma held_items:
  assumes "roster_ok b" "loot_ok b"
  shows "\<forall>h \<in> set (b_holdings b). ho_sessionId h \<in> set (map ca_sessionId (b_captured b)) \<and> ho_quantity h \<noteq> 0 \<and>
    unat (ho_quantity h) \<le> 10 \<and> (ho_itemId h = commonItemId \<or> ho_itemId h = rareItemId)"
proof
  fix h assume h: "h \<in> set (b_holdings b)"
  have len: "length (b_drops b) \<le> 10" "holdings_ok (b_drops b) (b_holdings b)"
    "drops_ok (map ca_sessionId (b_captured b)) (b_drops b)"
    using assms by (auto simp: loot_ok_def roster_ok_def)
  note bounds = holding_bounds[OF len(2,3,1) h]
  show "ho_sessionId h \<in> set (map ca_sessionId (b_captured b)) \<and> ho_quantity h \<noteq> 0 \<and>
    unat (ho_quantity h) \<le> 10 \<and> (ho_itemId h = commonItemId \<or> ho_itemId h = rareItemId)"
    by (intro conjI bounds)
qed

section \<open>The committed result\<close>

lemma result_slots_all:
  assumes "\<forall>e \<in> set es. valid_slot (length ps) (ie_slot e) \<and> imported_session ps (ie_slot e) \<noteq> None"
    "distinct (map (\<lambda>e. unat (ie_slot e) - 1) es)" "\<forall>e \<in> set es. \<not> seen ! (unat (ie_slot e) - 1)"
    "length seen = length ps"
  shows "\<exists>seen'. result_slots ps seen es = Some seen' \<and> length seen' = length ps \<and>
    (\<forall>i < length ps. seen' ! i \<longleftrightarrow> seen ! i \<or> (\<exists>e \<in> set es. unat (ie_slot e) - 1 = i))"
  using assms
proof (induction es arbitrary: seen)
  case (Cons e es)
  let ?i = "unat (ie_slot e) - 1"
  have "\<exists>seen'. result_slots ps (seen[?i := True]) es = Some seen' \<and> length seen' = length ps \<and>
    (\<forall>i < length ps. seen' ! i \<longleftrightarrow> seen[?i := True] ! i \<or> (\<exists>e \<in> set es. unat (ie_slot e) - 1 = i))"
  proof (rule Cons.IH)
    show "\<forall>d \<in> set es. \<not> seen[?i := True] ! (unat (ie_slot d) - 1)"
    proof
      fix d assume d: "d \<in> set es"
      then have "unat (ie_slot d) - 1 \<noteq> ?i" using Cons.prems(2) by (auto simp: image_iff)
      then show "\<not> seen[?i := True] ! (unat (ie_slot d) - 1)" using Cons.prems(3) d by simp
    qed
  qed (use Cons.prems in simp_all)
  then obtain seen' where IH: "result_slots ps (seen[?i := True]) es = Some seen'" "length seen' = length ps"
    "\<forall>i < length ps. seen' ! i \<longleftrightarrow> seen[?i := True] ! i \<or> (\<exists>e \<in> set es. unat (ie_slot e) - 1 = i)"
    by blast
  have "result_slots ps seen (e # es) = Some seen'" using Cons.prems(1,3) IH(1) by simp
  moreover have "seen' ! i \<longleftrightarrow> seen ! i \<or> (\<exists>d \<in> set (e # es). unat (ie_slot d) - 1 = i)" if "i < length ps" for i
    using IH(3) that Cons.prems(4) by (cases "i = ?i") auto
  ultimately show ?case using IH(2) by blast
qed auto

text \<open>The slots of the entries of a committed result are the slots of the roster, each once.\<close>

lemma entry_slots:
  assumes "roster_ok b" "mset (map en_sessionId es) = mset (map ca_sessionId (b_captured b))"
  shows "\<exists>seen. result_slots (b_participants b) (replicate (length (b_participants b)) False)
      (map (\<lambda>e. \<lparr>ie_slot = slotForSession b (en_sessionId e), ie_exitStatus = en_exitStatus e,
        ie_finalAssetValue = en_finalAssetValue e, ie_rank = en_rank e, ie_isTop = en_isTop e\<rparr>) es) = Some seen \<and>
      list_all id seen"
proof -
  let ?ps = "b_participants b"
  let ?im = "map (\<lambda>e. \<lparr>ie_slot = slotForSession b (en_sessionId e), ie_exitStatus = en_exitStatus e,
        ie_finalAssetValue = en_finalAssetValue e, ie_rank = en_rank e, ie_isTop = en_isTop e\<rparr>) es"
  have n: "length ?ps \<le> 10" using assms(1) roster_sessions(2)[OF assms(1)] by (simp add: roster_ok_def)
  have sessions: "set (map en_sessionId es) = set (map ca_sessionId (b_captured b))"
    using assms(2) by (rule mset_eq_setD)
  have dist: "distinct (map en_sessionId es)"
    using mset_eq_imp_distinct_iff[OF assms(2)] assms(1) by (simp add: roster_ok_def)
  have slot: "valid_slot (length ?ps) (slotForSession b s)" "imported_session ?ps (slotForSession b s) = Some s"
    if "s \<in> set (map en_sessionId es)" for s
    using session_slot[OF assms(1)] that sessions by simp_all
  have "inj_on (\<lambda>s. unat (slotForSession b s) - 1) (set (map en_sessionId es))"
  proof (rule inj_onI)
    fix s t assume st: "s \<in> set (map en_sessionId es)" "t \<in> set (map en_sessionId es)"
      "unat (slotForSession b s) - 1 = unat (slotForSession b t) - 1"
    have "unat (slotForSession b s) > 0" "unat (slotForSession b t) > 0"
      using slot(1) st by (auto simp: valid_slot_def unat_gt_0)
    then have "slotForSession b s = slotForSession b t" using st(3) by (intro word_unat_eq_iff[THEN iffD2]) simp
    then show "s = t" using slot(2) st(1,2) by (metis option.inject)
  qed
  then have "distinct (map (\<lambda>s. unat (slotForSession b s) - 1) (map en_sessionId es))"
    using dist by (subst distinct_map) simp
  then have slots: "distinct (map (\<lambda>e. unat (ie_slot e) - 1) ?im)" by (simp add: comp_def)
  have valid: "\<forall>e \<in> set ?im. valid_slot (length ?ps) (ie_slot e) \<and> imported_session ?ps (ie_slot e) \<noteq> None"
    using slot by auto
  have unseen: "\<forall>e \<in> set ?im. \<not> replicate (length ?ps) False ! (unat (ie_slot e) - 1)"
  proof
    fix e assume "e \<in> set ?im"
    then have "valid_slot (length ?ps) (ie_slot e)" using valid by blast
    then have "unat (ie_slot e) - 1 < length ?ps" by (auto simp: valid_slot_def unat_gt_0[symmetric])
    then show "\<not> replicate (length ?ps) False ! (unat (ie_slot e) - 1)" by simp
  qed
  obtain seen where seen: "result_slots ?ps (replicate (length ?ps) False) ?im = Some seen" "length seen = length ?ps"
    "\<forall>i < length ?ps. seen ! i \<longleftrightarrow> replicate (length ?ps) False ! i \<or> (\<exists>e \<in> set ?im. unat (ie_slot e) - 1 = i)"
    using result_slots_all[OF valid slots unseen] by auto
  have "seen ! i" if i: "i < length ?ps" for i
  proof -
    have "pt_sessionId (?ps ! i) \<in> set (map en_sessionId es)"
      unfolding sessions roster_sessions(1)[OF assms(1)] using i by simp
    then obtain e where e: "e \<in> set es" "en_sessionId e = pt_sessionId (?ps ! i)" by auto
    have "unat (slotForSession b (en_sessionId e)) - 1 = i"
      unfolding e(2) roster_slot(3)[OF assms(1) i] using slot_nat[of i] i n by simp
    then have "\<exists>d \<in> set ?im. unat (ie_slot d) - 1 = i" using e(1) by force
    then show ?thesis using seen(3) i by blast
  qed
  then have "list_all id seen" using seen(2) by (simp add: list_all_length)
  then show ?thesis using seen(1) by blast
qed

lemma sum_list_mset: "mset xs = mset ys \<Longrightarrow> sum_list xs = sum_list (ys :: nat list)"
  by (metis sum_mset_sum_list)

text \<open>The builder does not depend on the order of the holdings.\<close>

lemma build_holdings_order:
  assumes "bs_drops src = [] \<and> bs_holdings src = [] \<or> source_ok src \<and> ledger_ok src" "mset hs = mset (bs_holdings src)"
  shows "buildFinalResult (src\<lparr>bs_holdings := hs\<rparr>) v1Snapshot = buildFinalResult src v1Snapshot"
proof (cases "bs_drops src = [] \<and> bs_holdings src = []")
  case True
  then have "src\<lparr>bs_holdings := hs\<rparr> = src" using assms(2) by (intro build_source.equality) simp_all
  then show ?thesis by simp
next
  case False
  let ?src = "src\<lparr>bs_holdings := hs\<rparr>"
  have ok: "source_ok src" "ledger_ok src" using assms(1) False by auto
  have perm: "set hs = set (bs_holdings src)" "distinct (map f hs) \<longleftrightarrow> distinct (map f (bs_holdings src))"
    for f :: "holding \<Rightarrow> session_id \<times> item_id"
    using assms(2) mset_eq_setD mset_eq_imp_distinct_iff[of "map f hs" "map f (bs_holdings src)"] by auto
  have ok': "source_ok ?src" "ledger_ok ?src"
    using ok perm by (simp_all add: source_ok_def ledger_ok_def holdings_ok_def)
  obtain ts ts' where ts: "assetTotals v1Snapshot (bs_holdings src) (bs_captured src) = Inr ts"
    "assetTotals v1Snapshot hs (bs_captured src) = Inr ts'"
    using ledger_checks(5)[OF ok] ledger_checks(5)[OF ok'] by auto
  have "asset_value s hs = asset_value s (bs_holdings src)" for s
    unfolding asset_value_def by (rule sum_list_mset) (simp add: assms(2))
  then have "map unat ts' = map unat ts"
    using assetTotals_value[OF ts(1)] assetTotals_value[OF ts(2)] by simp
  then have same: "ts' = ts" by (rule map_injective) (auto simp: inj_def word_unat_eq_iff)
  have final: "final_result_of (src\<lparr>bs_holdings := hs'\<rparr>) es = final_result_of src es" for es hs'
    by (simp add: final_result_of_def)
  have empty: "hs = [] \<longleftrightarrow> bs_holdings src = []" using perm(1) by auto
  have "build_timeout ?src = build_timeout src" using assms(2) by (auto simp: build_timeout_def final)
  moreover have "build_defeated ?src v1Snapshot = build_defeated src v1Snapshot"
    using ts same ledger_checks(1-4)[OF ok] ledger_checks(1-4)[OF ok'] by (simp add: build_defeated_def final)
  moreover have "build_cancelled ?src v1Snapshot = build_cancelled src v1Snapshot"
    using ts same ledger_checks(1-4)[OF ok] ledger_checks(1-4)[OF ok'] empty
    by (simp add: build_cancelled_def final Let_def)
  ultimately show ?thesis by (simp add: buildFinalResult_def split: battle_outcome.split)
qed

lemma result_import:
  assumes "battle_inv b" "image_ok a b" "roster_ok b" "no_loot b \<or> loot_ok b" "b_committedResult b = Some fr"
    "b_roomId b0 = b_roomId b" "b_battleId b0 = b_battleId b" "im_terminalOutcome im = b_terminalOutcome b"
    "mset es = mset (fr_entries fr)"
  shows "rebuild_result b0 im (b_captured b) (b_participants b) (b_drops b) (holding_order b (b_holdings b))
    (export_result b (fr\<lparr>fr_entries := es\<rparr>)) = Some fr"
proof -
  let ?ps = "b_participants b" and ?src = "resultSource (fr_outcome fr) b"
  have gc: "b_state b = GameplayCommitted"
    using assms(1,5) by (cases rule: inv_cases) (auto simp: not_started_def)
  have com: "result_of b fr" "b_terminalOutcome b = Some (fr_outcome fr)" "b_lootResolution b \<noteq> LootOpen"
    using assms(1) gc assms(5) by (auto simp: battle_inv_def base_inv_def result_ok_def result_open_def result_committed_def)
  have adm: "admission_ok b" using assms(1) by (simp add: battle_inv_def base_inv_def)
  have build: "buildFinalResult ?src v1Snapshot = Inr fr" using assms(2,5) by (simp add: image_ok_def built_ok_def)
  have sessions: "mset (map en_sessionId (fr_entries fr)) = mset (map ca_sessionId (b_captured b))"
    using com(1) by (simp add: result_of_def)
  have listed: "mset (map en_sessionId es) = mset (map ca_sessionId (b_captured b))" "length es = length (fr_entries fr)"
    "set es = set (fr_entries fr)"
    using sessions assms(9) mset_eq_length[OF assms(9)] mset_eq_setD[OF assms(9)] by simp_all
  have dist: "distinct (map en_sessionId (fr_entries fr))"
    using mset_eq_imp_distinct_iff[OF sessions] assms(3) by (simp add: roster_ok_def)
  have "source_ok ?src" using adm assms(3) by (simp add: source_ok_def resultSource_def admission_ok_def roster_ok_def)
  moreover have "ledger_ok ?src" if "loot_ok b"
    using that com(3) by (cases "b_lootResolution b") (auto simp: ledger_ok_def resultSource_def loot_ok_def)
  ultimately have "bs_drops ?src = [] \<and> bs_holdings ?src = [] \<or> source_ok ?src \<and> ledger_ok ?src"
    using assms(4) by (auto simp: no_loot_def resultSource_def)
  from build_holdings_order[OF this, of "holding_order b (b_holdings b)"] build
  have built: "buildFinalResult (?src\<lparr>bs_holdings := holding_order b (b_holdings b)\<rparr>) v1Snapshot = Inr fr"
    by (simp add: resultSource_def)
  obtain seen where slots: "result_slots ?ps (replicate (length ?ps) False) (ir_entries (export_result b (fr\<lparr>fr_entries := es\<rparr>))) = Some seen"
    "list_all id seen"
    using entry_slots[OF assms(3) listed(1)] by (auto simp: export_result_def)
  have "entry_agrees ?ps (fr_entries fr) e" if e: "e \<in> set (ir_entries (export_result b (fr\<lparr>fr_entries := es\<rparr>)))" for e
  proof -
    obtain r where r: "r \<in> set (fr_entries fr)" "ie_slot e = slotForSession b (en_sessionId r)" "ie_exitStatus e = en_exitStatus r"
      "ie_finalAssetValue e = en_finalAssetValue r" "ie_rank e = en_rank r" "ie_isTop e = en_isTop r"
      using e listed(3) by (auto simp: export_result_def)
    have "en_sessionId r \<in> set (map ca_sessionId (b_captured b))" using r(1) mset_eq_setD[OF sessions] by auto
    from session_slot(2)[OF assms(3) this] have "imported_session ?ps (ie_slot e) = Some (en_sessionId r)"
      by (simp add: r(2))
    moreover have "find (\<lambda>q. en_sessionId q = en_sessionId r) (fr_entries fr) = Some r"
      using find_key_distinct[OF dist r(1)] .
    moreover have "find (\<lambda>q. en_sessionId r = en_sessionId q) (fr_entries fr) = find (\<lambda>q. en_sessionId q = en_sessionId r) (fr_entries fr)"
      by (rule find_cong) auto
    ultimately show ?thesis using r(3-) by (simp add: entry_agrees_def)
  qed
  then have "list_all (entry_agrees ?ps (fr_entries fr)) (ir_entries (export_result b (fr\<lparr>fr_entries := es\<rparr>)))"
    by (simp add: list_all_iff)
  then show ?thesis
    using slots com(2) built assms(6-8) listed(2)
    by (simp add: rebuild_result_def resultSource_def) (simp add: export_result_def)
qed

section \<open>The whole import\<close>

lemma results_import:
  assumes "battle_inv b" "image_ok a b" "b_roomId b0 = b_roomId b" "b_battleId b0 = b_battleId b"
    "\<And>fr. mset (es fr) = mset (fr_entries fr)"
  shows "imported_result b0 ((exportState b)\<lparr>im_committedResult :=
      map_option (\<lambda>fr. export_result b (fr\<lparr>fr_entries := es fr\<rparr>)) (b_committedResult b)\<rparr>)
    (b_captured b) (b_participants b) (b_drops b) (holding_order b (b_holdings b)) = Some (b_committedResult b)"
proof -
  have clock: "\<not> after (b_lootResultsCompletedAt b) (bt_nanos (b_time b))" using assms(2) by (simp add: image_ok_def clock_ok_def)
  from assms(1) show ?thesis
  proof (cases rule: inv_cases)
    case started
    have loot: "no_loot b \<or> loot_ok b" using started(3) by (auto simp: combat_ok_def)
    show ?thesis
    proof (cases "b_committedResult b")
      case None
      then have "b_resultState b = NotReady" using started(4) by (auto simp: result_ok_def result_open_def result_committed_def)
      moreover have "b_terminalOutcome b = None"
        using assms(1) started(1) calculation by (simp add: battle_inv_def open_ok_def)
      ultimately show ?thesis using None clock by (simp add: imported_result_def)
    next
      case (Some fr)
      then have "b_resultState b = Committed" using started(4) by (auto simp: result_ok_def result_open_def result_committed_def)
      then show ?thesis
        using Some started(1) clock result_import[OF assms(1,2) started(2) loot Some assms(3,4) _ assms(5)] by (simp add: imported_result_def)
    qed
  next
    case waiting
    then show ?thesis using clock by (simp add: imported_result_def not_started_def)
  qed
qed

lemma waiting_import:
  assumes "b_state b \<noteq> GameplayCommitted" "not_started b"
  shows "captured_participants b0 (exportState b) states = Some (b_captured b)"
    "participant_records b0 (exportState b) (b_captured b) = Some (b_participants b)"
    "loot_drops (exportState b) (b_participants b) = Some (b_drops b)"
    "import_holdings (b_participants b) (im_holdings (exportState b)) = Some (holding_order b (b_holdings b))"
  using assms
  by (simp_all add: not_started_def no_loot_def exportState_def captured_participants_def participant_records_def loot_drops_def)

text \<open>The other parts of the import do not look at the committed result.\<close>

lemma result_frame [simp]:
  "candidate_states b (im\<lparr>im_committedResult := r\<rparr>) = candidate_states b im"
  "captured_participants b (im\<lparr>im_committedResult := r\<rparr>) = captured_participants b im"
  "participant_records b (im\<lparr>im_committedResult := r\<rparr>) = participant_records b im"
  "combat_consistent i (im\<lparr>im_committedResult := r\<rparr>) = combat_consistent i im"
  "outcome_consistent (im\<lparr>im_committedResult := r\<rparr>) = outcome_consistent im"
  "deadlines_consistent (im\<lparr>im_committedResult := r\<rparr>) = deadlines_consistent im"
  "loot_drops (im\<lparr>im_committedResult := r\<rparr>) = loot_drops im"
  by (simp_all add: fun_eq_iff candidate_states_def captured_participants_def participant_records_def
      combat_consistent_def outcome_consistent_def deadlines_consistent_def loot_drops_def
      terminal_outcome_def cong: if_cong option.case_cong split del: if_split)

lemma result_frame_header [simp]: "import_header b (im\<lparr>im_committedResult := r\<rparr>) = import_header b im"
  by (simp add: import_header_def terminal_outcome_def cong: if_cong split del: if_split)

lemma body_import:
  assumes "battle_inv b" "image_ok a b" "map cd_identity (b_candidates b0) = as_candidates a"
    "b_roomId b0 = b_roomId b" "b_battleId b0 = b_battleId b" "b_rulesetVersion b0 = b_rulesetVersion b" "b_seed b0 = b_seed b"
    "\<And>fr. mset (es fr) = mset (fr_entries fr)"
  shows "import_body b0 ((exportState b)\<lparr>im_committedResult :=
      map_option (\<lambda>fr. export_result b (fr\<lparr>fr_entries := es fr\<rparr>)) (b_committedResult b)\<rparr>) =
    (if abandonedLoot b then None else Some (b\<lparr>b_holdings := holding_order b (b_holdings b)\<rparr>))"
proof -
  have ok: "cand_ok a b" "clock_ok b" "fields_ok b" using assms(2) by (simp_all add: image_ok_def)
  have adm: "admission_ok b" using assms(1) by (simp add: battle_inv_def base_inv_def)
  note cands = candidates_import[OF ok(1) assms(3) adm]
  note results = results_import[OF assms(1,2,4,5,8)]
  have parts: "captured_participants b0 (exportState b) (map cd_state (b_candidates b)) = Some (b_captured b) \<and>
      participant_records b0 (exportState b) (b_captured b) = Some (b_participants b) \<and>
      loot_drops (exportState b) (b_participants b) = Some (b_drops b) \<and>
      import_holdings (b_participants b) (im_holdings (exportState b)) = Some (holding_order b (b_holdings b))"
    using assms(1)
  proof (cases rule: inv_cases)
    case started
    have loot: "no_loot b \<or> loot_ok b" using started(3) by (auto simp: combat_ok_def)
    have held: "\<forall>h \<in> set (holding_order b (b_holdings b)). ho_sessionId h \<in> set (map ca_sessionId (b_captured b)) \<and>
        ho_quantity h \<noteq> 0 \<and> item_value (ho_itemId h) \<noteq> 0"
    proof (cases "loot_ok b")
      case True
      then show ?thesis using held_items[OF started(2) True] by (auto simp: commonItemId_def rareItemId_def)
    qed (use loot in \<open>simp add: no_loot_def\<close>)
    show ?thesis
      using captured_import[OF ok(1) assms(3) adm started(1,2)] participants_import[OF ok(1) assms(3) adm started(1,2) ok(2) assms(5)]
        loot_import[OF assms(1) started(2) loot] holdings_import[OF started(2) held] exported_holdings by simp
  next
    case waiting
    then show ?thesis using waiting_import by blast
  qed
  have consistent: "combat_consistent (b_battleId b0) (exportState b)" "outcome_consistent (exportState b) = (\<not> abandonedLoot b)"
    "deadlines_consistent (exportState b)"
    using combat_import[OF assms(1) ok(3)] outcome_import[OF assms(1)] deadlines_import[OF assms(1) ok(3)] assms(5) by simp_all
  show ?thesis
    using parts consistent cands results assms(4-7)
    by (auto simp: import_body_def intro!: battle.equality)
qed

lemma reached_image:
  assumes "createBattle a = Inr b0" "battle_run ops b0 = Some b" "list_all (\<lambda>op. time_valid (op_time op)) ops"
  shows "image_ok a b"
  using run_image[OF create_inv created_image assms(3,2)] assms(1) by blast

text \<open>The entries of the committed result may be listed in any order.\<close>

lemma image_import:
  assumes "battle_inv b" "image_ok a b" "evolves b0 b" "map cd_identity (b_candidates b0) = as_candidates a"
    "\<And>fr. mset (es fr) = mset (fr_entries fr)"
  shows "importState b0 ((exportState b)\<lparr>im_committedResult :=
      map_option (\<lambda>fr. export_result b (fr\<lparr>fr_entries := es fr\<rparr>)) (b_committedResult b)\<rparr>) =
    (if abandonedLoot b then Inl ImportInvariantBroken
     else Inr (b\<lparr>b_holdings := holding_order b (b_holdings b)\<rparr>))"
proof -
  have "length (b_candidates b0) = length (b_candidates b)"
    using assms(2,4) by (metis cand_ok_def image_ok_def length_map)
  then show ?thesis
    using header_import[OF assms(1-3)] body_import[OF assms(1,2,4) _ _ _ _ assms(5)] assms(3)
    by (simp add: importState_def evolves_def)
qed

lemma reached_import:
  assumes "createBattle a = Inr b0" "battle_run ops b0 = Some b" "list_all (\<lambda>op. time_valid (op_time op)) ops"
  shows "importState b0 (exportState b) =
    (if abandonedLoot b then Inl ImportInvariantBroken
     else Inr (b\<lparr>b_holdings := holding_order b (b_holdings b)\<rparr>))"
proof -
  have inv: "battle_inv b" by (rule reached_inv[OF assms(1,2)])
  have ok: "image_ok a b" by (rule reached_image[OF assms])
  have ev: "evolves b0 b" using reached_evolves[OF assms(1) _ assms(2), of "[]"] by simp
  have cands: "map cd_identity (b_candidates b0) = as_candidates a"
    using created_image[OF assms(1)] by (simp add: image_ok_def cand_ok_def)
  have same: "(exportState b)\<lparr>im_committedResult := map_option (export_result b) (b_committedResult b)\<rparr> = exportState b"
    by (intro battle_image.equality) simp_all
  then show ?thesis using image_import[OF inv ok ev cands, of fr_entries] by (simp add: same)
qed

section \<open>Recovery\<close>

lemma holding_order_slot [simp]: "slotForSession (b\<lparr>b_holdings := hs\<rparr>) s = slotForSession b s"
  by (simp add: slotForSession_def participantRecord_def)

lemma holding_order_exports [simp]:
  "export_holding (b\<lparr>b_holdings := hs\<rparr>) = export_holding b" "export_drop (b\<lparr>b_holdings := hs\<rparr>) = export_drop b"
  "export_result (b\<lparr>b_holdings := hs\<rparr>) = export_result b"
  by (simp_all add: fun_eq_iff export_holding_def export_drop_def export_result_def cong: option.case_cong)

text \<open>The order of the holdings is lost by the image, and only once.\<close>

lemma export_ordered: "exportState (b\<lparr>b_holdings := holding_order b (b_holdings b)\<rparr>) = exportState b"
proof -
  have "holding_order (b\<lparr>b_holdings := hs\<rparr>) = holding_order b" for hs
    by (simp add: holding_order_def fun_eq_iff)
  moreover have "holding_order b (holding_order b hs) = holding_order b hs" for hs
    unfolding holding_order_def by (rule sort_key_sorted) simp
  ultimately have "im_holdings (exportState (b\<lparr>b_holdings := holding_order b (b_holdings b)\<rparr>)) = im_holdings (exportState b)"
    unfolding exported_holdings by simp
  then show ?thesis by (simp add: exportState_def)
qed

lemma abandoned_iff:
  "abandonedLoot b \<longleftrightarrow> b_terminalOutcome b = Some OutcomeCancelled \<and> b_combatTerminal b \<noteq> None"
  by (rule abandonedLoot_def)

text \<open>Property C3. Whatever operations a battle has gone through, in any order and at any times, its
  exported image is accepted by the import into the freshly created battle and gives back the
  battle: every candidate, participant, stored result, deadline, drop, holding and the committed
  result, which is built again from the ledger and compared. Only the order in which the holdings
  are listed is normalised, and exporting the restored battle gives the same image. The exception is
  a battle that everybody left while its loot was open.\<close>

theorem image_restores_battle:
  assumes "createBattle a = Inr b0" "battle_run ops b0 = Some b" "list_all (\<lambda>op. time_valid (op_time op)) ops"
    "\<not> (b_terminalOutcome b = Some OutcomeCancelled \<and> b_combatTerminal b \<noteq> None)"
  shows "\<exists>hs. mset hs = mset (b_holdings b) \<and> importState b0 (exportState b) = Inr (b\<lparr>b_holdings := hs\<rparr>) \<and>
    exportState (b\<lparr>b_holdings := hs\<rparr>) = exportState b"
  using reached_import[OF assms(1-3)] assms(4) export_ordered
  by (intro exI[of _ "holding_order b (b_holdings b)"]) (simp add: abandoned_iff)

definition exampleClaims :: "battle_op list" where
  "exampleClaims = exampleStart @ exampleFight @ [Claim exampleClaim (fromLogicalTick 160)]"

lemma example_times: "list_all (\<lambda>op. time_valid (op_time op)) exampleClaims"
  by code_simp

lemma example_claims:
  "map_option (\<lambda>b. (b_terminalOutcome b, length (b_holdings b))) (battle_run exampleClaims (newBattle exampleAdmission)) =
     Some (None, 1)"
  by code_simp

theorem image_restores_battle_witness:
  "\<exists>b. battle_run exampleClaims (newBattle exampleAdmission) = Some b \<and> length (b_holdings b) = 1 \<and>
     (\<exists>hs. mset hs = mset (b_holdings b) \<and>
        importState (newBattle exampleAdmission) (exportState b) = Inr (b\<lparr>b_holdings := hs\<rparr>))"
proof -
  obtain b where b: "battle_run exampleClaims (newBattle exampleAdmission) = Some b" "b_terminalOutcome b = None"
    "length (b_holdings b) = 1"
    using example_claims by auto
  then show ?thesis using image_restores_battle[OF example_created b(1) example_times] by auto
qed

text \<open>Property C20. A battle that is cancelled after its combat was decided, because everybody left while
  the loot was open, keeps its combat terminal event and commits a cancellation result; the import
  refuses the image of that battle as broken, so such a battle is not restored. The witness is a
  battle of two players who defeat the monster and leave.\<close>

theorem abandoned_loot_refused:
  assumes "createBattle a = Inr b0" "battle_run ops b0 = Some b" "list_all (\<lambda>op. time_valid (op_time op)) ops"
    "b_terminalOutcome b = Some OutcomeCancelled" "b_combatTerminal b \<noteq> None"
  shows "b_resultState b = Committed \<and> (\<exists>fr. b_committedResult b = Some fr \<and> fr_outcome fr = OutcomeCancelled) \<and>
    importState b0 (exportState b) = Inl ImportInvariantBroken"
proof -
  have inv: "battle_inv b" by (rule reached_inv[OF assms(1,2)])
  have started: "b_state b = GameplayCommitted" "combat_ok b" "result_ok b"
    using inv assms(5) by (auto elim!: inv_cases simp: not_started_def)
  have com: "b_resultState b = Committed"
    using result_ok_state[OF started(3)] inv started(1) assms(4) by (auto simp: battle_inv_def open_ok_def)
  then have res: "result_committed b" using result_ok_state[OF started(3)] by auto
  then obtain fr where fr: "b_committedResult b = Some fr" "fr_outcome fr = OutcomeCancelled"
    using assms(4) by (auto simp: result_committed_def)
  then show ?thesis using com fr reached_import[OF assms(1-3)] assms(4,5) by (simp add: abandoned_iff)
qed

definition exampleAbandoned :: "battle_op list" where
  "exampleAbandoned = exampleStart @ exampleFight @
     [LeaveParticipant (exampleCommand 1) (fromLogicalTick 160), LeaveParticipant (exampleCommand 2) (fromLogicalTick 161)]"

lemma abandoned_times: "list_all (\<lambda>op. time_valid (op_time op)) exampleAbandoned"
  by code_simp

lemma example_abandoned:
  "map_option (\<lambda>b. (b_terminalOutcome b, b_combatTerminal b = None, b_lootResolution b))
     (battle_run exampleAbandoned (newBattle exampleAdmission)) = Some (Some OutcomeCancelled, False, LootResolved)"
  by code_simp

theorem abandoned_loot_refused_witness:
  "\<exists>b. battle_run exampleAbandoned (newBattle exampleAdmission) = Some b \<and> b_resultState b = Committed \<and>
     b_lootResolution b = LootResolved \<and> importState (newBattle exampleAdmission) (exportState b) = Inl ImportInvariantBroken"
proof -
  obtain b where b: "battle_run exampleAbandoned (newBattle exampleAdmission) = Some b"
    "b_terminalOutcome b = Some OutcomeCancelled" "b_combatTerminal b \<noteq> None" "b_lootResolution b = LootResolved"
    using example_abandoned by auto
  then show ?thesis using abandoned_loot_refused[OF example_created b(1) abandoned_times b(2,3)] b(4) by auto
qed

end
