(* ===== verification/ByteCodec.thy ===== *)
theory ByteCodec
  imports BigEndian
begin

text \<open>
  The readers and writers of the binary formats (the \<open>Writer\<close> and \<open>Reader\<close> of
  \<open>BattleStateCodec.cpp\<close>, the \<open>ReadCursor\<close> and \<open>append\<close> functions of \<open>RecordCodec.cpp\<close>). A reader
  maps a cursor (the position and the bytes that remain of the view) to a failure with its position
  or to a value and the next cursor. The locale \<open>codec\<close> is the contract between the writer and the
  reader of a value; it is closed under the ways in which the formats are put together.
\<close>

section \<open>Readers\<close>

datatype read_fail = ReadTruncated | ReadBoolean | ReadLength

type_synonym cursor = "nat \<times> bytes"

type_synonym 'a reader = "cursor \<Rightarrow> (read_fail \<times> nat) + 'a \<times> cursor"

definition get_return :: "'a \<Rightarrow> 'a reader" where
  "get_return x c = Inr (x, c)"

definition get_bind :: "'a reader \<Rightarrow> ('a \<Rightarrow> 'b reader) \<Rightarrow> 'b reader" where
  "get_bind g f c = (case g c of Inl e \<Rightarrow> Inl e | Inr (x, c') \<Rightarrow> f x c')"

definition get_fail :: "read_fail \<Rightarrow> nat \<Rightarrow> 'a reader" where
  "get_fail code back c = Inl (code, fst c - back)"

definition get_take :: "nat \<Rightarrow> bytes reader" where
  "get_take n c = (if length (snd c) < n then Inl (ReadTruncated, fst c)
     else Inr (take n (snd c), (fst c + n, drop n (snd c))))"

definition get_word :: "'a::len word reader" where
  "get_word = get_bind (get_take (LENGTH('a) div 8)) (\<lambda>bs. get_return (be_value bs))"

definition put_word :: "'a::len word \<Rightarrow> bytes" where
  "put_word = be_bytes (LENGTH('a) div 8)"

text \<open>A signed 32-bit integer has the bits of the unsigned one.\<close>

definition get_i32 :: "int reader" where
  "get_i32 = get_bind (get_word :: u32 reader) (\<lambda>w. get_return (sint w))"

definition put_i32 :: "int \<Rightarrow> bytes" where
  "put_i32 x = put_word (word_of_int x :: u32)"

definition i32 :: "int \<Rightarrow> bool" where
  "i32 x \<longleftrightarrow> -(2 ^ 31) \<le> x \<and> x < 2 ^ 31"

definition get_boolean :: "bool reader" where
  "get_boolean = get_bind (get_word :: byte reader)
     (\<lambda>raw. if 1 < raw then get_fail ReadBoolean 1 else get_return (raw = 1))"

definition put_boolean :: "bool \<Rightarrow> bytes" where
  "put_boolean x = put_word (if x then 1 else 0 :: byte)"

text \<open>An optional value is a presence byte and the value.\<close>

definition get_optional :: "'a reader \<Rightarrow> 'a option reader" where
  "get_optional g = get_bind (get_word :: byte reader)
     (\<lambda>present. if 1 < present then get_fail ReadBoolean 1
        else if present = 0 then get_return None
        else get_bind g (\<lambda>x. get_return (Some x)))"

definition put_optional :: "('a \<Rightarrow> bytes) \<Rightarrow> 'a option \<Rightarrow> bytes" where
  "put_optional put x = put_boolean (x \<noteq> None) @ (case x of None \<Rightarrow> [] | Some y \<Rightarrow> put y)"

fun get_items :: "nat \<Rightarrow> 'a reader \<Rightarrow> 'a list reader" where
  "get_items 0 g = get_return []"
| "get_items (Suc n) g = get_bind g (\<lambda>x. get_bind (get_items n g) (\<lambda>xs. get_return (x # xs)))"

definition put_items :: "('a \<Rightarrow> bytes) \<Rightarrow> 'a list \<Rightarrow> bytes" where
  "put_items put xs = concat (map put xs)"

text \<open>A list with a 16-bit count between two bounds; outside them the failure is at the count.\<close>

definition get_list :: "nat \<Rightarrow> nat \<Rightarrow> 'a reader \<Rightarrow> 'a list reader" where
  "get_list lo hi g = get_bind (get_word :: u16 reader)
     (\<lambda>count. if unat count < lo \<or> hi < unat count then get_fail ReadLength 2 else get_items (unat count) g)"

definition put_list :: "('a \<Rightarrow> bytes) \<Rightarrow> 'a list \<Rightarrow> bytes" where
  "put_list put xs = put_word (of_nat (length xs) :: u16) @ put_items put xs"

section \<open>The contract\<close>

locale codec =
  fixes get :: "'a reader" and put :: "'a \<Rightarrow> bytes" and ok :: "'a \<Rightarrow> bool"
  assumes reads: "ok x \<Longrightarrow> get (p, put x @ rest) = Inr (x, (p + length (put x), rest))"
    and exact: "get c = Inr (x, c') \<Longrightarrow> ok x \<and> snd c = put x @ snd c' \<and> fst c' = fst c + length (put x)"
begin

lemma reads_all: "ok x \<Longrightarrow> get (p, put x) = Inr (x, (p + length (put x), []))"
  using reads[of x p "[]"] by simp

lemma reads_whole: "get (p, bs) = Inr (x, (q, [])) \<longleftrightarrow> ok x \<and> bs = put x \<and> q = p + length (put x)"
proof
  assume "get (p, bs) = Inr (x, (q, []))"
  from exact[OF this] show "ok x \<and> bs = put x \<and> q = p + length (put x)" by simp
next
  assume "ok x \<and> bs = put x \<and> q = p + length (put x)"
  then show "get (p, bs) = Inr (x, (q, []))" using reads_all[of x p] by blast
qed

lemma put_inject: "ok x \<Longrightarrow> ok y \<Longrightarrow> put x = put y \<Longrightarrow> x = y"
  by (metis reads_all Inr_inject prod.inject)

text \<open>No encoding is a proper prefix of another.\<close>

lemma prefix_free:
  assumes "ok x" "ok y" "put x @ r = put y @ s"
  shows "x = y \<and> r = s"
proof -
  have "Inr (x, (0 + length (put x), r)) = get (0, put x @ r)" by (rule reads[OF assms(1), symmetric])
  also have "\<dots> = get (0, put y @ s)" by (rule arg_cong[OF assms(3)])
  also have "\<dots> = Inr (y, (0 + length (put y), s))" by (rule reads[OF assms(2)])
  finally show ?thesis by simp
qed

end

section \<open>Reading step by step\<close>

lemma get_return_apply [simp]: "get_return x c = Inr (x, c)"
  by (simp add: get_return_def)

lemma get_bind_Inl [simp]: "g c = Inl e \<Longrightarrow> get_bind g f c = Inl e"
  by (simp add: get_bind_def)

lemma get_bind_Inr [simp]: "g c = Inr (x, c') \<Longrightarrow> get_bind g f c = f x c'"
  by (simp add: get_bind_def)

lemma get_bindE:
  assumes "get_bind g f c = Inr r"
  obtains x c' where "g c = Inr (x, c')" "f x c' = Inr r"
  using assms by (auto simp: get_bind_def split: sum.splits)

lemma get_fail_apply [simp]: "get_fail code back c \<noteq> Inr r"
  by (simp add: get_fail_def)

lemma get_take_reads [simp]: "length bs = n \<Longrightarrow> get_take n (p, bs @ rest) = Inr (bs, (p + n, rest))"
  by (auto simp: get_take_def)

lemma get_take_exact:
  "get_take n c = Inr (bs, c') \<Longrightarrow> length bs = n \<and> snd c = bs @ snd c' \<and> fst c' = fst c + n"
  by (auto simp: get_take_def split: if_splits)

lemma take_codec: "codec (get_take n) id (\<lambda>bs. length bs = n)"
  by unfold_locales (auto dest: get_take_exact)

lemma length_put_word [simp]: "length (put_word (w :: 'a::len word)) = LENGTH('a) div 8"
  by (simp add: put_word_def)

lemma word_codec:
  assumes "8 dvd LENGTH('a::len)"
  shows "codec (get_word :: 'a word reader) put_word (\<lambda>_. True)"
proof
  have full: "LENGTH('a) \<le> 8 * (LENGTH('a) div 8)" using assms by simp
  fix x :: "'a word" and p rest
  show "get_word (p, put_word x @ rest) = Inr (x, (p + length (put_word x), rest))"
    by (simp add: get_word_def put_word_def be_value_bytes_full[OF full])
next
  fix x :: "'a word" and c c'
  assume "get_word c = Inr (x, c')"
  then obtain bs where bs: "get_take (LENGTH('a) div 8) c = Inr (bs, c')" "x = be_value bs"
    by (auto simp: get_word_def elim!: get_bindE)
  note take = get_take_exact[OF bs(1)]
  then have "put_word x = bs"
    using be_bytes_value[of bs, where 'a = 'a] assms bs(2) by (simp add: put_word_def)
  then show "True \<and> snd c = put_word x @ snd c' \<and> fst c' = fst c + length (put_word x)"
    using take by simp
qed

lemma word_lengths: "8 dvd LENGTH(8)" "8 dvd LENGTH(16)" "8 dvd LENGTH(32)" "8 dvd LENGTH(64)"
  by simp_all

interpretation u8_codec: codec "get_word :: byte reader" put_word "\<lambda>_. True"
  by (rule word_codec) simp

interpretation u16_codec: codec "get_word :: u16 reader" put_word "\<lambda>_. True"
  by (rule word_codec) simp

interpretation u32_codec: codec "get_word :: u32 reader" put_word "\<lambda>_. True"
  by (rule word_codec) simp

interpretation u64_codec: codec "get_word :: u64 reader" put_word "\<lambda>_. True"
  by (rule word_codec) simp

lemma i32_codec: "codec get_i32 put_i32 i32"
proof
  fix x p rest assume "i32 x"
  then have "sint (word_of_int x :: u32) = x"
    by (simp add: i32_def sint_sbintrunc' signed_take_bit_int_eq_self)
  then show "get_i32 (p, put_i32 x @ rest) = Inr (x, (p + length (put_i32 x), rest))"
    using u32_codec.reads[of p "word_of_int x" rest] by (simp add: get_i32_def put_i32_def)
next
  fix x c c' assume "get_i32 c = Inr (x, c')"
  then obtain w :: u32 where w: "get_word c = Inr (w, c')" "x = sint w" by (auto simp: get_i32_def elim!: get_bindE)
  then show "i32 x \<and> snd c = put_i32 x @ snd c' \<and> fst c' = fst c + length (put_i32 x)"
    using u32_codec.exact[OF w(1)] sint_range_size[of w] by (simp add: put_i32_def i32_def word_size)
qed

lemma byte_le_1: "\<not> 1 < (b :: byte) \<longleftrightarrow> b = 0 \<or> b = 1"
proof -
  have "b \<le> 1 \<longleftrightarrow> unat b = 0 \<or> unat b = 1" by (auto simp: word_le_nat_alt)
  then show ?thesis by (simp add: not_less word_unat_eq_iff)
qed

lemma boolean_codec: "codec get_boolean put_boolean (\<lambda>_. True)"
proof
  fix x p rest
  show "get_boolean (p, put_boolean x @ rest) = Inr (x, (p + length (put_boolean x), rest))"
    using u8_codec.reads[of p "if x then 1 else 0" rest] by (simp add: get_boolean_def put_boolean_def)
next
  fix x c c' assume "get_boolean c = Inr (x, c')"
  then obtain raw :: byte where raw: "get_word c = Inr (raw, c')" "\<not> 1 < raw" "x = (raw = 1)"
    by (auto simp: get_boolean_def elim!: get_bindE split: if_splits)
  then have "raw = (if x then 1 else 0)" using byte_le_1[of raw] by auto
  then show "True \<and> snd c = put_boolean x @ snd c' \<and> fst c' = fst c + length (put_boolean x)"
    using u8_codec.exact[OF raw(1)] by (simp add: put_boolean_def)
qed

section \<open>Closure\<close>

lemma optional_codec:
  assumes "codec g put ok"
  shows "codec (get_optional g) (put_optional put) (\<lambda>x. \<forall>y. x = Some y \<longrightarrow> ok y)"
proof
  fix x p rest assume ok: "\<forall>y. x = Some y \<longrightarrow> ok y"
  have present: "get_word (p, put_boolean (x \<noteq> None) @ r) = Inr (if x \<noteq> None then 1 else 0 :: byte, (p + 1, r))" for r
    using u8_codec.reads[of p "if x \<noteq> None then 1 else 0" r] by (simp add: put_boolean_def)
  show "get_optional g (p, put_optional put x @ rest) = Inr (x, (p + length (put_optional put x), rest))"
  proof (cases x)
    case None
    then show ?thesis using present[of rest] by (simp add: get_optional_def put_optional_def put_boolean_def)
  next
    case (Some y)
    then show ?thesis
      using present[of "put y @ rest"] ok codec.reads[OF assms, of y "p + 1" rest]
      by (simp add: get_optional_def put_optional_def put_boolean_def)
  qed
next
  fix x c c' assume "get_optional g c = Inr (x, c')"
  then obtain present :: byte and c1 where pr: "get_word c = Inr (present, c1)" "\<not> 1 < present"
    "(if present = 0 then get_return None else get_bind g (\<lambda>x. get_return (Some x))) c1 = Inr (x, c')"
    unfolding get_optional_def by (auto elim!: get_bindE split: if_splits)
  note word = u8_codec.exact[OF pr(1)]
  show "(\<forall>y. x = Some y \<longrightarrow> ok y) \<and> snd c = put_optional put x @ snd c' \<and> fst c' = fst c + length (put_optional put x)"
  proof (cases "present = 0")
    case True
    then show ?thesis using pr(3) word by (simp add: put_optional_def put_boolean_def)
  next
    case False
    then have one: "present = 1" using byte_le_1[of present] pr(2) by simp
    obtain y where y: "g c1 = Inr (y, c')" "x = Some y" using pr(3) False by (auto elim!: get_bindE)
    show ?thesis
      using word codec.exact[OF assms y(1)] y(2) one by (simp add: put_optional_def put_boolean_def)
  qed
qed

lemma put_items_simps [simp]:
  "put_items put [] = []" "put_items put (x # xs) = put x @ put_items put xs"
  by (simp_all add: put_items_def)

lemma length_put_items:
  assumes "\<And>x. length (put x) \<le> n"
  shows "length (put_items put xs) \<le> n * length xs"
  using assms by (induction xs) (auto intro: add_mono)

lemma items_codec:
  assumes "codec g put ok"
  shows "codec (get_items n g) (put_items put) (\<lambda>xs. length xs = n \<and> (\<forall>x \<in> set xs. ok x))"
proof
  fix xs p rest assume "length xs = n \<and> (\<forall>x \<in> set xs. ok x)"
  then show "get_items n g (p, put_items put xs @ rest) = Inr (xs, (p + length (put_items put xs), rest))"
  proof (induction xs arbitrary: n p)
    case (Cons x xs)
    then obtain m where n: "n = Suc m" "length xs = m" by auto
    have "get_items m g (p + length (put x), put_items put xs @ rest) =
        Inr (xs, (p + length (put x) + length (put_items put xs), rest))"
      using Cons.prems n(2) by (intro Cons.IH) auto
    then show ?case
      using codec.reads[OF assms, of x p "put_items put xs @ rest"] Cons.prems n(1) by (simp add: add.assoc)
  qed simp
next
  fix xs c c' assume "get_items n g c = Inr (xs, c')"
  then show "(length xs = n \<and> (\<forall>x \<in> set xs. ok x)) \<and> snd c = put_items put xs @ snd c' \<and>
    fst c' = fst c + length (put_items put xs)"
  proof (induction n arbitrary: xs c)
    case (Suc n)
    then obtain x c1 ys where x: "g c = Inr (x, c1)" "get_items n g c1 = Inr (ys, c')" "xs = x # ys"
      by (auto elim!: get_bindE)
    show ?case using codec.exact[OF assms x(1)] Suc.IH[OF x(2)] x(3) by auto
  qed simp
qed

lemma list_codec:
  assumes "codec g put ok" "hi < 2 ^ 16"
  shows "codec (get_list lo hi g) (put_list put) (\<lambda>xs. lo \<le> length xs \<and> length xs \<le> hi \<and> (\<forall>x \<in> set xs. ok x))"
proof
  fix xs p rest assume xs: "lo \<le> length xs \<and> length xs \<le> hi \<and> (\<forall>x \<in> set xs. ok x)"
  then have n: "unat (of_nat (length xs) :: u16) = length xs"
    using assms(2) by (simp add: unat_of_nat take_bit_nat_eq_self)
  show "get_list lo hi g (p, put_list put xs @ rest) = Inr (xs, (p + length (put_list put xs), rest))"
    using u16_codec.reads[of p "of_nat (length xs)" "put_items put xs @ rest"] xs n
      codec.reads[OF items_codec[OF assms(1), of "length xs"], of xs "p + 2" rest]
    by (simp add: get_list_def put_list_def)
next
  fix xs c c' assume "get_list lo hi g c = Inr (xs, c')"
  then obtain count :: u16 and c1 where r: "get_word c = Inr (count, c1)" "\<not> (unat count < lo \<or> hi < unat count)"
    "get_items (unat count) g c1 = Inr (xs, c')"
    by (auto simp: get_list_def elim!: get_bindE split: if_splits)
  note items = codec.exact[OF items_codec[OF assms(1)] r(3)]
  have "of_nat (length xs) = count" using items by simp
  then show "(lo \<le> length xs \<and> length xs \<le> hi \<and> (\<forall>x \<in> set xs. ok x)) \<and> snd c = put_list put xs @ snd c' \<and>
    fst c' = fst c + length (put_list put xs)"
    using u16_codec.exact[OF r(1)] items r(2) by (simp add: put_list_def)
qed

text \<open>A record is read field by field: the rest of the reader reads the records whose field is what
  was read.\<close>

lemma field_codec:
  assumes "codec g put ok" "\<And>x. ok x \<Longrightarrow> codec (f x) q (\<lambda>r. P r \<and> sel r = x)" "\<And>r. P r \<Longrightarrow> ok (sel r)"
  shows "codec (get_bind g f) (\<lambda>r. put (sel r) @ q r) P"
proof
  fix r p rest assume r: "P r"
  show "get_bind g f (p, (put (sel r) @ q r) @ rest) = Inr (r, (p + length (put (sel r) @ q r), rest))"
    using codec.reads[OF assms(1), of "sel r" p "q r @ rest"] r assms(3)[OF r]
      codec.reads[OF assms(2), of "sel r" r "p + length (put (sel r))" rest] by (simp add: add.assoc)
next
  fix r c c' assume "get_bind g f c = Inr (r, c')"
  then obtain x c1 where x: "g c = Inr (x, c1)" "f x c1 = Inr (r, c')" by (rule get_bindE)
  note first = codec.exact[OF assms(1) x(1)]
  then have "codec (f x) q (\<lambda>r. P r \<and> sel r = x)" by (intro assms(2)) simp
  note rest = codec.exact[OF this x(2)]
  show "P r \<and> snd c = (put (sel r) @ q r) @ snd c' \<and> fst c' = fst c + length (put (sel r) @ q r)"
    using first rest by simp
qed

lemma last_codec:
  assumes "codec g put ok" "\<And>x r. ok x \<Longrightarrow> P r \<and> sel r = x \<longleftrightarrow> r = F x" "\<And>r. P r \<Longrightarrow> ok (sel r)"
  shows "codec (get_bind g (\<lambda>x. get_return (F x))) (\<lambda>r. put (sel r)) P"
proof -
  have "codec (get_return (F x)) (\<lambda>_. []) (\<lambda>r. P r \<and> sel r = x)" if "ok x" for x
    using assms(2)[OF that] by unfold_locales auto
  from field_codec[OF assms(1) this assms(3)] show ?thesis by simp
qed

lemma codec_weaken:
  "codec g put ok \<Longrightarrow> (\<And>x. ok' x = ok x) \<Longrightarrow> codec g put ok'"
  by (simp add: codec_def)

text \<open>The codecs of the basic fields, and how a record uses a field.\<close>

lemmas basic_codecs = u8_codec.codec_axioms u16_codec.codec_axioms u32_codec.codec_axioms u64_codec.codec_axioms
  i32_codec boolean_codec
  optional_codec[OF u8_codec.codec_axioms] optional_codec[OF u16_codec.codec_axioms]
  optional_codec[OF u32_codec.codec_axioms] optional_codec[OF u64_codec.codec_axioms]

lemmas fields = basic_codecs[THEN field_codec]

lemmas lasts = basic_codecs[THEN last_codec]

section \<open>Checks\<close>

text \<open>A validation is a list of checks, each with its error; the first check that fails decides.\<close>

fun first_error :: "('a \<Rightarrow> 'e option) \<Rightarrow> 'a list \<Rightarrow> 'e option" where
  "first_error f [] = None"
| "first_error f (x # xs) = (case f x of None \<Rightarrow> first_error f xs | Some e \<Rightarrow> Some e)"

definition check :: "bool \<Rightarrow> 'e \<Rightarrow> 'e option" where
  "check failed e = (if failed then Some e else None)"

text \<open>A sequence of checks: the first failure is reported.\<close>

abbreviation checks :: "'e option list \<Rightarrow> 'e option" where
  "checks \<equiv> first_error (\<lambda>c. c)"

lemma first_error_None [simp]: "first_error f xs = None \<longleftrightarrow> (\<forall>x \<in> set xs. f x = None)"
  by (induction xs) (auto split: option.splits)

declare first_error.simps [simp del]

lemma check_None [simp]: "check failed e = None \<longleftrightarrow> \<not> failed"
  by (simp add: check_def)

section \<open>Enumerations\<close>

text \<open>An enumeration of the code: its numbers and the values that its validity switch lists.\<close>

definition enum_value :: "('e \<Rightarrow> 'w) \<Rightarrow> 'e list \<Rightarrow> 'w \<Rightarrow> 'e option" where
  "enum_value code vals raw = find (\<lambda>e. code e = raw) vals"

locale enumeration =
  fixes code :: "'e \<Rightarrow> 'w" and vals :: "'e list"
  assumes all_vals: "e \<in> set vals" and code_inject: "code e = code e' \<longleftrightarrow> e = e'"
begin

lemma value_code: "enum_value code vals (code e) = Some e"
  using all_vals[of e] unfolding enum_value_def code_inject
  by (induction vals) auto

lemma valid_code: "enum_value code vals raw \<noteq> None \<longleftrightarrow> (\<exists>e. raw = code e)"
proof
  assume "enum_value code vals raw \<noteq> None"
  then obtain e where "find (\<lambda>e. code e = raw) vals = Some e" by (auto simp: enum_value_def)
  then show "\<exists>e. raw = code e" using find_set by fastforce
qed (auto simp: value_code)

lemma code_value: "enum_value code vals raw \<noteq> None \<Longrightarrow> code (the (enum_value code vals raw)) = raw"
  using valid_code by (auto simp: value_code)

end

end
