(* ===== verification/RecordCodec.thy ===== *)
theory RecordCodec
  imports ByteCodec Crc BattleTime
begin

unbundle bit_operations_syntax

text \<open>
  The journal records of \<open>game-server/modules/battle-continuity/src/RecordCodec.cpp\<close>: their
  validation, \<open>encodeRecord\<close> and \<open>decodeRecord\<close>. The digest of the state is computed by OpenSSL
  (\<open>EVP_Digest\<close>), a parameter \<open>digest\<close> of the model. The theory shows that the decoder is the
  inverse of the encoder and that no record survives the change of one byte.
\<close>

section \<open>Data\<close>

datatype record_type = BattleStartRecord | DecisionRecord | CheckpointRecord | TerminalRecord | CommitRecord

fun record_code :: "record_type \<Rightarrow> u16" where
  "record_code BattleStartRecord = 1" | "record_code DecisionRecord = 2" | "record_code CheckpointRecord = 3"
| "record_code TerminalRecord = 4" | "record_code CommitRecord = 5"

text \<open>The switch of \<open>isKnownRecordType\<close>.\<close>

definition record_vals :: "record_type list" where
  "record_vals = [BattleStartRecord, DecisionRecord, CheckpointRecord, TerminalRecord, CommitRecord]"

interpretation record_enum: enumeration record_code record_vals
proof
  show "e \<in> set record_vals" for e by (cases e) (simp_all add: record_vals_def)
  show "record_code e = record_code e' \<longleftrightarrow> e = e'" for e e' by (cases e; cases e') simp_all
qed

record record_header =
  jh_type :: record_type
  jh_sequence :: u64
  jh_origin :: u32
  jh_writer :: u32
  jh_roomId :: room_id
  jh_battleId :: battle_id
  jh_tick :: u64
  jh_elapsed :: u64

datatype record_command = RecordCommand (rc_high: u64) (rc_low: u64)

record start_participant =
  sp_slot :: u16
  sp_sessionId :: session_id

record start_payload =
  bs_rulesetVersion :: u32
  bs_seed :: u64
  bs_tickHertz :: u32
  bs_initialHash :: bytes
  bs_participants :: "start_participant list"

record decision_payload =
  cd_slot :: u16
  cd_kind :: u16
  cd_commandId :: record_command
  cd_code :: u16
  cd_command :: bytes
  cd_outcome :: bytes
  cd_roomState :: bytes
  cd_postHash :: bytes

record checkpoint_payload =
  ck_schemaVersion :: u16
  ck_state :: bytes
  ck_hash :: bytes

record settlement_receipt =
  se_slot :: u16
  se_id :: bytes
  se_payloadHash :: bytes

record terminal_payload =
  tr_reason :: u16
  tr_finalHash :: bytes
  tr_result :: bytes
  tr_unixMs :: u64
  tr_elapsed :: u64
  tr_batchId :: bytes
  tr_intentCount :: u16
  tr_settlements :: "settlement_receipt list"

record commit_payload =
  tc_first :: u64
  tc_last :: u64
  tc_count :: u32
  tc_hash :: bytes

datatype record_payload =
    StartPayload start_payload
  | DecisionPayload decision_payload
  | CheckpointPayload checkpoint_payload
  | TerminalPayload terminal_payload
  | CommitPayload commit_payload

record journal_record =
  jr_header :: record_header
  jr_payload :: record_payload

datatype record_error =
    RecordTruncated | RecordTrailingBytes | RecordInvalidMagic | UnsupportedRecordSchema | UnsupportedRecordType
  | RecordInvalidLength | RecordTooLarge | JournalTooLarge | ChecksumMismatch | RecordInvalidIdentity
  | RecordInvalidTime | RecordInvalidPayload | RecordUnsupportedRuleset | RecordInvalidSequence | IdentityMismatch
  | CheckpointHashMismatch | RecordHashUnavailable | BatchInvariantViolation | WriterEpochRegression
  | WriterEpochPerBatch | JournalNotCommitted

definition recordMagic :: u32 where
  "recordMagic = 0x4C424331"

abbreviation recordEnvelopeBytes :: nat where
  "recordEnvelopeBytes \<equiv> 68"

abbreviation maximumRecordBytes :: nat where
  "maximumRecordBytes \<equiv> 1048576"

text \<open>The arrays of the code have a fixed size.\<close>

fun payload_sized :: "record_payload \<Rightarrow> bool" where
  "payload_sized (StartPayload p) = (length (bs_initialHash p) = 32)"
| "payload_sized (DecisionPayload p) = (length (cd_postHash p) = 32)"
| "payload_sized (CheckpointPayload p) = (length (ck_hash p) = 32)"
| "payload_sized (TerminalPayload p) = (length (tr_finalHash p) = 32 \<and> length (tr_batchId p) = 16 \<and>
     list_all (\<lambda>s. length (se_id s) = 16 \<and> length (se_payloadHash s) = 32) (tr_settlements p))"
| "payload_sized (CommitPayload p) = (length (tc_hash p) = 32)"

definition record_sized :: "journal_record \<Rightarrow> bool" where
  "record_sized r \<longleftrightarrow> payload_sized (jr_payload r)"

section \<open>Checksum and digest\<close>

definition crc32_bit :: "u32 \<Rightarrow> u32" where
  "crc32_bit crc = drop_bit 1 crc XOR (0xEDB88320 AND - (crc AND 1))"

definition crc32 :: "bytes \<Rightarrow> u32" where
  "crc32 bs = foldl (\<lambda>crc b. (crc32_bit ^^ 8) (crc XOR ucast b)) 0xFFFFFFFF bs XOR 0xFFFFFFFF"

text \<open>The result of \<open>EVP_Digest\<close> counts only when it has the size of a hash.\<close>

definition canonicalStateHash :: "(bytes \<Rightarrow> bytes option) \<Rightarrow> bytes \<Rightarrow> bytes option" where
  "canonicalStateHash digest state =
     (case digest state of None \<Rightarrow> None | Some d \<Rightarrow> if length d \<noteq> 32 then None else Some d)"

section \<open>Validation\<close>

definition validateHeader :: "record_header \<Rightarrow> record_error option" where
  "validateHeader h =
     (let room = room_value (jh_roomId h); origin = (ucast (drop_bit 32 room) :: u32); ordinal = (ucast room :: u32)
      in if jh_sequence h = 0 \<or> jh_origin h = 0 \<or> jh_writer h = 0 \<or> room = 0 \<or> battle_value (jh_battleId h) = 0 \<or>
            origin = 0 \<or> ordinal = 0 \<or> origin \<noteq> jh_origin h
         then Some RecordInvalidIdentity
         else if (- 1) div tickNanos < jh_tick h \<or> jh_elapsed h \<noteq> jh_tick h * tickNanos
         then Some RecordInvalidTime
         else None)"

fun participants_ascend :: "u16 \<Rightarrow> start_participant list \<Rightarrow> bool" where
  "participants_ascend previous [] = True"
| "participants_ascend previous (p # ps) =
     (sp_slot p \<noteq> 0 \<and> session_value (sp_sessionId p) \<noteq> 0 \<and> previous < sp_slot p \<and> participants_ascend (sp_slot p) ps)"

definition validateBattleStart :: "start_payload \<Rightarrow> record_error option" where
  "validateBattleStart p =
     (if bs_rulesetVersion p \<noteq> 1 then Some RecordUnsupportedRuleset
      else if bs_seed p = 0 \<or> bs_tickHertz p \<noteq> 20 \<or> length (bs_participants p) < 2 \<or> 10 < length (bs_participants p)
      then Some RecordInvalidPayload
      else if \<not> participants_ascend 0 (bs_participants p) then Some RecordInvalidPayload
      else None)"

definition validateCommandDecision :: "decision_payload \<Rightarrow> record_error option" where
  "validateCommandDecision p =
     (if 10 < cd_slot p \<or> 2 ^ 32 \<le> length (cd_command p) \<or> 2 ^ 32 \<le> length (cd_outcome p) \<or>
         2 ^ 32 \<le> length (cd_roomState p)
      then Some RecordInvalidPayload else None)"

definition validateCheckpoint :: "(bytes \<Rightarrow> bytes option) \<Rightarrow> checkpoint_payload \<Rightarrow> record_error option" where
  "validateCheckpoint digest p =
     (if ck_schemaVersion p \<noteq> 1 \<or> 2 ^ 32 \<le> length (ck_state p) then Some RecordInvalidPayload
      else case canonicalStateHash digest (ck_state p) of
             None \<Rightarrow> Some RecordHashUnavailable
           | Some h \<Rightarrow> if h \<noteq> ck_hash p then Some CheckpointHashMismatch else None)"

text \<open>The loop over the settlements: \<open>ids\<close> are the identifiers of the earlier ones.\<close>

fun settlements_ascend :: "u16 \<Rightarrow> bytes list \<Rightarrow> settlement_receipt list \<Rightarrow> bool" where
  "settlements_ascend previous ids [] = True"
| "settlements_ascend previous ids (s # ss) =
     (se_slot s \<noteq> 0 \<and> previous < se_slot s \<and> se_id s \<notin> set ids \<and>
      settlements_ascend (se_slot s) (se_id s # ids) ss)"

definition validateTerminal :: "terminal_payload \<Rightarrow> record_header \<Rightarrow> record_error option" where
  "validateTerminal p h =
     (if unat (tr_intentCount p) \<noteq> length (tr_settlements p) \<or> 2 ^ 16 \<le> length (tr_settlements p) \<or>
         tr_elapsed p \<noteq> jh_elapsed h \<or> 2 ^ 32 \<le> length (tr_result p)
      then Some RecordInvalidPayload
      else if \<not> settlements_ascend 0 [] (tr_settlements p) then Some RecordInvalidPayload
      else None)"

definition validateTickCommit :: "commit_payload \<Rightarrow> record_error option" where
  "validateTickCommit p =
     (if tc_first p = 0 \<or> tc_last p = 0 \<or> tc_last p < tc_first p \<or> tc_count p = 0
      then Some RecordInvalidPayload else None)"

fun payloadRecordType :: "record_payload \<Rightarrow> record_type" where
  "payloadRecordType (StartPayload _) = BattleStartRecord"
| "payloadRecordType (DecisionPayload _) = DecisionRecord"
| "payloadRecordType (CheckpointPayload _) = CheckpointRecord"
| "payloadRecordType (TerminalPayload _) = TerminalRecord"
| "payloadRecordType (CommitPayload _) = CommitRecord"

definition validatePayload :: "(bytes \<Rightarrow> bytes option) \<Rightarrow> journal_record \<Rightarrow> record_error option" where
  "validatePayload digest r =
     (let h = jr_header r
      in if payloadRecordType (jr_payload r) \<noteq> jh_type h then Some RecordInvalidPayload
         else case jr_payload r of
                StartPayload p \<Rightarrow>
                  if jh_tick h \<noteq> 0 \<or> jh_elapsed h \<noteq> 0 then Some RecordInvalidTime else validateBattleStart p
              | DecisionPayload p \<Rightarrow> validateCommandDecision p
              | CheckpointPayload p \<Rightarrow> validateCheckpoint digest p
              | TerminalPayload p \<Rightarrow> validateTerminal p h
              | CommitPayload p \<Rightarrow> validateTickCommit p)"

fun dataStateHash :: "record_payload \<Rightarrow> bytes option" where
  "dataStateHash (StartPayload p) = Some (bs_initialHash p)"
| "dataStateHash (DecisionPayload p) = Some (cd_postHash p)"
| "dataStateHash (CheckpointPayload p) = Some (ck_hash p)"
| "dataStateHash (TerminalPayload p) = Some (tr_finalHash p)"
| "dataStateHash (CommitPayload p) = None"

section \<open>Writers\<close>

text \<open>Bytes with a 32-bit length.\<close>

definition put_blob :: "bytes \<Rightarrow> bytes" where
  "put_blob bs = put_word (of_nat (length bs) :: u32) @ bs"

definition put_start_participant :: "start_participant \<Rightarrow> bytes" where
  "put_start_participant p = put_word (sp_slot p) @ put_word (session_value (sp_sessionId p))"

definition put_start :: "start_payload \<Rightarrow> bytes" where
  "put_start p = put_word (bs_rulesetVersion p) @ put_word (bs_seed p) @ put_word (bs_tickHertz p) @
     bs_initialHash p @ put_list put_start_participant (bs_participants p)"

definition put_decision :: "decision_payload \<Rightarrow> bytes" where
  "put_decision p = put_word (cd_slot p) @ put_word (cd_kind p) @ put_word (rc_high (cd_commandId p)) @
     put_word (rc_low (cd_commandId p)) @ put_word (cd_code p) @ put_blob (cd_command p) @ put_blob (cd_outcome p) @
     put_blob (cd_roomState p) @ cd_postHash p"

definition put_checkpoint :: "checkpoint_payload \<Rightarrow> bytes" where
  "put_checkpoint p = put_word (ck_schemaVersion p) @ put_blob (ck_state p) @ ck_hash p"

definition put_settlement :: "settlement_receipt \<Rightarrow> bytes" where
  "put_settlement s = put_word (se_slot s) @ se_id s @ se_payloadHash s"

definition put_terminal_receipt :: "terminal_payload \<Rightarrow> bytes" where
  "put_terminal_receipt p = put_word (tr_reason p) @ tr_finalHash p @ put_blob (tr_result p) @ put_word (tr_unixMs p) @
     put_word (tr_elapsed p) @ tr_batchId p @ put_word (tr_intentCount p) @
     put_items put_settlement (tr_settlements p)"

definition put_commit :: "commit_payload \<Rightarrow> bytes" where
  "put_commit p = put_word (tc_first p) @ put_word (tc_last p) @ put_word (tc_count p) @ tc_hash p"

fun encodePayload :: "record_payload \<Rightarrow> bytes" where
  "encodePayload (StartPayload p) = put_start p"
| "encodePayload (DecisionPayload p) = put_decision p"
| "encodePayload (CheckpointPayload p) = put_checkpoint p"
| "encodePayload (TerminalPayload p) = put_terminal_receipt p"
| "encodePayload (CommitPayload p) = put_commit p"

definition put_header_fields :: "record_header \<Rightarrow> bytes" where
  "put_header_fields h = put_word (jh_sequence h) @ put_word (jh_origin h) @ put_word (jh_writer h) @
     put_word (room_value (jh_roomId h)) @ put_word (battle_value (jh_battleId h)) @ put_word (jh_tick h) @
     put_word (jh_elapsed h)"

text \<open>The bytes of a record up to the checksum.\<close>

definition record_body :: "journal_record \<Rightarrow> bytes" where
  "record_body r =
     (let payload = encodePayload (jr_payload r)
      in put_word recordMagic @ put_word (1 :: u16) @ put_word (record_code (jh_type (jr_header r))) @
         put_word (of_nat (recordEnvelopeBytes + length payload) :: u32) @ put_header_fields (jr_header r) @
         put_word (of_nat (length payload) :: u32) @ payload)"

definition record_bytes :: "journal_record \<Rightarrow> bytes" where
  "record_bytes r = record_body r @ put_word (crc32 (record_body r))"

definition encodeRecord :: "(bytes \<Rightarrow> bytes option) \<Rightarrow> journal_record \<Rightarrow> record_error \<times> nat + bytes" where
  "encodeRecord digest r =
     (case validateHeader (jr_header r) of
        Some e \<Rightarrow> Inl (e, 0)
      | None \<Rightarrow>
          (case validatePayload digest r of
             Some e \<Rightarrow> Inl (e, 0)
           | None \<Rightarrow>
               if maximumRecordBytes - recordEnvelopeBytes < length (encodePayload (jr_payload r))
               then Inl (RecordTooLarge, 0)
               else Inr (record_bytes r)))"

section \<open>Readers\<close>

definition get_blob :: "bytes reader" where
  "get_blob = get_bind (get_word :: u32 reader) (\<lambda>count. get_take (unat count))"

definition get_start_participant :: "start_participant reader" where
  "get_start_participant = get_bind get_word (\<lambda>slot. get_bind get_word (\<lambda>sessionId.
     get_return \<lparr>sp_slot = slot, sp_sessionId = SessionId sessionId\<rparr>))"

definition get_start :: "start_payload reader" where
  "get_start = get_bind get_word (\<lambda>ruleset. get_bind get_word (\<lambda>seed. get_bind get_word (\<lambda>hertz.
     get_bind (get_take 32) (\<lambda>hash. get_bind (get_list 2 10 get_start_participant) (\<lambda>ps.
     get_return \<lparr>bs_rulesetVersion = ruleset, bs_seed = seed, bs_tickHertz = hertz, bs_initialHash = hash,
       bs_participants = ps\<rparr>)))))"

definition get_decision :: "decision_payload reader" where
  "get_decision = get_bind get_word (\<lambda>slot. get_bind get_word (\<lambda>kind. get_bind get_word (\<lambda>high. get_bind get_word (\<lambda>low.
     get_bind get_word (\<lambda>code. get_bind get_blob (\<lambda>command. get_bind get_blob (\<lambda>outcome. get_bind get_blob (\<lambda>room.
     get_bind (get_take 32) (\<lambda>hash. get_return \<lparr>cd_slot = slot, cd_kind = kind, cd_commandId = RecordCommand high low,
       cd_code = code, cd_command = command, cd_outcome = outcome, cd_roomState = room, cd_postHash = hash\<rparr>)))))))))"

definition get_checkpoint :: "checkpoint_payload reader" where
  "get_checkpoint = get_bind get_word (\<lambda>schema. get_bind get_blob (\<lambda>state. get_bind (get_take 32) (\<lambda>hash.
     get_return \<lparr>ck_schemaVersion = schema, ck_state = state, ck_hash = hash\<rparr>)))"

definition get_settlement :: "settlement_receipt reader" where
  "get_settlement = get_bind get_word (\<lambda>slot. get_bind (get_take 16) (\<lambda>i. get_bind (get_take 32) (\<lambda>hash.
     get_return \<lparr>se_slot = slot, se_id = i, se_payloadHash = hash\<rparr>)))"

definition get_terminal_receipt :: "terminal_payload reader" where
  "get_terminal_receipt = get_bind get_word (\<lambda>reason. get_bind (get_take 32) (\<lambda>hash. get_bind get_blob (\<lambda>result.
     get_bind get_word (\<lambda>unixMs. get_bind get_word (\<lambda>elapsed. get_bind (get_take 16) (\<lambda>batch. get_bind get_word (\<lambda>count.
     get_bind (get_items (unat count) get_settlement) (\<lambda>settlements.
     get_return \<lparr>tr_reason = reason, tr_finalHash = hash, tr_result = result, tr_unixMs = unixMs, tr_elapsed = elapsed,
       tr_batchId = batch, tr_intentCount = count, tr_settlements = settlements\<rparr>))))))))"

definition get_commit :: "commit_payload reader" where
  "get_commit = get_bind get_word (\<lambda>first. get_bind get_word (\<lambda>lst. get_bind get_word (\<lambda>cnt. get_bind (get_take 32) (\<lambda>hash.
     get_return \<lparr>tc_first = first, tc_last = lst, tc_count = cnt, tc_hash = hash\<rparr>))))"

fun get_payload :: "record_type \<Rightarrow> record_payload reader" where
  "get_payload BattleStartRecord = get_bind get_start (\<lambda>p. get_return (StartPayload p))"
| "get_payload DecisionRecord = get_bind get_decision (\<lambda>p. get_return (DecisionPayload p))"
| "get_payload CheckpointRecord = get_bind get_checkpoint (\<lambda>p. get_return (CheckpointPayload p))"
| "get_payload TerminalRecord = get_bind get_terminal_receipt (\<lambda>p. get_return (TerminalPayload p))"
| "get_payload CommitRecord = get_bind get_commit (\<lambda>p. get_return (CommitPayload p))"

definition decodePayload :: "record_header \<Rightarrow> bytes \<Rightarrow> record_error \<times> nat + journal_record" where
  "decodePayload h payload =
     (case get_payload (jh_type h) (0, payload) of
        Inl _ \<Rightarrow> Inl (RecordTruncated, 0)
      | Inr (p, c) \<Rightarrow>
          if fst c \<noteq> length payload then Inl (RecordInvalidLength, 0) else Inr \<lparr>jr_header = h, jr_payload = p\<rparr>)"

text \<open>Magic number, schema, record type and record length.\<close>

definition get_preamble :: "(u32 \<times> u16 \<times> u16 \<times> u32) reader" where
  "get_preamble = get_bind get_word (\<lambda>magic. get_bind get_word (\<lambda>schema. get_bind get_word (\<lambda>raw. get_bind get_word (\<lambda>recordLength.
     get_return (magic, schema, raw, recordLength)))))"

definition get_header_fields :: "record_type \<Rightarrow> record_header reader" where
  "get_header_fields t = get_bind get_word (\<lambda>sequence. get_bind get_word (\<lambda>origin. get_bind get_word (\<lambda>writer.
     get_bind get_word (\<lambda>room. get_bind get_word (\<lambda>battle. get_bind get_word (\<lambda>tick. get_bind get_word (\<lambda>elapsed.
     get_return \<lparr>jh_type = t, jh_sequence = sequence, jh_origin = origin, jh_writer = writer, jh_roomId = RoomId room,
       jh_battleId = BattleInstanceId battle, jh_tick = tick, jh_elapsed = elapsed\<rparr>)))))))"

text \<open>The second half of \<open>decodeRecord\<close>: the header and the payload of a record whose checksum holds.\<close>

definition decode_checked ::
  "(bytes \<Rightarrow> bytes option) \<Rightarrow> record_type \<Rightarrow> nat \<Rightarrow> bytes \<Rightarrow> record_error \<times> nat + journal_record" where
  "decode_checked digest t recordLength bs =
     (case get_bind get_preamble (\<lambda>_. get_header_fields t) (0, bs) of
        Inl _ \<Rightarrow> Inl (RecordTruncated, 0)
      | Inr (h, c) \<Rightarrow>
     (case (get_word :: u32 reader) c of
        Inl _ \<Rightarrow> Inl (RecordTruncated, 60)
      | Inr (payloadLength, c') \<Rightarrow>
     if recordLength \<noteq> recordEnvelopeBytes + unat payloadLength then Inl (RecordInvalidLength, 8)
     else if recordLength - recordEnvelopeBytes < unat payloadLength then Inl (RecordInvalidLength, 60)
     else (case get_take (unat payloadLength) c' of
        Inl _ \<Rightarrow> Inl (RecordTruncated, fst c')
      | Inr (payload, _) \<Rightarrow>
     (case validateHeader h of
        Some e \<Rightarrow> Inl (e, 0)
      | None \<Rightarrow>
     (case decodePayload h payload of
        Inl e \<Rightarrow> Inl e
      | Inr r \<Rightarrow>
     (case validatePayload digest r of Some e \<Rightarrow> Inl (e, recordEnvelopeBytes) | None \<Rightarrow> Inr r))))))"

definition checksum_holds :: "nat \<Rightarrow> bytes \<Rightarrow> bool" where
  "checksum_holds recordLength bs =
     (case get_word (0, drop (recordLength - 4) bs) of
        Inl _ \<Rightarrow> False
      | Inr (expected, _) \<Rightarrow> expected = crc32 (take (recordLength - 4) bs))"

definition decodeRecord :: "(bytes \<Rightarrow> bytes option) \<Rightarrow> bytes \<Rightarrow> record_error \<times> nat + journal_record" where
  "decodeRecord digest bs =
     (if length bs < recordEnvelopeBytes then Inl (RecordTruncated, 0)
      else case get_preamble (0, bs) of
        Inl _ \<Rightarrow> Inl (RecordTruncated, 0)
      | Inr ((magic, schema, raw, recordLength), _) \<Rightarrow>
     if magic \<noteq> recordMagic then Inl (RecordInvalidMagic, 0)
     else if schema \<noteq> 1 then Inl (UnsupportedRecordSchema, 4)
     else (case enum_value record_code record_vals raw of
        None \<Rightarrow> Inl (UnsupportedRecordType, 6)
      | Some t \<Rightarrow>
     if unat recordLength < recordEnvelopeBytes then Inl (RecordInvalidLength, 8)
     else if maximumRecordBytes < unat recordLength then Inl (RecordTooLarge, 8)
     else if length bs < unat recordLength then Inl (RecordTruncated, length bs)
     else if unat recordLength < length bs then Inl (RecordTrailingBytes, unat recordLength)
     else if \<not> checksum_holds (unat recordLength) bs then Inl (ChecksumMismatch, unat recordLength - 4)
     else decode_checked digest t (unat recordLength) bs))"

section \<open>The readers and writers are codecs\<close>

lemma blob_codec: "codec get_blob put_blob (\<lambda>bs. length bs < 2 ^ 32)"
  unfolding get_blob_def put_blob_def[abs_def]
proof (rule codec.intro)
  fix bs :: bytes and p rest assume "length bs < 2 ^ 32"
  then have n: "unat (of_nat (length bs) :: u32) = length bs"
    by (simp add: unat_of_nat take_bit_nat_eq_self)
  show "get_bind (get_word :: u32 reader) (\<lambda>count. get_take (unat count)) (p, (put_word (of_nat (length bs) :: u32) @ bs) @ rest) =
      Inr (bs, (p + length (put_word (of_nat (length bs) :: u32) @ bs), rest))"
    using u32_codec.reads[of p "of_nat (length bs)" "bs @ rest"] n by simp
next
  fix bs :: bytes and c c' assume "get_bind (get_word :: u32 reader) (\<lambda>count. get_take (unat count)) c = Inr (bs, c')"
  then obtain w :: u32 and c1 where w: "get_word c = Inr (w, c1)" "get_take (unat w) c1 = Inr (bs, c')" by (rule get_bindE)
  note take = get_take_exact[OF w(2)]
  have "unat w < 2 ^ 32" using unsigned_less[of w] by simp
  moreover have "of_nat (length bs) = w" using take by simp
  ultimately show "length bs < 2 ^ 32 \<and> snd c = (put_word (of_nat (length bs) :: u32) @ bs) @ snd c' \<and>
      fst c' = fst c + length (put_word (of_nat (length bs) :: u32) @ bs)"
    using u32_codec.exact[OF w(1)] take by simp
qed

lemma array_codec: "codec (get_take n) (\<lambda>bs. bs) (\<lambda>bs. length bs = n)"
  using take_codec[of n] by (simp add: id_def)

lemmas record_fields = fields array_codec[THEN field_codec] blob_codec[THEN field_codec]

lemmas record_lasts = lasts array_codec[THEN last_codec] blob_codec[THEN last_codec]

lemma start_participant_codec: "codec get_start_participant put_start_participant (\<lambda>_. True)"
  unfolding get_start_participant_def put_start_participant_def[abs_def]
  by (intro record_fields record_lasts) (auto intro: start_participant.equality)

lemma start_codec:
  "codec get_start put_start (\<lambda>p. length (bs_initialHash p) = 32 \<and> 2 \<le> length (bs_participants p) \<and>
     length (bs_participants p) \<le> 10)"
  unfolding get_start_def put_start_def[abs_def]
  by (intro record_fields list_codec[OF start_participant_codec, THEN last_codec]) (auto intro: start_payload.equality)

lemma decision_codec:
  "codec get_decision put_decision (\<lambda>p. length (cd_command p) < 2 ^ 32 \<and> length (cd_outcome p) < 2 ^ 32 \<and>
     length (cd_roomState p) < 2 ^ 32 \<and> length (cd_postHash p) = 32)"
  unfolding get_decision_def put_decision_def[abs_def]
  by (intro record_fields record_lasts) (auto intro!: decision_payload.equality record_command.expand)

lemma checkpoint_codec:
  "codec get_checkpoint put_checkpoint (\<lambda>p. length (ck_state p) < 2 ^ 32 \<and> length (ck_hash p) = 32)"
  unfolding get_checkpoint_def put_checkpoint_def[abs_def]
  by (intro record_fields record_lasts) (auto intro: checkpoint_payload.equality)

lemma settlement_codec:
  "codec get_settlement put_settlement (\<lambda>s. length (se_id s) = 16 \<and> length (se_payloadHash s) = 32)"
  unfolding get_settlement_def put_settlement_def[abs_def]
  by (intro record_fields record_lasts) (auto intro: settlement_receipt.equality)

lemma terminal_receipt_codec:
  "codec get_terminal_receipt put_terminal_receipt (\<lambda>p. length (tr_finalHash p) = 32 \<and> length (tr_result p) < 2 ^ 32 \<and>
     length (tr_batchId p) = 16 \<and> length (tr_settlements p) = unat (tr_intentCount p) \<and>
     (\<forall>s \<in> set (tr_settlements p). length (se_id s) = 16 \<and> length (se_payloadHash s) = 32))"
  unfolding get_terminal_receipt_def put_terminal_receipt_def[abs_def]
  by (intro record_fields items_codec[OF settlement_codec, THEN last_codec]) (auto intro!: terminal_payload.equality)

lemma commit_codec: "codec get_commit put_commit (\<lambda>p. length (tc_hash p) = 32)"
  unfolding get_commit_def put_commit_def[abs_def]
  by (intro record_fields record_lasts) (auto intro: commit_payload.equality)

text \<open>What the bytes of a payload can carry.\<close>

fun payload_ok :: "record_payload \<Rightarrow> bool" where
  "payload_ok (StartPayload p) \<longleftrightarrow> 2 \<le> length (bs_participants p) \<and> length (bs_participants p) \<le> 10"
| "payload_ok (DecisionPayload p) \<longleftrightarrow> length (cd_command p) < 2 ^ 32 \<and> length (cd_outcome p) < 2 ^ 32 \<and>
     length (cd_roomState p) < 2 ^ 32"
| "payload_ok (CheckpointPayload p) \<longleftrightarrow> length (ck_state p) < 2 ^ 32"
| "payload_ok (TerminalPayload p) \<longleftrightarrow> length (tr_result p) < 2 ^ 32 \<and> length (tr_settlements p) = unat (tr_intentCount p)"
| "payload_ok (CommitPayload p) \<longleftrightarrow> True"

text \<open>A reader of one alternative of a variant.\<close>

lemma variant_codec:
  assumes "codec g put ok" "\<And>x. enc (con x) = put x" "\<And>x. ok' (con x) = ok x" "\<And>y. ok' y \<Longrightarrow> \<exists>x. y = con x"
  shows "codec (get_bind g (\<lambda>x. get_return (con x))) enc ok'"
proof
  fix y p rest assume y: "ok' y"
  then obtain x where "y = con x" using assms(4) by blast
  then show "get_bind g (\<lambda>x. get_return (con x)) (p, enc y @ rest) = Inr (y, (p + length (enc y), rest))"
    using codec.reads[OF assms(1), of x p rest] assms(2,3) y by simp
next
  fix y c c' assume "get_bind g (\<lambda>x. get_return (con x)) c = Inr (y, c')"
  then obtain x where x: "g c = Inr (x, c')" "y = con x" by (auto elim!: get_bindE)
  then show "ok' y \<and> snd c = enc y @ snd c' \<and> fst c' = fst c + length (enc y)"
    using codec.exact[OF assms(1) x(1)] assms(2,3) x(2) by simp
qed

lemma payload_codec:
  "codec (get_payload t) encodePayload (\<lambda>p. payloadRecordType p = t \<and> payload_ok p \<and> payload_sized p)"
proof (cases t)
  case BattleStartRecord
  show ?thesis unfolding BattleStartRecord get_payload.simps
    by (rule variant_codec[OF start_codec]) (auto elim: payloadRecordType.elims)
next
  case DecisionRecord
  show ?thesis unfolding DecisionRecord get_payload.simps
    by (rule variant_codec[OF decision_codec]) (auto elim: payloadRecordType.elims)
next
  case CheckpointRecord
  show ?thesis unfolding CheckpointRecord get_payload.simps
    by (rule variant_codec[OF checkpoint_codec]) (auto elim: payloadRecordType.elims)
next
  case TerminalRecord
  show ?thesis unfolding TerminalRecord get_payload.simps
    by (rule variant_codec[OF terminal_receipt_codec]) (auto simp: list_all_iff elim: payloadRecordType.elims)
next
  case CommitRecord
  show ?thesis unfolding CommitRecord get_payload.simps
    by (rule variant_codec[OF commit_codec]) (auto elim: payloadRecordType.elims)
qed

lemma header_codec: "codec (get_header_fields t) put_header_fields (\<lambda>h. jh_type h = t)"
  unfolding get_header_fields_def put_header_fields_def[abs_def]
  by (intro fields lasts) (simp_all, auto intro!: record_header.equality)

lemma preamble_codec:
  "codec get_preamble (\<lambda>(magic, schema, raw, recordLength). put_word magic @ put_word schema @ put_word raw @ put_word recordLength)
     (\<lambda>_. True)"
proof -
  have "codec get_preamble (\<lambda>p. put_word (fst p) @ put_word (fst (snd p)) @ put_word (fst (snd (snd p))) @
      put_word (snd (snd (snd p)))) (\<lambda>_. True)"
    unfolding get_preamble_def by (intro fields lasts) (simp_all, auto simp: prod_eq_iff)
  then show ?thesis by (simp add: case_prod_unfold)
qed

section \<open>The layout of a record\<close>

lemma length_record_header [simp]: "length (put_header_fields h) = 48"
  by (simp add: put_header_fields_def)

lemma length_record_body: "length (record_body r) = 64 + length (encodePayload (jr_payload r))"
  by (simp add: record_body_def Let_def)

lemma length_record_bytes [simp]: "length (record_bytes r) = recordEnvelopeBytes + length (encodePayload (jr_payload r))"
  by (simp add: record_bytes_def length_record_body)

text \<open>The checksum at the end of a record.\<close>

lemma checksum_holds_iff:
  assumes "length bs = n" "4 \<le> n"
  shows "checksum_holds n bs \<longleftrightarrow> drop (n - 4) bs = put_word (crc32 (take (n - 4) bs))"
proof -
  have len: "length (drop (n - 4) bs) = 4" using assms by simp
  obtain w :: u32 where w: "get_word (0, drop (n - 4) bs) = Inr (w, (4, []))"
    using len by (auto simp: get_word_def get_take_def)
  have "drop (n - 4) bs = put_word w" using u32_codec.exact[OF w] by simp
  moreover have "put_word w = put_word v \<longleftrightarrow> w = v" for v :: u32 using u32_codec.put_inject[of w v] by auto
  ultimately show ?thesis using w by (simp add: checksum_holds_def)
qed

lemma word_of_length:
  "n \<le> maximumRecordBytes \<Longrightarrow> unat (of_nat n :: u32) = n"
  by (simp add: unat_of_nat take_bit_nat_eq_self)

text \<open>The fields of a record as the decoder reads them.\<close>

lemma decode_checked_bytes:
  fixes pre :: "u32 \<times> u16 \<times> u16 \<times> u32"
  assumes "snd c0 = put_header_fields h @ put_word (of_nat n :: u32) @ payload @ rest"
    "get_preamble (0, bs) = Inr (pre, c0)" "length payload = n" "n \<le> maximumRecordBytes" "L = recordEnvelopeBytes + n"
  shows "decode_checked digest (jh_type h) L bs =
    (case validateHeader h of
       Some e \<Rightarrow> Inl (e, 0)
     | None \<Rightarrow> (case decodePayload h payload of
         Inl e \<Rightarrow> Inl e
       | Inr r \<Rightarrow> (case validatePayload digest r of Some e \<Rightarrow> Inl (e, recordEnvelopeBytes) | None \<Rightarrow> Inr r)))"
proof -
  have c0: "c0 = (fst c0, put_header_fields h @ put_word (of_nat n :: u32) @ payload @ rest)"
    using assms(1) by (metis prod.collapse)
  have header: "get_header_fields (jh_type h) c0 = Inr (h, (fst c0 + 48, put_word (of_nat n :: u32) @ payload @ rest))"
    by (subst c0) (simp add: codec.reads[OF header_codec])
  have count: "get_word (p, put_word (of_nat n :: u32) @ payload @ rest) = Inr (of_nat n :: u32, (p + 4, payload @ rest))" for p
    by (simp add: u32_codec.reads)
  show ?thesis
    using assms(2-5) header count word_of_length[OF assms(4)] by (simp add: decode_checked_def)
qed

lemma decode_payload_bytes:
  assumes "payloadRecordType p = jh_type h" "payload_ok p" "payload_sized p"
  shows "decodePayload h (encodePayload p) = Inr \<lparr>jr_header = h, jr_payload = p\<rparr>"
  using codec.reads_all[OF payload_codec, of p "jh_type h" 0] assms by (simp add: decodePayload_def)

lemma decode_payload_exact:
  assumes "decodePayload h payload = Inr r"
  shows "jr_header r = h" "payload = encodePayload (jr_payload r)" "payload_ok (jr_payload r)"
    "payload_sized (jr_payload r)" "payloadRecordType (jr_payload r) = jh_type h"
proof -
  obtain p c where p: "get_payload (jh_type h) (0, payload) = Inr (p, c)" "fst c = length payload"
    "r = \<lparr>jr_header = h, jr_payload = p\<rparr>"
    using assms by (auto simp: decodePayload_def split: sum.splits if_splits)
  note ex = codec.exact[OF payload_codec p(1)]
  have split: "payload = encodePayload p @ snd c" using ex by simp
  have "fst c = length (encodePayload p)" using ex by simp
  then have "length (snd c) = 0" using p(2) arg_cong[OF split, of length] by simp
  then have "snd c = []" by simp
  then show "jr_header r = h" "payload = encodePayload (jr_payload r)" "payload_ok (jr_payload r)"
    "payload_sized (jr_payload r)" "payloadRecordType (jr_payload r) = jh_type h"
    using ex p(3) by simp_all
qed

lemma valid_payload_ok: "validatePayload digest r = None \<Longrightarrow> payload_ok (jr_payload r)"
  "validatePayload digest r = None \<Longrightarrow> payloadRecordType (jr_payload r) = jh_type (jr_header r)"
  by (auto simp: validatePayload_def Let_def validateBattleStart_def validateCommandDecision_def validateCheckpoint_def
      validateTerminal_def split: if_splits record_payload.splits)

text \<open>A record that is valid and short enough.\<close>

definition encodable :: "(bytes \<Rightarrow> bytes option) \<Rightarrow> journal_record \<Rightarrow> bool" where
  "encodable digest r \<longleftrightarrow> validateHeader (jr_header r) = None \<and> validatePayload digest r = None \<and>
     length (record_bytes r) \<le> maximumRecordBytes"

lemma encode_record_iff: "encodeRecord digest r = Inr bs \<longleftrightarrow> encodable digest r \<and> bs = record_bytes r"
  by (auto simp: encodeRecord_def encodable_def split: option.splits)

lemma preamble_bytes:
  "get_preamble (0, record_bytes r) = Inr ((recordMagic, 1, record_code (jh_type (jr_header r)), of_nat (length (record_bytes r))),
     (12, put_header_fields (jr_header r) @ put_word (of_nat (length (encodePayload (jr_payload r))) :: u32) @
       encodePayload (jr_payload r) @ put_word (crc32 (record_body r))))"
proof -
  let ?pre = "(recordMagic, 1 :: u16, record_code (jh_type (jr_header r)), of_nat (length (record_bytes r)) :: u32)"
  let ?rest = "put_header_fields (jr_header r) @ put_word (of_nat (length (encodePayload (jr_payload r))) :: u32) @
       encodePayload (jr_payload r) @ put_word (crc32 (record_body r))"
  have "record_bytes r = (case ?pre of (magic, schema, raw, recordLength) \<Rightarrow>
      put_word magic @ put_word schema @ put_word raw @ put_word recordLength) @ ?rest"
    by (simp add: record_bytes_def record_body_def Let_def)
  then show ?thesis using codec.reads[OF preamble_codec, of 0 ?pre ?rest] by simp
qed

lemma decode_record_bytes:
  assumes "encodable digest r" "record_sized r"
  shows "decodeRecord digest (record_bytes r) = Inr r"
proof -
  have valid: "validateHeader (jr_header r) = None" "validatePayload digest r = None" "length (record_bytes r) \<le> maximumRecordBytes"
    using assms(1) by (simp_all add: encodable_def)
  have sum: "checksum_holds (length (record_bytes r)) (record_bytes r)"
    by (subst checksum_holds_iff) (simp_all add: record_bytes_def length_record_body)
  have payload: "decodePayload (jr_header r) (encodePayload (jr_payload r)) = Inr r"
    using decode_payload_bytes[of "jr_payload r" "jr_header r"] valid_payload_ok[OF valid(2)] assms(2) by (simp add: record_sized_def)
  have "decode_checked digest (jh_type (jr_header r)) (length (record_bytes r)) (record_bytes r) =
      (case validateHeader (jr_header r) of
         Some e \<Rightarrow> Inl (e, 0)
       | None \<Rightarrow> (case decodePayload (jr_header r) (encodePayload (jr_payload r)) of
           Inl e \<Rightarrow> Inl e
         | Inr r \<Rightarrow> (case validatePayload digest r of Some e \<Rightarrow> Inl (e, recordEnvelopeBytes) | None \<Rightarrow> Inr r)))"
    by (rule decode_checked_bytes[OF _ preamble_bytes refl]) (use valid(3) in simp_all)
  then have "decode_checked digest (jh_type (jr_header r)) (length (record_bytes r)) (record_bytes r) = Inr r"
    using valid payload by simp
  then show ?thesis
    using preamble_bytes[of r] sum valid(3) word_of_length[OF valid(3)]
    by (simp add: decodeRecord_def record_enum.value_code del: length_record_bytes) (simp add: length_record_bytes)
qed

lemma enum_value_code_eq: "enum_value record_code record_vals raw = Some t \<Longrightarrow> raw = record_code t"
  using record_enum.code_value[of raw] by simp

lemma decode_record_exact:
  assumes "decodeRecord digest bs = Inr r"
  shows "bs = record_bytes r \<and> encodable digest r \<and> record_sized r"
proof -
  obtain raw :: u16 and L :: u32 and c0 t where pre: "recordEnvelopeBytes \<le> length bs"
    "get_preamble (0, bs) = Inr ((recordMagic, 1, raw, L), c0)" "enum_value record_code record_vals raw = Some t"
    "unat L \<le> maximumRecordBytes" "unat L = length bs" "checksum_holds (unat L) bs" "decode_checked digest t (unat L) bs = Inr r"
    using assms by (auto simp: decodeRecord_def split: if_splits sum.splits option.splits)
  note prefix = codec.exact[OF preamble_codec pre(2)]
  obtain h c1 and w :: u32 and c2 payload c3 where chk: "get_header_fields t c0 = Inr (h, c1)" "get_word c1 = Inr (w, c2)"
    "unat L = recordEnvelopeBytes + unat w" "get_take (unat w) c2 = Inr (payload, c3)"
    "validateHeader h = None" "decodePayload h payload = Inr r" "validatePayload digest r = None"
    using pre(2,7) by (auto simp: decode_checked_def split: if_splits sum.splits option.splits)
  note header = codec.exact[OF header_codec chk(1)]
  note count = u32_codec.exact[OF chk(2)]
  note take = get_take_exact[OF chk(4)]
  note payload = decode_payload_exact[OF chk(6)]
  have raw: "raw = record_code t" by (rule enum_value_code_eq[OF pre(3)])
  have w: "w = of_nat (length (encodePayload (jr_payload r)))" using take payload(2) by simp
  have L: "L = of_nat (recordEnvelopeBytes + length (encodePayload (jr_payload r)))"
    using chk(3) take payload(2) by (metis of_nat_unat ucast_id)
  have body: "bs = record_body r @ snd c3"
    using prefix header count take payload raw w L by (simp add: record_body_def Let_def)
  moreover have "length (snd c3) = 4"
    using arg_cong[OF body, of length] pre(5) chk(3) take payload(2) by (simp add: length_record_body)
  ultimately have crc: "snd c3 = put_word (crc32 (record_body r))"
    using pre(1,5,6) checksum_holds_iff[of bs "length bs"] by simp
  then have bs: "bs = record_bytes r" using body by (simp add: record_bytes_def)
  then show ?thesis
    using pre(4,5) chk(5,7) payload by (simp add: encodable_def record_sized_def)
qed

text \<open>Property C17. The decoder of journal records is the inverse of the encoder: whatever the digest, a
  byte string decodes to a record if and only if the record encodes to it, so every stored record is
  valid and has a single encoding.\<close>

theorem record_codec_inverse:
  "decodeRecord digest bs = Inr r \<longleftrightarrow> encodeRecord digest r = Inr bs \<and> record_sized r"
  using decode_record_exact decode_record_bytes encode_record_iff by metis

section \<open>Corruption\<close>

lemma crc32_bit_eq: "crc32_bit = crc_bit"
proof
  fix crc :: u32
  have "crc AND 1 = of_bool (odd crc)" by (simp add: and_one_eq odd_iff_mod_2_eq_one)
  then have "crc AND 1 = 0 \<or> crc AND 1 = 1" by auto
  then show "crc32_bit crc = crc_bit crc" by (auto simp: crc32_bit_def crc_bit_def)
qed

lemma crc32_fold: "crc32 bs = foldl crc_byte (- 1) bs XOR - 1"
proof -
  have "(0xFFFFFFFF :: u32) = - 1" by simp
  then show ?thesis by (simp only: crc32_def crc32_bit_eq crc_byte_def[abs_def])
qed

lemma crc32_update: "i < length bs \<Longrightarrow> bs ! i \<noteq> b \<Longrightarrow> crc32 (bs[i := b]) \<noteq> crc32 bs"
  by (simp add: crc32_fold crc_fold_update xor_cancel)

lemma record_checksum: "record_bytes r = b @ c \<Longrightarrow> length c = 4 \<Longrightarrow> c = put_word (crc32 b)"
  by (auto simp: record_bytes_def append_eq_append_conv)

lemma checksum_tells_apart:
  assumes "i < length (record_bytes r)" "record_bytes r ! i \<noteq> x"
  shows "record_bytes r' \<noteq> (record_bytes r)[i := x]"
proof
  assume eq: "record_bytes r' = (record_bytes r)[i := x]"
  let ?b = "record_body r" and ?c = "put_word (crc32 (record_body r))"
  have rb: "record_bytes r = ?b @ ?c" by (simp add: record_bytes_def)
  show False
  proof (cases "i < length ?b")
    case True
    then have "record_bytes r' = ?b[i := x] @ ?c" using eq rb by (simp add: list_update_append)
    then have "put_word (crc32 ?b) = put_word (crc32 (?b[i := x]))" by (rule record_checksum) simp
    then have "crc32 ?b = crc32 (?b[i := x])" using u32_codec.put_inject by blast
    moreover have "?b ! i \<noteq> x" using assms(2) True rb by (simp add: nth_append)
    ultimately show False using crc32_update[OF True, of x] by simp
  next
    case False
    let ?k = "i - length ?b"
    have "record_bytes r' = ?b @ ?c[?k := x]" using eq rb False by (simp add: list_update_append)
    then have "?c[?k := x] = put_word (crc32 ?b)" by (rule record_checksum) simp
    moreover have "?k < length ?c" using assms(1) False by (simp add: rb)
    moreover have "?c ! ?k \<noteq> x" using assms(2) False rb by (simp add: nth_append)
    ultimately show False using nth_list_update_eq by metis
  qed
qed

text \<open>Property C18. A stored record in which one byte has changed is refused by the decoder, whatever the
  position of the byte and its new value.\<close>

theorem corrupt_record_refused:
  assumes "encodeRecord digest r = Inr bs" "i < length bs" "bs ! i \<noteq> x"
  shows "\<exists>e. decodeRecord digest (bs[i := x]) = Inl e"
proof -
  have bs: "bs = record_bytes r" using assms(1) encode_record_iff by blast
  have "decodeRecord digest (bs[i := x]) \<noteq> Inr r'" for r'
    using decode_record_exact[of digest "bs[i := x]" r'] checksum_tells_apart[of i r x r'] assms(2,3) bs by auto
  then show ?thesis by (cases "decodeRecord digest (bs[i := x])") auto
qed

definition exampleStartRecord :: journal_record where
  "exampleStartRecord = \<lparr>jr_header = \<lparr>jh_type = BattleStartRecord, jh_sequence = 1, jh_origin = 1, jh_writer = 1,
       jh_roomId = RoomId 0x100000001, jh_battleId = BattleInstanceId 1, jh_tick = 0, jh_elapsed = 0\<rparr>,
     jr_payload = StartPayload \<lparr>bs_rulesetVersion = 1, bs_seed = 14, bs_tickHertz = 20, bs_initialHash = replicate 32 7,
       bs_participants = [\<lparr>sp_slot = 1, sp_sessionId = SessionId 1\<rparr>, \<lparr>sp_slot = 2, sp_sessionId = SessionId 2\<rparr>]\<rparr>\<rparr>"

lemma example_start_encodes: "encodeRecord digest exampleStartRecord = Inr (record_bytes exampleStartRecord)"
proof -
  have "validateHeader (jr_header exampleStartRecord) = None" by code_simp
  moreover have "validatePayload digest exampleStartRecord = None"
    by (simp add: validatePayload_def exampleStartRecord_def Let_def validateBattleStart_def)
  moreover have "length (encodePayload (jr_payload exampleStartRecord)) = 70"
    by (simp add: exampleStartRecord_def put_start_def put_list_def put_start_participant_def)
  ultimately show ?thesis by (simp add: encodeRecord_def)
qed

theorem corrupt_record_refused_witness:
  "\<exists>e. decodeRecord (\<lambda>_. None) ((record_bytes exampleStartRecord)[0 := 0]) = Inl e"
proof (rule corrupt_record_refused[OF example_start_encodes])
  show "0 < length (record_bytes exampleStartRecord)" by simp
  have "put_word recordMagic ! 0 = (0x4C :: byte)" by code_simp
  then show "record_bytes exampleStartRecord ! 0 \<noteq> 0"
    by (simp add: record_bytes_def record_body_def Let_def nth_append)
qed

section \<open>Comparing hashes\<close>

record hash_observation =
  ho_sequence :: u64
  ho_tick :: u64
  ho_hash :: bytes

record hash_divergence =
  hd_index :: nat
  hd_sequence :: u64
  hd_tick :: u64
  hd_expectedHash :: bytes
  hd_actualHash :: bytes
  hd_expectedPresent :: bool
  hd_actualPresent :: bool

text \<open>The value-initialised observation stands for one that is missing.\<close>

definition no_observation :: hash_observation where
  "no_observation = \<lparr>ho_sequence = 0, ho_tick = 0, ho_hash = replicate 32 0\<rparr>"

definition divergence_at :: "hash_observation list \<Rightarrow> hash_observation list \<Rightarrow> nat \<Rightarrow> hash_divergence" where
  "divergence_at expected actual index =
     (let expectedPresent = index < length expected; actualPresent = index < length actual;
          e = (if expectedPresent then expected ! index else no_observation);
          a = (if actualPresent then actual ! index else no_observation)
      in \<lparr>hd_index = index, hd_sequence = (if actualPresent then ho_sequence a else ho_sequence e),
          hd_tick = (if actualPresent then ho_tick a else ho_tick e), hd_expectedHash = ho_hash e, hd_actualHash = ho_hash a,
          hd_expectedPresent = expectedPresent, hd_actualPresent = actualPresent\<rparr>)"

definition observations_agree :: "hash_observation list \<Rightarrow> hash_observation list \<Rightarrow> nat \<Rightarrow> bool" where
  "observations_agree expected actual index \<longleftrightarrow> index < length expected \<and> index < length actual \<and>
     ho_sequence (expected ! index) = ho_sequence (actual ! index) \<and> ho_tick (expected ! index) = ho_tick (actual ! index) \<and>
     ho_hash (expected ! index) = ho_hash (actual ! index)"

definition firstDivergence :: "hash_observation list \<Rightarrow> hash_observation list \<Rightarrow> hash_divergence option" where
  "firstDivergence expected actual =
     map_option (divergence_at expected actual)
       (find (\<lambda>index. \<not> observations_agree expected actual index) [0..<max (length expected) (length actual)])"

lemma find_upt_Some:
  "find P [0..<n] = Some i \<longleftrightarrow> i < n \<and> P i \<and> (\<forall>j < i. \<not> P j)"
  by (auto simp: find_Some_iff intro: exI[of _ i])

text \<open>The comparison of two hash sequences finds the first difference: it reports no divergence exactly
  for equal sequences, and a reported index is one up to which the sequences agree and at which they differ.\<close>

theorem first_divergence:
  "(firstDivergence expected actual = None \<longleftrightarrow> expected = actual) \<and>
   pred_option (\<lambda>d. take (hd_index d) expected = take (hd_index d) actual \<and>
     take (hd_index d + 1) expected \<noteq> take (hd_index d + 1) actual) (firstDivergence expected actual)"
proof -
  have agree: "observations_agree expected actual i \<longleftrightarrow> i < length expected \<and> i < length actual \<and> expected ! i = actual ! i" for i
    by (auto simp: observations_agree_def intro: hash_observation.equality)
  have "firstDivergence expected actual = None \<longleftrightarrow> (\<forall>i < max (length expected) (length actual). observations_agree expected actual i)"
    by (auto simp: firstDivergence_def find_None_iff)
  also have "\<dots> \<longleftrightarrow> expected = actual"
  proof
    assume all: "\<forall>i < max (length expected) (length actual). observations_agree expected actual i"
    have inside: "i < length expected \<and> i < length actual \<and> expected ! i = actual ! i"
      if "i < length expected \<or> i < length actual" for i
      using all that unfolding agree by (meson less_max_iff_disj)
    have "length expected = length actual"
      using inside[of "length expected"] inside[of "length actual"] by (meson linorder_neqE_nat less_irrefl)
    then show "expected = actual" using inside by (intro nth_equalityI) auto
  qed (simp add: observations_agree_def)
  finally have none: "firstDivergence expected actual = None \<longleftrightarrow> expected = actual" .
  have "take i expected = take i actual \<and> take (i + 1) expected \<noteq> take (i + 1) actual"
    if "find (\<lambda>index. \<not> observations_agree expected actual index) [0..<max (length expected) (length actual)] = Some i" for i
  proof -
    have i: "i < max (length expected) (length actual)" "\<not> observations_agree expected actual i"
      "\<forall>j < i. observations_agree expected actual j"
      using that by (auto simp: find_upt_Some)
    have le: "i \<le> length expected" "i \<le> length actual"
      using i(3)[rule_format, of "length expected"] i(3)[rule_format, of "length actual"] agree by (auto simp: not_less[symmetric])
    have "take i expected = take i actual" using i(3) agree le by (intro nth_take_lemma) auto
    moreover have "take (i + 1) expected \<noteq> take (i + 1) actual"
    proof
      assume eq: "take (i + 1) expected = take (i + 1) actual"
      then have "length (take (i + 1) expected) = length (take (i + 1) actual)" by simp
      then have "i < length expected \<longleftrightarrow> i < length actual" using i(1) le by auto
      moreover have "expected ! i = actual ! i" using arg_cong[OF eq, of "\<lambda>xs. xs ! i"] by simp
      ultimately show False using i(1,2) agree by auto
    qed
    ultimately show ?thesis by blast
  qed
  then have "pred_option (\<lambda>d. take (hd_index d) expected = take (hd_index d) actual \<and>
      take (hd_index d + 1) expected \<noteq> take (hd_index d + 1) actual) (firstDivergence expected actual)"
    by (auto simp: firstDivergence_def divergence_at_def Let_def option.pred_map pred_option_def)
  then show ?thesis using none by blast
qed

end
