(* ===== verification/CanonicalCommand.thy ===== *)
theory CanonicalCommand
  imports RecordCodec
begin

text \<open>
  The commands of a journal: the factories of \<open>CanonicalCommand\<close> and \<open>validCommand\<close> of
  \<open>game-server/modules/battle-continuity/src/FlightRecorder.cpp\<close> on the side of the recorder, and
  \<open>decodeCommand\<close> of \<open>BattleReplay.cpp\<close> on the side of the replay. The theory shows that the two sides
  agree: the recorder accepts exactly the commands that a factory makes from arguments that the replay
  reads back.
\<close>

section \<open>Kinds\<close>

datatype command_kind =
    KindArenaLoadComplete | KindSuspendInput | KindResumeInput | KindParticipantExit | KindLoadBarrierDeadline | KindMove
  | KindMovementTick | KindAttack | KindCombatDeadline | KindClaimLoot | KindLootDeadline

fun kind_code :: "command_kind \<Rightarrow> u16" where
  "kind_code KindArenaLoadComplete = 1" | "kind_code KindSuspendInput = 2" | "kind_code KindResumeInput = 3"
| "kind_code KindParticipantExit = 4" | "kind_code KindLoadBarrierDeadline = 5" | "kind_code KindMove = 6"
| "kind_code KindMovementTick = 7" | "kind_code KindAttack = 8" | "kind_code KindCombatDeadline = 9"
| "kind_code KindClaimLoot = 10" | "kind_code KindLootDeadline = 11"

definition kind_vals :: "command_kind list" where
  "kind_vals = [KindArenaLoadComplete, KindSuspendInput, KindResumeInput, KindParticipantExit, KindLoadBarrierDeadline, KindMove,
     KindMovementTick, KindAttack, KindCombatDeadline, KindClaimLoot, KindLootDeadline]"

interpretation kind_enum: enumeration kind_code kind_vals
proof
  show "e \<in> set kind_vals" for e by (cases e) (simp_all add: kind_vals_def)
  show "kind_code e = kind_code e' \<longleftrightarrow> e = e'" for e e' by (cases e; cases e') simp_all
qed

text \<open>The kind is a number that the code tests with a switch: the number of a kind, or not known.\<close>

definition known_kind :: "u16 \<Rightarrow> command_kind option" where
  "known_kind raw = enum_value kind_code kind_vals raw"

definition isServerCommand :: "command_kind \<Rightarrow> bool" where
  "isServerCommand kind \<longleftrightarrow> kind \<noteq> KindMove \<and> kind \<noteq> KindAttack \<and> kind \<noteq> KindClaimLoot"

definition hasTargetSlot :: "command_kind \<Rightarrow> bool" where
  "hasTargetSlot kind \<longleftrightarrow>
     kind = KindArenaLoadComplete \<or> kind = KindSuspendInput \<or> kind = KindResumeInput \<or> kind = KindParticipantExit"

definition isEmptyId :: "record_command \<Rightarrow> bool" where
  "isEmptyId i \<longleftrightarrow> rc_high i = 0 \<and> rc_low i = 0"

section \<open>Commands\<close>

record canonical_command =
  cc_kind :: u16
  cc_slot :: u16
  cc_commandId :: record_command
  cc_payload :: bytes

definition server_command :: "command_kind \<Rightarrow> bytes \<Rightarrow> canonical_command" where
  "server_command kind payload =
     \<lparr>cc_kind = kind_code kind, cc_slot = 0, cc_commandId = RecordCommand 0 0, cc_payload = payload\<rparr>"

definition arenaLoadComplete :: "u16 \<Rightarrow> canonical_command" where
  "arenaLoadComplete target = server_command KindArenaLoadComplete (put_word target)"

definition suspendInputCommand :: "u16 \<Rightarrow> canonical_command" where
  "suspendInputCommand target = server_command KindSuspendInput (put_word target)"

definition resumeInputCommand :: "u16 \<Rightarrow> canonical_command" where
  "resumeInputCommand target = server_command KindResumeInput (put_word target)"

definition put_exit :: "u16 \<times> byte \<Rightarrow> bytes" where
  "put_exit p = put_word (fst p) @ put_word (snd p)"

definition participantExit :: "u16 \<Rightarrow> bool \<Rightarrow> canonical_command" where
  "participantExit target voluntary = server_command KindParticipantExit (put_exit (target, if voluntary then 1 else 0))"

definition loadBarrierDeadline :: canonical_command where
  "loadBarrierDeadline = server_command KindLoadBarrierDeadline []"

record direction_intent =
  di_desiredX :: u16
  di_desiredY :: u16
  di_inputFlags :: u16

definition put_move :: "u32 \<times> direction_intent \<Rightarrow> bytes" where
  "put_move m = put_word (fst m) @ put_word (di_desiredX (snd m)) @ put_word (di_desiredY (snd m)) @
     put_word (di_inputFlags (snd m))"

definition moveCommand :: "u16 \<Rightarrow> record_command \<Rightarrow> direction_intent \<Rightarrow> canonical_command" where
  "moveCommand slot commandId direction =
     \<lparr>cc_kind = kind_code KindMove, cc_slot = slot, cc_commandId = commandId,
       cc_payload = put_move (ucast (rc_low commandId), direction)\<rparr>"

definition movementTick :: "u32 \<Rightarrow> canonical_command" where
  "movementTick serverTick = server_command KindMovementTick (put_word serverTick)"

definition attackCommand :: "u16 \<Rightarrow> record_command \<Rightarrow> u64 \<Rightarrow> canonical_command" where
  "attackCommand slot commandId targetHint =
     \<lparr>cc_kind = kind_code KindAttack, cc_slot = slot, cc_commandId = commandId, cc_payload = put_word targetHint\<rparr>"

definition combatDeadline :: canonical_command where
  "combatDeadline = server_command KindCombatDeadline []"

definition claimLootCommand :: "u16 \<Rightarrow> record_command \<Rightarrow> u64 \<Rightarrow> canonical_command" where
  "claimLootCommand slot commandId dropId =
     \<lparr>cc_kind = kind_code KindClaimLoot, cc_slot = slot, cc_commandId = commandId, cc_payload = put_word dropId\<rparr>"

definition lootDeadline :: canonical_command where
  "lootDeadline = server_command KindLootDeadline []"

section \<open>What the recorder accepts\<close>

fun validPayload :: "command_kind \<Rightarrow> bytes \<Rightarrow> bool" where
  "validPayload KindParticipantExit bs = (length bs = 3 \<and> bs ! 0 = 0 \<and> bs ! 1 \<noteq> 0 \<and> bs ! 1 \<le> 10 \<and> bs ! 2 \<le> 1)"
| "validPayload KindLoadBarrierDeadline bs = (length bs = 0)"
| "validPayload KindCombatDeadline bs = (length bs = 0)"
| "validPayload KindLootDeadline bs = (length bs = 0)"
| "validPayload KindMove bs = (length bs = 10)"
| "validPayload KindMovementTick bs = (length bs = 4)"
| "validPayload KindAttack bs = (length bs = 8)"
| "validPayload KindClaimLoot bs = (length bs = 8)"
| "validPayload _ bs = (length bs = 2 \<and> bs ! 0 = 0 \<and> bs ! 1 \<noteq> 0 \<and> bs ! 1 \<le> 10)"

definition validCommand :: "canonical_command \<Rightarrow> bool" where
  "validCommand c \<longleftrightarrow>
     (case known_kind (cc_kind c) of
        None \<Rightarrow> False
      | Some kind \<Rightarrow>
          \<not> 10 < cc_slot c \<and> validPayload kind (cc_payload c) \<and>
          (if isServerCommand kind then cc_slot c = 0 \<and> isEmptyId (cc_commandId c)
           else if cc_slot c = 0 then False
           else if kind = KindMove
           then rc_high (cc_commandId c) = 0 \<and> ucast (be_value (take 4 (cc_payload c)) :: u32) = rc_low (cc_commandId c)
           else \<not> isEmptyId (cc_commandId c)))"

definition targetSlot :: "canonical_command \<Rightarrow> u16" where
  "targetSlot c = be_value (take 2 (cc_payload c))"

section \<open>What the replay reads\<close>

record decoded_command =
  dc_kind :: command_kind
  dc_target :: u16
  dc_voluntary :: bool
  dc_actionSequence :: u32
  dc_direction :: direction_intent
  dc_serverTick :: u32
  dc_targetHint :: u64
  dc_dropId :: u64

definition decoded_start :: "command_kind \<Rightarrow> decoded_command" where
  "decoded_start kind = \<lparr>dc_kind = kind, dc_target = 0, dc_voluntary = False, dc_actionSequence = 0,
     dc_direction = \<lparr>di_desiredX = 0, di_desiredY = 0, di_inputFlags = 0\<rparr>, dc_serverTick = 0, dc_targetHint = 0,
     dc_dropId = 0\<rparr>"

text \<open>A read that leaves nothing.\<close>

definition read_whole :: "'a reader \<Rightarrow> bytes \<Rightarrow> 'a option" where
  "read_whole g bs = (case g (0, bs) of Inl _ \<Rightarrow> None | Inr (x, _, rest) \<Rightarrow> if rest = [] then Some x else None)"

definition get_exit :: "(u16 \<times> byte) reader" where
  "get_exit = get_bind get_word (\<lambda>target. get_bind get_word (\<lambda>reason. get_return (target, reason)))"

definition get_move :: "(u32 \<times> direction_intent) reader" where
  "get_move = get_bind get_word (\<lambda>sequence. get_bind get_word (\<lambda>x. get_bind get_word (\<lambda>y. get_bind get_word (\<lambda>flags.
     get_return (sequence, \<lparr>di_desiredX = x, di_desiredY = y, di_inputFlags = flags\<rparr>)))))"

definition valid_target :: "u16 \<Rightarrow> bool" where
  "valid_target target \<longleftrightarrow> target \<noteq> 0 \<and> target \<le> 10"

definition decode_payload :: "decision_payload \<Rightarrow> command_kind \<Rightarrow> decoded_command option" where
  "decode_payload p kind =
     (let d = decoded_start kind; bs = cd_command p in
      if kind = KindLoadBarrierDeadline \<or> kind = KindCombatDeadline \<or> kind = KindLootDeadline
      then (if length bs = 0 then Some d else None)
      else if kind = KindArenaLoadComplete \<or> kind = KindSuspendInput \<or> kind = KindResumeInput
      then (case read_whole get_word bs of
              None \<Rightarrow> None
            | Some target \<Rightarrow> if valid_target target then Some (d\<lparr>dc_target := target\<rparr>) else None)
      else if kind = KindParticipantExit
      then (case read_whole get_exit bs of
              None \<Rightarrow> None
            | Some (target, reason) \<Rightarrow>
                if valid_target target \<and> reason \<le> 1 then Some (d\<lparr>dc_target := target, dc_voluntary := reason = 1\<rparr>) else None)
      else if kind = KindMove
      then (case read_whole get_move bs of
              None \<Rightarrow> None
            | Some (sequence, direction) \<Rightarrow>
                if rc_low (cd_commandId p) \<noteq> ucast sequence then None
                else Some (d\<lparr>dc_actionSequence := sequence, dc_direction := direction\<rparr>))
      else if kind = KindMovementTick
      then map_option (\<lambda>tick. d\<lparr>dc_serverTick := tick\<rparr>) (read_whole get_word bs)
      else if kind = KindAttack
      then map_option (\<lambda>hint. d\<lparr>dc_targetHint := hint\<rparr>) (read_whole get_word bs)
      else map_option (\<lambda>drop. d\<lparr>dc_dropId := drop\<rparr>) (read_whole get_word bs))"

definition decodeCommand :: "decision_payload \<Rightarrow> u64 \<Rightarrow> decoded_command option" where
  "decodeCommand p recordSequence =
     (case known_kind (cd_kind p) of
        None \<Rightarrow> None
      | Some kind \<Rightarrow>
          if 10 < cd_slot p \<or> length (cd_outcome p) \<noteq> 0 then None
          else if isServerCommand kind
               then (if cd_slot p \<noteq> 0 \<or> rc_high (cd_commandId p) \<noteq> 0 \<or> rc_low (cd_commandId p) \<noteq> recordSequence
                     then None else decode_payload p kind)
          else if cd_slot p = 0 then None
          else if kind = KindMove
               then (if rc_high (cd_commandId p) \<noteq> 0 then None else decode_payload p kind)
          else if isEmptyId (cd_commandId p) then None
          else decode_payload p kind)"

section \<open>The decision record of a command\<close>

text \<open>The recorder numbers the commands of the server with the sequence of their record.\<close>

definition recorded_id :: "canonical_command \<Rightarrow> u64 \<Rightarrow> record_command" where
  "recorded_id c recordSequence =
     (case known_kind (cc_kind c) of
        Some kind \<Rightarrow> if isServerCommand kind then RecordCommand 0 recordSequence else cc_commandId c
      | None \<Rightarrow> cc_commandId c)"

definition decision_of :: "canonical_command \<Rightarrow> u64 \<Rightarrow> u16 \<Rightarrow> bytes \<Rightarrow> bytes \<Rightarrow> decision_payload" where
  "decision_of c recordSequence decisionCode roomBytes hash =
     \<lparr>cd_slot = cc_slot c, cd_kind = cc_kind c, cd_commandId = recorded_id c recordSequence, cd_code = decisionCode,
       cd_command = cc_payload c, cd_outcome = [], cd_roomState = roomBytes, cd_postHash = hash\<rparr>"

text \<open>The factory of a kind, applied to what the replay has read.\<close>

fun factory :: "command_kind \<Rightarrow> u16 \<Rightarrow> record_command \<Rightarrow> decoded_command \<Rightarrow> canonical_command" where
  "factory KindArenaLoadComplete slot i d = arenaLoadComplete (dc_target d)"
| "factory KindSuspendInput slot i d = suspendInputCommand (dc_target d)"
| "factory KindResumeInput slot i d = resumeInputCommand (dc_target d)"
| "factory KindParticipantExit slot i d = participantExit (dc_target d) (dc_voluntary d)"
| "factory KindLoadBarrierDeadline slot i d = loadBarrierDeadline"
| "factory KindMove slot i d = moveCommand slot i (dc_direction d)"
| "factory KindMovementTick slot i d = movementTick (dc_serverTick d)"
| "factory KindAttack slot i d = attackCommand slot i (dc_targetHint d)"
| "factory KindCombatDeadline slot i d = combatDeadline"
| "factory KindClaimLoot slot i d = claimLootCommand slot i (dc_dropId d)"
| "factory KindLootDeadline slot i d = lootDeadline"

lemma known_kind_code [simp]: "known_kind (kind_code kind) = Some kind"
  by (simp add: known_kind_def kind_enum.value_code)

lemma known_kind_iff: "known_kind raw = Some kind \<longleftrightarrow> raw = kind_code kind"
  unfolding known_kind_def using kind_enum.value_code kind_enum.code_value by (metis option.distinct(1) option.sel)

section \<open>Whole reads\<close>

lemma exit_codec: "codec get_exit put_exit (\<lambda>_. True)"
  unfolding get_exit_def put_exit_def[abs_def] by (intro fields lasts) auto

lemma move_codec: "codec get_move put_move (\<lambda>_. True)"
  unfolding get_move_def put_move_def[abs_def] by (intro fields lasts) (auto intro!: direction_intent.equality)

lemma read_whole_iff:
  assumes "codec g put (\<lambda>_. True)"
  shows "read_whole g bs = Some x \<longleftrightarrow> bs = put x"
proof
  assume "read_whole g bs = Some x"
  then obtain q where "g (0, bs) = Inr (x, (q, []))" by (auto simp: read_whole_def split: sum.splits if_splits)
  then show "bs = put x" using codec.reads_whole[OF assms] by blast
next
  assume "bs = put x"
  then have "g (0, bs) = Inr (x, (0 + length (put x), []))" using codec.reads_whole[OF assms] by blast
  then show "read_whole g bs = Some x" by (simp add: read_whole_def)
qed

lemma whole_word:
  "length bs = 2 \<longleftrightarrow> (\<exists>w :: u16. bs = put_word w)" "length bs = 4 \<longleftrightarrow> (\<exists>w :: u32. bs = put_word w)"
  "length bs = 8 \<longleftrightarrow> (\<exists>w :: u64. bs = put_word w)"
proof -
  have "bs = put_word (be_value bs :: u16)" if "length bs = 2"
    using be_bytes_value[of bs, where 'a = 16] that by (simp add: put_word_def)
  then show "length bs = 2 \<longleftrightarrow> (\<exists>w :: u16. bs = put_word w)" by (auto simp: put_word_def)
  have "bs = put_word (be_value bs :: u32)" if "length bs = 4"
    using be_bytes_value[of bs, where 'a = 32] that by (simp add: put_word_def)
  then show "length bs = 4 \<longleftrightarrow> (\<exists>w :: u32. bs = put_word w)" by (auto simp: put_word_def)
  have "bs = put_word (be_value bs :: u64)" if "length bs = 8"
    using be_bytes_value[of bs, where 'a = 64] that by (simp add: put_word_def)
  then show "length bs = 8 \<longleftrightarrow> (\<exists>w :: u64. bs = put_word w)" by (auto simp: put_word_def)
qed

lemma u16_bytes: "put_word (w :: u16) = [ucast (drop_bit 8 w), ucast w]"
  by (simp add: put_word_def numeral_2_eq_2 be_bytes_Suc)

lemma u8_bytes: "put_word (w :: byte) = [w]"
  by (simp add: put_word_def be_bytes_Suc)

lemma target_bytes:
  "(ucast (drop_bit 8 w) :: byte) = 0 \<and> (ucast w :: byte) \<noteq> 0 \<and> (ucast w :: byte) \<le> 10 \<longleftrightarrow> valid_target w" for w :: u16
proof -
  have "unat w < 65536" using unsigned_less[of w] by simp
  then have w: "unat (ucast (drop_bit 8 w) :: byte) = unat w div 256" "unat (ucast w :: byte) = unat w mod 256"
    by (simp_all add: unsigned_ucast_eq unat_div drop_bit_eq_div take_bit_eq_mod)
  have small: "n div 256 = 0 \<and> n mod 256 \<noteq> 0 \<and> n mod 256 \<le> 10 \<longleftrightarrow> n \<noteq> 0 \<and> n \<le> 10" for n :: nat
    by (auto simp: div_eq_0_iff)
  show ?thesis
    unfolding valid_target_def word_le_nat_alt word_unat_eq_iff w using small[of "unat w"] by simp
qed

lemma take_put_word: "length bs = 2 \<Longrightarrow> bs = put_word w \<longleftrightarrow> be_value bs = (w :: u16)"
  using be_bytes_value[of bs, where 'a = 16] by (auto simp: put_word_def be_value_bytes_full)

lemma target_payload:
  "length bs = 2 \<and> bs ! 0 = 0 \<and> bs ! 1 \<noteq> 0 \<and> bs ! 1 \<le> 10 \<longleftrightarrow> (\<exists>w :: u16. bs = put_word w \<and> valid_target w)"
  unfolding target_bytes[symmetric] whole_word(1) by (auto simp: u16_bytes)

lemma reason_bit: "(reason :: byte) \<le> 1 \<longleftrightarrow> reason = 0 \<or> reason = 1"
  unfolding word_le_nat_alt word_unat_eq_iff by auto

lemma exit_payload:
  "length bs = 3 \<and> bs ! 0 = 0 \<and> bs ! 1 \<noteq> 0 \<and> bs ! 1 \<le> 10 \<and> bs ! 2 \<le> 1 \<longleftrightarrow>
     (\<exists>w reason. bs = put_exit (w, reason) \<and> valid_target w \<and> (reason = 0 \<or> reason = 1))"
proof
  assume a: "length bs = 3 \<and> bs ! 0 = 0 \<and> bs ! 1 \<noteq> 0 \<and> bs ! 1 \<le> 10 \<and> bs ! 2 \<le> 1"
  then obtain a0 a1 a2 where bs: "bs = [a0, a1, a2]" by (auto simp: numeral_3_eq_3 length_Suc_conv)
  have "\<exists>w :: u16. [a0, a1] = put_word w \<and> valid_target w" using a bs by (intro target_payload[THEN iffD1]) simp
  then obtain w :: u16 where w: "put_word w = [a0, a1]" "valid_target w" by auto
  have "a2 = 0 \<or> a2 = 1" unfolding reason_bit[symmetric] using a bs by (simp add: numeral_2_eq_2)
  moreover have "bs = put_exit (w, a2)" by (simp only: put_exit_def fst_conv snd_conv w u8_bytes bs append.simps)
  ultimately show "\<exists>w reason. bs = put_exit (w, reason) \<and> valid_target w \<and> (reason = 0 \<or> reason = 1)" using w(2) by blast
next
  assume "\<exists>w reason. bs = put_exit (w, reason) \<and> valid_target w \<and> (reason = 0 \<or> reason = 1)"
  then show "length bs = 3 \<and> bs ! 0 = 0 \<and> bs ! 1 \<noteq> 0 \<and> bs ! 1 \<le> 10 \<and> bs ! 2 \<le> 1"
    unfolding target_bytes[symmetric] reason_bit[symmetric] by (force simp: put_exit_def u8_bytes u16_bytes numeral_2_eq_2)
qed

lemma move_payload: "length bs = 10 \<longleftrightarrow> (\<exists>m. bs = put_move m)"
proof
  assume n: "length bs = 10"
  obtain a :: u32 where a: "take 4 bs = put_word a" using whole_word(2)[of "take 4 bs"] n by auto
  obtain b :: u16 where b: "take 2 (drop 4 bs) = put_word b" using whole_word(1)[of "take 2 (drop 4 bs)"] n by auto
  obtain c :: u16 where c: "take 2 (drop 6 bs) = put_word c" using whole_word(1)[of "take 2 (drop 6 bs)"] n by auto
  obtain d :: u16 where d: "drop 8 bs = put_word d" using whole_word(1)[of "drop 8 bs"] n by auto
  have "bs = take 4 bs @ take 2 (drop 4 bs) @ take 2 (drop 6 bs) @ drop 8 bs"
    using append_take_drop_id[of 4 bs] append_take_drop_id[of 2 "drop 4 bs"] append_take_drop_id[of 2 "drop 6 bs"] by simp
  then have "bs = put_move (a, \<lparr>di_desiredX = b, di_desiredY = c, di_inputFlags = d\<rparr>)"
    unfolding a b c d by (simp add: put_move_def)
  then show "\<exists>m. bs = put_move m" ..
qed (auto simp: put_move_def put_word_def)

lemma move_sequence: "(be_value (take 4 (put_move m)) :: u32) = fst m"
  by (simp add: put_move_def put_word_def be_value_bytes_full)

section \<open>The two sides agree\<close>

lemma valid_payload_parts:
  "validPayload KindArenaLoadComplete bs \<longleftrightarrow> (\<exists>w :: u16. bs = put_word w \<and> valid_target w)"
  "validPayload KindSuspendInput bs \<longleftrightarrow> (\<exists>w :: u16. bs = put_word w \<and> valid_target w)"
  "validPayload KindResumeInput bs \<longleftrightarrow> (\<exists>w :: u16. bs = put_word w \<and> valid_target w)"
  "validPayload KindParticipantExit bs \<longleftrightarrow> (\<exists>w reason. bs = put_exit (w, reason) \<and> valid_target w \<and> (reason = 0 \<or> reason = 1))"
  "validPayload KindMove bs \<longleftrightarrow> (\<exists>m. bs = put_move m)"
  "validPayload KindMovementTick bs \<longleftrightarrow> (\<exists>w :: u32. bs = put_word w)"
  "validPayload KindAttack bs \<longleftrightarrow> (\<exists>w :: u64. bs = put_word w)"
  "validPayload KindClaimLoot bs \<longleftrightarrow> (\<exists>w :: u64. bs = put_word w)"
  "validPayload KindLoadBarrierDeadline bs \<longleftrightarrow> bs = []"
  "validPayload KindCombatDeadline bs \<longleftrightarrow> bs = []"
  "validPayload KindLootDeadline bs \<longleftrightarrow> bs = []"
  by (simp_all only: length_0_conv validPayload.simps target_payload exit_payload move_payload whole_word(2,3))

lemma whole_reads:
  "read_whole (get_word :: u16 reader) bs = Some t \<longleftrightarrow> bs = put_word t"
  "read_whole (get_word :: u32 reader) bs = Some tick \<longleftrightarrow> bs = put_word tick"
  "read_whole (get_word :: u64 reader) bs = Some hint \<longleftrightarrow> bs = put_word hint"
  "read_whole get_exit bs = Some e \<longleftrightarrow> bs = put_exit e"
  "read_whole get_move bs = Some m \<longleftrightarrow> bs = put_move m"
  by (simp_all only: read_whole_iff[OF u16_codec.codec_axioms] read_whole_iff[OF u32_codec.codec_axioms]
      read_whole_iff[OF u64_codec.codec_axioms] read_whole_iff[OF exit_codec] read_whole_iff[OF move_codec])

lemma decode_payload_iff:
  "decode_payload p KindArenaLoadComplete = Some d \<longleftrightarrow>
     (\<exists>t. cd_command p = put_word t \<and> valid_target t \<and> d = (decoded_start KindArenaLoadComplete)\<lparr>dc_target := t\<rparr>)"
  "decode_payload p KindSuspendInput = Some d \<longleftrightarrow>
     (\<exists>t. cd_command p = put_word t \<and> valid_target t \<and> d = (decoded_start KindSuspendInput)\<lparr>dc_target := t\<rparr>)"
  "decode_payload p KindResumeInput = Some d \<longleftrightarrow>
     (\<exists>t. cd_command p = put_word t \<and> valid_target t \<and> d = (decoded_start KindResumeInput)\<lparr>dc_target := t\<rparr>)"
  "decode_payload p KindParticipantExit = Some d \<longleftrightarrow>
     (\<exists>e. cd_command p = put_exit e \<and> valid_target (fst e) \<and> snd e \<le> 1 \<and>
       d = (decoded_start KindParticipantExit)\<lparr>dc_target := fst e, dc_voluntary := snd e = 1\<rparr>)"
  "decode_payload p KindMove = Some d \<longleftrightarrow>
     (\<exists>m. cd_command p = put_move m \<and> rc_low (cd_commandId p) = ucast (fst m) \<and>
       d = (decoded_start KindMove)\<lparr>dc_actionSequence := fst m, dc_direction := snd m\<rparr>)"
  "decode_payload p KindMovementTick = Some d \<longleftrightarrow>
     (\<exists>t. cd_command p = put_word t \<and> d = (decoded_start KindMovementTick)\<lparr>dc_serverTick := t\<rparr>)"
  "decode_payload p KindAttack = Some d \<longleftrightarrow>
     (\<exists>t. cd_command p = put_word t \<and> d = (decoded_start KindAttack)\<lparr>dc_targetHint := t\<rparr>)"
  "decode_payload p KindClaimLoot = Some d \<longleftrightarrow>
     (\<exists>t. cd_command p = put_word t \<and> d = (decoded_start KindClaimLoot)\<lparr>dc_dropId := t\<rparr>)"
  "decode_payload p KindLoadBarrierDeadline = Some d \<longleftrightarrow> cd_command p = [] \<and> d = decoded_start KindLoadBarrierDeadline"
  "decode_payload p KindCombatDeadline = Some d \<longleftrightarrow> cd_command p = [] \<and> d = decoded_start KindCombatDeadline"
  "decode_payload p KindLootDeadline = Some d \<longleftrightarrow> cd_command p = [] \<and> d = decoded_start KindLootDeadline"
  unfolding decode_payload_def whole_reads[symmetric] by (auto split: option.splits)

lemmas factory_defs = arenaLoadComplete_def suspendInputCommand_def resumeInputCommand_def participantExit_def
  loadBarrierDeadline_def moveCommand_def movementTick_def attackCommand_def combatDeadline_def claimLootCommand_def
  lootDeadline_def server_command_def

lemma put_move_inject [simp]: "put_move m = put_move m' \<longleftrightarrow> m = m'"
  using codec.put_inject[OF move_codec] by blast

lemma put_exit_inject [simp]: "put_exit e = put_exit e' \<longleftrightarrow> e = e'"
  using codec.put_inject[OF exit_codec] by blast

lemma low_sequence: "(ucast (ucast (a :: u32) :: u64) :: u32) = a"
  by transfer simp

lemma recorded_kind:
  fixes kind slot high low bs
  defines "c \<equiv> \<lparr>cc_kind = kind_code kind, cc_slot = slot, cc_commandId = RecordCommand high low, cc_payload = bs\<rparr>"
  shows "validCommand c \<longleftrightarrow> (\<exists>d. decodeCommand (decision_of c s code room h) s = Some d \<and>
     factory (dc_kind d) (cc_slot c) (cc_commandId c) d = c)"
  unfolding c_def validCommand_def decodeCommand_def decision_of_def recorded_id_def
  by (induction kind; auto simp: isServerCommand_def isEmptyId_def valid_payload_parts decode_payload_iff reason_bit
      move_sequence low_sequence factory_defs decoded_start_def simp del: validPayload.simps kind_code.simps)

text \<open>Property C7. The recorder accepts exactly the commands that the replay decodes from the decision record into
  arguments from which the factory of the kind makes the command again.\<close>

theorem recorded_command_decodes:
  "validCommand c \<longleftrightarrow>
     (\<exists>d. decodeCommand (decision_of c sequence code room hash) sequence = Some d \<and>
        factory (dc_kind d) (cc_slot c) (cc_commandId c) d = c)"
proof (cases "known_kind (cc_kind c)")
  case None
  then show ?thesis by (simp add: validCommand_def decodeCommand_def decision_of_def)
next
  case (Some kind)
  then obtain slot high low bs where
    "c = \<lparr>cc_kind = kind_code kind, cc_slot = slot, cc_commandId = RecordCommand high low, cc_payload = bs\<rparr>"
    by (metis canonical_command.surjective known_kind_iff old.unit.exhaust record_command.exhaust)
  then show ?thesis by (simp only: recorded_kind)
qed

end
