(* ===== verification/Journal.thy ===== *)
theory Journal
  imports RecordCodec "HOL-Library.Sublist"
begin

text \<open>
  \<open>decodeJournal\<close> of \<open>game-server/modules/battle-continuity/src/RecordCodec.cpp\<close>: the records of a
  battle in a file, in batches that a \<open>TickCommit\<close> closes. The loop over the file is a recursion over
  the bytes that are left; the offsets of errors are absolute. The theory shows that the journal can be cut
  at the reported boundary, that a torn journal yields a prefix, and which journals are accepted.
\<close>

section \<open>State\<close>

type_synonym battle_identity = "u32 \<times> room_id \<times> battle_id"

record journal_state =
  js_offset :: nat
  js_expected :: u64
  js_identity :: "battle_identity option"
  js_previousTick :: u64
  js_previousWriter :: "u32 option"
  js_first :: "u64 option"
  js_writer :: "u32 option"
  js_tick :: "u64 option"
  js_count :: nat
  js_lastHash :: "bytes option"
  js_staged :: "journal_record list"
  js_hasCommitted :: bool
  js_records :: "journal_record list"
  js_committedBytes :: nat

record journal_result =
  jo_records :: "journal_record list"
  jo_committedBytes :: nat
  jo_error :: "(record_error \<times> nat) option"

definition journal_start :: journal_state where
  "journal_start = \<lparr>js_offset = 0, js_expected = 1, js_identity = None, js_previousTick = 0, js_previousWriter = None,
     js_first = None, js_writer = None, js_tick = None, js_count = 0, js_lastHash = None, js_staged = [],
     js_hasCommitted = False, js_records = [], js_committedBytes = 0\<rparr>"

abbreviation rec_type :: "journal_record \<Rightarrow> record_type" where
  "rec_type r \<equiv> jh_type (jr_header r)"

abbreviation rec_sequence :: "journal_record \<Rightarrow> u64" where
  "rec_sequence r \<equiv> jh_sequence (jr_header r)"

abbreviation rec_tick :: "journal_record \<Rightarrow> u64" where
  "rec_tick r \<equiv> jh_tick (jr_header r)"

abbreviation rec_writer :: "journal_record \<Rightarrow> u32" where
  "rec_writer r \<equiv> jh_writer (jr_header r)"

definition rec_identity :: "journal_record \<Rightarrow> battle_identity" where
  "rec_identity r = (jh_origin (jr_header r), jh_roomId (jr_header r), jh_battleId (jr_header r))"

section \<open>One record\<close>

text \<open>The checks of sequence, time and identity; the offsets are relative to the record.\<close>

definition stream_error :: "journal_state \<Rightarrow> journal_record \<Rightarrow> (record_error \<times> nat) option" where
  "stream_error js r =
     checks [check (rec_sequence r \<noteq> js_expected js) (RecordInvalidSequence, 12),
       check (rec_tick r < js_previousTick js) (RecordInvalidTime, 44),
       (case js_identity js of
          None \<Rightarrow> check (rec_type r \<noteq> BattleStartRecord) (RecordInvalidSequence, 6)
        | Some i \<Rightarrow> check (i \<noteq> rec_identity r) (IdentityMismatch, 20)),
       check (rec_type r = BattleStartRecord \<and> rec_sequence r \<noteq> 1) (BatchInvariantViolation, 6)]"

text \<open>The record opens a batch or belongs to the open one.\<close>

definition batch_error :: "journal_state \<Rightarrow> journal_record \<Rightarrow> (record_error \<times> nat) option" where
  "batch_error js r =
     (if js_first js = None
      then checks [check (rec_type r = CommitRecord) (BatchInvariantViolation, 6),
        (case js_previousWriter js of None \<Rightarrow> None | Some w \<Rightarrow> check (rec_writer r < w) (WriterEpochRegression, 24))]
      else checks [check (js_tick js \<noteq> Some (rec_tick r)) (BatchInvariantViolation, 44),
        (case js_writer js of None \<Rightarrow> None | Some w \<Rightarrow>
           check (rec_writer r \<noteq> w) (if rec_writer r < w then WriterEpochRegression else WriterEpochPerBatch, 24))])"

definition open_batch :: "journal_record \<Rightarrow> journal_state \<Rightarrow> journal_state" where
  "open_batch r js =
     (if js_first js = None
      then js\<lparr>js_first := Some (rec_sequence r), js_writer := Some (rec_writer r), js_tick := Some (rec_tick r),
        js_count := 0, js_lastHash := None\<rparr>
      else js)"

text \<open>The second record of a journal is the checkpoint of the initial state.\<close>

definition initial_checkpoint :: "journal_record \<Rightarrow> journal_record \<Rightarrow> bool" where
  "initial_checkpoint start r =
     (case jr_payload start of
        StartPayload s \<Rightarrow>
          (case jr_payload r of
             CheckpointPayload k \<Rightarrow> rec_sequence r = 2 \<and> rec_tick r = 0 \<and> ck_hash k = bs_initialHash s
           | _ \<Rightarrow> False)
      | _ \<Rightarrow> False)"

definition initial_error :: "journal_state \<Rightarrow> journal_record \<Rightarrow> (record_error \<times> nat) option" where
  "initial_error js r =
     check (\<not> js_hasCommitted js \<and> length (js_staged js) = 1 \<and> \<not> initial_checkpoint (hd (js_staged js)) r)
       (BatchInvariantViolation, 6)"

definition terminal_batch_valid :: "journal_record list \<Rightarrow> bool" where
  "terminal_batch_valid staged \<longleftrightarrow>
     list_all (\<lambda>index. rec_type (staged ! index) = TerminalRecord \<longrightarrow>
       index + 2 = length staged \<and> rec_type (last staged) = CheckpointRecord) [0..<length staged]"

definition commit_invalid :: "journal_state \<Rightarrow> journal_record \<Rightarrow> commit_payload \<Rightarrow> bool" where
  "commit_invalid js r c \<longleftrightarrow>
     (let lastSequenceCanAdvance = tc_last c < - 1;
          expectedRecordCount = (if lastSequenceCanAdvance then tc_last c - tc_first c + 1 else 0)
      in \<not> js_hasCommitted js \<and> (rec_sequence r \<noteq> 3 \<or> length (js_staged js) \<noteq> 2 \<or>
           rec_type (js_staged js ! 0) \<noteq> BattleStartRecord \<or> rec_type (js_staged js ! 1) \<noteq> CheckpointRecord) \<or>
         \<not> terminal_batch_valid (js_staged js) \<or> js_lastHash js = None \<or> Some (tc_first c) \<noteq> js_first js \<or>
         \<not> lastSequenceCanAdvance \<or> tc_last c + 1 \<noteq> rec_sequence r \<or> expectedRecordCount \<noteq> ucast (tc_count c) \<or>
         js_count js \<noteq> unat (tc_count c) \<or> Some (tc_hash c) \<noteq> js_lastHash js)"

definition commit_batch :: "journal_record \<Rightarrow> nat \<Rightarrow> journal_state \<Rightarrow> journal_state" where
  "commit_batch r recordLength js =
     js\<lparr>js_previousWriter := js_writer js, js_records := js_records js @ js_staged js @ [r],
       js_committedBytes := js_offset js + recordLength, js_staged := [], js_hasCommitted := True, js_first := None,
       js_writer := None, js_tick := None, js_count := 0, js_lastHash := None\<rparr>"

definition stage :: "journal_record \<Rightarrow> bytes \<Rightarrow> journal_state \<Rightarrow> journal_state" where
  "stage r hash js = js\<lparr>js_lastHash := Some hash, js_count := js_count js + 1, js_staged := js_staged js @ [r]\<rparr>"

text \<open>The record type that the code tests agrees with the payload of a decoded record.\<close>

definition apply_record :: "journal_record \<Rightarrow> nat \<Rightarrow> journal_state \<Rightarrow> record_error \<times> nat + journal_state" where
  "apply_record r recordLength js =
     (case jr_payload r of
        CommitPayload c \<Rightarrow>
          if commit_invalid js r c then Inl (BatchInvariantViolation, recordEnvelopeBytes)
          else Inr (commit_batch r recordLength js)
      | p \<Rightarrow>
          (case dataStateHash p of
             None \<Rightarrow> Inl (BatchInvariantViolation, 6)
           | Some hash \<Rightarrow> Inr (stage r hash js)))"

definition admit_record :: "journal_record \<Rightarrow> nat \<Rightarrow> journal_state \<Rightarrow> record_error \<times> nat + journal_state" where
  "admit_record r recordLength js =
     (case checks [stream_error js r, batch_error js r, initial_error js r] of
        Some e \<Rightarrow> Inl e
      | None \<Rightarrow>
          (case apply_record r recordLength (open_batch r (js\<lparr>js_identity := Some (rec_identity r)\<rparr>)) of
             Inl e \<Rightarrow> Inl e
           | Inr js' \<Rightarrow> Inr (js'\<lparr>js_previousTick := rec_tick r, js_offset := js_offset js + recordLength\<rparr>)))"

section \<open>The loop\<close>

text \<open>The record at the front of the bytes that are left, and its length.\<close>

definition next_record ::
  "(bytes \<Rightarrow> bytes option) \<Rightarrow> bytes \<Rightarrow> record_error \<times> nat + journal_record \<times> nat" where
  "next_record digest bs =
     (if length bs < 12 then Inl (RecordTruncated, 0)
      else case get_preamble (0, bs) of
        Inl _ \<Rightarrow> Inl (RecordTruncated, 0)
      | Inr ((_, _, _, recordLength), _) \<Rightarrow>
     if maximumRecordBytes < unat recordLength then Inl (RecordTooLarge, 8)
     else if unat recordLength < recordEnvelopeBytes then Inl (RecordInvalidLength, 8)
     else if length bs < unat recordLength then Inl (RecordTruncated, 0)
     else (case decodeRecord digest (take (unat recordLength) bs) of
        Inl e \<Rightarrow> Inl e
      | Inr r \<Rightarrow> Inr (r, unat recordLength)))"

definition stopped :: "journal_state \<Rightarrow> record_error \<times> nat \<Rightarrow> nat \<Rightarrow> journal_result" where
  "stopped js e offset = \<lparr>jo_records = js_records js, jo_committedBytes = js_committedBytes js,
     jo_error = Some (fst e, snd e + offset)\<rparr>"

definition finished :: "journal_state \<Rightarrow> journal_result" where
  "finished js = \<lparr>jo_records = js_records js, jo_committedBytes = js_committedBytes js,
     jo_error = (if js_first js = None then None else Some (JournalNotCommitted, js_offset js))\<rparr>"

lemma next_record_length:
  "next_record digest bs = Inr (r, n) \<Longrightarrow> recordEnvelopeBytes \<le> n \<and> n \<le> length bs"
  by (auto simp: next_record_def split: if_splits sum.splits)

function journal_loop :: "(bytes \<Rightarrow> bytes option) \<Rightarrow> journal_state \<Rightarrow> bytes \<Rightarrow> journal_result" where
  "journal_loop digest js bs =
     (if bs = [] then finished js
      else case next_record digest bs of
        Inl e \<Rightarrow> stopped js e (js_offset js)
      | Inr (r, n) \<Rightarrow>
     (case admit_record r n js of
        Inl e \<Rightarrow> stopped js e (js_offset js)
      | Inr js' \<Rightarrow>
          if js_expected js = - 1
          then (if drop n bs \<noteq> [] then stopped js' (RecordInvalidSequence, 0) (js_offset js') else finished js')
          else journal_loop digest (js'\<lparr>js_expected := js_expected js + 1\<rparr>) (drop n bs)))"
  by pat_completeness auto
termination
  by (relation "measure (\<lambda>(_, _, bs). length bs)") (auto dest: next_record_length)

declare journal_loop.simps [simp del]

definition maximumJournalBytes :: nat where
  "maximumJournalBytes = 64 * 1048576"

definition decodeJournal :: "(bytes \<Rightarrow> bytes option) \<Rightarrow> bytes \<Rightarrow> journal_result" where
  "decodeJournal digest bs =
     (if maximumJournalBytes < length bs
      then \<lparr>jo_records = [], jo_committedBytes = 0, jo_error = Some (JournalTooLarge, 0)\<rparr>
      else journal_loop digest journal_start bs)"

section \<open>The records of a byte string\<close>

lemma next_record_bytes:
  assumes "encodable digest r" "record_sized r"
  shows "next_record digest (record_bytes r @ rest) = Inr (r, length (record_bytes r))"
proof -
  have size: "length (record_bytes r) \<le> maximumRecordBytes" using assms(1) by (simp add: encodable_def)
  have "record_bytes r @ rest = (case (recordMagic, 1 :: u16, record_code (rec_type r), of_nat (length (record_bytes r)) :: u32) of
      (magic, schema, raw, recordLength) \<Rightarrow> put_word magic @ put_word schema @ put_word raw @ put_word recordLength) @
      put_header_fields (jr_header r) @ put_word (of_nat (length (encodePayload (jr_payload r))) :: u32) @
      encodePayload (jr_payload r) @ put_word (crc32 (record_body r)) @ rest"
    by (simp add: record_bytes_def record_body_def Let_def)
  then obtain c where "get_preamble (0, record_bytes r @ rest) =
      Inr ((recordMagic, 1, record_code (rec_type r), of_nat (length (record_bytes r))), c)"
    using codec.reads[OF preamble_codec] by metis
  then show ?thesis
    using decode_record_bytes[OF assms] size word_of_length[OF size]
    by (simp add: next_record_def del: length_record_bytes) (simp add: length_record_bytes)
qed

lemma next_record_exact:
  assumes "next_record digest bs = Inr (r, n)"
  shows "bs = record_bytes r @ drop n bs" "n = length (record_bytes r)" "encodable digest r" "record_sized r"
proof -
  have n: "n \<le> length bs" and r: "decodeRecord digest (take n bs) = Inr r"
    using assms by (auto simp: next_record_def split: if_splits sum.splits)
  note d = decode_record_exact[OF r]
  show "bs = record_bytes r @ drop n bs" using d append_take_drop_id[of n bs] by metis
  have "length (record_bytes r) = length (take n bs)" using d by metis
  then show "n = length (record_bytes r)" using n by (simp del: length_record_bytes)
  show "encodable digest r" "record_sized r" using d by simp_all
qed

text \<open>A record that is found in a part of the bytes is the record of the whole.\<close>

lemma next_record_take:
  assumes "next_record digest (take k bs) = Inr (r, n)"
  shows "next_record digest bs = Inr (r, n)" "n \<le> k"
proof -
  note ex = next_record_exact[OF assms]
  have "bs = record_bytes r @ drop n (take k bs) @ drop k bs"
    using ex(1) append_take_drop_id[of k bs] by (metis append.assoc)
  then show "next_record digest bs = Inr (r, n)" using next_record_bytes[OF ex(3,4)] ex(2) by metis
  show "n \<le> k" using next_record_length[OF assms] by simp
qed

lemma take_next_record:
  assumes "next_record digest bs = Inr (r, n)" "n \<le> k"
  shows "next_record digest (take k bs) = Inr (r, n)"
proof -
  note ex = next_record_exact[OF assms(1)]
  have "take k bs = record_bytes r @ take (k - n) (drop n bs)"
    using ex(1,2) assms(2) by (metis append_take_drop_id take_append take_all)
  then show ?thesis using next_record_bytes[OF ex(3,4)] ex(2) by metis
qed

section \<open>What an admitted record changes\<close>

lemma admit_cases:
  assumes "admit_record r n js = Inr js'"
  obtains
    (committed) "js_first js' = None" "js_staged js' = []" "js_records js' = js_records js @ js_staged js @ [r]"
      "js_committedBytes js' = js_offset js + n" "js_offset js' = js_offset js + n"
  | (staged) "js_records js' = js_records js" "js_committedBytes js' = js_committedBytes js" "js_offset js' = js_offset js + n"
  using assms
  by (auto simp: admit_record_def apply_record_def commit_batch_def stage_def open_batch_def
      split: option.splits sum.splits record_payload.splits if_splits)

section \<open>The loop step by step\<close>

lemma loop_empty [simp]: "journal_loop digest js [] = finished js"
  by (simp add: journal_loop.simps)

lemma loop_unreadable [simp]:
  "bs \<noteq> [] \<Longrightarrow> next_record digest bs = Inl e \<Longrightarrow> journal_loop digest js bs = stopped js e (js_offset js)"
  by (simp add: journal_loop.simps)

lemma next_record_nonempty: "next_record digest bs = Inr (r, n) \<Longrightarrow> bs \<noteq> []"
  using next_record_length[of digest bs r n] by auto

lemma loop_refused [simp]:
  "next_record digest bs = Inr (r, n) \<Longrightarrow> admit_record r n js = Inl e \<Longrightarrow>
   journal_loop digest js bs = stopped js e (js_offset js)"
  using next_record_nonempty by (simp add: journal_loop.simps)

lemma loop_final [simp]:
  "next_record digest bs = Inr (r, n) \<Longrightarrow> admit_record r n js = Inr js' \<Longrightarrow> js_expected js = - 1 \<Longrightarrow>
   journal_loop digest js bs =
     (if drop n bs \<noteq> [] then stopped js' (RecordInvalidSequence, 0) (js_offset js') else finished js')"
  using next_record_nonempty by (subst journal_loop.simps) simp

lemma loop_next [simp]:
  "next_record digest bs = Inr (r, n) \<Longrightarrow> admit_record r n js = Inr js' \<Longrightarrow> js_expected js \<noteq> - 1 \<Longrightarrow>
   journal_loop digest js bs = journal_loop digest (js'\<lparr>js_expected := js_expected js + 1\<rparr>) (drop n bs)"
  using next_record_nonempty by (subst journal_loop.simps) simp

lemma journal_induct [case_names empty unreadable refused final more]:
  assumes "\<And>js. P js []"
    "\<And>js bs e. bs \<noteq> [] \<Longrightarrow> next_record digest bs = Inl e \<Longrightarrow> P js bs"
    "\<And>js bs r n e. next_record digest bs = Inr (r, n) \<Longrightarrow> admit_record r n js = Inl e \<Longrightarrow> P js bs"
    "\<And>js bs r n js'. next_record digest bs = Inr (r, n) \<Longrightarrow> admit_record r n js = Inr js' \<Longrightarrow> js_expected js = - 1 \<Longrightarrow> P js bs"
    "\<And>js bs r n js'. next_record digest bs = Inr (r, n) \<Longrightarrow> admit_record r n js = Inr js' \<Longrightarrow> js_expected js \<noteq> - 1 \<Longrightarrow>
       P (js'\<lparr>js_expected := js_expected js + 1\<rparr>) (drop n bs) \<Longrightarrow> P js bs"
  shows "P js bs"
proof (induction "length bs" arbitrary: js bs rule: less_induct)
  case less
  show ?case
  proof (cases "next_record digest bs")
    case (Inl e)
    then show ?thesis using assms(1,2) by (cases "bs = []") auto
  next
    case (Inr x)
    obtain r n where x: "next_record digest bs = Inr (r, n)" using Inr by (cases x) auto
    have "length (drop n bs) < length bs" using next_record_length[OF x] by auto
    then show ?thesis using assms(3-5)[OF x] less by (cases "admit_record r n js") blast+
  qed
qed

lemma admit_grows: "admit_record r n js = Inr js' \<Longrightarrow> prefix (js_records js) (js_records js')"
  by (erule admit_cases) simp_all

lemma loop_grows: "prefix (js_records js) (jo_records (journal_loop digest js bs))"
proof (induction js bs rule: journal_induct[where digest = digest])
  case (more js bs r n js')
  then show ?case using prefix_order.trans[OF admit_grows[OF more(2)], of "jo_records (journal_loop digest (js'\<lparr>js_expected := js_expected js + 1\<rparr>) (drop n bs))"]
    by simp
next
  case (final js bs r n js')
  then show ?case using admit_grows[OF final(2)] by (simp add: finished_def stopped_def)
qed (simp_all add: finished_def stopped_def)

text \<open>Only the records before the committed boundary count.\<close>

lemma loop_committed:
  fixes digest js bs
  defines "J \<equiv> journal_loop digest js bs"
  shows "jo_records J = js_records js \<and> jo_committedBytes J = js_committedBytes js \<or>
    js_offset js \<le> jo_committedBytes J \<and> jo_committedBytes J \<le> js_offset js + length bs \<and>
    journal_loop digest js (take (jo_committedBytes J - js_offset js) bs) = J\<lparr>jo_error := None\<rparr>"
  unfolding J_def
proof (induction js bs rule: journal_induct[where digest = digest])
  case (final js bs r n js')
  have take: "next_record digest (take n bs) = Inr (r, n)" using take_next_record[OF final(1)] by simp
  note n = next_record_length[OF final(1)]
  have J: "journal_loop digest js bs = (if drop n bs \<noteq> [] then stopped js' (RecordInvalidSequence, 0) (js_offset js') else finished js')"
    using final by simp
  from final(2) show ?case
  proof (cases rule: admit_cases)
    case committed
    have "journal_loop digest js (take n bs) = finished js'" using take final(2,3) by simp
    then show ?thesis using committed n by (auto simp: J finished_def stopped_def)
  qed (simp add: J finished_def stopped_def)
next
  case (more js bs r n js')
  let ?js = "js'\<lparr>js_expected := js_expected js + 1\<rparr>" and ?J = "journal_loop digest js bs"
  have J: "?J = journal_loop digest ?js (drop n bs)" using more(1-3) by simp
  note n = next_record_length[OF more(1)]
  have part: "journal_loop digest js (take (n + k) bs) = journal_loop digest ?js (take k (drop n bs))" for k
    using take_next_record[OF more(1), of "n + k"] more(2,3) by (simp add: drop_take)
  have offset: "js_offset js' = js_offset js + n" using more(2) by (cases rule: admit_cases) simp_all
  from more(4) show ?case
  proof
    assume same: "jo_records (journal_loop digest ?js (drop n bs)) = js_records ?js \<and>
      jo_committedBytes (journal_loop digest ?js (drop n bs)) = js_committedBytes ?js"
    from more(2) show ?thesis
    proof (cases rule: admit_cases)
      case committed
      then show ?thesis using part[of 0] same n J by (simp add: finished_def)
    qed (use same J in simp)
  next
    assume deeper: "js_offset ?js \<le> jo_committedBytes (journal_loop digest ?js (drop n bs)) \<and>
      jo_committedBytes (journal_loop digest ?js (drop n bs)) \<le> js_offset ?js + length (drop n bs) \<and>
      journal_loop digest ?js (take (jo_committedBytes (journal_loop digest ?js (drop n bs)) - js_offset ?js) (drop n bs)) =
        (journal_loop digest ?js (drop n bs))\<lparr>jo_error := None\<rparr>"
    then have "jo_committedBytes ?J - js_offset js = n + (jo_committedBytes ?J - js_offset ?js)"
      using J offset by simp
    then show ?thesis using part[of "jo_committedBytes ?J - js_offset ?js"] deeper J offset n by simp
  qed
qed (simp_all add: finished_def stopped_def)

lemma loop_none: "next_record digest bs = Inl e \<Longrightarrow> jo_records (journal_loop digest js bs) = js_records js"
  by (cases "bs = []") (simp_all add: finished_def stopped_def)

text \<open>What is left of the bytes after a torn write: no whole record, or the same record at the front.\<close>

lemma torn_record:
  assumes "next_record digest bs = Inr (r, n)"
  obtains (none) "k < n" "jo_records (journal_loop digest js (take k bs)) = js_records js"
  | (same) "n \<le> k" "next_record digest (take k bs) = Inr (r, n)"
proof (cases "n \<le> k")
  case True
  then show ?thesis using same take_next_record[OF assms] by blast
next
  case False
  then have "next_record digest (take k bs) \<noteq> Inr x" for x
    using next_record_take[of digest k bs] assms by (cases x) auto
  then obtain e where "next_record digest (take k bs) = Inl e" by (cases "next_record digest (take k bs)") auto
  then show ?thesis using none False loop_none by simp
qed

lemma loop_torn:
  "prefix (jo_records (journal_loop digest js (take k bs))) (jo_records (journal_loop digest js bs))"
proof (induction js bs arbitrary: k rule: journal_induct[where digest = digest])
  case (unreadable js bs e)
  then have "next_record digest (take k bs) \<noteq> Inr x" for x
    using next_record_take(1)[of digest k bs] by (cases x) auto
  then obtain e' where "next_record digest (take k bs) = Inl e'" by (cases "next_record digest (take k bs)") auto
  then show ?case using unreadable loop_none by (simp add: stopped_def)
next
  case (refused js bs r n e)
  from refused(1) show ?case
    by (rule torn_record[where k = k and js = js]) (use refused in \<open>simp_all add: stopped_def\<close>)
next
  case (final js bs r n js')
  from final(1) show ?case
  proof (rule torn_record[where k = k and js = js])
    assume "jo_records (journal_loop digest js (take k bs)) = js_records js"
    then show ?thesis using loop_grows[of js digest bs] by simp
  qed (use final in \<open>simp add: stopped_def finished_def\<close>)
next
  case (more js bs r n js')
  from more(1) show ?case
  proof (rule torn_record[where k = k and js = js])
    assume "jo_records (journal_loop digest js (take k bs)) = js_records js"
    then show ?thesis using loop_grows[of js digest bs] by simp
  next
    assume "n \<le> k" "next_record digest (take k bs) = Inr (r, n)"
    then show ?thesis using more(1-3) more(4)[of "k - n"] by (simp add: drop_take)
  qed
qed simp

text \<open>Property C10. A journal can be cut at the boundary that the decoder reports: whatever the bytes behind it,
  decoding the bytes before the boundary gives the same records and the same boundary, without an error.\<close>

theorem committed_boundary_is_safe:
  "decodeJournal digest (take (jo_committedBytes (decodeJournal digest bs)) bs) = (decodeJournal digest bs)\<lparr>jo_error := None\<rparr> \<and>
   jo_committedBytes (decodeJournal digest bs) \<le> length bs"
proof (cases "maximumJournalBytes < length bs")
  case True
  then show ?thesis by (simp add: decodeJournal_def journal_start_def finished_def)
next
  case False
  then show ?thesis
    using loop_committed[of digest journal_start bs] by (auto simp: decodeJournal_def journal_start_def finished_def)
qed

text \<open>Property C9. A torn write loses records at the end of a journal only: the records of a journal that was cut at any
  byte are a prefix of the records of the whole journal.\<close>

theorem torn_journal_is_prefix:
  "length bs \<le> maximumJournalBytes \<Longrightarrow>
   prefix (jo_records (decodeJournal digest (take k bs))) (jo_records (decodeJournal digest bs))"
  using loop_torn by (simp add: decodeJournal_def)

theorem torn_journal_is_prefix_witness:
  "prefix (jo_records (decodeJournal (\<lambda>_. None) (take 10 (record_bytes exampleStartRecord))))
     (jo_records (decodeJournal (\<lambda>_. None) (record_bytes exampleStartRecord)))"
proof (rule torn_journal_is_prefix)
  show "length (record_bytes exampleStartRecord) \<le> maximumJournalBytes"
    by (simp add: maximumJournalBytes_def exampleStartRecord_def put_start_def put_list_def put_start_participant_def)
qed

end
