(* ===== verification/JournalLaw.thy ===== *)
theory JournalLaw
  imports Journal
begin

text \<open>
  Which byte strings \<open>decodeJournal\<close> accepts (\<open>game-server/modules/battle-continuity/src/RecordCodec.cpp\<close>):
  the batch law of a journal as a property of its records, without the state of the loop, and the proof
  that the loop accepts exactly the encodings of the journals that satisfy it.
\<close>

section \<open>The law\<close>

text \<open>Numbered from 1, one battle, time does not go back, and only the first record starts the battle.\<close>

definition stream_ok :: "journal_record list \<Rightarrow> bool" where
  "stream_ok rs \<longleftrightarrow> (\<forall>i < length rs. rec_sequence (rs ! i) = of_nat (i + 1) \<and> rec_identity (rs ! i) = rec_identity (rs ! 0) \<and>
     (rec_type (rs ! i) = BattleStartRecord \<longleftrightarrow> i = 0)) \<and> sorted (map rec_tick rs)"

text \<open>The data records of a batch share the tick and the writer.\<close>

definition data_ok :: "journal_record list \<Rightarrow> bool" where
  "data_ok data \<longleftrightarrow> (\<forall>r \<in> set data. rec_type r \<noteq> CommitRecord \<and> rec_tick r = rec_tick (hd data) \<and>
     rec_writer r = rec_writer (hd data))"

text \<open>The commit record covers exactly the data, with the hash of the last one.\<close>

definition commits :: "journal_record list \<Rightarrow> journal_record \<Rightarrow> bool" where
  "commits data r \<longleftrightarrow> (\<exists>c. jr_payload r = CommitPayload c \<and> tc_first c = rec_sequence (hd data) \<and>
     tc_last c = rec_sequence (last data) \<and> unat (tc_count c) = length data \<and>
     dataStateHash (jr_payload (last data)) = Some (tc_hash c)) \<and>
     rec_tick r = rec_tick (hd data) \<and> rec_writer r = rec_writer (hd data) \<and> terminal_batch_valid data"

definition batch_ok :: "journal_record list \<Rightarrow> bool" where
  "batch_ok b \<longleftrightarrow> b \<noteq> [] \<and> butlast b \<noteq> [] \<and> data_ok (butlast b) \<and> commits (butlast b) (last b)"

text \<open>The first batch holds the start of the battle and the checkpoint of its initial state.\<close>

definition first_batch_ok :: "journal_record list \<Rightarrow> bool" where
  "first_batch_ok b \<longleftrightarrow> length b = 3 \<and> initial_checkpoint (b ! 0) (b ! 1)"

abbreviation batch_writer :: "journal_record list \<Rightarrow> u32" where
  "batch_writer b \<equiv> rec_writer (hd b)"

definition journal_law :: "journal_record list list \<Rightarrow> bool" where
  "journal_law bs \<longleftrightarrow> list_all batch_ok bs \<and> stream_ok (concat bs) \<and> sorted (map batch_writer bs) \<and>
     (bs \<noteq> [] \<longrightarrow> first_batch_ok (hd bs))"

section \<open>Journals with an open batch\<close>

definition journal_part :: "journal_record list list \<Rightarrow> journal_record list \<Rightarrow> bool" where
  "journal_part bs d \<longleftrightarrow> journal_law bs \<and> stream_ok (concat bs @ d) \<and> data_ok d \<and>
     (bs \<noteq> [] \<and> d \<noteq> [] \<longrightarrow> batch_writer (last bs) \<le> batch_writer d) \<and>
     (bs = [] \<and> 2 \<le> length d \<longrightarrow> initial_checkpoint (d ! 0) (d ! 1))"

text \<open>The state of the loop is determined by the batches and the open batch.\<close>

definition rel :: "journal_state \<Rightarrow> journal_record list list \<Rightarrow> journal_record list \<Rightarrow> bool" where
  "rel js bs d \<longleftrightarrow> (let rs = concat bs @ d in
     js_expected js = of_nat (length rs + 1) \<and>
     js_identity js = (if rs = [] then None else Some (rec_identity (hd rs))) \<and>
     js_previousTick js = (if rs = [] then 0 else rec_tick (last rs)) \<and>
     js_previousWriter js = (if bs = [] then None else Some (batch_writer (last bs))) \<and>
     js_first js = (if d = [] then None else Some (rec_sequence (hd d))) \<and>
     js_writer js = (if d = [] then None else Some (rec_writer (hd d))) \<and>
     js_tick js = (if d = [] then None else Some (rec_tick (hd d))) \<and>
     js_count js = length d \<and> js_lastHash js = (if d = [] then None else dataStateHash (jr_payload (last d))) \<and>
     js_staged js = d \<and> (js_hasCommitted js \<longleftrightarrow> bs \<noteq> []) \<and> js_records js = concat bs \<and>
     (d = [] \<longrightarrow> js_committedBytes js = js_offset js))"

lemma rel_start: "rel journal_start [] []"
  by (simp add: rel_def journal_start_def)

lemma part_start: "journal_part [] []"
  by (simp add: journal_part_def journal_law_def stream_ok_def data_ok_def)

lemma stream_ok_snoc:
  "stream_ok (rs @ [r]) \<longleftrightarrow> stream_ok rs \<and> rec_sequence r = of_nat (length rs + 1) \<and>
     (rs \<noteq> [] \<longrightarrow> rec_identity r = rec_identity (hd rs) \<and> rec_tick (last rs) \<le> rec_tick r) \<and>
     (rec_type r = BattleStartRecord \<longleftrightarrow> rs = [])"
proof -
  have sorted: "sorted (map rec_tick (rs @ [r])) \<longleftrightarrow> sorted (map rec_tick rs) \<and> (rs \<noteq> [] \<longrightarrow> rec_tick (last rs) \<le> rec_tick r)"
    by (cases rs rule: rev_cases) (auto simp: sorted_append)
  show ?thesis
    unfolding stream_ok_def sorted by (auto simp: nth_append less_Suc_eq hd_conv_nth)
qed

lemma data_ok_snoc:
  "data_ok (d @ [r]) \<longleftrightarrow> data_ok d \<and> rec_type r \<noteq> CommitRecord \<and>
     (d \<noteq> [] \<longrightarrow> rec_tick r = rec_tick (hd d) \<and> rec_writer r = rec_writer (hd d))"
  by (cases d) (auto simp: data_ok_def)

lemma law_snoc:
  "journal_law (bs @ [b]) \<longleftrightarrow> journal_law bs \<and> batch_ok b \<and> stream_ok (concat bs @ b) \<and>
     (if bs = [] then first_batch_ok b else batch_writer (last bs) \<le> batch_writer b)"
  if "journal_law bs"
proof -
  have "sorted (map batch_writer (bs @ [b])) \<longleftrightarrow> sorted (map batch_writer bs) \<and> (bs \<noteq> [] \<longrightarrow> batch_writer (last bs) \<le> batch_writer b)"
    by (cases bs rule: rev_cases) (auto simp: sorted_append)
  then show ?thesis using that by (auto simp: journal_law_def)
qed

section \<open>One record\<close>

definition typed_record :: "journal_record \<Rightarrow> bool" where
  "typed_record r \<longleftrightarrow> payloadRecordType (jr_payload r) = rec_type r"

lemma encodable_typed: "encodable digest r \<Longrightarrow> typed_record r"
  unfolding encodable_def typed_record_def using valid_payload_ok(2) by blast

lemma commit_typed: "typed_record r \<Longrightarrow> rec_type r = CommitRecord \<longleftrightarrow> (\<exists>c. jr_payload r = CommitPayload c)"
  by (cases "jr_payload r") (auto simp: typed_record_def)

lemma data_hash: "typed_record r \<Longrightarrow> rec_type r \<noteq> CommitRecord \<Longrightarrow> \<exists>h. dataStateHash (jr_payload r) = Some h"
  by (cases "jr_payload r") (auto simp: typed_record_def)

lemma of_nat_1: "k + 1 < 2 ^ 64 \<Longrightarrow> (of_nat (k + 1) :: u64) = 1 \<longleftrightarrow> k = 0"
proof -
  assume "k + 1 < 2 ^ 64"
  then have "unat (of_nat (k + 1) :: u64) = k + 1" by (subst unat_of_nat) (simp add: take_bit_nat_eq_self)
  then show ?thesis by (metis add_cancel_left_left unat_1 word_unat_eq_iff)
qed

lemma stream_error_rs:
  assumes "js_expected js = of_nat (length rs + 1)"
    "js_identity js = (if rs = [] then None else Some (rec_identity (hd rs)))"
    "js_previousTick js = (if rs = [] then 0 else rec_tick (last rs))" "stream_ok rs" "length rs + 2 < 2 ^ 64"
  shows "stream_error js r = None \<longleftrightarrow> stream_ok (rs @ [r])"
proof -
  have "(of_nat (length rs + 1) :: u64) = 1 \<longleftrightarrow> rs = []" using of_nat_1[of "length rs"] assms(5) by auto
  then show ?thesis
    unfolding stream_ok_snoc stream_error_def using assms by (cases "rs = []") (auto simp: not_less)
qed

lemma stream_error_iff:
  assumes "rel js bs d" "journal_part bs d" "length (concat bs @ d) + 2 < 2 ^ 64"
  shows "stream_error js r = None \<longleftrightarrow> stream_ok (concat bs @ d @ [r])"
proof -
  have "stream_error js r = None \<longleftrightarrow> stream_ok ((concat bs @ d) @ [r])"
    by (rule stream_error_rs) (use assms in \<open>simp_all add: rel_def Let_def journal_part_def del: append_is_Nil_conv\<close>)
  then show ?thesis by simp
qed

lemma batch_error_iff:
  "rel js bs d \<Longrightarrow> batch_error js r = None \<longleftrightarrow>
     (if d = [] then rec_type r \<noteq> CommitRecord \<and> (bs \<noteq> [] \<longrightarrow> batch_writer (last bs) \<le> rec_writer r)
      else rec_tick r = rec_tick (hd d) \<and> rec_writer r = rec_writer (hd d))"
  by (auto simp: batch_error_def rel_def Let_def not_less)

lemma initial_error_iff:
  "rel js bs d \<Longrightarrow> initial_error js r = None \<longleftrightarrow> \<not> (bs = [] \<and> length d = 1 \<and> \<not> initial_checkpoint (hd d) r)"
  by (auto simp: initial_error_def rel_def Let_def)

lemma admit_iff:
  "admit_record r n js = Inr js' \<longleftrightarrow>
     stream_error js r = None \<and> batch_error js r = None \<and> initial_error js r = None \<and>
     (\<exists>s. apply_record r n (open_batch r (js\<lparr>js_identity := Some (rec_identity r)\<rparr>)) = Inr s \<and>
       js' = s\<lparr>js_previousTick := rec_tick r, js_offset := js_offset js + n\<rparr>)"
proof (cases "checks [stream_error js r, batch_error js r, initial_error js r]")
  case None
  then have "stream_error js r = None" "batch_error js r = None" "initial_error js r = None" by simp_all
  then show ?thesis unfolding admit_record_def None option.case by (auto split: sum.splits)
next
  case (Some e)
  have "\<not> (stream_error js r = None \<and> batch_error js r = None \<and> initial_error js r = None)"
  proof
    assume "stream_error js r = None \<and> batch_error js r = None \<and> initial_error js r = None"
    then have "checks [stream_error js r, batch_error js r, initial_error js r] = None" by simp
    then show False using Some by simp
  qed
  then show ?thesis using Some by (auto simp: admit_record_def)
qed

lemma part_snoc:
  assumes "journal_part bs d" "rec_type r \<noteq> CommitRecord"
  shows "journal_part bs (d @ [r]) \<longleftrightarrow> stream_ok (concat bs @ d @ [r]) \<and>
     (if d = [] then bs \<noteq> [] \<longrightarrow> batch_writer (last bs) \<le> rec_writer r
      else rec_tick r = rec_tick (hd d) \<and> rec_writer r = rec_writer (hd d)) \<and>
     \<not> (bs = [] \<and> length d = 1 \<and> \<not> initial_checkpoint (hd d) r)"
proof (cases "d = []")
  case True
  then show ?thesis using assms by (auto simp: journal_part_def data_ok_def)
next
  case False
  have initial: "(bs = [] \<and> 2 \<le> length (d @ [r]) \<longrightarrow> initial_checkpoint ((d @ [r]) ! 0) ((d @ [r]) ! 1)) \<longleftrightarrow>
      (bs = [] \<and> 2 \<le> length d \<longrightarrow> initial_checkpoint (d ! 0) (d ! 1)) \<and>
      \<not> (bs = [] \<and> length d = 1 \<and> \<not> initial_checkpoint (hd d) r)"
  proof (cases "length d = 1")
    case True
    then show ?thesis using False by (simp add: nth_append hd_conv_nth)
  next
    case more: False
    then have "2 \<le> length d" using False by (cases d) (auto simp: Suc_le_eq)
    then show ?thesis by (auto simp: nth_append)
  qed
  show ?thesis
    unfolding journal_part_def initial using assms False by (auto simp: journal_part_def data_ok_snoc)
qed

text \<open>Data records extend the open batch.\<close>

lemma admit_data:
  assumes "rel js bs d" "journal_part bs d" "length (concat bs @ d) + 2 < 2 ^ 64" "typed_record r" "rec_type r \<noteq> CommitRecord"
  shows "(\<exists>js'. admit_record r n js = Inr js') \<longleftrightarrow> journal_part bs (d @ [r])"
    "admit_record r n js = Inr js' \<Longrightarrow> rel (js'\<lparr>js_expected := js_expected js + 1\<rparr>) bs (d @ [r])"
proof -
  obtain h where h: "dataStateHash (jr_payload r) = Some h" using data_hash[OF assms(4,5)] by blast
  have data: "\<nexists>c. jr_payload r = CommitPayload c" using commit_typed[OF assms(4)] assms(5) by simp
  have applied: "apply_record r n s = Inr (stage r h s)" for s
    using h data by (auto simp: apply_record_def split: record_payload.splits)
  have "(\<exists>js'. admit_record r n js = Inr js') \<longleftrightarrow>
      stream_error js r = None \<and> batch_error js r = None \<and> initial_error js r = None"
    by (simp add: admit_iff applied)
  also have "\<dots> \<longleftrightarrow> journal_part bs (d @ [r])"
    unfolding stream_error_iff[OF assms(1-3)] batch_error_iff[OF assms(1)] initial_error_iff[OF assms(1)]
    using assms(2,5) part_snoc[of bs d r] by auto
  finally show "(\<exists>js'. admit_record r n js = Inr js') \<longleftrightarrow> journal_part bs (d @ [r])" .
  assume adm: "admit_record r n js = Inr js'"
  then have "js' = (stage r h (open_batch r (js\<lparr>js_identity := Some (rec_identity r)\<rparr>)))\<lparr>js_previousTick := rec_tick r,
      js_offset := js_offset js + n\<rparr>"
    by (simp add: admit_iff applied)
  moreover have "concat bs @ d \<noteq> [] \<Longrightarrow> rec_identity r = rec_identity (hd (concat bs @ d))"
    using adm assms(1-3) stream_error_iff[OF assms(1-3), of r] stream_ok_snoc[of "concat bs @ d" r]
    by (auto simp: admit_iff)
  moreover have "hd (concat bs @ d @ [r]) = (if concat bs @ d = [] then r else hd (concat bs @ d))"
    by (metis append.assoc append_Nil hd_append list.sel(1))
  ultimately show "rel (js'\<lparr>js_expected := js_expected js + 1\<rparr>) bs (d @ [r])"
    using assms(1,4) h by (cases "d = []") (simp_all add: rel_def Let_def stage_def open_batch_def)
qed

text \<open>The commit record closes it.\<close>

lemma sequence_of:
  assumes "stream_ok (xs @ d @ [r])" "d \<noteq> []"
  shows "rec_sequence (hd d) = of_nat (length xs + 1)" "rec_sequence (last d) = of_nat (length xs + length d)"
    "rec_sequence r = of_nat (length xs + length d + 1)"
proof -
  have nth: "rec_sequence ((xs @ d @ [r]) ! i) = of_nat (i + 1)" if "i < length xs + length d + 1" for i
    using assms(1) that by (simp add: stream_ok_def)
  show "rec_sequence (hd d) = of_nat (length xs + 1)"
    using nth[of "length xs"] assms(2) by (simp add: nth_append hd_conv_nth)
  show "rec_sequence (last d) = of_nat (length xs + length d)"
    using nth[of "length xs + length d - 1"] assms(2) by (cases d rule: rev_cases) (auto simp: nth_append)
  show "rec_sequence r = of_nat (length xs + length d + 1)"
    using nth[of "length xs + length d"] by (simp add: nth_append)
qed

lemma commit_numbers:
  fixes count :: u32
  assumes "m + k + 2 < 2 ^ 64" "k = unat count"
  shows "(of_nat (m + k) :: u64) < - 1" "(of_nat (m + k) :: u64) - of_nat (m + 1) + 1 = ucast count"
proof -
  have "unat (of_nat (m + k) :: u64) = m + k" by (subst unat_of_nat) (use assms(1) in \<open>simp add: take_bit_nat_eq_self\<close>)
  then show "(of_nat (m + k) :: u64) < - 1" using assms(1) by (simp add: word_less_nat_alt del: of_nat_add)
  have "(of_nat k :: u64) = ucast count" using assms(2) by simp
  then show "(of_nat (m + k) :: u64) - of_nat (m + 1) + 1 = ucast count" by simp
qed

lemma initial_types:
  "initial_checkpoint s k \<Longrightarrow> typed_record s \<Longrightarrow> typed_record k \<Longrightarrow>
   rec_type s = BattleStartRecord \<and> rec_type k = CheckpointRecord"
  by (auto simp: initial_checkpoint_def typed_record_def split: record_payload.splits)

lemma commit_not_initial: "jr_payload r = CommitPayload c \<Longrightarrow> \<not> initial_checkpoint s r"
  by (auto simp: initial_checkpoint_def split: record_payload.splits)

lemma commit_invalid_iff:
  assumes "rel js bs d" "journal_part bs d" "length (concat bs @ d) + 2 < 2 ^ 64" "d \<noteq> []" "\<forall>x \<in> set d. typed_record x"
    "jr_payload r = CommitPayload c" "stream_ok (concat bs @ d @ [r])" "rec_tick r = rec_tick (hd d)" "rec_writer r = rec_writer (hd d)"
  shows "\<not> commit_invalid js r c \<longleftrightarrow> commits d r \<and> (bs = [] \<longrightarrow> length d = 2)"
proof -
  note seq = sequence_of[OF assms(7,4)]
  have fields: "js_first js = Some (rec_sequence (hd d))" "js_count js = length d" "js_staged js = d"
    "js_lastHash js = dataStateHash (jr_payload (last d))" "js_hasCommitted js \<longleftrightarrow> bs \<noteq> []"
    using assms(1,4) by (auto simp: rel_def Let_def)
  have "rec_sequence r = 3 \<and> rec_type (d ! 0) = BattleStartRecord \<and> rec_type (d ! 1) = CheckpointRecord"
    if "bs = []" "length d = 2"
  proof -
    have "initial_checkpoint (d ! 0) (d ! 1)" using assms(2) that by (simp add: journal_part_def)
    moreover have "typed_record (d ! 0)" "typed_record (d ! 1)" using assms(5) that by auto
    ultimately show ?thesis using initial_types seq(3) that by auto
  qed
  moreover have "tc_last c + 1 = rec_sequence r \<longleftrightarrow> tc_last c = rec_sequence (last d)"
    unfolding seq by (simp add: algebra_simps)
  moreover have "rec_sequence (last d) < - 1 \<and> rec_sequence (last d) - rec_sequence (hd d) + 1 = ucast (tc_count c)"
    if "length d = unat (tc_count c)"
    unfolding seq using commit_numbers[of "length (concat bs)" "length d" "tc_count c"] assms(3) that by simp
  ultimately show ?thesis
    unfolding commit_invalid_def commits_def fields using assms(6,8,9) by (auto simp: Let_def)
qed

lemma batch_ok_snoc: "batch_ok (d @ [r]) \<longleftrightarrow> d \<noteq> [] \<and> data_ok d \<and> commits d r"
  by (simp add: batch_ok_def)

lemma admit_commit:
  assumes "rel js bs d" "journal_part bs d" "length (concat bs @ d) + 2 < 2 ^ 64" "typed_record r" "rec_type r = CommitRecord"
    "\<forall>x \<in> set d. typed_record x"
  shows "(\<exists>js'. admit_record r n js = Inr js') \<longleftrightarrow> journal_law (bs @ [d @ [r]])"
    "admit_record r n js = Inr js' \<Longrightarrow> rel (js'\<lparr>js_expected := js_expected js + 1\<rparr>) (bs @ [d @ [r]]) []"
proof -
  obtain c where c: "jr_payload r = CommitPayload c" using commit_typed[OF assms(4)] assms(5) by blast
  have adm: "admit_record r n js = Inr js' \<longleftrightarrow> stream_error js r = None \<and> batch_error js r = None \<and> initial_error js r = None \<and>
      \<not> commit_invalid (open_batch r (js\<lparr>js_identity := Some (rec_identity r)\<rparr>)) r c \<and>
      js' = (commit_batch r n (open_batch r (js\<lparr>js_identity := Some (rec_identity r)\<rparr>)))\<lparr>js_previousTick := rec_tick r,
        js_offset := js_offset js + n\<rparr>" for js'
    by (auto simp: admit_iff apply_record_def c)
  have law: "journal_law (bs @ [d @ [r]]) \<longleftrightarrow> d \<noteq> [] \<and> commits d r \<and> stream_ok (concat bs @ d @ [r]) \<and>
      (bs = [] \<longrightarrow> length d = 2)"
    using assms(2) law_snoc[of bs "d @ [r]"] batch_ok_snoc[of "[]" r]
    by (cases "d = []") (auto simp: journal_part_def batch_ok_snoc first_batch_ok_def nth_append numeral_2_eq_2 numeral_3_eq_3)
  have main: "(\<exists>js'. admit_record r n js = Inr js') \<longleftrightarrow> journal_law (bs @ [d @ [r]])"
  proof (cases "d = []")
    case True
    then show ?thesis using assms(5) law by (simp add: adm batch_error_iff[OF assms(1)])
  next
    case False
    then have opened: "open_batch r (js\<lparr>js_identity := Some (rec_identity r)\<rparr>) = js\<lparr>js_identity := Some (rec_identity r)\<rparr>"
      using assms(1) by (simp add: open_batch_def rel_def Let_def)
    have same: "commit_invalid (js\<lparr>js_identity := Some (rec_identity r)\<rparr>) r c = commit_invalid js r c"
      by (simp add: commit_invalid_def)
    have single: "bs = [] \<and> length d = 2 \<Longrightarrow> \<not> (length d = 1)" by simp
    have "commits d r \<Longrightarrow> rec_tick r = rec_tick (hd d) \<and> rec_writer r = rec_writer (hd d)" by (simp add: commits_def)
    then show ?thesis
      using commit_invalid_iff[OF assms(1-3) False assms(6) c] False commit_not_initial[OF c]
      unfolding adm law opened same stream_error_iff[OF assms(1-3)] batch_error_iff[OF assms(1)] initial_error_iff[OF assms(1)]
      by auto
  qed
  then show "(\<exists>js'. admit_record r n js = Inr js') \<longleftrightarrow> journal_law (bs @ [d @ [r]])" .
  assume a: "admit_record r n js = Inr js'"
  then have l: "journal_law (bs @ [d @ [r]])" using main by blast
  then have d: "d \<noteq> []" by (simp add: law)
  have ident: "rec_identity r = rec_identity (hd (concat bs @ d))" and writer: "rec_writer r = rec_writer (hd d)"
    using l d stream_ok_snoc[of "concat bs @ d" r] by (auto simp: law commits_def)
  have "hd (concat bs @ d @ [r]) = hd (concat bs @ d)" using d by (metis append.assoc hd_append2 append_is_Nil_conv)
  then show "rel (js'\<lparr>js_expected := js_expected js + 1\<rparr>) (bs @ [d @ [r]]) []"
    using a assms(1) d ident writer by (simp add: adm rel_def Let_def commit_batch_def open_batch_def)
qed

section \<open>Whole journals\<close>

abbreviation journal_bytes :: "journal_record list \<Rightarrow> bytes" where
  "journal_bytes rs \<equiv> concat (map record_bytes rs)"

definition storable :: "(bytes \<Rightarrow> bytes option) \<Rightarrow> journal_record \<Rightarrow> bool" where
  "storable digest r \<longleftrightarrow> encodable digest r \<and> record_sized r"

lemma journal_bytes_length: "68 * length rs \<le> length (journal_bytes rs)"
  by (induction rs) simp_all

lemma rel_expected:
  assumes "rel js bs d" "length (concat bs @ d) + 2 < 2 ^ 64"
  shows "js_expected js \<noteq> - 1"
proof -
  have "unat (of_nat (length (concat bs @ d) + 1) :: u64) = length (concat bs @ d) + 1"
    by (subst unat_of_nat) (use assms(2) in \<open>simp add: take_bit_nat_eq_self\<close>)
  moreover have "unat (- 1 :: u64) = 2 ^ 64 - 1" by simp
  ultimately have "(of_nat (length (concat bs @ d) + 1) :: u64) \<noteq> - 1" using assms(2) by (metis less_irrefl less_diff_conv nat_add_left_cancel_less numeral_Bit0 one_add_one add.assoc)
  then show ?thesis using assms(1) by (simp add: rel_def Let_def)
qed

lemma loop_sound:
  assumes "rel js bs d" "journal_part bs d" "\<forall>x \<in> set d. typed_record x" "jo_error (journal_loop digest js bytes) = None"
    "length (concat bs @ d) + length bytes + 2 < 2 ^ 64"
  shows "\<exists>rs batches. bytes = journal_bytes rs \<and> list_all (storable digest) rs \<and> concat bs @ d @ rs = concat batches \<and>
    journal_law batches \<and> jo_records (journal_loop digest js bytes) = concat batches"
  using assms
proof (induction js bytes arbitrary: bs d rule: journal_induct[where digest = digest])
  case (empty js)
  then have "d = []" by (auto simp: finished_def rel_def Let_def split: if_splits)
  then show ?case using empty(1,2) by (intro exI[of _ "[]"] exI[of _ bs]) (simp add: finished_def rel_def Let_def journal_part_def)
next
  case (final js bytes r n js')
  then show ?case using rel_expected[OF final(4)] final(8) by simp
next
  case (more js bytes r n js')
  note ex = next_record_exact[OF more(1)]
  have typed: "typed_record r" using encodable_typed ex(3) by blast
  have n: "68 \<le> n" "n \<le> length bytes" using next_record_length[OF more(1)] by simp_all
  have small: "length (concat bs @ d) + 2 < 2 ^ 64" using more(9) by simp
  have err: "jo_error (journal_loop digest (js'\<lparr>js_expected := js_expected js + 1\<rparr>) (drop n bytes)) = None"
    using more(1-3,8) by simp
  have step: "\<exists>bs' d'. rel (js'\<lparr>js_expected := js_expected js + 1\<rparr>) bs' d' \<and> journal_part bs' d' \<and> (\<forall>x \<in> set d'. typed_record x) \<and>
      concat bs' @ d' = concat bs @ d @ [r]"
  proof (cases "rec_type r = CommitRecord")
    case True
    note adm = admit_commit[OF more(5,6) small typed True more(7), of n]
    have law: "journal_law (bs @ [d @ [r]])" using adm(1) more(2) by blast
    then have "journal_part (bs @ [d @ [r]]) []" by (simp add: journal_part_def data_ok_def journal_law_def)
    then show ?thesis using adm(2)[OF more(2)] by (intro exI[of _ "bs @ [d @ [r]]"] exI[of _ "[]"]) simp
  next
    case False
    note adm = admit_data[OF more(5,6) small typed False, of n]
    have "journal_part bs (d @ [r])" using adm(1) more(2) by blast
    then show ?thesis using adm(2)[OF more(2)] more(7) typed by (intro exI[of _ bs] exI[of _ "d @ [r]"]) auto
  qed
  then obtain bs' d' where bd: "rel (js'\<lparr>js_expected := js_expected js + 1\<rparr>) bs' d'" "journal_part bs' d'" "\<forall>x \<in> set d'. typed_record x"
    "concat bs' @ d' = concat bs @ d @ [r]" by blast
  have "length (concat bs' @ d') + length (drop n bytes) + 2 < 2 ^ 64"
    unfolding bd(4) using more(9) n by simp
  from more(4)[OF bd(1-3) err this] obtain rs batches where rs: "drop n bytes = journal_bytes rs" "list_all (storable digest) rs"
    "concat bs' @ d' @ rs = concat batches" "journal_law batches"
    "jo_records (journal_loop digest (js'\<lparr>js_expected := js_expected js + 1\<rparr>) (drop n bytes)) = concat batches" by blast
  have "bytes = journal_bytes (r # rs)" using ex(1) rs(1) by simp
  moreover have "concat bs @ d @ r # rs = concat batches" using rs(3) bd(4) by (metis append.assoc append_Cons append_Nil)
  moreover have "list_all (storable digest) (r # rs)" using rs(2) ex(3,4) by (simp add: storable_def[of digest r])
  ultimately show ?case
    using rs(4,5) loop_next[OF more(1-3)] by (intro exI[of _ "r # rs"] exI[of _ batches]) (simp only: refl simp_thms)
qed (simp_all add: stopped_def)

lemma stream_ok_prefix: "stream_ok (xs @ ys) \<Longrightarrow> stream_ok xs"
  by (induction ys rule: rev_induct) (auto simp: stream_ok_snoc simp flip: append_assoc)

lemma data_ok_prefix: "data_ok (xs @ ys) \<Longrightarrow> data_ok xs"
  by (cases xs) (auto simp: data_ok_def)

lemma law_prefix: "journal_law (bs @ later) \<Longrightarrow> journal_law bs"
  using stream_ok_prefix[of "concat bs" "concat later"]
  by (cases "bs = []") (auto simp: journal_law_def sorted_append stream_ok_def)

lemma part_of_law:
  assumes "journal_law (bs @ (d @ e) # later)" "e \<noteq> []"
  shows "journal_part bs d"
proof -
  have law: "journal_law (bs @ [d @ e])" using law_prefix[of "bs @ [d @ e]" later] assms(1) by simp
  have bs: "journal_law bs" using law_prefix[OF assms(1)] .
  have b: "batch_ok (d @ e)" "stream_ok ((concat bs @ d) @ e)"
    "if bs = [] then first_batch_ok (d @ e) else batch_writer (last bs) \<le> batch_writer (d @ e)"
    using law law_snoc[OF bs, of "d @ e"] by simp_all
  have "data_ok (d @ butlast e)" using b(1) assms(2) by (simp add: batch_ok_def butlast_append)
  then show ?thesis
    using bs b(3) stream_ok_prefix[OF b(2)] data_ok_prefix by (cases "d = []") (auto simp: journal_part_def first_batch_ok_def nth_append)
qed

lemma loop_complete:
  assumes "rel js bs d" "journal_law (bs @ rests)" "concat rests = d @ rs" "rests \<noteq> [] \<Longrightarrow> \<exists>e. hd rests = d @ e \<and> e \<noteq> []"
    "list_all (storable digest) rs" "\<forall>x \<in> set d. typed_record x" "length (concat bs @ d) + length rs + 2 < 2 ^ 64"
  shows "journal_loop digest js (journal_bytes rs) =
    \<lparr>jo_records = concat (bs @ rests), jo_committedBytes = js_offset js + length (journal_bytes rs), jo_error = None\<rparr>"
  using assms
proof (induction rs arbitrary: js bs d rests)
  case Nil
  have "rests = []"
  proof (rule ccontr)
    assume "rests \<noteq> []"
    then obtain e b later where "rests = (d @ e) # later" "e \<noteq> []" using Nil(4) by (cases rests) auto
    then show False using Nil(3) by simp
  qed
  then show ?case using Nil(1,3) by (simp add: finished_def rel_def Let_def)
next
  case (Cons r rs)
  have "rests \<noteq> []" using Cons.prems(3) by auto
  then obtain e later where rests: "rests = (d @ e) # later" "e \<noteq> []" using Cons.prems(4) by (cases rests) auto
  then obtain e' where e: "e = r # e'" "e' @ concat later = rs" using Cons.prems(3) by (cases e) auto
  have storable: "encodable digest r" "record_sized r" using Cons.prems(5) by (simp_all add: storable_def)
  have typed: "typed_record r" by (rule encodable_typed[OF storable(1)])
  have small: "length (concat bs @ d) + 2 < 2 ^ 64" using Cons.prems(7) by simp
  have journal_part: "journal_part bs d" using part_of_law[of bs d e later] Cons.prems(2) rests by simp
  let ?n = "length (record_bytes r)"
  note front = next_record_bytes[OF storable, of "journal_bytes rs"]
  have expected: "js_expected js \<noteq> - 1" by (rule rel_expected[OF Cons.prems(1) small])
  have "\<exists>js' bs' d' rests'. admit_record r ?n js = Inr js' \<and> rel (js'\<lparr>js_expected := js_expected js + 1\<rparr>) bs' d' \<and>
      journal_law (bs' @ rests') \<and> concat rests' = d' @ rs \<and> (rests' \<noteq> [] \<longrightarrow> (\<exists>e. hd rests' = d' @ e \<and> e \<noteq> [])) \<and>
      (\<forall>x \<in> set d'. typed_record x) \<and> concat bs' @ d' = concat bs @ d @ [r] \<and> concat (bs' @ rests') = concat (bs @ rests)"
  proof (cases "e' = []")
    case True
    have law: "journal_law (bs @ [d @ [r]])" using law_prefix[of "bs @ [d @ [r]]" later] Cons.prems(2) rests e(1) True by simp
    then have "commits d r" by (simp add: journal_law_def batch_ok_snoc)
    then have "rec_type r = CommitRecord" using commit_typed[OF typed] by (auto simp: commits_def)
    note adm = admit_commit[OF Cons.prems(1) journal_part small typed this Cons.prems(6), of ?n]
    obtain js' where js': "admit_record r ?n js = Inr js'" using adm(1) law by blast
    have "hd later \<noteq> []" if "later \<noteq> []"
      using Cons.prems(2) rests that by (cases later) (auto simp: journal_law_def batch_ok_def)
    then show ?thesis
      using js' adm(2)[OF js'] Cons.prems(2) rests e True
      by (intro exI[of _ js'] exI[of _ "bs @ [d @ [r]]"] exI[of _ "[]"] exI[of _ later]) simp
  next
    case False
    then have next_part: "journal_part bs (d @ [r])" using part_of_law[of bs "d @ [r]" e' later] Cons.prems(2) rests e(1) by simp
    then have "rec_type r \<noteq> CommitRecord" by (simp add: journal_part_def data_ok_snoc)
    note adm = admit_data[OF Cons.prems(1) journal_part small typed this, of ?n]
    obtain js' where js': "admit_record r ?n js = Inr js'" using adm(1) next_part by blast
    show ?thesis
      using js' adm(2)[OF js'] Cons.prems(2,6) rests e typed False
      by (intro exI[of _ js'] exI[of _ bs] exI[of _ "d @ [r]"] exI[of _ rests]) auto
  qed
  then obtain js' bs' d' rests' where step: "admit_record r ?n js = Inr js'" "rel (js'\<lparr>js_expected := js_expected js + 1\<rparr>) bs' d'"
    "journal_law (bs' @ rests')" "concat rests' = d' @ rs" "rests' \<noteq> [] \<longrightarrow> (\<exists>e. hd rests' = d' @ e \<and> e \<noteq> [])"
    "\<forall>x \<in> set d'. typed_record x" "concat bs' @ d' = concat bs @ d @ [r]" "concat (bs' @ rests') = concat (bs @ rests)" by blast
  have offset: "js_offset js' = js_offset js + ?n" using step(1) by (cases rule: admit_cases) simp_all
  have "journal_loop digest (js'\<lparr>js_expected := js_expected js + 1\<rparr>) (journal_bytes rs) =
      \<lparr>jo_records = concat (bs' @ rests'), jo_committedBytes = js_offset js' + length (journal_bytes rs), jo_error = None\<rparr>"
    using Cons.IH[OF step(2-4) _ _ step(6)] step(5) Cons.prems(5,7) step(7) by simp
  then show ?case
    using loop_next[OF front step(1) expected] step(8) offset by (simp del: concat_append length_record_bytes)
qed

lemma accepts_iff:
  "jo_error (decodeJournal digest bs) = None \<and> jo_records (decodeJournal digest bs) = rs \<longleftrightarrow>
   length bs \<le> maximumJournalBytes \<and> bs = journal_bytes rs \<and> list_all (storable digest) rs \<and>
   (\<exists>batches. rs = concat batches \<and> journal_law batches)"
proof
  assume ok: "jo_error (decodeJournal digest bs) = None \<and> jo_records (decodeJournal digest bs) = rs"
  then have size: "length bs \<le> maximumJournalBytes" by (auto simp: decodeJournal_def split: if_splits)
  then have loop: "decodeJournal digest bs = journal_loop digest journal_start bs" by (simp add: decodeJournal_def)
  from loop_sound[OF rel_start part_start, of digest bs] ok size loop
  show "length bs \<le> maximumJournalBytes \<and> bs = journal_bytes rs \<and> list_all (storable digest) rs \<and>
    (\<exists>batches. rs = concat batches \<and> journal_law batches)"
    by (fastforce simp: maximumJournalBytes_def)
next
  assume a: "length bs \<le> maximumJournalBytes \<and> bs = journal_bytes rs \<and> list_all (storable digest) rs \<and>
    (\<exists>batches. rs = concat batches \<and> journal_law batches)"
  then obtain batches where b: "rs = concat batches" "journal_law batches" by blast
  have "68 * length rs \<le> maximumJournalBytes" using journal_bytes_length[of rs] a order_trans by blast
  then have small: "length (concat [] @ []) + length rs + 2 < 2 ^ 64" by (simp add: maximumJournalBytes_def)
  have "hd batches \<noteq> []" if "batches \<noteq> []" using b(2) that by (cases batches) (auto simp: journal_law_def batch_ok_def)
  then have "journal_loop digest journal_start (journal_bytes rs) = \<lparr>jo_records = concat ([] @ batches),
      jo_committedBytes = js_offset journal_start + length (journal_bytes rs), jo_error = None\<rparr>"
    using a b small by (intro loop_complete[OF rel_start]) auto
  then show "jo_error (decodeJournal digest bs) = None \<and> jo_records (decodeJournal digest bs) = rs"
    using a b(1) by (metis decodeJournal_def journal_result.simps(1,3) append_Nil leD)
qed

text \<open>Property C8. The decoder accepts a byte string without an error exactly when it is the encoding of a journal:
  storable records in batches that satisfy the batch law, numbered from 1, of one battle, with non-decreasing ticks and
  writer epochs, beginning with the start of the battle and the checkpoint of its initial state. The records it
  returns are those of the journal.\<close>

theorem journal_acceptance:
  "jo_error (decodeJournal digest bs) = None \<and> jo_records (decodeJournal digest bs) = rs \<longleftrightarrow>
   length bs \<le> maximumJournalBytes \<and> bs = journal_bytes rs \<and> list_all (storable digest) rs \<and>
   (\<exists>batches. rs = concat batches \<and> journal_law batches)"
  by (rule accepts_iff)

end
