(* ===== verification/BattleStateWire.thy ===== *)
theory BattleStateWire
  imports BattleImage ByteCodec
begin

text \<open>
  The bytes of a battle state (\<open>putState\<close>, \<open>getState\<close> and their parts in
  \<open>game-server/modules/battle-continuity/src/BattleStateCodec.cpp\<close>). A C++ enumeration that was
  read from bytes may hold any number, so the structures of the image appear here a second time,
  with the number in the place of the enumeration; \<open>wire_of\<close> and \<open>image_of\<close> relate the two. Every
  writer and reader is shown to be a \<open>codec\<close>.
\<close>

section \<open>Enumerations\<close>

fun load_state_code :: "load_state \<Rightarrow> byte" where
  "load_state_code Created = 0" | "load_state_code LoadBarrierOpen = 1" | "load_state_code GameplayCommitted = 2"
| "load_state_code LoadCancelled = 3"

definition load_state_vals :: "load_state list" where
  "load_state_vals = [Created, LoadBarrierOpen, GameplayCommitted, LoadCancelled]"

definition valid_load_state :: "byte \<Rightarrow> bool" where
  "valid_load_state raw \<longleftrightarrow> enum_value load_state_code load_state_vals raw \<noteq> None"

fun candidate_code :: "candidate_state \<Rightarrow> byte" where
  "candidate_code PendingLoad = 0" | "candidate_code Ready = 1" | "candidate_code CandidateDisconnected = 2"
| "candidate_code CandidateTimedOut = 3"

definition candidate_vals :: "candidate_state list" where
  "candidate_vals = [PendingLoad, Ready, CandidateDisconnected, CandidateTimedOut]"

definition valid_candidate :: "byte \<Rightarrow> bool" where
  "valid_candidate raw \<longleftrightarrow> enum_value candidate_code candidate_vals raw \<noteq> None"

fun exit_code :: "exit_status \<Rightarrow> byte" where
  "exit_code GameplayEligible = 0" | "exit_code VoluntaryLeft = 1" | "exit_code ExitDisconnected = 2"
| "exit_code TerminalPresent = 3" | "exit_code TerminalExited = 4"

definition exit_vals :: "exit_status list" where
  "exit_vals = [GameplayEligible, VoluntaryLeft, ExitDisconnected, TerminalPresent, TerminalExited]"

definition valid_exit :: "byte \<Rightarrow> bool" where
  "valid_exit raw \<longleftrightarrow> enum_value exit_code exit_vals raw \<noteq> None"

fun attack_result_code :: "attack_code \<Rightarrow> u16" where
  "attack_result_code AttackOk = 0" | "attack_result_code AttackNotEligible = 1"
| "attack_result_code AttackStaleSession = 2" | "attack_result_code AttackStaleBattle = 3"
| "attack_result_code AttackInvalidTarget = 4" | "attack_result_code AttackOutOfRange = 5"
| "attack_result_code AttackCooldown = 6" | "attack_result_code AttackOverloaded = 7"
| "attack_result_code AttackCommandConflict = 8" | "attack_result_code AttackTerminalAlreadyDecided = 9"

definition attack_result_vals :: "attack_code list" where
  "attack_result_vals = [AttackOk, AttackNotEligible, AttackStaleSession, AttackStaleBattle, AttackInvalidTarget, AttackOutOfRange,
    AttackCooldown, AttackOverloaded, AttackCommandConflict, AttackTerminalAlreadyDecided]"

definition valid_attack_result :: "u16 \<Rightarrow> bool" where
  "valid_attack_result raw \<longleftrightarrow> enum_value attack_result_code attack_result_vals raw \<noteq> None"

fun combat_outcome_code :: "combat_outcome \<Rightarrow> byte" where
  "combat_outcome_code NoOutcome = 0" | "combat_outcome_code MonsterDefeated = 1"
| "combat_outcome_code CombatTimeout = 2"

definition combat_outcome_vals :: "combat_outcome list" where
  "combat_outcome_vals = [NoOutcome, MonsterDefeated, CombatTimeout]"

definition valid_combat_outcome :: "byte \<Rightarrow> bool" where
  "valid_combat_outcome raw \<longleftrightarrow> enum_value combat_outcome_code combat_outcome_vals raw \<noteq> None"

fun monster_state_code :: "monster_state \<Rightarrow> byte" where
  "monster_state_code Alive = 0" | "monster_state_code Dying = 1" | "monster_state_code Dead = 2"
| "monster_state_code TimedOut = 3"

definition monster_state_vals :: "monster_state list" where
  "monster_state_vals = [Alive, Dying, Dead, TimedOut]"

definition valid_monster_state :: "byte \<Rightarrow> bool" where
  "valid_monster_state raw \<longleftrightarrow> enum_value monster_state_code monster_state_vals raw \<noteq> None"

fun drop_state_code :: "drop_state \<Rightarrow> byte" where
  "drop_state_code DropAvailable = 0" | "drop_state_code DropClaimed = 1" | "drop_state_code DropUnclaimed = 2"

definition drop_state_vals :: "drop_state list" where
  "drop_state_vals = [DropAvailable, DropClaimed, DropUnclaimed]"

definition valid_drop_state :: "byte \<Rightarrow> bool" where
  "valid_drop_state raw \<longleftrightarrow> enum_value drop_state_code drop_state_vals raw \<noteq> None"

fun resolution_code :: "loot_resolution \<Rightarrow> byte" where
  "resolution_code LootNotStarted = 0" | "resolution_code LootOpen = 1" | "resolution_code LootResolved = 2"

definition resolution_vals :: "loot_resolution list" where
  "resolution_vals = [LootNotStarted, LootOpen, LootResolved]"

definition valid_resolution :: "byte \<Rightarrow> bool" where
  "valid_resolution raw \<longleftrightarrow> enum_value resolution_code resolution_vals raw \<noteq> None"

fun claim_result_code :: "claim_code \<Rightarrow> u16" where
  "claim_result_code ClaimOk = 0" | "claim_result_code ClaimNotEligible = 1"
| "claim_result_code ClaimStaleSession = 2" | "claim_result_code ClaimStaleBattle = 3"
| "claim_result_code InvalidDrop = 4" | "claim_result_code UnknownDrop = 5" | "claim_result_code ClaimOutOfRange = 6"
| "claim_result_code AlreadyClaimed = 7" | "claim_result_code ClaimOverloaded = 8"
| "claim_result_code ClaimCommandConflict = 9" | "claim_result_code CatalogRejected = 10"
| "claim_result_code ResolutionClosed = 11"

definition claim_result_vals :: "claim_code list" where
  "claim_result_vals = [ClaimOk, ClaimNotEligible, ClaimStaleSession, ClaimStaleBattle, InvalidDrop, UnknownDrop,
    ClaimOutOfRange, AlreadyClaimed, ClaimOverloaded, ClaimCommandConflict, CatalogRejected, ResolutionClosed]"

definition valid_claim_result :: "u16 \<Rightarrow> bool" where
  "valid_claim_result raw \<longleftrightarrow> enum_value claim_result_code claim_result_vals raw \<noteq> None"

fun outcome_code :: "battle_outcome \<Rightarrow> byte" where
  "outcome_code OutcomeMonsterDefeated = 1" | "outcome_code OutcomeCombatTimeout = 2"
| "outcome_code OutcomeCancelled = 3"

definition outcome_vals :: "battle_outcome list" where
  "outcome_vals = [OutcomeMonsterDefeated, OutcomeCombatTimeout, OutcomeCancelled]"

definition valid_outcome :: "byte \<Rightarrow> bool" where
  "valid_outcome raw \<longleftrightarrow> enum_value outcome_code outcome_vals raw \<noteq> None"

fun result_state_code :: "result_state \<Rightarrow> byte" where
  "result_state_code NotReady = 0" | "result_state_code Committed = 1"
| "result_state_code ResultGenerationFailed = 2"

definition result_state_vals :: "result_state list" where
  "result_state_vals = [NotReady, Committed, ResultGenerationFailed]"

definition valid_result_state :: "byte \<Rightarrow> bool" where
  "valid_result_state raw \<longleftrightarrow> enum_value result_state_code result_state_vals raw \<noteq> None"

interpretation load_state_enum: enumeration load_state_code load_state_vals
proof
  fix e e' :: load_state
  show "e \<in> set load_state_vals" by (cases e) (simp_all add: load_state_vals_def)
  show "load_state_code e = load_state_code e' \<longleftrightarrow> e = e'" by (cases e; cases e') simp_all
qed

interpretation candidate_enum: enumeration candidate_code candidate_vals
proof
  fix e e' :: candidate_state
  show "e \<in> set candidate_vals" by (cases e) (simp_all add: candidate_vals_def)
  show "candidate_code e = candidate_code e' \<longleftrightarrow> e = e'" by (cases e; cases e') simp_all
qed

interpretation exit_enum: enumeration exit_code exit_vals
proof
  fix e e' :: exit_status
  show "e \<in> set exit_vals" by (cases e) (simp_all add: exit_vals_def)
  show "exit_code e = exit_code e' \<longleftrightarrow> e = e'" by (cases e; cases e') simp_all
qed

interpretation attack_result_enum: enumeration attack_result_code attack_result_vals
proof
  fix e e' :: attack_code
  show "e \<in> set attack_result_vals" by (cases e) (simp_all add: attack_result_vals_def)
  show "attack_result_code e = attack_result_code e' \<longleftrightarrow> e = e'" by (cases e; cases e') simp_all
qed

interpretation combat_outcome_enum: enumeration combat_outcome_code combat_outcome_vals
proof
  fix e e' :: combat_outcome
  show "e \<in> set combat_outcome_vals" by (cases e) (simp_all add: combat_outcome_vals_def)
  show "combat_outcome_code e = combat_outcome_code e' \<longleftrightarrow> e = e'" by (cases e; cases e') simp_all
qed

interpretation monster_state_enum: enumeration monster_state_code monster_state_vals
proof
  fix e e' :: monster_state
  show "e \<in> set monster_state_vals" by (cases e) (simp_all add: monster_state_vals_def)
  show "monster_state_code e = monster_state_code e' \<longleftrightarrow> e = e'" by (cases e; cases e') simp_all
qed

interpretation drop_state_enum: enumeration drop_state_code drop_state_vals
proof
  fix e e' :: drop_state
  show "e \<in> set drop_state_vals" by (cases e) (simp_all add: drop_state_vals_def)
  show "drop_state_code e = drop_state_code e' \<longleftrightarrow> e = e'" by (cases e; cases e') simp_all
qed

interpretation resolution_enum: enumeration resolution_code resolution_vals
proof
  fix e e' :: loot_resolution
  show "e \<in> set resolution_vals" by (cases e) (simp_all add: resolution_vals_def)
  show "resolution_code e = resolution_code e' \<longleftrightarrow> e = e'" by (cases e; cases e') simp_all
qed

interpretation claim_result_enum: enumeration claim_result_code claim_result_vals
proof
  fix e e' :: claim_code
  show "e \<in> set claim_result_vals" by (cases e) (simp_all add: claim_result_vals_def)
  show "claim_result_code e = claim_result_code e' \<longleftrightarrow> e = e'" by (cases e; cases e') simp_all
qed

interpretation outcome_enum: enumeration outcome_code outcome_vals
proof
  fix e e' :: battle_outcome
  show "e \<in> set outcome_vals" by (cases e) (simp_all add: outcome_vals_def)
  show "outcome_code e = outcome_code e' \<longleftrightarrow> e = e'" by (cases e; cases e') simp_all
qed

interpretation result_state_enum: enumeration result_state_code result_state_vals
proof
  fix e e' :: result_state
  show "e \<in> set result_state_vals" by (cases e) (simp_all add: result_state_vals_def)
  show "result_state_code e = result_state_code e' \<longleftrightarrow> e = e'" by (cases e; cases e') simp_all
qed

lemmas valid_enum_defs = valid_load_state_def valid_candidate_def valid_exit_def valid_attack_result_def valid_combat_outcome_def valid_monster_state_def valid_drop_state_def valid_resolution_def valid_claim_result_def valid_outcome_def valid_result_state_def

lemmas enum_inject [simp] = load_state_enum.code_inject candidate_enum.code_inject exit_enum.code_inject attack_result_enum.code_inject combat_outcome_enum.code_inject monster_state_enum.code_inject drop_state_enum.code_inject resolution_enum.code_inject claim_result_enum.code_inject outcome_enum.code_inject result_state_enum.code_inject

lemmas enum_value_code [simp] = load_state_enum.value_code candidate_enum.value_code exit_enum.value_code attack_result_enum.value_code combat_outcome_enum.value_code monster_state_enum.value_code drop_state_enum.value_code resolution_enum.value_code claim_result_enum.value_code outcome_enum.value_code result_state_enum.value_code

lemma valid_enum_code [simp]:
  "valid_load_state (load_state_code e0)"
  "valid_candidate (candidate_code e1)"
  "valid_exit (exit_code e2)"
  "valid_attack_result (attack_result_code e3)"
  "valid_combat_outcome (combat_outcome_code e4)"
  "valid_monster_state (monster_state_code e5)"
  "valid_drop_state (drop_state_code e6)"
  "valid_resolution (resolution_code e7)"
  "valid_claim_result (claim_result_code e8)"
  "valid_outcome (outcome_code e9)"
  "valid_result_state (result_state_code e10)"
  by (simp_all add: valid_enum_defs)

lemma code_of_valid [simp]:
  "valid_load_state (r0 :: byte) \<Longrightarrow> load_state_code (the (enum_value load_state_code load_state_vals r0)) = r0"
  "valid_candidate (r1 :: byte) \<Longrightarrow> candidate_code (the (enum_value candidate_code candidate_vals r1)) = r1"
  "valid_exit (r2 :: byte) \<Longrightarrow> exit_code (the (enum_value exit_code exit_vals r2)) = r2"
  "valid_attack_result (r3 :: u16) \<Longrightarrow> attack_result_code (the (enum_value attack_result_code attack_result_vals r3)) = r3"
  "valid_combat_outcome (r4 :: byte) \<Longrightarrow> combat_outcome_code (the (enum_value combat_outcome_code combat_outcome_vals r4)) = r4"
  "valid_monster_state (r5 :: byte) \<Longrightarrow> monster_state_code (the (enum_value monster_state_code monster_state_vals r5)) = r5"
  "valid_drop_state (r6 :: byte) \<Longrightarrow> drop_state_code (the (enum_value drop_state_code drop_state_vals r6)) = r6"
  "valid_resolution (r7 :: byte) \<Longrightarrow> resolution_code (the (enum_value resolution_code resolution_vals r7)) = r7"
  "valid_claim_result (r8 :: u16) \<Longrightarrow> claim_result_code (the (enum_value claim_result_code claim_result_vals r8)) = r8"
  "valid_outcome (r9 :: byte) \<Longrightarrow> outcome_code (the (enum_value outcome_code outcome_vals r9)) = r9"
  "valid_result_state (r10 :: byte) \<Longrightarrow> result_state_code (the (enum_value result_state_code result_state_vals r10)) = r10"
  by (simp_all add: valid_enum_defs load_state_enum.code_value candidate_enum.code_value exit_enum.code_value attack_result_enum.code_value combat_outcome_enum.code_value monster_state_enum.code_value drop_state_enum.code_value resolution_enum.code_value claim_result_enum.code_value outcome_enum.code_value result_state_enum.code_value)

section \<open>The structures as they are read\<close>

record wire_candidate =
  wc_slot :: u16
  wc_sessionId :: session_id
  wc_state :: byte

record wire_captured =
  wx_slot :: u16
  wx_sessionId :: session_id
  wx_exitStatus :: byte

record wire_attack =
  wa_commandId :: command_id
  wa_battleId :: battle_id
  wa_code :: u16
  wa_monsterId :: u64
  wa_remainingHitPoints :: u32
  wa_rulesetVersion :: u16
  wa_outcome :: byte

record wire_claim =
  wl_commandId :: command_id
  wl_battleId :: battle_id
  wl_dropId :: drop_id
  wl_code :: u16

record wire_participant =
  wp_slot :: u16
  wp_sessionId :: session_id
  wp_posX :: int
  wp_posY :: int
  wp_tickDeltaX :: int
  wp_tickDeltaY :: int
  wp_latestSeenActionSequence :: "u32 option"
  wp_lastRateUpdateNanos :: "u64 option"
  wp_rateCreditUnits :: u64
  wp_lastAttackRateUpdateNanos :: "u64 option"
  wp_attackRateCreditUnits :: u64
  wp_lastClaimRateUpdateNanos :: "u64 option"
  wp_claimRateCreditUnits :: u64
  wp_lastAcceptedAttackNanos :: "u64 option"
  wp_attackResults :: "(u64, wire_attack) store_image"
  wp_lootResults :: "(drop_id, wire_claim) store_image"
  wp_gameplayEligible :: bool
  wp_inputEnabled :: bool
  wp_exitStatus :: byte

record wire_monster =
  wm_id :: u64
  wm_position :: combat_position
  wm_hitPoints :: u32
  wm_state :: byte

record wire_terminal =
  wt_eventId :: event_id
  wt_battleId :: battle_id
  wt_eventSequence :: u32
  wt_outcome :: byte
  wt_monsterId :: u64
  wt_serverTick :: u32
  wt_rulesetVersion :: u16

record wire_drop =
  wd_drop :: relic_drop
  wd_state :: byte
  wd_ownerSlot :: "u16 option"

record wire_entry =
  we_slot :: u16
  we_exitStatus :: byte
  we_finalAssetValue :: u64
  we_rank :: "u32 option"
  we_isTop :: bool

record wire_result =
  wr_outcome :: byte
  wr_entries :: "wire_entry list"

record wire_state =
  ws_roomId :: room_id
  ws_battleId :: battle_id
  ws_rulesetVersion :: u32
  ws_seed :: u64
  ws_time :: battle_time
  ws_state :: byte
  ws_candidates :: "wire_candidate list"
  ws_captured :: "wire_captured list"
  ws_participants :: "wire_participant list"
  ws_loadDeadlineTick :: "u64 option"
  ws_combatDeadlineTick :: "u64 option"
  ws_lootDeadlineTick :: "u64 option"
  ws_lastIntegratedServerTick :: "u32 option"
  ws_nextSnapshotSequence :: u32
  ws_nextAttackAppliedSequence :: u32
  ws_monster :: "wire_monster option"
  ws_combatTerminal :: "wire_terminal option"
  ws_terminalOutcome :: "byte option"
  ws_drops :: "wire_drop list"
  ws_holdings :: "image_holding list"
  ws_lootResolution :: byte
  ws_resultState :: byte
  ws_committedResult :: "wire_result option"
  ws_lootResultsCompletedAt :: "u64 option"

section \<open>Writers\<close>

definition put_command_id :: "command_id \<Rightarrow> bytes" where
  "put_command_id i = put_word (command_high i) @ put_word (command_low i)"

definition put_event_id :: "event_id \<Rightarrow> bytes" where
  "put_event_id i = put_word (event_high i) @ put_word (event_low i)"

definition put_attack_result :: "wire_attack \<Rightarrow> bytes" where
  "put_attack_result r = put_command_id (wa_commandId r) @ put_word (battle_value (wa_battleId r)) @
     put_word (wa_code r) @ put_word (wa_monsterId r) @ put_word (wa_remainingHitPoints r) @
     put_word (wa_rulesetVersion r) @ put_word (wa_outcome r)"

definition put_loot_result :: "wire_claim \<Rightarrow> bytes" where
  "put_loot_result r = put_command_id (wl_commandId r) @ put_word (battle_value (wl_battleId r)) @
     put_word (drop_value (wl_dropId r)) @ put_word (wl_code r)"

definition put_attack_record :: "(u64, wire_attack) stored \<Rightarrow> bytes" where
  "put_attack_record e = put_command_id (sr_commandId e) @ put_word (sr_hint e) @ put_attack_result (sr_result e)"

definition put_loot_record :: "(drop_id, wire_claim) stored \<Rightarrow> bytes" where
  "put_loot_record e = put_command_id (sr_commandId e) @ put_word (drop_value (sr_hint e)) @ put_loot_result (sr_result e)"

definition put_attack_store :: "(u64, wire_attack) store_image \<Rightarrow> bytes" where
  "put_attack_store s = put_optional put_word (fst s) @ put_list put_attack_record (snd s)"

definition put_loot_store :: "(drop_id, wire_claim) store_image \<Rightarrow> bytes" where
  "put_loot_store s = put_optional put_word (fst s) @ put_list put_loot_record (snd s)"

definition put_candidate :: "wire_candidate \<Rightarrow> bytes" where
  "put_candidate e = put_word (wc_slot e) @ put_word (session_value (wc_sessionId e)) @ put_word (wc_state e)"

definition put_captured :: "wire_captured \<Rightarrow> bytes" where
  "put_captured e = put_word (wx_slot e) @ put_word (session_value (wx_sessionId e)) @ put_word (wx_exitStatus e)"

definition put_participant :: "wire_participant \<Rightarrow> bytes" where
  "put_participant e = put_word (wp_slot e) @ put_word (session_value (wp_sessionId e)) @ put_i32 (wp_posX e) @
     put_i32 (wp_posY e) @ put_i32 (wp_tickDeltaX e) @ put_i32 (wp_tickDeltaY e) @
     put_optional put_word (wp_latestSeenActionSequence e) @ put_optional put_word (wp_lastRateUpdateNanos e) @
     put_word (wp_rateCreditUnits e) @ put_optional put_word (wp_lastAttackRateUpdateNanos e) @
     put_word (wp_attackRateCreditUnits e) @ put_optional put_word (wp_lastClaimRateUpdateNanos e) @
     put_word (wp_claimRateCreditUnits e) @ put_optional put_word (wp_lastAcceptedAttackNanos e) @
     put_attack_store (wp_attackResults e) @ put_loot_store (wp_lootResults e) @
     put_boolean (wp_gameplayEligible e) @ put_boolean (wp_inputEnabled e) @ put_word (wp_exitStatus e)"

definition put_monster :: "wire_monster \<Rightarrow> bytes" where
  "put_monster m = put_word (wm_id m) @ put_i32 (cp_x (wm_position m)) @ put_i32 (cp_y (wm_position m)) @
     put_word (wm_hitPoints m) @ put_word (wm_state m)"

definition put_terminal :: "wire_terminal \<Rightarrow> bytes" where
  "put_terminal t = put_event_id (wt_eventId t) @ put_word (battle_value (wt_battleId t)) @
     put_word (wt_eventSequence t) @ put_word (wt_outcome t) @ put_word (wt_monsterId t) @
     put_word (wt_serverTick t) @ put_word (wt_rulesetVersion t)"

definition put_drop :: "wire_drop \<Rightarrow> bytes" where
  "put_drop e = put_word (drop_value (rd_dropId (wd_drop e))) @ put_word (item_value (rd_itemId (wd_drop e))) @
     put_word (rd_quantity (wd_drop e)) @ put_i32 (dp_x (rd_position (wd_drop e))) @
     put_i32 (dp_y (rd_position (wd_drop e))) @ put_word (wd_state e) @ put_optional put_word (wd_ownerSlot e)"

definition put_holding :: "image_holding \<Rightarrow> bytes" where
  "put_holding e = put_word (ih_ownerSlot e) @ put_word (item_value (ih_itemId e)) @ put_word (ih_quantity e)"

definition put_entry :: "wire_entry \<Rightarrow> bytes" where
  "put_entry e = put_word (we_slot e) @ put_word (we_exitStatus e) @ put_word (we_finalAssetValue e) @
     put_optional put_word (we_rank e) @ put_boolean (we_isTop e)"

definition putCanonicalResult :: "wire_result \<Rightarrow> bytes" where
  "putCanonicalResult r = put_word (wr_outcome r) @ put_list put_entry (wr_entries r)"

text \<open>The fields after the magic number and the schema version.\<close>

definition put_fields :: "wire_state \<Rightarrow> bytes" where
  "put_fields s = put_word (room_value (ws_roomId s)) @ put_word (battle_value (ws_battleId s)) @
     put_word (ws_rulesetVersion s) @ put_word (ws_seed s) @ put_word (bt_tick (ws_time s)) @
     put_word (bt_nanos (ws_time s)) @ put_word (ws_state s) @ put_list put_candidate (ws_candidates s) @
     put_list put_captured (ws_captured s) @ put_list put_participant (ws_participants s) @
     put_optional put_word (ws_loadDeadlineTick s) @ put_optional put_word (ws_combatDeadlineTick s) @
     put_optional put_word (ws_lootDeadlineTick s) @ put_optional put_word (ws_lastIntegratedServerTick s) @
     put_word (ws_nextSnapshotSequence s) @ put_word (ws_nextAttackAppliedSequence s) @
     put_optional put_monster (ws_monster s) @ put_optional put_terminal (ws_combatTerminal s) @
     put_optional put_word (ws_terminalOutcome s) @ put_list put_drop (ws_drops s) @
     put_list put_holding (ws_holdings s) @ put_word (ws_lootResolution s) @ put_word (ws_resultState s) @
     put_optional putCanonicalResult (ws_committedResult s) @ put_optional put_word (ws_lootResultsCompletedAt s)"

definition stateMagic :: u32 where
  "stateMagic = 0x4C425331"

definition putState :: "wire_state \<Rightarrow> bytes" where
  "putState s = put_word stateMagic @ put_word (1 :: u16) @ put_fields s"

section \<open>Readers\<close>

definition get_command_id :: "command_id reader" where
  "get_command_id = get_bind get_word (\<lambda>high. get_bind get_word (\<lambda>low. get_return (CommandId high low)))"

definition get_event_id :: "event_id reader" where
  "get_event_id = get_bind get_word (\<lambda>high. get_bind get_word (\<lambda>low. get_return (EventId high low)))"

definition get_attack_result :: "wire_attack reader" where
  "get_attack_result = get_bind get_command_id (\<lambda>i. get_bind get_word (\<lambda>battleId. get_bind get_word (\<lambda>code.
     get_bind get_word (\<lambda>monsterId. get_bind get_word (\<lambda>hp. get_bind get_word (\<lambda>ruleset. get_bind get_word (\<lambda>outcome.
     get_return \<lparr>wa_commandId = i, wa_battleId = BattleInstanceId battleId, wa_code = code, wa_monsterId = monsterId,
       wa_remainingHitPoints = hp, wa_rulesetVersion = ruleset, wa_outcome = outcome\<rparr>)))))))"

definition get_loot_result :: "wire_claim reader" where
  "get_loot_result = get_bind get_command_id (\<lambda>i. get_bind get_word (\<lambda>battleId. get_bind get_word (\<lambda>dropId.
     get_bind get_word (\<lambda>code. get_return \<lparr>wl_commandId = i, wl_battleId = BattleInstanceId battleId,
       wl_dropId = DropId dropId, wl_code = code\<rparr>))))"

definition get_attack_record :: "(u64, wire_attack) stored reader" where
  "get_attack_record = get_bind get_command_id (\<lambda>i. get_bind get_word (\<lambda>hint. get_bind get_attack_result (\<lambda>r.
     get_return \<lparr>sr_commandId = i, sr_hint = hint, sr_result = r\<rparr>)))"

definition get_loot_record :: "(drop_id, wire_claim) stored reader" where
  "get_loot_record = get_bind get_command_id (\<lambda>i. get_bind get_word (\<lambda>hint. get_bind get_loot_result (\<lambda>r.
     get_return \<lparr>sr_commandId = i, sr_hint = DropId hint, sr_result = r\<rparr>)))"

definition get_attack_store :: "(u64, wire_attack) store_image reader" where
  "get_attack_store = get_bind (get_optional get_word) (\<lambda>completedAt. get_bind (get_list 0 256 get_attack_record) (\<lambda>records.
     get_return (completedAt, records)))"

definition get_loot_store :: "(drop_id, wire_claim) store_image reader" where
  "get_loot_store = get_bind (get_optional get_word) (\<lambda>completedAt. get_bind (get_list 0 256 get_loot_record) (\<lambda>records.
     get_return (completedAt, records)))"

definition get_candidate :: "wire_candidate reader" where
  "get_candidate = get_bind get_word (\<lambda>slot. get_bind get_word (\<lambda>sessionId. get_bind get_word (\<lambda>raw.
     get_return \<lparr>wc_slot = slot, wc_sessionId = SessionId sessionId, wc_state = raw\<rparr>)))"

definition get_captured :: "wire_captured reader" where
  "get_captured = get_bind get_word (\<lambda>slot. get_bind get_word (\<lambda>sessionId. get_bind get_word (\<lambda>raw.
     get_return \<lparr>wx_slot = slot, wx_sessionId = SessionId sessionId, wx_exitStatus = raw\<rparr>)))"

definition get_participant :: "wire_participant reader" where
  "get_participant = get_bind get_word (\<lambda>slot. get_bind get_word (\<lambda>sessionId. get_bind get_i32 (\<lambda>posX.
     get_bind get_i32 (\<lambda>posY. get_bind get_i32 (\<lambda>deltaX. get_bind get_i32 (\<lambda>deltaY.
     get_bind (get_optional get_word) (\<lambda>latest. get_bind (get_optional get_word) (\<lambda>lastRate. get_bind get_word (\<lambda>rate.
     get_bind (get_optional get_word) (\<lambda>lastAttackRate. get_bind get_word (\<lambda>attackRate.
     get_bind (get_optional get_word) (\<lambda>lastClaimRate. get_bind get_word (\<lambda>claimRate.
     get_bind (get_optional get_word) (\<lambda>lastAttack. get_bind get_attack_store (\<lambda>attacks. get_bind get_loot_store (\<lambda>loots.
     get_bind get_boolean (\<lambda>eligible. get_bind get_boolean (\<lambda>enabled. get_bind get_word (\<lambda>raw.
     get_return \<lparr>wp_slot = slot, wp_sessionId = SessionId sessionId, wp_posX = posX, wp_posY = posY,
       wp_tickDeltaX = deltaX, wp_tickDeltaY = deltaY, wp_latestSeenActionSequence = latest,
       wp_lastRateUpdateNanos = lastRate, wp_rateCreditUnits = rate, wp_lastAttackRateUpdateNanos = lastAttackRate,
       wp_attackRateCreditUnits = attackRate, wp_lastClaimRateUpdateNanos = lastClaimRate,
       wp_claimRateCreditUnits = claimRate, wp_lastAcceptedAttackNanos = lastAttack, wp_attackResults = attacks,
       wp_lootResults = loots, wp_gameplayEligible = eligible, wp_inputEnabled = enabled,
       wp_exitStatus = raw\<rparr>)))))))))))))))))))"

definition get_monster :: "wire_monster reader" where
  "get_monster = get_bind get_word (\<lambda>i. get_bind get_i32 (\<lambda>x. get_bind get_i32 (\<lambda>y. get_bind get_word (\<lambda>hp.
     get_bind get_word (\<lambda>raw. get_return \<lparr>wm_id = i, wm_position = \<lparr>cp_x = x, cp_y = y\<rparr>, wm_hitPoints = hp,
       wm_state = raw\<rparr>)))))"

definition get_terminal :: "wire_terminal reader" where
  "get_terminal = get_bind get_event_id (\<lambda>i. get_bind get_word (\<lambda>battleId. get_bind get_word (\<lambda>sequence.
     get_bind get_word (\<lambda>outcome. get_bind get_word (\<lambda>monsterId. get_bind get_word (\<lambda>tick. get_bind get_word (\<lambda>ruleset.
     get_return \<lparr>wt_eventId = i, wt_battleId = BattleInstanceId battleId, wt_eventSequence = sequence,
       wt_outcome = outcome, wt_monsterId = monsterId, wt_serverTick = tick, wt_rulesetVersion = ruleset\<rparr>)))))))"

definition get_drop :: "wire_drop reader" where
  "get_drop = get_bind get_word (\<lambda>dropId. get_bind get_word (\<lambda>itemId. get_bind get_word (\<lambda>quantity.
     get_bind get_i32 (\<lambda>x. get_bind get_i32 (\<lambda>y. get_bind get_word (\<lambda>raw. get_bind (get_optional get_word) (\<lambda>slot.
     get_return \<lparr>wd_drop = \<lparr>rd_dropId = DropId dropId, rd_itemId = ItemId itemId, rd_quantity = quantity,
       rd_position = \<lparr>dp_x = x, dp_y = y\<rparr>\<rparr>, wd_state = raw, wd_ownerSlot = slot\<rparr>)))))))"

definition get_holding :: "image_holding reader" where
  "get_holding = get_bind get_word (\<lambda>slot. get_bind get_word (\<lambda>itemId. get_bind get_word (\<lambda>quantity.
     get_return \<lparr>ih_ownerSlot = slot, ih_itemId = ItemId itemId, ih_quantity = quantity\<rparr>)))"

definition get_entry :: "wire_entry reader" where
  "get_entry = get_bind get_word (\<lambda>slot. get_bind get_word (\<lambda>raw. get_bind get_word (\<lambda>final.
     get_bind (get_optional get_word) (\<lambda>rank. get_bind get_boolean (\<lambda>isTop.
     get_return \<lparr>we_slot = slot, we_exitStatus = raw, we_finalAssetValue = final, we_rank = rank, we_isTop = isTop\<rparr>)))))"

definition get_result :: "wire_result reader" where
  "get_result = get_bind get_word (\<lambda>outcome. get_bind (get_list 0 10 get_entry) (\<lambda>entries.
     get_return \<lparr>wr_outcome = outcome, wr_entries = entries\<rparr>))"

definition getState :: "wire_state reader" where
  "getState = get_bind get_word (\<lambda>roomId. get_bind get_word (\<lambda>battleId. get_bind get_word (\<lambda>ruleset.
     get_bind get_word (\<lambda>seed. get_bind get_word (\<lambda>tick. get_bind get_word (\<lambda>nanos. get_bind get_word (\<lambda>raw.
     get_bind (get_list 2 10 get_candidate) (\<lambda>candidates. get_bind (get_list 0 10 get_captured) (\<lambda>captured.
     get_bind (get_list 0 10 get_participant) (\<lambda>participants. get_bind (get_optional get_word) (\<lambda>load.
     get_bind (get_optional get_word) (\<lambda>combat. get_bind (get_optional get_word) (\<lambda>loot.
     get_bind (get_optional get_word) (\<lambda>serverTick. get_bind get_word (\<lambda>snapshot. get_bind get_word (\<lambda>applied.
     get_bind (get_optional get_monster) (\<lambda>monster. get_bind (get_optional get_terminal) (\<lambda>terminal.
     get_bind (get_optional get_word) (\<lambda>outcome. get_bind (get_list 0 10 get_drop) (\<lambda>drops.
     get_bind (get_list 0 256 get_holding) (\<lambda>holdings. get_bind get_word (\<lambda>resolution. get_bind get_word (\<lambda>resultState.
     get_bind (get_optional get_result) (\<lambda>result. get_bind (get_optional get_word) (\<lambda>completedAt.
     get_return \<lparr>ws_roomId = RoomId roomId, ws_battleId = BattleInstanceId battleId, ws_rulesetVersion = ruleset,
       ws_seed = seed, ws_time = \<lparr>bt_tick = tick, bt_nanos = nanos\<rparr>, ws_state = raw, ws_candidates = candidates,
       ws_captured = captured, ws_participants = participants, ws_loadDeadlineTick = load,
       ws_combatDeadlineTick = combat, ws_lootDeadlineTick = loot, ws_lastIntegratedServerTick = serverTick,
       ws_nextSnapshotSequence = snapshot, ws_nextAttackAppliedSequence = applied, ws_monster = monster,
       ws_combatTerminal = terminal, ws_terminalOutcome = outcome, ws_drops = drops, ws_holdings = holdings,
       ws_lootResolution = resolution, ws_resultState = resultState, ws_committedResult = result,
       ws_lootResultsCompletedAt = completedAt\<rparr>)))))))))))))))))))))))))"

section \<open>They are codecs\<close>

lemma command_id_codec: "codec get_command_id put_command_id (\<lambda>_. True)"
  unfolding get_command_id_def put_command_id_def[abs_def] by (intro fields lasts) (auto intro: command_id.expand)

lemma event_id_codec: "codec get_event_id put_event_id (\<lambda>_. True)"
  unfolding get_event_id_def put_event_id_def[abs_def] by (intro fields lasts) (auto intro: event_id.expand)

lemmas id_codecs = command_id_codec event_id_codec

lemma attack_result_codec: "codec get_attack_result put_attack_result (\<lambda>_. True)"
  unfolding get_attack_result_def put_attack_result_def[abs_def]
  by (intro fields lasts id_codecs[THEN field_codec]) (auto intro: wire_attack.equality)

lemma loot_result_codec: "codec get_loot_result put_loot_result (\<lambda>_. True)"
  unfolding get_loot_result_def put_loot_result_def[abs_def]
  by (intro fields lasts id_codecs[THEN field_codec]) (auto intro: wire_claim.equality)

lemma attack_record_codec: "codec get_attack_record put_attack_record (\<lambda>_. True)"
  unfolding get_attack_record_def put_attack_record_def[abs_def]
  by (intro fields id_codecs[THEN field_codec] last_codec[OF attack_result_codec]) (auto intro: stored.equality)

lemma loot_record_codec: "codec get_loot_record put_loot_record (\<lambda>_. True)"
  unfolding get_loot_record_def put_loot_record_def[abs_def]
  by (intro fields id_codecs[THEN field_codec] last_codec[OF loot_result_codec]) (auto intro: stored.equality)

lemma candidate_codec: "codec get_candidate put_candidate (\<lambda>_. True)"
  unfolding get_candidate_def put_candidate_def[abs_def] by (intro fields lasts) (auto intro: wire_candidate.equality)

lemma captured_codec: "codec get_captured put_captured (\<lambda>_. True)"
  unfolding get_captured_def put_captured_def[abs_def] by (intro fields lasts) (auto intro: wire_captured.equality)

lemma holding_codec: "codec get_holding put_holding (\<lambda>_. True)"
  unfolding get_holding_def put_holding_def[abs_def] by (intro fields lasts) (auto intro: image_holding.equality)

lemma entry_codec: "codec get_entry put_entry (\<lambda>_. True)"
  unfolding get_entry_def put_entry_def[abs_def] by (intro fields lasts) (auto intro: wire_entry.equality)

lemma store_codecs:
  "codec get_attack_store put_attack_store (\<lambda>s. length (snd s) \<le> 256)"
  "codec get_loot_store put_loot_store (\<lambda>s. length (snd s) \<le> 256)"
  unfolding get_attack_store_def put_attack_store_def[abs_def] get_loot_store_def put_loot_store_def[abs_def]
  by (intro fields last_codec[OF list_codec[OF attack_record_codec]] last_codec[OF list_codec[OF loot_record_codec]]; auto)+

definition wire_participant_ok :: "wire_participant \<Rightarrow> bool" where
  "wire_participant_ok e \<longleftrightarrow> i32 (wp_posX e) \<and> i32 (wp_posY e) \<and> i32 (wp_tickDeltaX e) \<and> i32 (wp_tickDeltaY e) \<and>
     length (snd (wp_attackResults e)) \<le> 256 \<and> length (snd (wp_lootResults e)) \<le> 256"

lemma participant_codec: "codec get_participant put_participant wire_participant_ok"
  unfolding get_participant_def put_participant_def[abs_def]
  by (intro fields lasts store_codecs[THEN field_codec]) (auto simp: wire_participant_ok_def intro!: wire_participant.equality)

definition wire_monster_ok :: "wire_monster \<Rightarrow> bool" where
  "wire_monster_ok m \<longleftrightarrow> i32 (cp_x (wm_position m)) \<and> i32 (cp_y (wm_position m))"

lemma monster_codec: "codec get_monster put_monster wire_monster_ok"
  unfolding get_monster_def put_monster_def[abs_def]
  by (intro fields lasts) (auto simp: wire_monster_ok_def intro!: wire_monster.equality combat_position.equality)

lemma terminal_codec: "codec get_terminal put_terminal (\<lambda>_. True)"
  unfolding get_terminal_def put_terminal_def[abs_def]
  by (intro fields lasts id_codecs[THEN field_codec]) (auto intro: wire_terminal.equality)

definition wire_drop_ok :: "wire_drop \<Rightarrow> bool" where
  "wire_drop_ok e \<longleftrightarrow> i32 (dp_x (rd_position (wd_drop e))) \<and> i32 (dp_y (rd_position (wd_drop e)))"

lemma drop_codec: "codec get_drop put_drop wire_drop_ok"
  unfolding get_drop_def put_drop_def[abs_def]
  by (intro fields lasts)
    (auto simp: wire_drop_ok_def intro!: wire_drop.equality relic_drop.equality drop_position.equality)

lemma result_codec: "codec get_result putCanonicalResult (\<lambda>r. length (wr_entries r) \<le> 10)"
  unfolding get_result_def putCanonicalResult_def[abs_def]
  by (intro fields last_codec[OF list_codec[OF entry_codec]]) (auto intro: wire_result.equality)

lemmas list_codecs = list_codec[OF candidate_codec] list_codec[OF captured_codec] list_codec[OF participant_codec]
  list_codec[OF drop_codec] list_codec[OF holding_codec]

lemmas optional_codecs = optional_codec[OF monster_codec] optional_codec[OF terminal_codec] optional_codec[OF result_codec]

text \<open>The states that the format can carry.\<close>

definition wire_ok :: "wire_state \<Rightarrow> bool" where
  "wire_ok s \<longleftrightarrow> 2 \<le> length (ws_candidates s) \<and> length (ws_candidates s) \<le> 10 \<and> length (ws_captured s) \<le> 10 \<and>
     length (ws_participants s) \<le> 10 \<and> (\<forall>e \<in> set (ws_participants s). wire_participant_ok e) \<and>
     (\<forall>m. ws_monster s = Some m \<longrightarrow> wire_monster_ok m) \<and> length (ws_drops s) \<le> 10 \<and>
     (\<forall>e \<in> set (ws_drops s). wire_drop_ok e) \<and> length (ws_holdings s) \<le> 256 \<and>
     (\<forall>r. ws_committedResult s = Some r \<longrightarrow> length (wr_entries r) \<le> 10)"

lemma state_codec: "codec getState put_fields wire_ok"
  unfolding getState_def put_fields_def[abs_def]
  by (intro fields lasts list_codecs[THEN field_codec] optional_codecs[THEN field_codec])
    (auto simp: wire_ok_def intro!: wire_state.equality battle_time.equality)

section \<open>Images and what is written of them\<close>

definition wire_attack_of :: "attack_result \<Rightarrow> wire_attack" where
  "wire_attack_of r = \<lparr>wa_commandId = ar_commandId r, wa_battleId = ar_battleId r, wa_code = attack_result_code (ar_code r),
     wa_monsterId = ar_monsterId r, wa_remainingHitPoints = ar_remainingHitPoints r,
     wa_rulesetVersion = ar_rulesetVersion r, wa_outcome = combat_outcome_code (ar_outcome r)\<rparr>"

definition wire_claim_of :: "claim_result \<Rightarrow> wire_claim" where
  "wire_claim_of r = \<lparr>wl_commandId = cr_commandId r, wl_battleId = cr_battleId r, wl_dropId = cr_dropId r,
     wl_code = claim_result_code (cr_code r)\<rparr>"

definition map_stored :: "('r \<Rightarrow> 's) \<Rightarrow> ('h, 'r) stored \<Rightarrow> ('h, 's) stored" where
  "map_stored f e = \<lparr>sr_commandId = sr_commandId e, sr_hint = sr_hint e, sr_result = f (sr_result e)\<rparr>"

definition map_store_image :: "('r \<Rightarrow> 's) \<Rightarrow> ('h, 'r) store_image \<Rightarrow> ('h, 's) store_image" where
  "map_store_image f s = (fst s, map (map_stored f) (snd s))"

definition wire_candidate_of :: "image_candidate \<Rightarrow> wire_candidate" where
  "wire_candidate_of e = \<lparr>wc_slot = ic_slot e, wc_sessionId = ic_sessionId e, wc_state = candidate_code (ic_state e)\<rparr>"

definition wire_captured_of :: "image_captured \<Rightarrow> wire_captured" where
  "wire_captured_of e = \<lparr>wx_slot = ix_slot e, wx_sessionId = ix_sessionId e, wx_exitStatus = exit_code (ix_exitStatus e)\<rparr>"

definition wire_participant_of :: "image_participant \<Rightarrow> wire_participant" where
  "wire_participant_of e = \<lparr>wp_slot = ip_slot e, wp_sessionId = ip_sessionId e, wp_posX = ip_posX e, wp_posY = ip_posY e,
     wp_tickDeltaX = ip_tickDeltaX e, wp_tickDeltaY = ip_tickDeltaY e,
     wp_latestSeenActionSequence = ip_latestSeenActionSequence e, wp_lastRateUpdateNanos = fst (ip_moveBucket e),
     wp_rateCreditUnits = snd (ip_moveBucket e), wp_lastAttackRateUpdateNanos = fst (ip_attackBucket e),
     wp_attackRateCreditUnits = snd (ip_attackBucket e), wp_lastClaimRateUpdateNanos = fst (ip_claimBucket e),
     wp_claimRateCreditUnits = snd (ip_claimBucket e), wp_lastAcceptedAttackNanos = ip_lastAcceptedAttackNanos e,
     wp_attackResults = map_store_image wire_attack_of (ip_attackResults e),
     wp_lootResults = map_store_image wire_claim_of (ip_lootResults e),
     wp_gameplayEligible = ip_gameplayEligible e, wp_inputEnabled = ip_inputEnabled e,
     wp_exitStatus = exit_code (ip_exitStatus e)\<rparr>"

definition wire_monster_of :: "monster \<Rightarrow> wire_monster" where
  "wire_monster_of m = \<lparr>wm_id = mo_id m, wm_position = mo_position m, wm_hitPoints = mo_hitPoints m,
     wm_state = monster_state_code (mo_state m)\<rparr>"

definition wire_terminal_of :: "combat_terminal \<Rightarrow> wire_terminal" where
  "wire_terminal_of t = \<lparr>wt_eventId = ct_eventId t, wt_battleId = ct_battleId t, wt_eventSequence = ct_eventSequence t,
     wt_outcome = combat_outcome_code (ct_outcome t), wt_monsterId = ct_monsterId t, wt_serverTick = ct_serverTick t,
     wt_rulesetVersion = ct_rulesetVersion t\<rparr>"

definition wire_drop_of :: "image_drop \<Rightarrow> wire_drop" where
  "wire_drop_of e = \<lparr>wd_drop = id_drop e, wd_state = drop_state_code (id_state e), wd_ownerSlot = id_ownerSlot e\<rparr>"

definition wire_entry_of :: "image_entry \<Rightarrow> wire_entry" where
  "wire_entry_of e = \<lparr>we_slot = ie_slot e, we_exitStatus = exit_code (ie_exitStatus e),
     we_finalAssetValue = ie_finalAssetValue e, we_rank = ie_rank e, we_isTop = ie_isTop e\<rparr>"

definition wire_result_of :: "image_result \<Rightarrow> wire_result" where
  "wire_result_of r = \<lparr>wr_outcome = outcome_code (ir_outcome r), wr_entries = map wire_entry_of (ir_entries r)\<rparr>"

definition wire_of :: "battle_image \<Rightarrow> wire_state" where
  "wire_of im = \<lparr>ws_roomId = im_roomId im, ws_battleId = im_battleId im, ws_rulesetVersion = im_rulesetVersion im,
     ws_seed = im_seed im, ws_time = im_time im, ws_state = load_state_code (im_state im),
     ws_candidates = map wire_candidate_of (im_candidates im), ws_captured = map wire_captured_of (im_captured im),
     ws_participants = map wire_participant_of (im_participants im), ws_loadDeadlineTick = im_loadDeadlineTick im,
     ws_combatDeadlineTick = im_combatDeadlineTick im, ws_lootDeadlineTick = im_lootDeadlineTick im,
     ws_lastIntegratedServerTick = im_lastIntegratedServerTick im, ws_nextSnapshotSequence = im_nextSnapshotSequence im,
     ws_nextAttackAppliedSequence = im_nextAttackAppliedSequence im,
     ws_monster = map_option wire_monster_of (im_monster im),
     ws_combatTerminal = map_option wire_terminal_of (im_combatTerminal im),
     ws_terminalOutcome = map_option outcome_code (im_terminalOutcome im), ws_drops = map wire_drop_of (im_drops im),
     ws_holdings = im_holdings im, ws_lootResolution = resolution_code (im_lootResolution im),
     ws_resultState = result_state_code (im_resultState im),
     ws_committedResult = map_option wire_result_of (im_committedResult im),
     ws_lootResultsCompletedAt = im_lootResultsCompletedAt im\<rparr>"

text \<open>The way back, for numbers that are values of their enumeration.\<close>

definition attack_of :: "wire_attack \<Rightarrow> attack_result" where
  "attack_of r = \<lparr>ar_commandId = wa_commandId r, ar_battleId = wa_battleId r,
     ar_code = the (enum_value attack_result_code attack_result_vals (wa_code r)), ar_monsterId = wa_monsterId r,
     ar_remainingHitPoints = wa_remainingHitPoints r, ar_rulesetVersion = wa_rulesetVersion r,
     ar_outcome = the (enum_value combat_outcome_code combat_outcome_vals (wa_outcome r))\<rparr>"

definition claim_of :: "wire_claim \<Rightarrow> claim_result" where
  "claim_of r = \<lparr>cr_commandId = wl_commandId r, cr_battleId = wl_battleId r, cr_dropId = wl_dropId r,
     cr_code = the (enum_value claim_result_code claim_result_vals (wl_code r))\<rparr>"

definition exit_of :: "byte \<Rightarrow> exit_status" where
  "exit_of raw = the (enum_value exit_code exit_vals raw)"

definition image_of :: "wire_state \<Rightarrow> battle_image" where
  "image_of s = \<lparr>im_roomId = ws_roomId s, im_battleId = ws_battleId s, im_rulesetVersion = ws_rulesetVersion s,
     im_seed = ws_seed s, im_time = ws_time s,
     im_state = the (enum_value load_state_code load_state_vals (ws_state s)),
     im_candidates = map (\<lambda>e. \<lparr>ic_slot = wc_slot e, ic_sessionId = wc_sessionId e,
       ic_state = the (enum_value candidate_code candidate_vals (wc_state e))\<rparr>) (ws_candidates s),
     im_captured = map (\<lambda>e. \<lparr>ix_slot = wx_slot e, ix_sessionId = wx_sessionId e,
       ix_exitStatus = exit_of (wx_exitStatus e)\<rparr>) (ws_captured s),
     im_participants = map (\<lambda>e. \<lparr>ip_slot = wp_slot e, ip_sessionId = wp_sessionId e, ip_posX = wp_posX e,
       ip_posY = wp_posY e, ip_tickDeltaX = wp_tickDeltaX e, ip_tickDeltaY = wp_tickDeltaY e,
       ip_latestSeenActionSequence = wp_latestSeenActionSequence e,
       ip_moveBucket = (wp_lastRateUpdateNanos e, wp_rateCreditUnits e),
       ip_attackBucket = (wp_lastAttackRateUpdateNanos e, wp_attackRateCreditUnits e),
       ip_claimBucket = (wp_lastClaimRateUpdateNanos e, wp_claimRateCreditUnits e),
       ip_lastAcceptedAttackNanos = wp_lastAcceptedAttackNanos e,
       ip_attackResults = map_store_image attack_of (wp_attackResults e),
       ip_lootResults = map_store_image claim_of (wp_lootResults e), ip_gameplayEligible = wp_gameplayEligible e,
       ip_inputEnabled = wp_inputEnabled e, ip_exitStatus = exit_of (wp_exitStatus e)\<rparr>) (ws_participants s),
     im_loadDeadlineTick = ws_loadDeadlineTick s, im_combatDeadlineTick = ws_combatDeadlineTick s,
     im_lootDeadlineTick = ws_lootDeadlineTick s, im_lastIntegratedServerTick = ws_lastIntegratedServerTick s,
     im_nextSnapshotSequence = ws_nextSnapshotSequence s, im_nextAttackAppliedSequence = ws_nextAttackAppliedSequence s,
     im_monster = map_option (\<lambda>m. \<lparr>mo_id = wm_id m, mo_position = wm_position m, mo_hitPoints = wm_hitPoints m,
       mo_state = the (enum_value monster_state_code monster_state_vals (wm_state m))\<rparr>) (ws_monster s),
     im_combatTerminal = map_option (\<lambda>t. \<lparr>ct_eventId = wt_eventId t, ct_battleId = wt_battleId t,
       ct_eventSequence = wt_eventSequence t,
       ct_outcome = the (enum_value combat_outcome_code combat_outcome_vals (wt_outcome t)),
       ct_monsterId = wt_monsterId t, ct_serverTick = wt_serverTick t, ct_rulesetVersion = wt_rulesetVersion t\<rparr>)
       (ws_combatTerminal s),
     im_terminalOutcome = map_option (\<lambda>raw. the (enum_value outcome_code outcome_vals raw)) (ws_terminalOutcome s),
     im_drops = map (\<lambda>e. \<lparr>id_drop = wd_drop e,
       id_state = the (enum_value drop_state_code drop_state_vals (wd_state e)), id_ownerSlot = wd_ownerSlot e\<rparr>)
       (ws_drops s),
     im_holdings = ws_holdings s,
     im_lootResolution = the (enum_value resolution_code resolution_vals (ws_lootResolution s)),
     im_resultState = the (enum_value result_state_code result_state_vals (ws_resultState s)),
     im_committedResult = map_option (\<lambda>r. \<lparr>ir_outcome = the (enum_value outcome_code outcome_vals (wr_outcome r)),
       ir_entries = map (\<lambda>e. \<lparr>ie_slot = we_slot e, ie_exitStatus = exit_of (we_exitStatus e),
         ie_finalAssetValue = we_finalAssetValue e, ie_rank = we_rank e, ie_isTop = we_isTop e\<rparr>) (wr_entries r)\<rparr>)
       (ws_committedResult s),
     im_lootResultsCompletedAt = ws_lootResultsCompletedAt s\<rparr>"

lemmas wire_element_defs = wire_candidate_of_def wire_captured_of_def wire_participant_of_def wire_monster_of_def
  wire_terminal_of_def wire_drop_of_def wire_entry_of_def wire_result_of_def

lemma exit_of_code [simp]: "exit_of (exit_code e) = e"
  by (simp add: exit_of_def)

text \<open>A record is the record of its fields.\<close>

lemma record_etas [simp]:
  "\<lparr>sr_commandId = sr_commandId x, sr_hint = sr_hint x, sr_result = sr_result x\<rparr> = x"
  "\<lparr>ic_slot = ic_slot y, ic_sessionId = ic_sessionId y, ic_state = ic_state y\<rparr> = y"
  "\<lparr>ix_slot = ix_slot z, ix_sessionId = ix_sessionId z, ix_exitStatus = ix_exitStatus z\<rparr> = z"
  "\<lparr>ip_slot = ip_slot u, ip_sessionId = ip_sessionId u, ip_posX = ip_posX u, ip_posY = ip_posY u,
    ip_tickDeltaX = ip_tickDeltaX u, ip_tickDeltaY = ip_tickDeltaY u,
    ip_latestSeenActionSequence = ip_latestSeenActionSequence u, ip_moveBucket = ip_moveBucket u,
    ip_attackBucket = ip_attackBucket u, ip_claimBucket = ip_claimBucket u,
    ip_lastAcceptedAttackNanos = ip_lastAcceptedAttackNanos u, ip_attackResults = ip_attackResults u,
    ip_lootResults = ip_lootResults u, ip_gameplayEligible = ip_gameplayEligible u,
    ip_inputEnabled = ip_inputEnabled u, ip_exitStatus = ip_exitStatus u\<rparr> = u"
  "\<lparr>mo_id = mo_id v, mo_position = mo_position v, mo_hitPoints = mo_hitPoints v, mo_state = mo_state v\<rparr> = v"
  "\<lparr>ct_eventId = ct_eventId w, ct_battleId = ct_battleId w, ct_eventSequence = ct_eventSequence w,
    ct_outcome = ct_outcome w, ct_monsterId = ct_monsterId w, ct_serverTick = ct_serverTick w,
    ct_rulesetVersion = ct_rulesetVersion w\<rparr> = w"
  "\<lparr>id_drop = id_drop a, id_state = id_state a, id_ownerSlot = id_ownerSlot a\<rparr> = a"
  "\<lparr>ie_slot = ie_slot b, ie_exitStatus = ie_exitStatus b, ie_finalAssetValue = ie_finalAssetValue b,
    ie_rank = ie_rank b, ie_isTop = ie_isTop b\<rparr> = b"
  "\<lparr>ir_outcome = ir_outcome c, ir_entries = ir_entries c\<rparr> = c"
  by (rule stored.equality image_candidate.equality image_captured.equality image_participant.equality monster.equality combat_terminal.equality image_drop.equality image_entry.equality image_result.equality; simp)+

lemma map_store_image_inverse:
  "(\<And>r. g (f r) = r) \<Longrightarrow> map_store_image g (map_store_image f s) = s"
  by (cases s) (simp add: map_store_image_def map_stored_def comp_def)

lemma results_of_wire [simp]: "attack_of (wire_attack_of r) = r" "claim_of (wire_claim_of q) = q"
  by (simp_all add: attack_of_def wire_attack_of_def claim_of_def wire_claim_of_def)

lemma image_of_wire: "image_of (wire_of im) = im"
  by (simp add: image_of_def wire_of_def wire_element_defs map_store_image_inverse comp_def option.map_comp option.map_ident)

end
