(* ===== verification/BattleStateCodec.thy ===== *)
theory BattleStateCodec
  imports BattleStateWire BattleImageRoundtrip
begin

text \<open>
  \<open>encodeBattleState\<close> and \<open>decodeBattleState\<close> of
  \<open>game-server/modules/battle-continuity/src/BattleStateCodec.cpp\<close>: the canonical order of a state,
  the validation with the error that the first failing check reports, and the proof that the
  decoder accepts exactly what the encoder writes. A loop over an index is a search for the first
  index that has an error.
\<close>

section \<open>Errors\<close>

datatype state_error =
    StateTruncated | StateTrailingBytes | StateInvalidMagic | StateUnsupportedSchema | StateUnsupportedRuleset
  | StateInvalidLength | StateTooLarge | StateInvalidIdentity | StateInvalidTime | StateInvalidEnum
  | StateInvalidBoolean | StateInvalidOrdering | StateDuplicateId | StateInvariantViolation | StateHashUnavailable

section \<open>Validation\<close>

definition command_key :: "command_id \<Rightarrow> u64 \<times> u64" where
  "command_key i = (command_high i, command_low i)"

definition commandIdLess :: "command_id \<Rightarrow> command_id \<Rightarrow> bool" where
  "commandIdLess l r \<longleftrightarrow>
     command_high l < command_high r \<or> command_high l = command_high r \<and> command_low l < command_low r"

text \<open>The checks of neighbouring records that the two stores share.\<close>

definition order_error :: "bool \<Rightarrow> ('h, 'r) stored list \<Rightarrow> nat \<Rightarrow> state_error option" where
  "order_error canonical records index =
     checks [check (index \<noteq> 0 \<and> sr_commandId (records ! (index - 1)) = sr_commandId (records ! index)) StateDuplicateId,
       check (index \<noteq> 0 \<and> canonical \<and> commandIdLess (sr_commandId (records ! index)) (sr_commandId (records ! (index - 1))))
         StateInvalidOrdering]"

definition attack_error :: "battle_id \<Rightarrow> (u64, wire_attack) stored \<Rightarrow> state_error option" where
  "attack_error battleId e =
     check (\<not> valid_attack_result (wa_code (sr_result e)) \<or> \<not> valid_combat_outcome (wa_outcome (sr_result e)) \<or>
       wa_rulesetVersion (sr_result e) \<noteq> 4 \<or> wa_commandId (sr_result e) \<noteq> sr_commandId e \<or>
       wa_battleId (sr_result e) \<noteq> battleId \<or> wa_monsterId (sr_result e) \<noteq> 1) StateInvariantViolation"

definition validateAttackStore ::
  "(u64, wire_attack) store_image \<Rightarrow> battle_id \<Rightarrow> u64 \<Rightarrow> bool \<Rightarrow> state_error option" where
  "validateAttackStore store battleId elapsed canonical =
     checks [check (256 < length (snd store)) StateInvalidLength,
       check (after (fst store) elapsed) StateInvariantViolation,
       first_error (\<lambda>index. checks [order_error canonical (snd store) index, attack_error battleId (snd store ! index)])
         [0..<length (snd store)]]"

definition loot_error :: "battle_id \<Rightarrow> (drop_id, wire_claim) stored \<Rightarrow> state_error option" where
  "loot_error battleId e =
     check (\<not> valid_claim_result (wl_code (sr_result e)) \<or> wl_commandId (sr_result e) \<noteq> sr_commandId e \<or>
       wl_battleId (sr_result e) \<noteq> battleId \<or> wl_dropId (sr_result e) \<noteq> sr_hint e \<or>
       wl_code (sr_result e) = claim_result_code ClaimOk \<and> drop_value (wl_dropId (sr_result e)) = 0)
       StateInvariantViolation"

definition validateLootStore ::
  "(drop_id, wire_claim) store_image \<Rightarrow> battle_id \<Rightarrow> u64 \<Rightarrow> bool \<Rightarrow> state_error option" where
  "validateLootStore store battleId elapsed canonical =
     checks [check (256 < length (snd store)) StateInvalidLength,
       check (after (fst store) elapsed) StateInvariantViolation,
       first_error (\<lambda>index. checks [order_error canonical (snd store) index, loot_error battleId (snd store ! index)])
         [0..<length (snd store)]]"

definition validateFinalResultBasic :: "wire_result \<Rightarrow> bool \<Rightarrow> state_error option" where
  "validateFinalResultBasic r canonical =
     checks [check (\<not> valid_outcome (wr_outcome r) \<or> length (wr_entries r) < 2 \<or> 10 < length (wr_entries r))
         StateInvariantViolation,
       first_error (\<lambda>index. let entry = wr_entries r ! index; previous = wr_entries r ! (index - 1) in
         checks [check (we_slot entry = 0 \<or> 10 < unat (we_slot entry) \<or> \<not> valid_exit (we_exitStatus entry) \<or>
             we_rank entry = Some 0) StateInvariantViolation,
           check (index \<noteq> 0 \<and> we_slot entry = we_slot previous) StateDuplicateId,
           check (index \<noteq> 0 \<and> canonical \<and> we_slot entry < we_slot previous) StateInvalidOrdering])
         [0..<length (wr_entries r)]]"

definition state_header_error :: "wire_state \<Rightarrow> state_error option" where
  "state_header_error s =
     checks [check (room_value (ws_roomId s) = 0 \<or> battle_value (ws_battleId s) = 0 \<or> ws_seed s = 0) StateInvalidIdentity,
       check (ws_rulesetVersion s \<noteq> 1) StateUnsupportedRuleset,
       check (\<not> time_valid (ws_time s)) StateInvalidTime,
       check (\<not> valid_load_state (ws_state s) \<or> \<not> valid_resolution (ws_lootResolution s) \<or>
         \<not> valid_result_state (ws_resultState s)) StateInvalidEnum,
       check (length (ws_candidates s) < 2 \<or> 10 < length (ws_candidates s) \<or> 10 < length (ws_captured s) \<or>
         10 < length (ws_participants s) \<or> 10 < length (ws_drops s) \<or> 256 < length (ws_holdings s)) StateInvalidLength,
       check (ws_nextSnapshotSequence s = 0 \<or> ws_nextAttackAppliedSequence s = 0) StateInvariantViolation]"

text \<open>A slot must be the index plus 1 in 16 bits.\<close>

definition slot_of :: "nat \<Rightarrow> u16" where
  "slot_of index = of_nat (index + 1)"

definition candidate_error :: "wire_state \<Rightarrow> bool \<Rightarrow> nat \<Rightarrow> state_error option" where
  "candidate_error s canonical index =
     (let entries = ws_candidates s; entry = entries ! index; previous = entries ! (index - 1) in
      checks [check (wc_slot entry = 0 \<or> length entries < unat (wc_slot entry) \<or> \<not> valid_candidate (wc_state entry) \<or>
          session_value (wc_sessionId entry) = 0) StateInvariantViolation,
        check (index \<noteq> 0 \<and> (wc_slot entry = wc_slot previous \<or>
          list_ex (\<lambda>prior. wc_sessionId (entries ! prior) = wc_sessionId entry) [0..<index])) StateDuplicateId,
        check (index \<noteq> 0 \<and> canonical \<and> wc_slot entry < wc_slot previous) StateInvalidOrdering,
        check (wc_slot entry \<noteq> slot_of index) StateInvariantViolation])"

definition all_terminal :: "wire_state \<Rightarrow> bool" where
  "all_terminal s \<longleftrightarrow> list_all (\<lambda>e. wc_state e \<noteq> candidate_code PendingLoad) (ws_candidates s)"

definition ready_count :: "wire_state \<Rightarrow> nat" where
  "ready_count s = length (filter (\<lambda>e. wc_state e = candidate_code Ready) (ws_candidates s))"

definition barrier_error :: "wire_state \<Rightarrow> state_error option" where
  "barrier_error s =
     (if ws_state s = load_state_code Created then check (all_terminal s \<or> ready_count s \<noteq> 0) StateInvariantViolation
      else if ws_state s = load_state_code LoadBarrierOpen then check (all_terminal s) StateInvariantViolation
      else if ws_state s = load_state_code GameplayCommitted
      then check (\<not> all_terminal s \<or> ready_count s < 2) StateInvariantViolation
      else check (\<not> all_terminal s \<or> 2 \<le> ready_count s) StateInvariantViolation)"

definition captured_error :: "wire_state \<Rightarrow> bool \<Rightarrow> nat \<Rightarrow> state_error option" where
  "captured_error s canonical index =
     (let entries = ws_captured s; entry = entries ! index; previous = entries ! (index - 1) in
      checks [check (\<not> valid_slot (length entries) (wx_slot entry) \<or> \<not> valid_exit (wx_exitStatus entry) \<or>
          wx_slot entry \<noteq> slot_of index) StateInvariantViolation,
        check (index \<noteq> 0 \<and> list_ex (\<lambda>prior. wx_slot (entries ! prior) = wx_slot entry) [0..<index]) StateDuplicateId,
        check (index \<noteq> 0 \<and> canonical \<and> wx_slot entry < wx_slot previous) StateInvalidOrdering])"

fun captured_loop :: "wire_state \<Rightarrow> bool \<Rightarrow> nat list \<Rightarrow> bool list \<Rightarrow> state_error + bool list" where
  "captured_loop s canonical [] seen = Inr seen"
| "captured_loop s canonical (index # rest) seen =
     (case captured_error s canonical index of
        Some e \<Rightarrow> Inl e
      | None \<Rightarrow>
          (case find_index (\<lambda>c. wc_sessionId c = wx_sessionId (ws_captured s ! index)) (ws_candidates s) of
             None \<Rightarrow> Inl StateInvariantViolation
           | Some candidateIndex \<Rightarrow>
               if wc_state (ws_candidates s ! candidateIndex) \<noteq> candidate_code Ready then Inl StateInvariantViolation
               else if seen ! candidateIndex then Inl StateDuplicateId
               else captured_loop s canonical rest (seen[candidateIndex := True])))"

definition participant_error :: "wire_state \<Rightarrow> bool \<Rightarrow> nat \<Rightarrow> state_error option" where
  "participant_error s canonical index =
     (let entries = ws_participants s; entry = entries ! index; previous = entries ! (index - 1);
          elapsed = bt_nanos (ws_time s) in
      checks [check (\<not> valid_slot (length (ws_captured s)) (wp_slot entry) \<or> session_value (wp_sessionId entry) = 0 \<or>
          \<not> valid_exit (wp_exitStatus entry)) StateInvariantViolation,
        check (wp_slot entry \<noteq> slot_of index) StateInvariantViolation,
        check (index \<noteq> 0 \<and> list_ex (\<lambda>prior. wp_slot (entries ! prior) = wp_slot entry) [0..<index]) StateDuplicateId,
        check (index \<noteq> 0 \<and> canonical \<and> wp_slot entry < wp_slot previous) StateInvalidOrdering,
        check (wx_sessionId (ws_captured s ! index) \<noteq> wp_sessionId entry) StateInvariantViolation,
        check (after (wp_lastRateUpdateNanos entry) elapsed \<or> after (wp_lastAttackRateUpdateNanos entry) elapsed \<or>
          after (wp_lastClaimRateUpdateNanos entry) elapsed \<or> after (wp_lastAcceptedAttackNanos entry) elapsed)
          StateInvariantViolation,
        validateAttackStore (wp_attackResults entry) (ws_battleId s) elapsed canonical,
        validateLootStore (wp_lootResults entry) (ws_battleId s) elapsed canonical])"

definition roster_error :: "wire_state \<Rightarrow> bool list \<Rightarrow> state_error option" where
  "roster_error s seen =
     (if ws_state s = load_state_code GameplayCommitted
      then checks [check (length (ws_captured s) \<noteq> ready_count s \<or> length (ws_captured s) \<noteq> length (ws_participants s) \<or>
            ws_participants s = []) StateInvariantViolation,
          check (list_ex (\<lambda>(e, captured). wc_state e = candidate_code Ready \<and> \<not> captured) (zip (ws_candidates s) seen))
            StateInvariantViolation]
      else check (ws_captured s \<noteq> [] \<or> ws_participants s \<noteq> []) StateInvariantViolation)"

definition terminal_of :: "wire_state \<Rightarrow> byte option" where
  "terminal_of s = map_option wt_outcome (ws_combatTerminal s)"

definition combat_error :: "wire_state \<Rightarrow> state_error option" where
  "combat_error s =
     (let committed = (ws_state s = load_state_code GameplayCommitted);
          outcome = terminal_of s; outcome_is = (\<lambda>e. outcome = Some (combat_outcome_code e));
          monster_is = (\<lambda>st. map_option wm_state (ws_monster s) = Some (monster_state_code st)) in
      checks [check (ws_state s = load_state_code LoadBarrierOpen \<and> ws_loadDeadlineTick s = None) StateInvariantViolation,
        check ((ws_loadDeadlineTick s \<noteq> None) \<noteq> (ws_state s = load_state_code LoadBarrierOpen)) StateInvariantViolation,
        check (case ws_monster s of None \<Rightarrow> False | Some m \<Rightarrow> wm_id m \<noteq> 1 \<or> \<not> valid_monster_state (wm_state m) \<or>
          wm_state m = monster_state_code Alive \<and> wm_hitPoints m = 0) StateInvariantViolation,
        check (committed \<noteq> (ws_monster s \<noteq> None)) StateInvariantViolation,
        check (case ws_combatTerminal s of None \<Rightarrow> False | Some t \<Rightarrow> wt_battleId t \<noteq> ws_battleId s \<or> wt_monsterId t \<noteq> 1 \<or>
          \<not> valid_combat_outcome (wt_outcome t) \<or> wt_outcome t = combat_outcome_code NoOutcome \<or> wt_rulesetVersion t \<noteq> 4)
          StateInvariantViolation,
        (if outcome \<noteq> None
         then check (ws_monster s = None \<or> outcome_is MonsterDefeated \<and> \<not> monster_is Dead \<or>
           outcome_is CombatTimeout \<and> \<not> monster_is TimedOut) StateInvariantViolation
         else check (committed \<and> \<not> monster_is Alive) StateInvariantViolation)])"

definition outcome_error :: "wire_state \<Rightarrow> state_error option" where
  "outcome_error s =
     (case ws_terminalOutcome s of
        None \<Rightarrow> None
      | Some outcome \<Rightarrow>
          checks [check (\<not> valid_outcome outcome) StateInvalidEnum,
            check (outcome = outcome_code OutcomeCancelled \<and> terminal_of s \<noteq> None \<or>
              outcome = outcome_code OutcomeMonsterDefeated \<and> terminal_of s \<noteq> Some (combat_outcome_code MonsterDefeated) \<or>
              outcome = outcome_code OutcomeCombatTimeout \<and> terminal_of s \<noteq> Some (combat_outcome_code CombatTimeout))
              StateInvariantViolation,
            check (ws_resultState s \<noteq> result_state_code Committed) StateInvariantViolation])"

definition capturedHasSlot :: "wire_state \<Rightarrow> u16 \<Rightarrow> bool" where
  "capturedHasSlot s slot \<longleftrightarrow> list_ex (\<lambda>e. wx_slot e = slot) (ws_captured s)"

definition drop_error :: "wire_state \<Rightarrow> bool \<Rightarrow> nat \<Rightarrow> state_error option" where
  "drop_error s canonical index =
     (let entry = ws_drops s ! index; previous = ws_drops s ! (index - 1);
          drop = wd_drop entry; claimed = (wd_state entry = drop_state_code DropClaimed) in
      checks [check (drop_value (rd_dropId drop) = 0 \<or> item_value (rd_itemId drop) = 0 \<or> rd_quantity drop = 0 \<or>
          \<not> valid_drop_state (wd_state entry)) StateInvariantViolation,
        check (index \<noteq> 0 \<and> rd_dropId drop = rd_dropId (wd_drop previous)) StateDuplicateId,
        check (index \<noteq> 0 \<and> canonical \<and> drop_value (rd_dropId drop) < drop_value (rd_dropId (wd_drop previous)))
          StateInvalidOrdering,
        check (claimed \<noteq> (wd_ownerSlot entry \<noteq> None)) StateInvariantViolation,
        check (\<not> claimed \<and> wd_ownerSlot entry \<noteq> None) StateInvariantViolation,
        check (case wd_ownerSlot entry of None \<Rightarrow> False
           | Some slot \<Rightarrow> \<not> valid_slot (length (ws_captured s)) slot \<or> \<not> capturedHasSlot s slot) StateInvariantViolation])"

definition holding_error :: "wire_state \<Rightarrow> bool \<Rightarrow> nat \<Rightarrow> state_error option" where
  "holding_error s canonical index =
     (let entry = ws_holdings s ! index; previous = ws_holdings s ! (index - 1) in
      checks [check (\<not> valid_slot (length (ws_captured s)) (ih_ownerSlot entry) \<or> \<not> capturedHasSlot s (ih_ownerSlot entry) \<or>
          item_value (ih_itemId entry) = 0 \<or> ih_quantity entry = 0) StateInvariantViolation,
        check (index \<noteq> 0 \<and> ih_ownerSlot entry = ih_ownerSlot previous \<and> ih_itemId entry = ih_itemId previous)
          StateDuplicateId,
        check (index \<noteq> 0 \<and> canonical \<and> (ih_ownerSlot entry < ih_ownerSlot previous \<or>
          ih_ownerSlot entry = ih_ownerSlot previous \<and> item_value (ih_itemId entry) < item_value (ih_itemId previous)))
          StateInvalidOrdering])"

definition loot_phase_error :: "wire_state \<Rightarrow> state_error option" where
  "loot_phase_error s =
     (let outcome = terminal_of s; defeated = (outcome = Some (combat_outcome_code MonsterDefeated));
          resolution_is = (\<lambda>r. ws_lootResolution s = resolution_code r) in
      checks [(if resolution_is LootNotStarted then check (ws_drops s \<noteq> []) StateInvariantViolation
          else checks [check (length (ws_drops s) \<noteq> length (ws_participants s)) StateInvariantViolation,
            check (resolution_is LootOpen \<noteq> list_ex (\<lambda>d. wd_state d = drop_state_code DropAvailable) (ws_drops s))
              StateInvariantViolation]),
        check (resolution_is LootOpen \<and> \<not> defeated) StateInvariantViolation,
        check (resolution_is LootResolved \<and> outcome = None \<and>
          ws_terminalOutcome s \<noteq> Some (outcome_code OutcomeCancelled)) StateInvariantViolation,
        check (resolution_is LootResolved \<and> outcome \<noteq> None \<and> \<not> defeated) StateInvariantViolation,
        (if ws_state s = load_state_code GameplayCommitted \<and> ws_resultState s = result_state_code NotReady
         then checks [check ((ws_combatDeadlineTick s \<noteq> None) \<noteq> (outcome = None)) StateInvariantViolation,
           check ((ws_lootDeadlineTick s \<noteq> None) \<noteq> resolution_is LootOpen) StateInvariantViolation]
         else check (ws_combatDeadlineTick s \<noteq> None \<or> ws_lootDeadlineTick s \<noteq> None) StateInvariantViolation)])"

definition result_error :: "wire_state \<Rightarrow> bool \<Rightarrow> state_error option" where
  "result_error s canonical =
     checks [(if ws_resultState s = result_state_code Committed
         then check (case ws_committedResult s of None \<Rightarrow> True
           | Some r \<Rightarrow> \<not> valid_outcome (wr_outcome r) \<or> ws_terminalOutcome s \<noteq> Some (wr_outcome r) \<or>
               length (wr_entries r) \<noteq> length (ws_captured s)) StateInvariantViolation
         else check (ws_committedResult s \<noteq> None) StateInvariantViolation),
       (case ws_committedResult s of None \<Rightarrow> None
        | Some r \<Rightarrow> checks [validateFinalResultBasic r canonical,
            first_error (\<lambda>entry. check (\<not> valid_slot (length (ws_captured s)) (we_slot entry) \<or>
              \<not> capturedHasSlot s (we_slot entry)) StateInvariantViolation) (wr_entries r)]),
       check (after (ws_lootResultsCompletedAt s) (bt_nanos (ws_time s))) StateInvariantViolation]"

definition validateState :: "wire_state \<Rightarrow> bool \<Rightarrow> state_error option" where
  "validateState s canonical =
     checks [state_header_error s,
       first_error (candidate_error s canonical) [0..<length (ws_candidates s)],
       barrier_error s,
       (case captured_loop s canonical [0..<length (ws_captured s)] (replicate (length (ws_candidates s)) False) of
          Inl e \<Rightarrow> Some e
        | Inr seen \<Rightarrow>
            checks [first_error (participant_error s canonical) [0..<length (ws_participants s)],
              roster_error s seen, combat_error s, outcome_error s,
              first_error (drop_error s canonical) [0..<length (ws_drops s)],
              first_error (holding_error s canonical) [0..<length (ws_holdings s)],
              loot_phase_error s, result_error s canonical])]"

section \<open>The canonical order\<close>

definition sort_records :: "('h, 'r) store_image \<Rightarrow> ('h, 'r) store_image" where
  "sort_records s = (fst s, sort_key (\<lambda>e. command_key (sr_commandId e)) (snd s))"

definition canonicalState :: "wire_state \<Rightarrow> wire_state" where
  "canonicalState s = s\<lparr>
     ws_candidates := sort_key wc_slot (ws_candidates s),
     ws_captured := sort_key wx_slot (ws_captured s),
     ws_participants := map (\<lambda>e. e\<lparr>wp_attackResults := sort_records (wp_attackResults e),
       wp_lootResults := sort_records (wp_lootResults e)\<rparr>) (sort_key wp_slot (ws_participants s)),
     ws_drops := sort_key (\<lambda>e. drop_value (rd_dropId (wd_drop e))) (ws_drops s),
     ws_holdings := sort_key holding_key (ws_holdings s),
     ws_committedResult := map_option (\<lambda>r. r\<lparr>wr_entries := sort_key we_slot (wr_entries r)\<rparr>) (ws_committedResult s)\<rparr>"

section \<open>Encoding and decoding\<close>

definition maximumStateBytes :: nat where
  "maximumStateBytes = 2 ^ 20"

definition encodeBattleState :: "wire_state \<Rightarrow> state_error \<times> nat + bytes" where
  "encodeBattleState input =
     (let s = canonicalState input
      in case validateState s True of
           Some e \<Rightarrow> Inl (e, 0)
         | None \<Rightarrow>
             (let bs = putState s
              in if maximumStateBytes < length bs then Inl (StateTooLarge, 0) else Inr bs))"

definition read_error :: "read_fail \<times> nat \<Rightarrow> state_error \<times> nat" where
  "read_error = (\<lambda>(code, at). (case code of ReadTruncated \<Rightarrow> StateTruncated | ReadBoolean \<Rightarrow> StateInvalidBoolean
     | ReadLength \<Rightarrow> StateInvalidLength, at))"

definition get_prefix :: "(u32 \<times> u16) reader" where
  "get_prefix = get_bind get_word (\<lambda>magic. get_bind get_word (\<lambda>schema. get_return (magic, schema)))"

definition decodeBattleState :: "bytes \<Rightarrow> state_error \<times> nat + wire_state" where
  "decodeBattleState bs =
     (if maximumStateBytes < length bs then Inl (StateTooLarge, 0)
      else case get_prefix (0, bs) of
             Inl e \<Rightarrow> Inl (read_error e)
           | Inr ((magic, schema), c) \<Rightarrow>
               if magic \<noteq> stateMagic then Inl (StateInvalidMagic, 0)
               else if schema \<noteq> 1 then Inl (StateUnsupportedSchema, 4)
               else (case getState c of
                       Inl e \<Rightarrow> Inl (read_error e)
                     | Inr (s, c') \<Rightarrow>
                         if fst c' \<noteq> length bs then Inl (StateTrailingBytes, fst c')
                         else (case validateState s True of Some e \<Rightarrow> Inl (e, 0) | None \<Rightarrow> Inr s)))"

section \<open>What a valid state satisfies\<close>

lemma command_key_less [simp]: "command_key l < command_key r \<longleftrightarrow> commandIdLess l r"
  by (auto simp: command_key_def commandIdLess_def less_prod_def)

lemma holding_key_less [simp]:
  "holding_key a < holding_key b \<longleftrightarrow> ih_ownerSlot a < ih_ownerSlot b \<or>
     ih_ownerSlot a = ih_ownerSlot b \<and> item_value (ih_itemId a) < item_value (ih_itemId b)"
  by (auto simp: holding_key_def less_prod_def)

lemma sorted_neighbours:
  assumes "\<And>i. i < length xs \<Longrightarrow> i \<noteq> 0 \<Longrightarrow> \<not> f (xs ! i) < (f (xs ! (i - 1)) :: 'a::linorder)"
  shows "sorted (map f xs)"
proof -
  have "f (xs ! i) \<le> f (xs ! Suc i)" if "Suc i < length xs" for i using assms[of "Suc i"] that by simp
  then show ?thesis by (simp add: sorted_iff_nth_Suc)
qed

lemma slots_of_index:
  assumes "\<And>i. i < length xs \<Longrightarrow> f (xs ! i) = slot_of i" "length xs \<le> 10"
  shows "sorted (map f xs)"
proof -
  have "map f xs = map (\<lambda>i. of_nat (i + 1)) [0..<length xs]"
    using assms(1) by (intro nth_equalityI) (simp_all add: slot_of_def)
  then show ?thesis using slots_sorted[OF assms(2)] by simp
qed

text \<open>The parts of a successful validation.\<close>

lemma valid_parts:
  assumes "validateState s canonical = None"
  obtains seen where "state_header_error s = None" "\<And>i. i < length (ws_candidates s) \<Longrightarrow> candidate_error s canonical i = None"
    "barrier_error s = None"
    "captured_loop s canonical [0..<length (ws_captured s)] (replicate (length (ws_candidates s)) False) = Inr seen"
    "\<And>i. i < length (ws_participants s) \<Longrightarrow> participant_error s canonical i = None"
    "roster_error s seen = None" "combat_error s = None" "outcome_error s = None"
    "\<And>i. i < length (ws_drops s) \<Longrightarrow> drop_error s canonical i = None"
    "\<And>i. i < length (ws_holdings s) \<Longrightarrow> holding_error s canonical i = None"
    "loot_phase_error s = None" "result_error s canonical = None"
  using assms by (auto simp: validateState_def split: sum.splits)

lemma captured_loop_errors:
  "captured_loop s canonical is seen = Inr seen' \<Longrightarrow> \<forall>i \<in> set is. captured_error s canonical i = None"
  by (induction s canonical "is" seen rule: captured_loop.induct) (auto split: option.splits if_splits)

lemma store_sorted:
  assumes "\<forall>i \<in> {0..<length records}. order_error True records i = None"
  shows "sorted (map (\<lambda>e. command_key (sr_commandId e)) records)"
proof (rule sorted_neighbours)
  fix i assume "i < length records" "i \<noteq> 0"
  then show "\<not> command_key (sr_commandId (records ! i)) < command_key (sr_commandId (records ! (i - 1)))"
    using bspec[OF assms, of i] by (simp add: order_error_def)
qed

lemma attack_store_parts:
  assumes "validateAttackStore st i n True = None"
  shows "length (snd st) \<le> 256" "sort_records st = st" "\<And>e. e \<in> set (snd st) \<Longrightarrow> attack_error i e = None"
  using assms sort_key_sorted[OF store_sorted, of "snd st"]
  by (auto simp: validateAttackStore_def sort_records_def in_set_conv_nth)

lemma loot_store_parts:
  assumes "validateLootStore st i n True = None"
  shows "length (snd st) \<le> 256" "sort_records st = st" "\<And>e. e \<in> set (snd st) \<Longrightarrow> loot_error i e = None"
  using assms sort_key_sorted[OF store_sorted, of "snd st"]
  by (auto simp: validateLootStore_def sort_records_def in_set_conv_nth)

lemma result_sorted:
  assumes "validateFinalResultBasic r True = None"
  shows "sorted (map we_slot (wr_entries r))"
proof (rule sorted_neighbours)
  fix i assume i: "i < length (wr_entries r)" "i \<noteq> 0"
  have "\<forall>i \<in> {0..<length (wr_entries r)}. i = 0 \<or> \<not> we_slot (wr_entries r ! i) < we_slot (wr_entries r ! (i - 1))"
    using assms by (simp add: validateFinalResultBasic_def Let_def)
  then show "\<not> we_slot (wr_entries r ! i) < we_slot (wr_entries r ! (i - 1))" using i by (auto dest: bspec[of _ _ i])
qed

lemma participant_stores:
  assumes "participant_error s True i = None"
  shows "validateAttackStore (wp_attackResults (ws_participants s ! i)) (ws_battleId s) (bt_nanos (ws_time s)) True = None"
    "validateLootStore (wp_lootResults (ws_participants s ! i)) (ws_battleId s) (bt_nanos (ws_time s)) True = None"
  using assms by (simp_all add: participant_error_def Let_def)

lemma valid_lengths:
  "state_header_error s = None \<Longrightarrow> 2 \<le> length (ws_candidates s) \<and> length (ws_candidates s) \<le> 10 \<and> length (ws_captured s) \<le> 10 \<and>
     length (ws_participants s) \<le> 10 \<and> length (ws_drops s) \<le> 10 \<and> length (ws_holdings s) \<le> 256"
  by (simp add: state_header_error_def)

lemma valid_canonical:
  assumes "validateState s True = None"
  shows "canonicalState s = s"
proof -
  obtain seen where v: "state_header_error s = None" "\<And>i. i < length (ws_candidates s) \<Longrightarrow> candidate_error s True i = None"
    "captured_loop s True [0..<length (ws_captured s)] (replicate (length (ws_candidates s)) False) = Inr seen"
    "\<And>i. i < length (ws_participants s) \<Longrightarrow> participant_error s True i = None"
    "\<And>i. i < length (ws_drops s) \<Longrightarrow> drop_error s True i = None"
    "\<And>i. i < length (ws_holdings s) \<Longrightarrow> holding_error s True i = None" "result_error s True = None"
    using assms by (rule valid_parts) blast
  note n = valid_lengths[OF v(1)]
  have "sorted (map wc_slot (ws_candidates s))"
    using v(2) n by (intro slots_of_index) (auto simp: candidate_error_def Let_def)
  moreover have "sorted (map wx_slot (ws_captured s))"
    using captured_loop_errors[OF v(3)] n by (intro slots_of_index) (auto simp: captured_error_def Let_def)
  moreover have "sorted (map wp_slot (ws_participants s))"
    using v(4) n by (intro slots_of_index) (auto simp: participant_error_def Let_def)
  moreover have "map (\<lambda>e. e\<lparr>wp_attackResults := sort_records (wp_attackResults e),
      wp_lootResults := sort_records (wp_lootResults e)\<rparr>) (ws_participants s) = ws_participants s"
    using attack_store_parts(2)[OF participant_stores(1)[OF v(4)]] loot_store_parts(2)[OF participant_stores(2)[OF v(4)]]
    by (intro nth_equalityI) simp_all
  moreover have "sorted (map (\<lambda>e. drop_value (rd_dropId (wd_drop e))) (ws_drops s))"
    using v(5) by (intro sorted_neighbours) (auto simp: drop_error_def Let_def)
  moreover have "sorted (map holding_key (ws_holdings s))"
  proof (rule sorted_neighbours)
    fix i assume "i < length (ws_holdings s)" "i \<noteq> 0"
    then show "\<not> holding_key (ws_holdings s ! i) < holding_key (ws_holdings s ! (i - 1))"
      using v(6)[of i] by (simp add: holding_error_def Let_def)
  qed
  moreover have "map_option (\<lambda>r. r\<lparr>wr_entries := sort_key we_slot (wr_entries r)\<rparr>) (ws_committedResult s) = ws_committedResult s"
    using v(7) sort_key_sorted[OF result_sorted]
    by (cases "ws_committedResult s") (auto simp: result_error_def)
  ultimately show ?thesis
    by (simp add: canonicalState_def sort_key_sorted)
qed

section \<open>The decoder is the inverse of the encoder\<close>

text \<open>The coordinates of the code are 32-bit integers.\<close>

definition wire_ints :: "wire_state \<Rightarrow> bool" where
  "wire_ints s \<longleftrightarrow>
     (\<forall>e \<in> set (ws_participants s). i32 (wp_posX e) \<and> i32 (wp_posY e) \<and> i32 (wp_tickDeltaX e) \<and> i32 (wp_tickDeltaY e)) \<and>
     (\<forall>m. ws_monster s = Some m \<longrightarrow> wire_monster_ok m) \<and> (\<forall>e \<in> set (ws_drops s). wire_drop_ok e)"

lemma canonical_ints [simp]: "wire_ints (canonicalState s) = wire_ints s"
  by (simp add: wire_ints_def canonicalState_def)

lemma wire_ok_ints: "wire_ok s \<Longrightarrow> wire_ints s"
  by (auto simp: wire_ok_def wire_ints_def wire_participant_ok_def)

lemma valid_wire_ok:
  assumes "validateState s True = None" "wire_ints s"
  shows "wire_ok s"
proof -
  obtain seen where v: "state_header_error s = None" "\<And>i. i < length (ws_participants s) \<Longrightarrow> participant_error s True i = None"
    "result_error s True = None"
    using assms(1) by (rule valid_parts) blast
  have stores: "length (snd (wp_attackResults e)) \<le> 256" "length (snd (wp_lootResults e)) \<le> 256"
    if "e \<in> set (ws_participants s)" for e
    using that attack_store_parts(1)[OF participant_stores(1)[OF v(2)]] loot_store_parts(1)[OF participant_stores(2)[OF v(2)]]
    by (auto simp: in_set_conv_nth)
  have "\<forall>r. ws_committedResult s = Some r \<longrightarrow> length (wr_entries r) \<le> 10"
    using v(3) by (auto simp: result_error_def validateFinalResultBasic_def)
  then show ?thesis using valid_lengths[OF v(1)] stores assms(2) by (auto simp: wire_ok_def wire_ints_def wire_participant_ok_def)
qed

lemma prefix_codec: "codec get_prefix (\<lambda>p. put_word (fst p) @ put_word (snd p)) (\<lambda>_. True)"
  unfolding get_prefix_def by (intro fields lasts) auto

lemma decode_put:
  assumes "wire_ok s" "validateState s True = None" "length (putState s) \<le> maximumStateBytes"
  shows "decodeBattleState (putState s) = Inr s"
proof -
  have "get_prefix (0, putState s) = Inr ((stateMagic, 1), (6, put_fields s))"
    using codec.reads[OF prefix_codec, of 0 "(stateMagic, 1)" "put_fields s"] by (simp add: putState_def)
  moreover have "getState (6, put_fields s) = Inr (s, (6 + length (put_fields s), []))"
    using codec.reads_all[OF state_codec assms(1)] .
  moreover have "length (putState s) = 6 + length (put_fields s)" by (simp add: putState_def)
  ultimately show ?thesis using assms(2,3) by (simp add: decodeBattleState_def)
qed

lemma decode_result:
  assumes "decodeBattleState bs = Inr s"
  shows "wire_ok s" "bs = putState s" "validateState s True = None" "length bs \<le> maximumStateBytes"
proof -
  obtain c c' where d: "length bs \<le> maximumStateBytes" "get_prefix (0, bs) = Inr ((stateMagic, 1), c)" "getState c = Inr (s, c')"
    "fst c' = length bs" "validateState s True = None"
    using assms by (auto simp: decodeBattleState_def split: if_splits sum.splits option.splits)
  note pre = codec.exact[OF prefix_codec d(2)]
  note body = codec.exact[OF state_codec d(3)]
  have bs: "bs = put_word stateMagic @ put_word (1 :: u16) @ put_fields s @ snd c'" using pre body by simp
  have "length bs = 6 + length (put_fields s)" using pre body d(4) by simp
  then have "snd c' = []" using arg_cong[OF bs, of length] by simp
  then show "bs = putState s" using bs by (simp add: putState_def)
  show "wire_ok s" "validateState s True = None" "length bs \<le> maximumStateBytes" using body d(1,5) by simp_all
qed

lemma decode_battle_iff:
  "decodeBattleState bs = Inr s \<longleftrightarrow> encodeBattleState s = Inr bs \<and> canonicalState s = s \<and> wire_ints s"
proof
  assume d: "decodeBattleState bs = Inr s"
  note r = decode_result[OF d]
  have "canonicalState s = s" by (rule valid_canonical[OF r(3)])
  then show "encodeBattleState s = Inr bs \<and> canonicalState s = s \<and> wire_ints s"
    using r wire_ok_ints by (auto simp: encodeBattleState_def)
next
  assume e: "encodeBattleState s = Inr bs \<and> canonicalState s = s \<and> wire_ints s"
  then have v: "validateState s True = None" "bs = putState s" "length (putState s) \<le> maximumStateBytes"
    by (auto simp: encodeBattleState_def Let_def split: option.splits if_splits)
  then show "decodeBattleState bs = Inr s" using decode_put valid_wire_ok e by simp
qed

text \<open>Property C14. Decoding accepts exactly the bytes that encoding produces: a byte string decodes to a
  state if and only if the state is in canonical order and encodes to that byte string, so no two byte
  strings stand for the same state and no state has two encodings.\<close>

theorem decode_inverts_encode:
  "decodeBattleState bs = Inr s \<longleftrightarrow>
     encodeBattleState s = Inr bs \<and> canonicalState s = s \<and> wire_ints s"
  by (rule decode_battle_iff)

section \<open>Decoded states are typed\<close>

definition typed_attack :: "(u64, wire_attack) stored \<Rightarrow> bool" where
  "typed_attack e \<longleftrightarrow> valid_attack_result (wa_code (sr_result e)) \<and> valid_combat_outcome (wa_outcome (sr_result e))"

text \<open>Every enumeration of the state holds one of its values.\<close>

definition typed :: "wire_state \<Rightarrow> bool" where
  "typed s \<longleftrightarrow> valid_load_state (ws_state s) \<and> valid_resolution (ws_lootResolution s) \<and> valid_result_state (ws_resultState s) \<and>
     (\<forall>e \<in> set (ws_candidates s). valid_candidate (wc_state e)) \<and> (\<forall>e \<in> set (ws_captured s). valid_exit (wx_exitStatus e)) \<and>
     (\<forall>e \<in> set (ws_participants s). valid_exit (wp_exitStatus e) \<and>
        (\<forall>r \<in> set (snd (wp_attackResults e)). typed_attack r) \<and>
        (\<forall>r \<in> set (snd (wp_lootResults e)). valid_claim_result (wl_code (sr_result r)))) \<and>
     (\<forall>m. ws_monster s = Some m \<longrightarrow> valid_monster_state (wm_state m)) \<and>
     (\<forall>t. ws_combatTerminal s = Some t \<longrightarrow> valid_combat_outcome (wt_outcome t)) \<and>
     (\<forall>o'. ws_terminalOutcome s = Some o' \<longrightarrow> valid_outcome o') \<and>
     (\<forall>e \<in> set (ws_drops s). valid_drop_state (wd_state e)) \<and>
     (\<forall>r. ws_committedResult s = Some r \<longrightarrow> valid_outcome (wr_outcome r) \<and>
        (\<forall>e \<in> set (wr_entries r). valid_exit (we_exitStatus e)))"

lemma wire_etas [simp]:
  "\<lparr>wc_slot = wc_slot x, wc_sessionId = wc_sessionId x, wc_state = wc_state x\<rparr> = x"
  "\<lparr>wx_slot = wx_slot y, wx_sessionId = wx_sessionId y, wx_exitStatus = wx_exitStatus y\<rparr> = y"
  "\<lparr>wd_drop = wd_drop z, wd_state = wd_state z, wd_ownerSlot = wd_ownerSlot z\<rparr> = z"
  by (rule wire_candidate.equality wire_captured.equality wire_drop.equality; simp)+

lemma exit_code_of [simp]: "valid_exit raw \<Longrightarrow> exit_code (exit_of raw) = raw"
  by (simp add: exit_of_def)

lemma typed_results:
  "typed_attack e \<Longrightarrow> map_stored wire_attack_of (map_stored attack_of e) = e"
  "valid_claim_result (wl_code (sr_result q)) \<Longrightarrow> map_stored wire_claim_of (map_stored claim_of q) = q"
  by (auto simp: typed_attack_def map_stored_def attack_of_def wire_attack_of_def claim_of_def wire_claim_of_def
      intro!: stored.equality wire_attack.equality wire_claim.equality)

lemma typed_stores:
  fixes attacks :: "(u64, wire_attack) store_image" and loots :: "(drop_id, wire_claim) store_image"
  shows "\<forall>r \<in> set (snd attacks). typed_attack r \<Longrightarrow>
      map_store_image wire_attack_of (map_store_image attack_of attacks) = attacks"
    "\<forall>r \<in> set (snd loots). valid_claim_result (wl_code (sr_result r)) \<Longrightarrow>
      map_store_image wire_claim_of (map_store_image claim_of loots) = loots"
  by (simp_all add: map_store_image_def comp_def typed_results map_idI)

lemma typed_image:
  assumes "typed s"
  shows "wire_of (image_of s) = s"
proof -
  have stores: "map_store_image wire_attack_of (map_store_image attack_of (wp_attackResults e)) = wp_attackResults e"
    "map_store_image wire_claim_of (map_store_image claim_of (wp_lootResults e)) = wp_lootResults e"
    if "e \<in> set (ws_participants s)" for e
    by (rule typed_stores; use that assms in \<open>simp add: typed_def\<close>)+
  have parts: "map (\<lambda>e. wire_participant_of \<lparr>ip_slot = wp_slot e, ip_sessionId = wp_sessionId e, ip_posX = wp_posX e,
       ip_posY = wp_posY e, ip_tickDeltaX = wp_tickDeltaX e, ip_tickDeltaY = wp_tickDeltaY e,
       ip_latestSeenActionSequence = wp_latestSeenActionSequence e,
       ip_moveBucket = (wp_lastRateUpdateNanos e, wp_rateCreditUnits e),
       ip_attackBucket = (wp_lastAttackRateUpdateNanos e, wp_attackRateCreditUnits e),
       ip_claimBucket = (wp_lastClaimRateUpdateNanos e, wp_claimRateCreditUnits e),
       ip_lastAcceptedAttackNanos = wp_lastAcceptedAttackNanos e,
       ip_attackResults = map_store_image attack_of (wp_attackResults e),
       ip_lootResults = map_store_image claim_of (wp_lootResults e), ip_gameplayEligible = wp_gameplayEligible e,
       ip_inputEnabled = wp_inputEnabled e, ip_exitStatus = exit_of (wp_exitStatus e)\<rparr>) (ws_participants s) = ws_participants s"
    using stores assms by (intro map_idI wire_participant.equality) (simp_all add: wire_participant_of_def typed_def)
  show ?thesis
    using assms parts
    by (auto simp: wire_of_def image_of_def typed_def wire_candidate_of_def wire_captured_of_def wire_drop_of_def
        wire_monster_of_def wire_terminal_of_def wire_result_of_def wire_entry_of_def comp_def option.map_comp
        intro!: wire_state.equality map_idI option.map_ident_strong wire_monster.equality wire_terminal.equality
        wire_result.equality wire_entry.equality)
qed

lemma valid_typed:
  assumes "validateState s True = None"
  shows "typed s"
proof -
  obtain seen where v: "state_header_error s = None" "\<And>i. i < length (ws_candidates s) \<Longrightarrow> candidate_error s True i = None"
    "captured_loop s True [0..<length (ws_captured s)] (replicate (length (ws_candidates s)) False) = Inr seen"
    "\<And>i. i < length (ws_participants s) \<Longrightarrow> participant_error s True i = None"
    "combat_error s = None" "outcome_error s = None"
    "\<And>i. i < length (ws_drops s) \<Longrightarrow> drop_error s True i = None" "result_error s True = None"
    using assms by (rule valid_parts) blast
  have "\<forall>e \<in> set (ws_candidates s). valid_candidate (wc_state e)"
    using v(2) by (auto simp: in_set_conv_nth candidate_error_def Let_def)
  moreover have "\<forall>e \<in> set (ws_captured s). valid_exit (wx_exitStatus e)"
    using captured_loop_errors[OF v(3)] by (auto simp: in_set_conv_nth captured_error_def Let_def)
  moreover have "\<forall>e \<in> set (ws_participants s). valid_exit (wp_exitStatus e) \<and>
      (\<forall>r \<in> set (snd (wp_attackResults e)). typed_attack r) \<and>
      (\<forall>r \<in> set (snd (wp_lootResults e)). valid_claim_result (wl_code (sr_result r)))"
  proof
    fix e assume "e \<in> set (ws_participants s)"
    then obtain i where i: "i < length (ws_participants s)" "e = ws_participants s ! i" by (auto simp: in_set_conv_nth)
    note stores = participant_stores[OF v(4)[OF i(1)], folded i(2)]
    have "valid_exit (wp_exitStatus e)" using v(4)[OF i(1)] i(2) by (simp add: participant_error_def Let_def)
    then show "valid_exit (wp_exitStatus e) \<and> (\<forall>r \<in> set (snd (wp_attackResults e)). typed_attack r) \<and>
      (\<forall>r \<in> set (snd (wp_lootResults e)). valid_claim_result (wl_code (sr_result r)))"
      using attack_store_parts(3)[OF stores(1)] loot_store_parts(3)[OF stores(2)]
      by (auto simp: typed_attack_def attack_error_def loot_error_def)
  qed
  moreover have "\<forall>e \<in> set (ws_drops s). valid_drop_state (wd_state e)"
    using v(7) by (auto simp: in_set_conv_nth drop_error_def Let_def)
  moreover have "valid_exit (we_exitStatus e)" if "ws_committedResult s = Some r" "e \<in> set (wr_entries r)" for r e
    using v(8) that by (auto simp: in_set_conv_nth result_error_def validateFinalResultBasic_def Let_def)
  moreover have "valid_load_state (ws_state s)" "valid_resolution (ws_lootResolution s)" "valid_result_state (ws_resultState s)"
    using v(1) by (simp_all add: state_header_error_def)
  moreover have "valid_monster_state (wm_state m)" if "ws_monster s = Some m" for m
    using v(5) that by (simp add: combat_error_def Let_def)
  moreover have "valid_combat_outcome (wt_outcome t)" if "ws_combatTerminal s = Some t" for t
    using v(5) that by (simp add: combat_error_def Let_def)
  moreover have "valid_outcome outcome" if "ws_terminalOutcome s = Some outcome" for outcome
    using v(6) that by (simp add: outcome_error_def)
  moreover have "valid_outcome (wr_outcome r)" if "ws_committedResult s = Some r" for r
    using v(8) that by (simp add: result_error_def validateFinalResultBasic_def)
  ultimately show ?thesis unfolding typed_def by blast
qed

text \<open>Property C15. A state that the decoder returns is well typed: every enumeration that was read as a
  number holds one of the values of its type, so the state is the state of an image.\<close>

theorem decoded_state_is_typed:
  assumes "decodeBattleState bs = Inr s"
  shows "wire_of (image_of s) = s"
  by (rule typed_image[OF valid_typed[OF decode_result(3)[OF assms]]])

definition exampleState :: wire_state where
  "exampleState = wire_of (exportState exampleBattle)"

theorem decoded_state_is_typed_witness:
  "decodeBattleState (putState exampleState) = Inr exampleState \<and> wire_of (image_of exampleState) = exampleState"
proof -
  have valid: "validateState exampleState True = None" by code_simp
  have "list_all (\<lambda>e. i32 (wp_posX e) \<and> i32 (wp_posY e) \<and> i32 (wp_tickDeltaX e) \<and> i32 (wp_tickDeltaY e))
      (ws_participants exampleState)" by code_simp
  moreover have "map_option wm_position (ws_monster exampleState) = Some \<lparr>cp_x = 0, cp_y = 0\<rparr>" by code_simp
  moreover have "length (ws_drops exampleState) = 0" by code_simp
  ultimately have ints: "wire_ints exampleState" by (auto simp: wire_ints_def list_all_iff wire_monster_ok_def i32_def)
  have "length (putState exampleState) \<le> 1000" by code_simp
  then have "decodeBattleState (putState exampleState) = Inr exampleState"
    by (intro decode_put valid_wire_ok valid ints) (simp add: maximumStateBytes_def)
  then show ?thesis using decoded_state_is_typed by blast
qed

end
