(* ===== verification/TerminalState.thy ===== *)
theory TerminalState
  imports BattleStateCodec RecordCodec
begin

text \<open>
  The end of a battle as bytes (\<open>encodeCanonicalBattleResult\<close>, \<open>encodeCanonicalTerminalState\<close> and
  \<open>canonicalBattleTerminalHash\<close> of \<open>game-server/modules/battle-continuity/src/BattleStateCodec.cpp\<close>):
  the result, and the final state together with the receipt of the settlement, over which the hash
  of the terminal receipt is computed.
\<close>

section \<open>The result\<close>

definition canonical_result :: "wire_result \<Rightarrow> wire_result" where
  "canonical_result r = r\<lparr>wr_entries := sort_key we_slot (wr_entries r)\<rparr>"

definition encodeCanonicalBattleResult :: "wire_result \<Rightarrow> state_error \<times> nat + bytes" where
  "encodeCanonicalBattleResult input =
     (let r = canonical_result input
      in case validateFinalResultBasic r True of
           Some e \<Rightarrow> Inl (e, 0)
         | None \<Rightarrow>
             (let bs = putCanonicalResult r
              in if maximumStateBytes < length bs then Inl (StateTooLarge, 0) else Inr bs))"

text \<open>The loop over the entries of a result payload; \<open>slots\<close> are the slots of the entries before.\<close>

fun result_entries :: "nat \<Rightarrow> u16 list \<Rightarrow> cursor \<Rightarrow> state_error \<times> nat + u16 list \<times> cursor" where
  "result_entries 0 slots c = Inr (slots, c)"
| "result_entries (Suc n) slots c =
     (case get_entry c of
        Inl e \<Rightarrow> Inl (read_error e)
      | Inr (entry, c') \<Rightarrow>
          if we_slot entry = 0 \<or> 10 < unat (we_slot entry) \<or> \<not> valid_exit (we_exitStatus entry) \<or> we_rank entry = Some 0
          then Inl (StateInvariantViolation, 0)
          else if slots \<noteq> [] \<and> we_slot entry = last slots then Inl (StateDuplicateId, 0)
          else if slots \<noteq> [] \<and> we_slot entry < last slots then Inl (StateInvalidOrdering, 0)
          else result_entries n (slots @ [we_slot entry]) c')"

definition get_result_header :: "(byte \<times> u16) reader" where
  "get_result_header = get_bind get_word (\<lambda>raw. get_bind get_word (\<lambda>entryCount. get_return (raw, entryCount)))"

definition validateCanonicalResultPayload :: "bytes \<Rightarrow> state_error \<times> nat + u16 list" where
  "validateCanonicalResultPayload payload =
     (case get_result_header (0, payload) of
        Inl e \<Rightarrow> Inl (read_error e)
      | Inr ((raw, entryCount), c) \<Rightarrow>
     if \<not> valid_outcome raw then Inl (StateInvalidEnum, 0)
     else if unat entryCount < 2 \<or> 10 < unat entryCount then Inl (StateInvalidLength, fst c - 2)
     else (case result_entries (unat entryCount) [] c of
        Inl e \<Rightarrow> Inl e
      | Inr (slots, c') \<Rightarrow> if fst c' \<noteq> length payload then Inl (StateTrailingBytes, fst c') else Inr slots))"

section \<open>The settlement of the result\<close>

text \<open>The loop over the settlements; \<open>prior\<close> are the settlements before.\<close>

fun settlements_error :: "settlement_receipt list \<Rightarrow> settlement_receipt list \<Rightarrow> state_error option" where
  "settlements_error prior [] = None"
| "settlements_error prior (s # ss) =
     (if se_slot s = 0 then Some StateInvariantViolation
      else if prior \<noteq> [] \<and> se_slot s = se_slot (last prior) then Some StateDuplicateId
      else if prior \<noteq> [] \<and> se_slot s < se_slot (last prior) then Some StateInvalidOrdering
      else if list_ex (\<lambda>p. se_id s = se_id p) prior then Some StateDuplicateId
      else settlements_error (prior @ [s]) ss)"

definition validateTerminalSettlements :: "terminal_payload \<Rightarrow> state_error option" where
  "validateTerminalSettlements t =
     (if unat (tr_intentCount t) \<noteq> length (tr_settlements t) \<or> 2 ^ 16 \<le> length (tr_settlements t)
      then Some StateInvalidLength else settlements_error [] (tr_settlements t))"

text \<open>The receipt without its hash, behind the state.\<close>

definition put_receipt_tail :: "terminal_payload \<Rightarrow> bytes" where
  "put_receipt_tail t = put_word (tr_reason t) @ put_blob (tr_result t) @ put_word (tr_unixMs t) @ put_word (tr_elapsed t) @
     tr_batchId t @ put_word (tr_intentCount t) @ put_items put_settlement (tr_settlements t)"

definition encodeCanonicalTerminalState :: "bytes \<Rightarrow> terminal_payload \<Rightarrow> state_error \<times> nat + bytes" where
  "encodeCanonicalTerminalState state t =
     (if state = [] \<or> maximumStateBytes < length state then Inl (StateInvalidLength, 0)
      else case decodeBattleState state of
        Inl e \<Rightarrow> Inl e
      | Inr _ \<Rightarrow>
     if 2 ^ 32 \<le> length (tr_result t) then Inl (StateInvalidLength, 0)
     else (case validateCanonicalResultPayload (tr_result t) of
        Inl e \<Rightarrow> Inl e
      | Inr slots \<Rightarrow>
     (case validateTerminalSettlements t of
        Some e \<Rightarrow> Inl (e, 0)
      | None \<Rightarrow>
     if length slots \<noteq> length (tr_settlements t) then Inl (StateInvariantViolation, 0)
     else if list_ex (\<lambda>(slot, s). slot \<noteq> se_slot s) (zip slots (tr_settlements t)) then Inl (StateInvariantViolation, 0)
     else if maximumStateBytes < length (state @ put_receipt_tail t) then Inl (StateTooLarge, 0)
     else Inr (state @ put_receipt_tail t))))"

definition canonicalBattleTerminalHash ::
  "(bytes \<Rightarrow> bytes option) \<Rightarrow> bytes \<Rightarrow> terminal_payload \<Rightarrow> bytes option" where
  "canonicalBattleTerminalHash digest state t =
     (case encodeCanonicalTerminalState state t of
        Inl _ \<Rightarrow> None
      | Inr bs \<Rightarrow> canonicalStateHash digest bs)"

definition battleStateHash :: "(bytes \<Rightarrow> bytes option) \<Rightarrow> bytes \<Rightarrow> bytes option" where
  "battleStateHash digest state = canonicalStateHash digest state"

section \<open>Payloads are encoded results\<close>

text \<open>The condition on the entries that both the encoder and the payload check state.\<close>

definition entry_ok :: "wire_entry \<Rightarrow> bool" where
  "entry_ok e \<longleftrightarrow> valid_exit (we_exitStatus e) \<and> we_slot e \<noteq> 0 \<and> unat (we_slot e) \<le> 10 \<and> we_rank e \<noteq> Some 0"

lemma strictly_ascending:
  assumes "\<forall>i < length xs. i \<noteq> 0 \<longrightarrow> (xs ! (i - 1) :: 'a::linorder) < xs ! i"
  shows "sorted_wrt (<) xs"
proof -
  have "xs ! i < xs ! Suc i" if "Suc i < length xs" for i using assms[rule_format, of "Suc i"] that by simp
  then show ?thesis by (simp add: sorted_wrt_iff_nth_Suc_transp)
qed

lemma basic_result_iff:
  "validateFinalResultBasic r True = None \<longleftrightarrow>
     valid_outcome (wr_outcome r) \<and> 2 \<le> length (wr_entries r) \<and> length (wr_entries r) \<le> 10 \<and>
     list_all entry_ok (wr_entries r) \<and> sorted_wrt (<) (map we_slot (wr_entries r))"
proof -
  let ?es = "wr_entries r"
  have "validateFinalResultBasic r True = None \<longleftrightarrow> valid_outcome (wr_outcome r) \<and> 2 \<le> length ?es \<and> length ?es \<le> 10 \<and>
      (\<forall>i < length ?es. entry_ok (?es ! i) \<and> (i \<noteq> 0 \<longrightarrow> we_slot (?es ! (i - 1)) < we_slot (?es ! i)))"
  proof -
    have step: "(i = 0 \<or> a \<noteq> p) \<and> (i = 0 \<or> p \<le> a) \<longleftrightarrow> (i \<noteq> 0 \<longrightarrow> p < a)" for i :: nat and a p :: u16
      by (cases a p rule: linorder_cases) auto
    have "validateFinalResultBasic r True = None \<longleftrightarrow> valid_outcome (wr_outcome r) \<and> 2 \<le> length ?es \<and> length ?es \<le> 10 \<and>
        (\<forall>i \<in> {0..<length ?es}. entry_ok (?es ! i) \<and> (i = 0 \<or> we_slot (?es ! i) \<noteq> we_slot (?es ! (i - 1))) \<and>
          (i = 0 \<or> we_slot (?es ! (i - 1)) \<le> we_slot (?es ! i)))"
      by (simp add: validateFinalResultBasic_def Let_def entry_ok_def not_less)
    then show ?thesis by (simp add: step Ball_def)
  qed
  also have "\<dots> \<longleftrightarrow> valid_outcome (wr_outcome r) \<and> 2 \<le> length ?es \<and> length ?es \<le> 10 \<and> list_all entry_ok ?es \<and>
      (\<forall>i < length ?es. i \<noteq> 0 \<longrightarrow> we_slot (?es ! (i - 1)) < we_slot (?es ! i))"
    by (auto simp: list_all_length)
  also have "(\<forall>i < length ?es. i \<noteq> 0 \<longrightarrow> we_slot (?es ! (i - 1)) < we_slot (?es ! i)) \<longleftrightarrow> sorted_wrt (<) (map we_slot ?es)"
    using strictly_ascending[of "map we_slot ?es"] by (auto simp: sorted_wrt_iff_nth_less)
  finally show ?thesis .
qed

lemma result_entries_iff:
  "result_entries n slots c = Inr (slots', c') \<longleftrightarrow>
     (\<exists>es. get_items n get_entry c = Inr (es, c') \<and> slots' = slots @ map we_slot es \<and> list_all entry_ok es \<and>
        (slots = [] \<or> (\<forall>e \<in> set es. last slots < we_slot e)) \<and> sorted_wrt (<) (map we_slot es))"
proof (induction n arbitrary: slots c)
  case (Suc n)
  show ?case
  proof (cases "get_entry c")
    case (Inr x)
    obtain e c1 where x: "x = (e, c1)" by (cases x)
    have items: "get_items (Suc n) get_entry c = Inr (es, c') \<longleftrightarrow> (\<exists>es'. es = e # es' \<and> get_items n get_entry c1 = Inr (es', c'))" for es
      using Inr x by (auto simp: get_bind_def split: sum.splits)
    have "result_entries (Suc n) slots c = Inr (slots', c') \<longleftrightarrow>
        entry_ok e \<and> (slots = [] \<or> last slots < we_slot e) \<and> result_entries n (slots @ [we_slot e]) c1 = Inr (slots', c')"
      using Inr x by (auto simp: entry_ok_def not_less order.order_iff_strict)
    also have "\<dots> \<longleftrightarrow> (\<exists>es'. get_items n get_entry c1 = Inr (es', c') \<and> slots' = slots @ map we_slot (e # es') \<and>
        list_all entry_ok (e # es') \<and> (slots = [] \<or> (\<forall>x \<in> set (e # es'). last slots < we_slot x)) \<and>
        sorted_wrt (<) (map we_slot (e # es')))"
    proof -
      have "(slots = [] \<or> last slots < we_slot e) \<and> (\<forall>x \<in> set es'. we_slot e < we_slot x) \<longleftrightarrow>
          (slots = [] \<or> (\<forall>x \<in> set (e # es'). last slots < we_slot x)) \<and> (\<forall>x \<in> set es'. we_slot e < we_slot x)" for es'
        using order.strict_trans[of "last slots" "we_slot e"] by auto
      then show ?thesis unfolding Suc.IH by (simp, blast)
    qed
    finally show ?thesis unfolding items by blast
  qed (simp add: get_bind_def)
qed auto

lemma length_put_result:
  assumes "length (wr_entries r) \<le> 10"
  shows "length (putCanonicalResult r) \<le> maximumStateBytes"
proof -
  have "length (put_entry e) \<le> 17" for e
    by (cases "we_rank e") (simp_all add: put_entry_def put_optional_def put_boolean_def)
  then have "length (put_items put_entry (wr_entries r)) \<le> 17 * length (wr_entries r)" by (rule length_put_items)
  also have "\<dots> \<le> 170" using assms by simp
  finally show ?thesis by (simp add: putCanonicalResult_def put_list_def maximumStateBytes_def)
qed

lemma canonical_basic:
  "validateFinalResultBasic r True = None \<Longrightarrow> canonical_result r = r"
  using sort_key_sorted[OF result_sorted, of r] by (simp add: canonical_result_def)

lemma encode_result_iff:
  "encodeCanonicalBattleResult r = Inr bs \<longleftrightarrow>
     validateFinalResultBasic (canonical_result r) True = None \<and> bs = putCanonicalResult (canonical_result r)"
  using length_put_result[of "canonical_result r"] basic_result_iff[of "canonical_result r"]
  by (auto simp: encodeCanonicalBattleResult_def Let_def split: option.splits)

lemma result_header_codec: "codec get_result_header (\<lambda>p. put_word (fst p) @ put_word (snd p)) (\<lambda>_. True)"
  unfolding get_result_header_def by (intro fields lasts) auto

lemma result_payload_iff:
  "validateCanonicalResultPayload payload = Inr slots \<longleftrightarrow>
     (\<exists>r. validateFinalResultBasic r True = None \<and> payload = putCanonicalResult r \<and> slots = map we_slot (wr_entries r))"
proof
  assume "validateCanonicalResultPayload payload = Inr slots"
  then obtain raw entryCount c c' where v: "get_result_header (0, payload) = Inr ((raw, entryCount), c)" "valid_outcome raw"
    "2 \<le> unat entryCount" "unat entryCount \<le> 10" "result_entries (unat entryCount) [] c = Inr (slots, c')" "fst c' = length payload"
    by (auto simp: validateCanonicalResultPayload_def not_less split: sum.splits if_splits)
  obtain es where es: "get_items (unat entryCount) get_entry c = Inr (es, c')" "slots = map we_slot es" "list_all entry_ok es"
    "sorted_wrt (<) (map we_slot es)"
    using v(5) unfolding result_entries_iff by auto
  note header = codec.exact[OF result_header_codec v(1)]
  note items = codec.exact[OF items_codec[OF entry_codec] es(1)]
  have n: "of_nat (length es) = entryCount" using items by simp
  let ?r = "\<lparr>wr_outcome = raw, wr_entries = es\<rparr>"
  have put: "putCanonicalResult ?r = put_word raw @ put_word entryCount @ put_items put_entry es"
    by (simp add: putCanonicalResult_def put_list_def n)
  have "payload = putCanonicalResult ?r @ snd c'" unfolding put using header items by simp
  moreover have "length payload = length (putCanonicalResult ?r)" unfolding put using v(6) header items by simp
  ultimately have "payload = putCanonicalResult ?r" by simp
  moreover have "validateFinalResultBasic ?r True = None"
    using v(2-4) es(3,4) items by (simp add: basic_result_iff)
  ultimately show "\<exists>r. validateFinalResultBasic r True = None \<and> payload = putCanonicalResult r \<and> slots = map we_slot (wr_entries r)"
    using es(2) by (intro exI[of _ ?r]) simp
next
  assume "\<exists>r. validateFinalResultBasic r True = None \<and> payload = putCanonicalResult r \<and> slots = map we_slot (wr_entries r)"
  then obtain r where r: "validateFinalResultBasic r True = None" "payload = putCanonicalResult r" "slots = map we_slot (wr_entries r)"
    by blast
  have ok: "valid_outcome (wr_outcome r)" "2 \<le> length (wr_entries r)" "length (wr_entries r) \<le> 10"
    "list_all entry_ok (wr_entries r)" "sorted_wrt (<) (map we_slot (wr_entries r))"
    using r(1) by (simp_all add: basic_result_iff)
  have n: "unat (of_nat (length (wr_entries r)) :: u16) = length (wr_entries r)"
    using ok(3) by (simp add: unat_of_nat take_bit_nat_eq_self)
  have header: "get_result_header (0, payload) = Inr ((wr_outcome r, of_nat (length (wr_entries r))), (3, put_items put_entry (wr_entries r)))"
    using codec.reads[OF result_header_codec, of 0 "(wr_outcome r, of_nat (length (wr_entries r)))"] r(2)
    by (simp add: putCanonicalResult_def put_list_def)
  have "get_items (length (wr_entries r)) get_entry (3, put_items put_entry (wr_entries r)) =
      Inr (wr_entries r, (3 + length (put_items put_entry (wr_entries r)), []))"
    by (rule codec.reads_all[OF items_codec[OF entry_codec]]) simp
  then have "result_entries (length (wr_entries r)) [] (3, put_items put_entry (wr_entries r)) =
      Inr (slots, (3 + length (put_items put_entry (wr_entries r)), []))"
    unfolding result_entries_iff using ok(4,5) r(3) by auto
  then show "validateCanonicalResultPayload payload = Inr slots"
    using header n ok(1-3) r(2) by (simp add: validateCanonicalResultPayload_def putCanonicalResult_def put_list_def)
qed

text \<open>The result in a terminal receipt is checked exactly: the check of the payload accepts a byte string
  if and only if it is the canonical encoding of a result, and it returns the slots of its entries in order.\<close>

theorem result_payload_is_encoding:
  "validateCanonicalResultPayload payload = Inr slots \<longleftrightarrow>
     (\<exists>r. encodeCanonicalBattleResult r = Inr payload \<and> slots = map we_slot (wr_entries (canonical_result r)))"
  unfolding result_payload_iff encode_result_iff using canonical_basic by metis

section \<open>Terminal states are unambiguous\<close>

lemma receipt_tail_inject:
  assumes "put_receipt_tail t = put_receipt_tail t'" "payload_sized (TerminalPayload t)" "payload_sized (TerminalPayload t')"
    "length (tr_result t) < 2 ^ 32" "length (tr_result t') < 2 ^ 32"
    "unat (tr_intentCount t) = length (tr_settlements t)" "unat (tr_intentCount t') = length (tr_settlements t')"
    "tr_finalHash t = tr_finalHash t'"
  shows "t = t'"
proof -
  have reason: "tr_reason t = tr_reason t'"
    using u16_codec.prefix_free assms(1) unfolding put_receipt_tail_def by blast
  have "put_terminal_receipt t = put_terminal_receipt t'"
  proof -
    have "drop 2 (put_receipt_tail t) = drop 2 (put_receipt_tail t')" using assms(1) by simp
    then show ?thesis using reason assms(8) by (simp add: put_terminal_receipt_def put_receipt_tail_def)
  qed
  then show ?thesis
    by (rule codec.put_inject[OF terminal_receipt_codec, rotated 2]) (use assms in \<open>simp_all add: list_all_iff\<close>)
qed

lemma terminal_state_parts:
  assumes "encodeCanonicalTerminalState state t = Inr bs"
  obtains s where "decodeBattleState state = Inr s" "length (tr_result t) < 2 ^ 32" "bs = state @ put_receipt_tail t"
    "unat (tr_intentCount t) = length (tr_settlements t)"
  using assms
  by (auto simp: encodeCanonicalTerminalState_def validateTerminalSettlements_def split: if_splits sum.splits option.splits)

text \<open>Property C19. The bytes over which the hash of a terminal receipt is computed tell everything that they should: two
  accepted pairs of a state and a receipt have the same bytes only if the states are the same bytes and the receipts
  agree in everything but the hash that is being computed.\<close>

theorem terminal_state_unambiguous:
  "inj_on (\<lambda>(state, t). encodeCanonicalTerminalState state t)
     {(state, t). \<not> isl (encodeCanonicalTerminalState state t) \<and> payload_sized (TerminalPayload t) \<and> tr_finalHash t = h}"
proof (rule inj_onI)
  fix p q :: "bytes \<times> terminal_payload"
  obtain state t state' t' where pq: "p = (state, t)" "q = (state', t')" by (cases p, cases q)
  assume "p \<in> {(state, t). \<not> isl (encodeCanonicalTerminalState state t) \<and> payload_sized (TerminalPayload t) \<and> tr_finalHash t = h}"
    "q \<in> {(state, t). \<not> isl (encodeCanonicalTerminalState state t) \<and> payload_sized (TerminalPayload t) \<and> tr_finalHash t = h}"
    "(case p of (state, t) \<Rightarrow> encodeCanonicalTerminalState state t) = (case q of (state, t) \<Rightarrow> encodeCanonicalTerminalState state t)"
  then have ok: "\<not> isl (encodeCanonicalTerminalState state t)" "\<not> isl (encodeCanonicalTerminalState state' t')"
    and sized: "payload_sized (TerminalPayload t)" "payload_sized (TerminalPayload t')" "tr_finalHash t = tr_finalHash t'"
    and eq: "encodeCanonicalTerminalState state t = encodeCanonicalTerminalState state' t'"
    by (auto simp: pq)
  obtain bs where bs: "encodeCanonicalTerminalState state t = Inr bs" using ok(1) by (cases "encodeCanonicalTerminalState state t") auto
  obtain s where s: "decodeBattleState state = Inr s" "length (tr_result t) < 2 ^ 32" "bs = state @ put_receipt_tail t"
    "unat (tr_intentCount t) = length (tr_settlements t)" using terminal_state_parts[OF bs] by blast
  obtain s' where s': "decodeBattleState state' = Inr s'" "length (tr_result t') < 2 ^ 32" "bs = state' @ put_receipt_tail t'"
    "unat (tr_intentCount t') = length (tr_settlements t')" using terminal_state_parts bs eq by metis
  note d = decode_result[OF s(1)] and d' = decode_result[OF s'(1)]
  have "put_fields s @ put_receipt_tail t = put_fields s' @ put_receipt_tail t'"
    using s(3) s'(3) d(2) d'(2) by (simp add: putState_def)
  then have same: "s = s'" "put_receipt_tail t = put_receipt_tail t'"
    using codec.prefix_free[OF state_codec d(1) d'(1)] by blast+
  show "p = q"
    using same d(2) d'(2) receipt_tail_inject[OF same(2) sized(1,2) s(2) s'(2) s(4) s'(4) sized(3)] pq by simp
qed

end
