(* ===== verification/RecoveryStateCodec.thy ===== *)
theory RecoveryStateCodec
  imports TerminalState
begin

text \<open>
  \<open>game-server/modules/battle-continuity/src/RecoveryStateCodec.cpp\<close>: the image of a room beside the
  image of its battle, as checkpoints of the journal hold it, and the bytes over which the hash of a
  terminal receipt is computed. The decoder is shown to be the inverse of the encoder.
\<close>

section \<open>Data\<close>

datatype recovery_error =
    RecoveryTruncated | RecoveryTrailingBytes | RecoveryInvalidMagic | RecoveryUnsupportedSchema | RecoveryInvalidLength
  | RecoveryTooLarge | RecoveryInvalidRoomId | RoomIdMismatch | InvalidCapacity | InvalidMemberCount | InvalidMemberSlot
  | InvalidMemberOrder | InvalidHostSlot | InvalidPhase | InvalidNextBattleOrdinal | BattleStateRejected
  | RecoveryHashUnavailable

datatype recovery_phase = RecoveryOpen | RecoveryLoading | RecoveryInProgress | AwaitingSettlementDurability

fun phase_code :: "recovery_phase \<Rightarrow> byte" where
  "phase_code RecoveryOpen = 0" | "phase_code RecoveryLoading = 1" | "phase_code RecoveryInProgress = 2"
| "phase_code AwaitingSettlementDurability = 3"

definition phase_vals :: "recovery_phase list" where
  "phase_vals = [RecoveryOpen, RecoveryLoading, RecoveryInProgress, AwaitingSettlementDurability]"

interpretation phase_enum: enumeration phase_code phase_vals
proof
  show "e \<in> set phase_vals" for e by (cases e) (simp_all add: phase_vals_def)
  show "phase_code e = phase_code e' \<longleftrightarrow> e = e'" for e e' by (cases e; cases e') simp_all
qed

definition validPhase :: "byte \<Rightarrow> bool" where
  "validPhase raw \<longleftrightarrow> enum_value phase_code phase_vals raw \<noteq> None"

text \<open>The phase is the number that was read, as in the battle state.\<close>

record room_recovery =
  rr_roomId :: room_id
  rr_capacity :: byte
  rr_host :: u16
  rr_members :: "u16 list"
  rr_phase :: byte
  rr_nextOrdinal :: u64

section \<open>The image of a room\<close>

fun members_error :: "byte \<Rightarrow> u16 \<Rightarrow> u16 list \<Rightarrow> recovery_error option" where
  "members_error capacity previous [] = None"
| "members_error capacity previous (slot # slots) =
     (if slot = 0 \<or> unat capacity < unat slot then Some InvalidMemberSlot
      else if slot \<le> previous then Some InvalidMemberOrder
      else members_error capacity slot slots)"

definition validateRoomState :: "room_recovery \<Rightarrow> recovery_error option" where
  "validateRoomState r =
     (let room = room_value (rr_roomId r) in
      checks [check (room = 0 \<or> (ucast (drop_bit 32 room) :: u32) = 0 \<or> (ucast room :: u32) = 0) RecoveryInvalidRoomId,
        check (rr_capacity r < 2 \<or> 10 < rr_capacity r) InvalidCapacity,
        check (unat (rr_capacity r) < length (rr_members r)) InvalidMemberCount,
        members_error (rr_capacity r) 0 (rr_members r),
        check (case rr_members r of [] \<Rightarrow> rr_host r \<noteq> 0 | first # _ \<Rightarrow> rr_host r \<noteq> first) InvalidHostSlot,
        check (\<not> validPhase (rr_phase r)) InvalidPhase,
        check (rr_nextOrdinal r = 0) InvalidNextBattleOrdinal])"

definition roomMagic :: u32 where
  "roomMagic = 0x4C425252"

definition put_room_fields :: "room_recovery \<Rightarrow> bytes" where
  "put_room_fields r = put_word (room_value (rr_roomId r)) @ put_word (rr_capacity r) @ put_word (rr_host r) @
     put_list put_word (rr_members r) @ put_word (rr_phase r) @ put_word (rr_nextOrdinal r)"

definition put_room :: "room_recovery \<Rightarrow> bytes" where
  "put_room r = put_word roomMagic @ put_word (1 :: u16) @ put_room_fields r"

definition encodeRoomRecoveryState :: "room_recovery \<Rightarrow> recovery_error \<times> nat + bytes" where
  "encodeRoomRecoveryState r = (case validateRoomState r of Some e \<Rightarrow> Inl (e, 0) | None \<Rightarrow> Inr (put_room r))"

definition get_room_fields :: "room_recovery reader" where
  "get_room_fields = get_bind get_word (\<lambda>room. get_bind get_word (\<lambda>capacity. get_bind get_word (\<lambda>host.
     get_bind (get_list 0 10 get_word) (\<lambda>members. get_bind get_word (\<lambda>phase. get_bind get_word (\<lambda>ordinal.
     get_return \<lparr>rr_roomId = RoomId room, rr_capacity = capacity, rr_host = host, rr_members = members, rr_phase = phase,
       rr_nextOrdinal = ordinal\<rparr>))))))"

text \<open>A failing read is a truncation; the only length that is checked while reading is the number of members.\<close>

definition recovery_read_error :: "recovery_error \<Rightarrow> read_fail \<times> nat \<Rightarrow> recovery_error \<times> nat" where
  "recovery_read_error lengthError = (\<lambda>(code, at). (if code = ReadLength then lengthError else RecoveryTruncated, at))"

definition decodeRoomPayload :: "bytes \<Rightarrow> recovery_error \<times> nat + room_recovery" where
  "decodeRoomPayload bs =
     (case get_prefix (0, bs) of
        Inl e \<Rightarrow> Inl (recovery_read_error InvalidMemberCount e)
      | Inr ((magic, schema), c) \<Rightarrow>
     if magic \<noteq> roomMagic then Inl (RecoveryInvalidMagic, 0)
     else if schema \<noteq> 1 then Inl (RecoveryUnsupportedSchema, 4)
     else (case get_room_fields c of
        Inl e \<Rightarrow> Inl (recovery_read_error InvalidMemberCount e)
      | Inr (r, c') \<Rightarrow>
     if fst c' \<noteq> length bs then Inl (RecoveryTrailingBytes, fst c')
     else (case validateRoomState r of Some e \<Rightarrow> Inl (e, 0) | None \<Rightarrow> Inr r)))"

definition decodeRoomRecoveryState :: "bytes \<Rightarrow> recovery_error \<times> nat + room_recovery" where
  "decodeRoomRecoveryState bs =
     (if maximumStateBytes < length bs then Inl (RecoveryTooLarge, 0) else decodeRoomPayload bs)"

section \<open>The composite image\<close>

definition recoveryMagic :: u32 where
  "recoveryMagic = 0x4C425243"

text \<open>The next battle of the room follows this one.\<close>

definition ordinal_mismatch :: "battle_id \<Rightarrow> room_recovery \<Rightarrow> bool" where
  "ordinal_mismatch battleId r \<longleftrightarrow> battle_value battleId = - 1 \<or> rr_nextOrdinal r \<noteq> battle_value battleId + 1"

definition put_recovery_parts :: "bytes \<times> bytes \<Rightarrow> bytes" where
  "put_recovery_parts p = put_blob (fst p) @ put_blob (snd p)"

definition put_recovery :: "bytes \<Rightarrow> bytes \<Rightarrow> bytes" where
  "put_recovery battle room = put_word recoveryMagic @ put_word (1 :: u16) @ put_recovery_parts (battle, room)"

definition encodeRecoveryState :: "wire_state \<Rightarrow> room_recovery \<Rightarrow> recovery_error \<times> nat + bytes" where
  "encodeRecoveryState battle room =
     (if ws_roomId battle \<noteq> rr_roomId room then Inl (RoomIdMismatch, 0)
      else case encodeBattleState battle of
        Inl _ \<Rightarrow> Inl (BattleStateRejected, 0)
      | Inr battleBytes \<Rightarrow>
     (case encodeRoomRecoveryState room of
        Inl e \<Rightarrow> Inl e
      | Inr roomBytes \<Rightarrow>
     if ordinal_mismatch (ws_battleId battle) room then Inl (InvalidNextBattleOrdinal, 0)
     else let bs = put_recovery battleBytes roomBytes
       in if maximumStateBytes < length bs then Inl (RecoveryTooLarge, 0) else Inr bs))"

definition get_bounded_blob :: "bytes reader" where
  "get_bounded_blob = get_bind (get_word :: u32 reader)
     (\<lambda>n. if maximumStateBytes < unat n then get_fail ReadLength 0 else get_take (unat n))"

definition get_recovery_parts :: "(bytes \<times> bytes) reader" where
  "get_recovery_parts = get_bind get_bounded_blob (\<lambda>battle. get_bind get_bounded_blob (\<lambda>room. get_return (battle, room)))"

definition decodeRecoveryState :: "bytes \<Rightarrow> recovery_error \<times> nat + wire_state \<times> room_recovery" where
  "decodeRecoveryState bs =
     (if maximumStateBytes < length bs then Inl (RecoveryTooLarge, 0)
      else case get_prefix (0, bs) of
        Inl e \<Rightarrow> Inl (recovery_read_error RecoveryInvalidLength e)
      | Inr ((magic, schema), c) \<Rightarrow>
     if magic \<noteq> recoveryMagic then Inl (RecoveryInvalidMagic, 0)
     else if schema \<noteq> 1 then Inl (RecoveryUnsupportedSchema, 4)
     else (case get_recovery_parts c of
        Inl e \<Rightarrow> Inl (recovery_read_error RecoveryInvalidLength e)
      | Inr ((battleBytes, roomBytes), c') \<Rightarrow>
     if fst c' \<noteq> length bs then Inl (RecoveryTrailingBytes, fst c')
     else (case decodeBattleState battleBytes of
        Inl _ \<Rightarrow> Inl (BattleStateRejected, 0)
      | Inr battle \<Rightarrow>
     (case decodeRoomRecoveryState roomBytes of
        Inl e \<Rightarrow> Inl e
      | Inr room \<Rightarrow>
     if ws_roomId battle \<noteq> rr_roomId room then Inl (RoomIdMismatch, 0)
     else if ordinal_mismatch (ws_battleId battle) room then Inl (InvalidNextBattleOrdinal, 0)
     else Inr (battle, room)))))"

definition recoveryStateHash :: "(bytes \<Rightarrow> bytes option) \<Rightarrow> bytes \<Rightarrow> bytes option" where
  "recoveryStateHash digest bs = canonicalStateHash digest bs"

text \<open>The terminal bytes replace the battle image by the composite image in front of the receipt.\<close>

definition encodeCanonicalRecoveryTerminalState :: "bytes \<Rightarrow> terminal_payload \<Rightarrow> state_error \<times> nat + bytes" where
  "encodeCanonicalRecoveryTerminalState state t =
     (case decodeRecoveryState state of
        Inl _ \<Rightarrow> Inl (StateInvalidIdentity, 0)
      | Inr (battle, _) \<Rightarrow>
     (case encodeBattleState battle of
        Inl e \<Rightarrow> Inl e
      | Inr battleBytes \<Rightarrow>
     (case encodeCanonicalTerminalState battleBytes t of
        Inl e \<Rightarrow> Inl e
      | Inr terminalBytes \<Rightarrow>
     if length terminalBytes < length battleBytes then Inr []
     else let bs = state @ drop (length battleBytes) terminalBytes
       in if maximumStateBytes < length bs then Inl (StateTooLarge, 0) else Inr bs)))"

definition canonicalRecoveryTerminalHash ::
  "(bytes \<Rightarrow> bytes option) \<Rightarrow> bytes \<Rightarrow> terminal_payload \<Rightarrow> bytes option" where
  "canonicalRecoveryTerminalHash digest state t =
     (case encodeCanonicalRecoveryTerminalState state t of
        Inl _ \<Rightarrow> None
      | Inr bs \<Rightarrow> canonicalStateHash digest bs)"

section \<open>The decoders are the inverses of the encoders\<close>

lemma room_codec: "codec get_room_fields put_room_fields (\<lambda>r. length (rr_members r) \<le> 10)"
  unfolding get_room_fields_def put_room_fields_def[abs_def]
  by (intro fields lasts list_codec[OF u16_codec.codec_axioms, THEN field_codec]) (auto intro!: room_recovery.equality)

lemma bounded_blob_codec: "codec get_bounded_blob put_blob (\<lambda>bs. length bs \<le> maximumStateBytes)"
proof
  fix bs :: bytes and p rest
  assume le: "length bs \<le> maximumStateBytes"
  then have n: "unat (of_nat (length bs) :: u32) = length bs"
    by (simp add: unat_of_nat take_bit_nat_eq_self maximumStateBytes_def)
  show "get_bounded_blob (p, put_blob bs @ rest) = Inr (bs, (p + length (put_blob bs), rest))"
    using u32_codec.reads[of p "of_nat (length bs)" "bs @ rest"] n le by (simp add: get_bounded_blob_def put_blob_def)
next
  fix bs c c' assume "get_bounded_blob c = Inr (bs, c')"
  then obtain w :: u32 and c1 where w: "get_word c = Inr (w, c1)" "unat w \<le> maximumStateBytes" "get_take (unat w) c1 = Inr (bs, c')"
    by (auto simp: get_bounded_blob_def elim!: get_bindE split: if_splits)
  note take = get_take_exact[OF w(3)]
  have "of_nat (length bs) = w" using take by simp
  then show "length bs \<le> maximumStateBytes \<and> snd c = put_blob bs @ snd c' \<and> fst c' = fst c + length (put_blob bs)"
    using u32_codec.exact[OF w(1)] take w(2) by (simp add: put_blob_def)
qed

lemma recovery_parts_codec:
  "codec get_recovery_parts put_recovery_parts
     (\<lambda>p. length (fst p) \<le> maximumStateBytes \<and> length (snd p) \<le> maximumStateBytes)"
  unfolding get_recovery_parts_def put_recovery_parts_def[abs_def]
  by (intro bounded_blob_codec[THEN field_codec] bounded_blob_codec[THEN last_codec]) auto

text \<open>A format with a magic number and a schema in front of fields that a codec reads to the end.\<close>

lemma prefixed_reads:
  assumes "codec get put ok" "ok x"
  shows "get_prefix (0, put_word magic @ put_word (1 :: u16) @ put x) = Inr ((magic, 1), (6, put x))"
    "get (6, put x) = Inr (x, (6 + length (put x), []))"
  using codec.reads[OF prefix_codec, of 0 "(magic, 1)" "put x"] codec.reads_all[OF assms] by simp_all

lemma prefixed_exact:
  assumes "codec get put ok" "get_prefix (0, bs) = Inr ((magic, 1), c)" "get c = Inr (x, c')" "fst c' = length bs"
  shows "ok x" "bs = put_word magic @ put_word (1 :: u16) @ put x"
proof -
  note pre = codec.exact[OF prefix_codec assms(2)]
  note body = codec.exact[OF assms(1) assms(3)]
  show "ok x" using body by simp
  have bs: "bs = put_word magic @ put_word (1 :: u16) @ put x @ snd c'" using pre body by simp
  have "length bs = 6 + length (put x)" using pre body assms(4) by simp
  then have "snd c' = []" using arg_cong[OF bs, of length] by simp
  then show "bs = put_word magic @ put_word (1 :: u16) @ put x" using bs by simp
qed

lemma valid_room_members:
  assumes "validateRoomState r = None"
  shows "length (rr_members r) \<le> 10"
proof -
  have "\<not> 10 < rr_capacity r" "\<not> unat (rr_capacity r) < length (rr_members r)"
    using assms by (simp_all add: validateRoomState_def Let_def)
  then show ?thesis by (simp add: word_less_nat_alt)
qed

lemma decode_room_iff:
  "decodeRoomRecoveryState bs = Inr r \<longleftrightarrow> encodeRoomRecoveryState r = Inr bs"
proof
  assume "decodeRoomRecoveryState bs = Inr r"
  then obtain c c' where d: "get_prefix (0, bs) = Inr ((roomMagic, 1), c)" "get_room_fields c = Inr (r, c')" "fst c' = length bs"
    "validateRoomState r = None"
    by (auto simp: decodeRoomRecoveryState_def decodeRoomPayload_def split: if_splits sum.splits option.splits)
  show "encodeRoomRecoveryState r = Inr bs"
    using prefixed_exact(2)[OF room_codec d(1-3)] d(4) by (simp add: encodeRoomRecoveryState_def put_room_def)
next
  assume "encodeRoomRecoveryState r = Inr bs"
  then have v: "validateRoomState r = None" "bs = put_room r" by (auto simp: encodeRoomRecoveryState_def split: option.splits)
  have members: "length (rr_members r) \<le> 10" by (rule valid_room_members[OF v(1)])
  have "length (put_list put_word (rr_members r)) \<le> 22"
    using length_put_items[of "put_word :: u16 \<Rightarrow> bytes" 2 "rr_members r"] members by (simp add: put_list_def)
  then have "length bs \<le> maximumStateBytes" by (simp add: v(2) put_room_def put_room_fields_def maximumStateBytes_def)
  then show "decodeRoomRecoveryState bs = Inr r"
    using prefixed_reads(1)[OF room_codec members, of roomMagic] prefixed_reads(2)[OF room_codec members] v
    by (simp add: decodeRoomRecoveryState_def decodeRoomPayload_def put_room_def)
qed

lemma room_bytes_small: "encodeRoomRecoveryState r = Inr bs \<Longrightarrow> length bs \<le> maximumStateBytes"
  using decode_room_iff[of bs r] by (auto simp: decodeRoomRecoveryState_def split: if_splits)

lemma battle_bytes_small: "encodeBattleState s = Inr bs \<Longrightarrow> length bs \<le> maximumStateBytes"
  by (auto simp: encodeBattleState_def Let_def split: option.splits if_splits)

lemma decode_recovery_iff:
  "decodeRecoveryState bs = Inr (battle, room) \<longleftrightarrow>
     encodeRecoveryState battle room = Inr bs \<and> canonicalState battle = battle \<and> wire_ints battle"
proof
  assume "decodeRecoveryState bs = Inr (battle, room)"
  then obtain c c' battleBytes roomBytes where d: "length bs \<le> maximumStateBytes" "get_prefix (0, bs) = Inr ((recoveryMagic, 1), c)"
    "get_recovery_parts c = Inr ((battleBytes, roomBytes), c')" "fst c' = length bs" "decodeBattleState battleBytes = Inr battle"
    "decodeRoomRecoveryState roomBytes = Inr room" "ws_roomId battle = rr_roomId room"
    "\<not> ordinal_mismatch (ws_battleId battle) room"
    by (auto simp: decodeRecoveryState_def split: if_splits sum.splits)
  have "bs = put_recovery battleBytes roomBytes"
    using prefixed_exact(2)[OF recovery_parts_codec d(2-4)] by (simp add: put_recovery_def)
  then show "encodeRecoveryState battle room = Inr bs \<and> canonicalState battle = battle \<and> wire_ints battle"
    using d(1,5-8) unfolding decode_room_iff decode_battle_iff by (simp add: encodeRecoveryState_def)
next
  assume e: "encodeRecoveryState battle room = Inr bs \<and> canonicalState battle = battle \<and> wire_ints battle"
  then obtain battleBytes roomBytes where v: "ws_roomId battle = rr_roomId room" "encodeBattleState battle = Inr battleBytes"
    "encodeRoomRecoveryState room = Inr roomBytes" "\<not> ordinal_mismatch (ws_battleId battle) room"
    "bs = put_recovery battleBytes roomBytes" "length bs \<le> maximumStateBytes"
    by (auto simp: encodeRecoveryState_def Let_def split: if_splits sum.splits)
  have sizes: "length (fst (battleBytes, roomBytes)) \<le> maximumStateBytes \<and> length (snd (battleBytes, roomBytes)) \<le> maximumStateBytes"
    using battle_bytes_small[OF v(2)] room_bytes_small[OF v(3)] by simp
  have "decodeBattleState battleBytes = Inr battle" "decodeRoomRecoveryState roomBytes = Inr room"
    unfolding decode_room_iff decode_battle_iff using e v(2,3) by simp_all
  then show "decodeRecoveryState bs = Inr (battle, room)"
    using prefixed_reads(1)[OF recovery_parts_codec sizes, of recoveryMagic] prefixed_reads(2)[OF recovery_parts_codec sizes] v(1,4-6)
    by (simp add: decodeRecoveryState_def put_recovery_def)
qed

text \<open>The bytes of an image determine the room.\<close>

lemma encode_recovery_room:
  assumes "encodeRecoveryState battle room = Inr bs" "encodeRecoveryState battle' room' = Inr bs"
  shows "room = room'"
proof -
  obtain x y where v: "encodeBattleState battle = Inr x" "encodeRoomRecoveryState room = Inr y" "bs = put_recovery x y"
    using assms(1) by (auto simp: encodeRecoveryState_def Let_def split: if_splits sum.splits)
  obtain x' y' where v': "encodeBattleState battle' = Inr x'" "encodeRoomRecoveryState room' = Inr y'" "bs = put_recovery x' y'"
    using assms(2) by (auto simp: encodeRecoveryState_def Let_def split: if_splits sum.splits)
  have "put_recovery_parts (x, y) = put_recovery_parts (x', y')" using v(3) v'(3) by (simp add: put_recovery_def)
  then have "(x, y) = (x', y')"
    using battle_bytes_small[OF v(1)] room_bytes_small[OF v(2)] battle_bytes_small[OF v'(1)] room_bytes_small[OF v'(2)]
    by (intro codec.put_inject[OF recovery_parts_codec]) simp_all
  then show ?thesis using v(2) v'(2) decode_room_iff by (metis Inr_inject prod.inject)
qed

text \<open>Property C16. The decoder of recovery images is the inverse of the encoder: a byte string decodes to a battle and
  a room if and only if they encode to it and the battle is in canonical order. In particular the room and the
  battle of an accepted image agree on the room, and the next battle of the room is the one after this battle.\<close>

theorem recovery_codec_inverse:
  "decodeRecoveryState bs = Inr (battle, room) \<longleftrightarrow>
     encodeRecoveryState battle room = Inr bs \<and> canonicalState battle = battle \<and> wire_ints battle"
  by (rule decode_recovery_iff)

end
