(* ===== verification/FlightRecorder.thy ===== *)
theory FlightRecorder
  imports CanonicalCommand JournalLaw RecoveryStateCodec
begin

text \<open>
  The recorder of \<open>game-server/modules/battle-continuity/src/FlightRecorder.cpp\<close>: it turns decisions
  about a battle into records with consecutive numbers and closes the records of a tick with a commit. A
  battle is given to it as the state that \<open>exportDeterministicState\<close> returns. The theory shows
  that every journal it writes is one that \<open>decodeJournal\<close> accepts.
\<close>

section \<open>State\<close>

datatype recorder_error =
    RecorderInvalidIdentity | RecorderUnsupportedRuleset | RecorderInvalidCommand | StateEncodingFailed | SequenceExhausted
  | BatchEmpty | BatchNotCommitted | CodecRejected | TerminalAlreadyRecorded | TerminalNotReady

record flight_recorder =
  fr_identity :: battle_identity
  fr_writer :: u32
  fr_records :: "journal_record list"
  fr_batchHash :: "bytes option"
  fr_batchFirst :: u64
  fr_batchCount :: u32
  fr_batchTick :: u64
  fr_next :: u64
  fr_terminal :: bool
  fr_encodedBytes :: nat

text \<open>An error with the next sequence, or a success that recorded a record or found nothing to record.\<close>

type_synonym append_result = "recorder_error \<times> u64 + journal_record option"

definition recorder_failure :: "recorder_error \<Rightarrow> flight_recorder \<Rightarrow> append_result \<times> flight_recorder" where
  "recorder_failure code R = (Inl (code, fr_next R), R)"

definition deterministicState :: "battle \<Rightarrow> wire_state" where
  "deterministicState b = wire_of (exportState b)"

definition validIdentity :: "battle_identity \<Rightarrow> bool" where
  "validIdentity = (\<lambda>(origin, roomId, battleId). let room = room_value roomId in
     origin \<noteq> 0 \<and> room \<noteq> 0 \<and> battle_value battleId \<noteq> 0 \<and> (ucast (drop_bit 32 room) :: u32) = origin \<and>
     (ucast room :: u32) \<noteq> 0)"

definition headerFor :: "battle_identity \<Rightarrow> u32 \<Rightarrow> record_type \<Rightarrow> u64 \<Rightarrow> battle_time \<Rightarrow> record_header" where
  "headerFor = (\<lambda>(origin, roomId, battleId) writer recordType sequence at.
     \<lparr>jh_type = recordType, jh_sequence = sequence, jh_origin = origin, jh_writer = writer, jh_roomId = roomId,
       jh_battleId = battleId, jh_tick = bt_tick at, jh_elapsed = bt_nanos at\<rparr>)"

definition participantSlotExists :: "wire_state \<Rightarrow> u16 \<Rightarrow> bool" where
  "participantSlotExists s slot \<longleftrightarrow> list_ex (\<lambda>e. wc_slot e = slot) (ws_candidates s)"

section \<open>Starting\<close>

fun start_participants :: "u16 \<Rightarrow> wire_candidate list \<Rightarrow> start_participant list option" where
  "start_participants previous [] = Some []"
| "start_participants previous (e # es) =
     (if wc_slot e = 0 \<or> wc_slot e \<le> previous \<or> session_value (wc_sessionId e) = 0 then None
      else map_option (\<lambda>ps. \<lparr>sp_slot = wc_slot e, sp_sessionId = wc_sessionId e\<rparr> # ps) (start_participants (wc_slot e) es))"

text \<open>The loops over records that sum up their encoded sizes within the budget of a journal.\<close>

fun encoded_size :: "(bytes \<Rightarrow> bytes option) \<Rightarrow> nat \<Rightarrow> journal_record list \<Rightarrow> nat option" where
  "encoded_size digest used [] = Some used"
| "encoded_size digest used (r # rs) =
     (case encodeRecord digest r of
        Inl _ \<Rightarrow> None
      | Inr bs \<Rightarrow> if maximumJournalBytes - length bs < used then None else encoded_size digest (used + length bs) rs)"

definition start_records :: "battle_identity \<Rightarrow> u32 \<Rightarrow> wire_state \<Rightarrow> bytes \<Rightarrow> bytes \<Rightarrow> start_participant list \<Rightarrow> journal_record list" where
  "start_records identity writer state encoded hash participants =
     [\<lparr>jr_header = headerFor identity writer BattleStartRecord 1 (fromLogicalTick 0),
       jr_payload = StartPayload \<lparr>bs_rulesetVersion = ws_rulesetVersion state, bs_seed = ws_seed state, bs_tickHertz = 20,
         bs_initialHash = hash, bs_participants = participants\<rparr>\<rparr>,
      \<lparr>jr_header = headerFor identity writer CheckpointRecord 2 (ws_time state),
       jr_payload = CheckpointPayload \<lparr>ck_schemaVersion = 1, ck_state = encoded, ck_hash = hash\<rparr>\<rparr>]"

definition start_state :: "battle_identity \<Rightarrow> wire_state \<Rightarrow> bool" where
  "start_state identity state \<longleftrightarrow>
     ws_roomId state = fst (snd identity) \<and> ws_battleId state = snd (snd identity) \<and> ws_rulesetVersion state = 1 \<and>
     ws_seed state \<noteq> 0 \<and> time_valid (ws_time state) \<and> ws_state state = load_state_code LoadBarrierOpen \<and>
     bt_tick (ws_time state) = 0"

definition startRecorder ::
  "(bytes \<Rightarrow> bytes option) \<Rightarrow> battle \<Rightarrow> battle_identity \<Rightarrow> u32 \<Rightarrow> room_recovery \<Rightarrow> flight_recorder option" where
  "startRecorder digest b identity writer room =
     (let state = deterministicState b in
      if \<not> validIdentity identity \<or> writer = 0 then None
      else if \<not> start_state identity state then None
      else case encodeRecoveryState state room of
        Inl _ \<Rightarrow> None
      | Inr encoded \<Rightarrow>
     (case recoveryStateHash digest encoded of
        None \<Rightarrow> None
      | Some hash \<Rightarrow>
     if length (ws_candidates state) < 2 \<or> 10 < length (ws_candidates state) then None
     else (case start_participants 0 (ws_candidates state) of
        None \<Rightarrow> None
      | Some participants \<Rightarrow>
     (let records = start_records identity writer state encoded hash participants in
      case encoded_size digest 0 records of
        None \<Rightarrow> None
      | Some used \<Rightarrow>
          Some \<lparr>fr_identity = identity, fr_writer = writer, fr_records = records, fr_batchHash = Some hash,
            fr_batchFirst = 1, fr_batchCount = 2, fr_batchTick = bt_tick (ws_time state), fr_next = 3,
            fr_terminal = False, fr_encodedBytes = used\<rparr>))))"

section \<open>Appending\<close>

definition identityMatches :: "flight_recorder \<Rightarrow> wire_state \<Rightarrow> bool" where
  "identityMatches R state \<longleftrightarrow>
     ws_roomId state = fst (snd (fr_identity R)) \<and> ws_battleId state = snd (snd (fr_identity R)) \<and>
     ws_rulesetVersion state = 1 \<and> ws_seed state \<noteq> 0 \<and> time_valid (ws_time state)"

definition extend_batch :: "journal_record \<Rightarrow> nat \<Rightarrow> bytes \<Rightarrow> flight_recorder \<Rightarrow> flight_recorder" where
  "extend_batch r n hash R =
     R\<lparr>fr_records := fr_records R @ [r], fr_encodedBytes := fr_encodedBytes R + n,
       fr_batchFirst := (if fr_batchHash R = None then rec_sequence r else fr_batchFirst R), fr_batchHash := Some hash,
       fr_batchCount := fr_batchCount R + 1, fr_batchTick := rec_tick r, fr_next := fr_next R + 1\<rparr>"

definition appendDataRecord ::
  "(bytes \<Rightarrow> bytes option) \<Rightarrow> journal_record \<Rightarrow> bytes \<Rightarrow> flight_recorder \<Rightarrow> append_result \<times> flight_recorder" where
  "appendDataRecord digest r hash R =
     (if fr_next R = 0 \<or> fr_next R = - 1 then recorder_failure SequenceExhausted R
      else if fr_records R \<noteq> [] \<and> rec_tick r < rec_tick (last (fr_records R)) then recorder_failure CodecRejected R
      else if fr_batchCount R \<noteq> 0 \<and> rec_tick r \<noteq> fr_batchTick R then recorder_failure BatchNotCommitted R
      else case encodeRecord digest r of
        Inl _ \<Rightarrow> recorder_failure CodecRejected R
      | Inr bs \<Rightarrow>
     if rec_sequence r \<noteq> fr_next R \<or> maximumJournalBytes - length bs < fr_encodedBytes R
     then recorder_failure CodecRejected R
     else (Inr (Some r), extend_batch r (length bs) hash R))"

text \<open>The image of a room and a battle, with its hash.\<close>

definition hashed_state :: "(bytes \<Rightarrow> bytes option) \<Rightarrow> wire_state \<Rightarrow> room_recovery \<Rightarrow> (bytes \<times> bytes) option" where
  "hashed_state digest state room =
     (case encodeRecoveryState state room of
        Inl _ \<Rightarrow> None
      | Inr encoded \<Rightarrow> map_option (\<lambda>hash. (encoded, hash)) (recoveryStateHash digest encoded))"

definition expected_snapshot :: "canonical_command \<Rightarrow> wire_state \<Rightarrow> u32" where
  "expected_snapshot command before =
     (if (be_value (take 4 (cc_payload command)) :: u32) mod 2 = 0
      then (if ws_nextSnapshotSequence before = - 1 then 1 else ws_nextSnapshotSequence before + 1)
      else ws_nextSnapshotSequence before)"

definition named_participant :: "canonical_command \<Rightarrow> command_kind \<Rightarrow> u16" where
  "named_participant command kind = (if hasTargetSlot kind then targetSlot command else cc_slot command)"

definition room_bytes :: "room_recovery \<Rightarrow> bytes" where
  "room_bytes room = (case encodeRoomRecoveryState room of Inl _ \<Rightarrow> [] | Inr bs \<Rightarrow> bs)"

definition decision_record :: "flight_recorder \<Rightarrow> canonical_command \<Rightarrow> u16 \<Rightarrow> wire_state \<Rightarrow> room_recovery \<Rightarrow> bytes \<Rightarrow> journal_record" where
  "decision_record R command decisionCode state room hash =
     \<lparr>jr_header = headerFor (fr_identity R) (fr_writer R) DecisionRecord (fr_next R) (ws_time state),
       jr_payload = DecisionPayload (decision_of command (fr_next R) decisionCode (room_bytes room) hash)\<rparr>"

text \<open>A command whose state hash does not change is not recorded.\<close>

definition appendCommand ::
  "(bytes \<Rightarrow> bytes option) \<Rightarrow> canonical_command \<Rightarrow> wire_state \<Rightarrow> room_recovery \<Rightarrow> battle \<Rightarrow> room_recovery \<Rightarrow> u16 \<Rightarrow>
   bytes \<Rightarrow> flight_recorder \<Rightarrow> append_result \<times> flight_recorder" where
  "appendCommand digest command before beforeRoom b afterRoom decisionCode outcome R =
     (if \<not> validCommand command \<or> outcome \<noteq> [] then recorder_failure RecorderInvalidCommand R
      else if \<not> identityMatches R before then recorder_failure RecorderInvalidIdentity R
      else case known_kind (cc_kind command) of
        None \<Rightarrow> recorder_failure RecorderInvalidCommand R
      | Some kind \<Rightarrow>
     if (hasTargetSlot kind \<or> \<not> isServerCommand kind) \<and> \<not> participantSlotExists before (named_participant command kind)
     then recorder_failure RecorderInvalidCommand R
     else let state = deterministicState b in
     if \<not> identityMatches R state then recorder_failure RecorderInvalidIdentity R
     else (case (hashed_state digest before beforeRoom, hashed_state digest state afterRoom) of
        (Some (_, beforeHash), Some (_, afterHash)) \<Rightarrow>
          if beforeHash = afterHash then (Inr None, R)
          else if kind = KindMovementTick \<and> ws_nextSnapshotSequence state \<noteq> expected_snapshot command before
          then recorder_failure RecorderInvalidCommand R
          else appendDataRecord digest (decision_record R command decisionCode state afterRoom afterHash) afterHash R
      | _ \<Rightarrow> recorder_failure StateEncodingFailed R))"

definition checkpoint_record :: "flight_recorder \<Rightarrow> wire_state \<Rightarrow> bytes \<Rightarrow> bytes \<Rightarrow> journal_record" where
  "checkpoint_record R state encoded hash =
     \<lparr>jr_header = headerFor (fr_identity R) (fr_writer R) CheckpointRecord (fr_next R) (ws_time state),
       jr_payload = CheckpointPayload \<lparr>ck_schemaVersion = 1, ck_state = encoded, ck_hash = hash\<rparr>\<rparr>"

definition appendCheckpoint ::
  "(bytes \<Rightarrow> bytes option) \<Rightarrow> battle \<Rightarrow> room_recovery \<Rightarrow> flight_recorder \<Rightarrow> append_result \<times> flight_recorder" where
  "appendCheckpoint digest b room R =
     (let state = deterministicState b in
      if \<not> identityMatches R state then recorder_failure RecorderInvalidIdentity R
      else case hashed_state digest state room of
        None \<Rightarrow> recorder_failure StateEncodingFailed R
      | Some (encoded, hash) \<Rightarrow> appendDataRecord digest (checkpoint_record R state encoded hash) hash R)"

fun settlement_slots :: "nat \<Rightarrow> u16 \<Rightarrow> settlement_receipt list \<Rightarrow> bool" where
  "settlement_slots candidates previous [] = True"
| "settlement_slots candidates previous (s # ss) =
     (se_slot s \<noteq> 0 \<and> unat (se_slot s) \<le> candidates \<and> previous < se_slot s \<and> settlement_slots candidates (se_slot s) ss)"

text \<open>The receipt is hashed with a hash of zeros in its place.\<close>

definition terminal_receipt :: "u16 \<Rightarrow> wire_state \<Rightarrow> bytes \<Rightarrow> u64 \<Rightarrow> bytes \<Rightarrow> settlement_receipt list \<Rightarrow> terminal_payload" where
  "terminal_receipt reason state result unixMs batchId settlements =
     \<lparr>tr_reason = reason, tr_finalHash = replicate 32 0, tr_result = result, tr_unixMs = unixMs,
       tr_elapsed = bt_nanos (ws_time state), tr_batchId = batchId, tr_intentCount = of_nat (length settlements),
       tr_settlements = settlements\<rparr>"

definition terminal_record :: "flight_recorder \<Rightarrow> wire_state \<Rightarrow> terminal_payload \<Rightarrow> journal_record" where
  "terminal_record R state t =
     \<lparr>jr_header = headerFor (fr_identity R) (fr_writer R) TerminalRecord (fr_next R) (ws_time state),
       jr_payload = TerminalPayload t\<rparr>"

definition appendTerminal ::
  "(bytes \<Rightarrow> bytes option) \<Rightarrow> u16 \<Rightarrow> battle \<Rightarrow> room_recovery \<Rightarrow> u64 \<Rightarrow> bytes \<Rightarrow> settlement_receipt list \<Rightarrow> flight_recorder \<Rightarrow>
   append_result \<times> flight_recorder" where
  "appendTerminal digest reason b room unixMs batchId settlements R =
     (if fr_terminal R then recorder_failure TerminalAlreadyRecorded R
      else if 65535 < length settlements then recorder_failure TerminalNotReady R
      else let state = deterministicState b in
      if \<not> identityMatches R state \<or> ws_resultState state \<noteq> result_state_code Committed then recorder_failure TerminalNotReady R
      else case ws_committedResult state of
        None \<Rightarrow> recorder_failure TerminalNotReady R
      | Some committed \<Rightarrow>
     if \<not> settlement_slots (length (ws_candidates state)) 0 settlements then recorder_failure TerminalNotReady R
     else (case (hashed_state digest state room, encodeCanonicalBattleResult committed) of
        (Some (encoded, _), Inr result) \<Rightarrow>
          (let t = terminal_receipt reason state result unixMs batchId settlements in
           case canonicalRecoveryTerminalHash digest encoded t of
             None \<Rightarrow> recorder_failure StateEncodingFailed R
           | Some terminalHash \<Rightarrow>
               (case appendDataRecord digest (terminal_record R state (t\<lparr>tr_finalHash := terminalHash\<rparr>)) terminalHash R of
                  (Inr (Some r), R') \<Rightarrow> (Inr (Some r), R'\<lparr>fr_terminal := True\<rparr>)
                | failed \<Rightarrow> failed))
      | _ \<Rightarrow> recorder_failure StateEncodingFailed R))"

section \<open>Committing\<close>

text \<open>A terminal receipt is followed by the last checkpoint of its batch and nothing else.\<close>

definition terminal_placed :: "flight_recorder \<Rightarrow> bool" where
  "terminal_placed R \<longleftrightarrow>
     list_all (\<lambda>index. rec_type (fr_records R ! index) = TerminalRecord \<longrightarrow>
       index + 2 = length (fr_records R) \<and> rec_type (last (fr_records R)) = CheckpointRecord)
       [length (fr_records R) - unat (fr_batchCount R)..<length (fr_records R)]"

definition commit_record :: "flight_recorder \<Rightarrow> bytes \<Rightarrow> journal_record" where
  "commit_record R hash =
     \<lparr>jr_header = headerFor (fr_identity R) (fr_writer R) CommitRecord (fr_next R) (fromLogicalTick (fr_batchTick R)),
       jr_payload = CommitPayload \<lparr>tc_first = fr_batchFirst R, tc_last = fr_next R - 1, tc_count = fr_batchCount R,
         tc_hash = hash\<rparr>\<rparr>"

definition close_batch :: "journal_record \<Rightarrow> nat \<Rightarrow> flight_recorder \<Rightarrow> flight_recorder" where
  "close_batch r n R =
     R\<lparr>fr_records := fr_records R @ [r], fr_encodedBytes := fr_encodedBytes R + n,
       fr_next := fr_next R + 1, fr_batchHash := None, fr_batchFirst := 0, fr_batchCount := 0, fr_batchTick := 0\<rparr>"

definition commitTick :: "(bytes \<Rightarrow> bytes option) \<Rightarrow> flight_recorder \<Rightarrow> append_result \<times> flight_recorder" where
  "commitTick digest R =
     (case fr_batchHash R of
        None \<Rightarrow> recorder_failure BatchEmpty R
      | Some hash \<Rightarrow>
     if fr_batchCount R = 0 then recorder_failure BatchEmpty R
     else if \<not> terminal_placed R then recorder_failure BatchNotCommitted R
     else if fr_next R = 0 \<or> fr_next R = - 1 then recorder_failure SequenceExhausted R
     else let r = commit_record R hash in
     (case encodeRecord digest r of
        Inl _ \<Rightarrow> recorder_failure CodecRejected R
      | Inr bs \<Rightarrow>
     if maximumJournalBytes - length bs < fr_encodedBytes R then recorder_failure CodecRejected R
     else (Inr (Some r), close_batch r (length bs) R)))"

text \<open>The bytes of records that all encode, or the sequence of the first that does not.\<close>

fun encode_all :: "(bytes \<Rightarrow> bytes option) \<Rightarrow> journal_record list \<Rightarrow> u64 + bytes" where
  "encode_all digest [] = Inr []"
| "encode_all digest (r # rs) =
     (case encodeRecord digest r of
        Inl _ \<Rightarrow> Inl (rec_sequence r)
      | Inr bs \<Rightarrow> (case encode_all digest rs of Inl e \<Rightarrow> Inl e | Inr rest \<Rightarrow> Inr (bs @ rest)))"

definition encodeJournal :: "(bytes \<Rightarrow> bytes option) \<Rightarrow> flight_recorder \<Rightarrow> recorder_error \<times> u64 + bytes" where
  "encodeJournal digest R =
     (if fr_batchHash R \<noteq> None \<or> fr_batchCount R \<noteq> 0 then Inl (BatchNotCommitted, fr_next R)
      else case encode_all digest (fr_records R) of
        Inl sequence \<Rightarrow> Inl (CodecRejected, sequence)
      | Inr bs \<Rightarrow> Inr bs)"

section \<open>The invariant of the recorder\<close>

text \<open>The records are whole batches and an open batch, as in the loop of the decoder.\<close>

definition recorder_inv ::
  "(bytes \<Rightarrow> bytes option) \<Rightarrow> flight_recorder \<Rightarrow> journal_record list list \<Rightarrow> journal_record list \<Rightarrow> bool" where
  "recorder_inv digest R bs d \<longleftrightarrow>
     fr_records R = concat bs @ d \<and> fr_records R \<noteq> [] \<and> journal_part bs d \<and> list_all (storable digest) (fr_records R) \<and>
     fr_encodedBytes R = length (journal_bytes (fr_records R)) \<and> fr_encodedBytes R \<le> maximumJournalBytes \<and>
     fr_next R = of_nat (length (fr_records R) + 1) \<and> rec_identity (hd (fr_records R)) = fr_identity R \<and>
     fr_batchHash R = (if d = [] then None else dataStateHash (jr_payload (last d))) \<and>
     fr_batchCount R = of_nat (length d) \<and>
     (d \<noteq> [] \<longrightarrow> fr_batchFirst R = rec_sequence (hd d) \<and> fr_batchTick R = rec_tick (hd d)) \<and>
     (\<forall>r \<in> set d. rec_writer r = fr_writer R) \<and> (bs \<noteq> [] \<longrightarrow> batch_writer (last bs) \<le> fr_writer R)"

lemma recorder_parts:
  assumes "recorder_inv digest R bs d"
  shows "fr_records R = concat bs @ d" "fr_records R \<noteq> []" "journal_part bs d" "list_all (storable digest) (fr_records R)"
    "fr_encodedBytes R = length (journal_bytes (fr_records R))" "fr_encodedBytes R \<le> maximumJournalBytes"
    "fr_next R = of_nat (length (fr_records R) + 1)" "rec_identity (hd (fr_records R)) = fr_identity R"
    "fr_batchHash R = (if d = [] then None else dataStateHash (jr_payload (last d)))" "fr_batchCount R = of_nat (length d)"
    "d \<noteq> [] \<Longrightarrow> fr_batchFirst R = rec_sequence (hd d)" "d \<noteq> [] \<Longrightarrow> fr_batchTick R = rec_tick (hd d)"
    "r \<in> set d \<Longrightarrow> rec_writer r = fr_writer R" "bs \<noteq> [] \<Longrightarrow> batch_writer (last bs) \<le> fr_writer R"
  using assms unfolding recorder_inv_def by blast+

lemma inv_small:
  assumes "recorder_inv digest R bs d"
  shows "length (fr_records R) < 2 ^ 20" "length d < 2 ^ 20" "unat (fr_batchCount R) = length d"
    "fr_batchCount R = 0 \<longleftrightarrow> d = []" "fr_batchHash R = None \<longleftrightarrow> d = []"
proof -
  note p = recorder_parts[OF assms]
  have "68 * length (fr_records R) \<le> 64 * 1048576"
    using journal_bytes_length[of "fr_records R"] p(5,6) by (simp add: maximumJournalBytes_def)
  then show small: "length (fr_records R) < 2 ^ 20" by simp
  then show d: "length d < 2 ^ 20" using p(1) by simp
  then show count: "unat (fr_batchCount R) = length d" unfolding p(10) by (simp add: unat_of_nat take_bit_nat_eq_self)
  then show "fr_batchCount R = 0 \<longleftrightarrow> d = []" by (metis length_0_conv unat_eq_zero)
  show "fr_batchHash R = None \<longleftrightarrow> d = []"
  proof (cases "d = []")
    case False
    then have last: "last d \<in> set d" by simp
    then have "rec_type (last d) \<noteq> CommitRecord" using p(3) by (auto simp: journal_part_def data_ok_def)
    moreover have "typed_record (last d)"
      using p(4) last by (auto simp: p(1) list_all_iff storable_def intro: encodable_typed)
    ultimately show ?thesis using data_hash p(9) False by fastforce
  qed (simp add: p(9))
qed

lemma part_stream: "journal_part bs d \<Longrightarrow> stream_ok (concat bs @ d)"
  by (simp add: journal_part_def)

lemma encoded_length: "encodeRecord digest r = Inr e \<Longrightarrow> length e \<le> maximumJournalBytes"
  unfolding encode_record_iff encodable_def maximumJournalBytes_def by simp

lemma append_result:
  assumes "appendDataRecord digest r h R = (Inr (Some r'), R')" "fr_records R \<noteq> []"
  shows "rec_tick (last (fr_records R)) \<le> rec_tick r \<and> (fr_batchCount R = 0 \<or> rec_tick r = fr_batchTick R) \<and>
    rec_sequence r = fr_next R \<and> r' = r \<and> encodable digest r \<and>
    fr_encodedBytes R + length (record_bytes r) \<le> maximumJournalBytes \<and> R' = extend_batch r (length (record_bytes r)) h R"
proof (cases "encodeRecord digest r")
  case (Inl e)
  then show ?thesis using assms by (simp add: appendDataRecord_def recorder_failure_def split: if_splits)
next
  case (Inr e)
  have e: "encodable digest r" "e = record_bytes r" using Inr unfolding encode_record_iff by simp_all
  have "length e \<le> maximumJournalBytes" by (rule encoded_length[OF Inr])
  then have "\<not> maximumJournalBytes - length e < fr_encodedBytes R \<Longrightarrow> fr_encodedBytes R + length e \<le> maximumJournalBytes" by simp
  moreover have "\<not> rec_tick r < rec_tick (last (fr_records R))" "fr_batchCount R = 0 \<or> rec_tick r = fr_batchTick R"
    "rec_sequence r = fr_next R" "\<not> maximumJournalBytes - length e < fr_encodedBytes R" "r' = r"
    "R' = extend_batch r (length e) h R"
    using assms Inr by (auto simp: appendDataRecord_def recorder_failure_def split: if_splits)
  ultimately show ?thesis using e by (simp del: length_record_bytes)
qed

lemma append_data:
  assumes inv: "recorder_inv digest R bs d" and bs: "bs \<noteq> []"
    and app: "appendDataRecord digest r h R = (Inr (Some r'), R')"
    and r: "rec_type r \<noteq> CommitRecord" "rec_type r \<noteq> BattleStartRecord" "record_sized r" "rec_identity r = fr_identity R"
      "rec_writer r = fr_writer R" "dataStateHash (jr_payload r) = Some h"
  shows "recorder_inv digest R' bs (d @ [r])" "r' = r"
proof -
  note p = recorder_parts[OF inv] and small = inv_small[OF inv]
  note a = append_result[OF app p(2)]
  show "r' = r" using a by simp
  have stream: "stream_ok (concat bs @ d @ [r])"
    using part_stream[OF p(3)] a p(1,2,7,8) r(2,4) stream_ok_snoc[of "concat bs @ d" r] by simp
  have tick: "d \<noteq> [] \<Longrightarrow> rec_tick r = rec_tick (hd d)" using a small(4) p(12) by auto
  have writer: "d \<noteq> [] \<Longrightarrow> rec_writer r = rec_writer (hd d)" using p(13)[of "hd d"] r(5) by simp
  have part: "journal_part bs (d @ [r])"
    using part_snoc[OF p(3) r(1)] stream tick writer p(14) r(5) bs by simp
  have records: "fr_records R' = concat bs @ d @ [r]" "fr_records R' = fr_records R @ [r]"
    using a p(1) by (simp_all add: extend_batch_def)
  have batch: "fr_batchFirst R' = rec_sequence (hd (d @ [r]))" "fr_batchTick R' = rec_tick (hd (d @ [r]))"
    using a p(11) small(5) tick by (auto simp: extend_batch_def)
  have size: "fr_encodedBytes R' = length (journal_bytes (fr_records R'))" "fr_encodedBytes R' \<le> maximumJournalBytes"
    using a p(5) by (simp_all add: extend_batch_def)
  have rest: "fr_next R' = of_nat (length (fr_records R') + 1)" "rec_identity (hd (fr_records R')) = fr_identity R'"
    "list_all (storable digest) (fr_records R')" "fr_batchCount R' = of_nat (length (d @ [r]))" "fr_batchHash R' = Some h"
    "fr_identity R' = fr_identity R" "fr_writer R' = fr_writer R"
    using a p(2,4,7,8,10) r(3) by (simp_all add: extend_batch_def storable_def)
  have "\<forall>x \<in> set (d @ [r]). rec_writer x = fr_writer R'" using p(13) r(5) rest(7) by simp
  then show "recorder_inv digest R' bs (d @ [r])"
    unfolding recorder_inv_def using records part batch size rest p(14) r(6) by simp
qed

text \<open>A commit closes the open batch; the first batch of a journal is the one that starts it.\<close>

lemma terminal_placed_iff:
  assumes "recorder_inv digest R bs d" "d \<noteq> []"
  shows "terminal_placed R \<longleftrightarrow> terminal_batch_valid d"
proof -
  note p = recorder_parts[OF assms(1)] and small = inv_small[OF assms(1)]
  have n: "length (fr_records R) = length (concat bs) + length d"
    "length (concat bs) + length d - unat (fr_batchCount R) = length (concat bs)" using p(1) small(3) by simp_all
  have nth: "fr_records R ! (length (concat bs) + i) = d ! i" for i using p(1) by (simp add: nth_append)
  have last: "last (fr_records R) = last d" using p(1) assms(2) by simp
  have range: "[length (concat bs)..<length (concat bs) + length d] = map (\<lambda>i. length (concat bs) + i) [0..<length d]"
    by (simp add: map_add_upt add.commute)
  show ?thesis
    unfolding terminal_placed_def terminal_batch_valid_def n last range list.pred_map comp_def nth by simp
qed

lemma commit_result:
  assumes "commitTick digest R = (Inr (Some r), R')"
  obtains hash where "fr_batchHash R = Some hash" "fr_batchCount R \<noteq> 0" "terminal_placed R" "r = commit_record R hash"
    "encodable digest r" "fr_encodedBytes R + length (record_bytes r) \<le> maximumJournalBytes"
    "R' = close_batch r (length (record_bytes r)) R"
proof -
  obtain hash e where h: "fr_batchHash R = Some hash" "encodeRecord digest (commit_record R hash) = Inr e" "fr_batchCount R \<noteq> 0"
    "terminal_placed R" "\<not> maximumJournalBytes - length e < fr_encodedBytes R" "r = commit_record R hash"
    "R' = close_batch (commit_record R hash) (length e) R"
    using assms by (auto simp: commitTick_def recorder_failure_def Let_def split: if_splits option.splits sum.splits)
  have "length e \<le> maximumJournalBytes" by (rule encoded_length[OF h(2)])
  then have "fr_encodedBytes R + length e \<le> maximumJournalBytes" using h(5) by simp
  then show thesis using that h unfolding encode_record_iff by blast
qed

lemma sized_hash: "record_sized x \<Longrightarrow> dataStateHash (jr_payload x) = Some h \<Longrightarrow> length h = 32"
  by (cases "jr_payload x") (auto simp: record_sized_def)

lemma commit_batch_closed:
  assumes inv: "recorder_inv digest R bs d" and first: "bs \<noteq> [] \<or> length d = 2"
    and com: "commitTick digest R = (Inr (Some r), R')"
  shows "recorder_inv digest R' (bs @ [d @ [r]]) []"
  using com
proof (rule commit_result)
  fix hash assume c: "fr_batchHash R = Some hash" "fr_batchCount R \<noteq> 0" "terminal_placed R" "r = commit_record R hash"
    "encodable digest r" "fr_encodedBytes R + length (record_bytes r) \<le> maximumJournalBytes"
    "R' = close_batch r (length (record_bytes r)) R"
  note p = recorder_parts[OF inv] and small = inv_small[OF inv]
  have d: "d \<noteq> []" using c(2) small(4) by simp
  have r: "rec_type r = CommitRecord" "rec_sequence r = fr_next R" "rec_identity r = fr_identity R" "rec_writer r = fr_writer R"
    "rec_tick r = fr_batchTick R"
    by (simp_all add: c(4) commit_record_def headerFor_def rec_identity_def fromLogicalTick_def split: prod.splits)
  have "last (fr_records R) \<in> set d" using p(1) d by simp
  moreover have "\<forall>x \<in> set d. rec_tick x = rec_tick (hd d)" using p(3) by (simp add: journal_part_def data_ok_def)
  ultimately have ticks: "rec_tick (last (fr_records R)) = rec_tick (hd d)" by blast
  have stream: "stream_ok (concat bs @ d @ [r])"
    using part_stream[OF p(3)] p(1,2,7,8) p(12)[OF d] r ticks stream_ok_snoc[of "concat bs @ d" r] by simp
  note seq = sequence_of[OF stream d]
  have "fr_next R - 1 = rec_sequence (last d)" using p(1,7) seq(2) by simp
  moreover have hash: "dataStateHash (jr_payload (last d)) = Some hash" using c(1) p(9) d by simp
  moreover have "terminal_batch_valid d" using c(3) terminal_placed_iff[OF inv d] by simp
  moreover have "rec_writer r = rec_writer (hd d)" "rec_tick r = rec_tick (hd d)" using r p(12)[OF d] p(13)[of "hd d"] d by simp_all
  ultimately have commits: "commits d r"
    unfolding commits_def using p(11)[OF d] small(3) c(4) by (simp add: commit_record_def)
  have law: "journal_law bs" "data_ok d" using p(3) by (simp_all add: journal_part_def)
  have "if bs = [] then first_batch_ok (d @ [r]) else batch_writer (last bs) \<le> batch_writer (d @ [r])"
    using first p(3,14) d p(13)[of "hd d"] by (auto simp: journal_part_def first_batch_ok_def nth_append)
  then have "journal_law (bs @ [d @ [r]])"
    using law_snoc[OF law(1), of "d @ [r]"] stream commits law d by (simp add: batch_ok_snoc)
  then have part: "journal_part (bs @ [d @ [r]]) []" by (simp add: journal_part_def data_ok_def journal_law_def)
  have records: "fr_records R' = concat (bs @ [d @ [r]])" "fr_records R' = fr_records R @ [r]"
    using p(1) by (simp_all add: c(7) close_batch_def)
  have "storable digest (last d)" using p(1,4) d by (simp add: list_all_iff)
  then have "length hash = 32" using sized_hash[OF _ hash] by (simp add: storable_def)
  then have "storable digest r" using c(5) by (simp add: storable_def c(4) record_sized_def commit_record_def)
  then have rest: "list_all (storable digest) (fr_records R')" "fr_next R' = of_nat (length (fr_records R') + 1)"
    "rec_identity (hd (fr_records R')) = fr_identity R'" "fr_writer R' = fr_writer R" "fr_batchHash R' = None" "fr_batchCount R' = 0"
    using p(2,4,7,8) by (simp_all add: c(7) close_batch_def)
  have size: "fr_encodedBytes R' = length (journal_bytes (fr_records R'))" "fr_encodedBytes R' \<le> maximumJournalBytes"
    using c(6) p(5) by (simp_all add: c(7) close_batch_def)
  have "batch_writer (d @ [r]) \<le> fr_writer R'" using d p(13)[of "hd d"] rest(4) by simp
  then show "recorder_inv digest R' (bs @ [d @ [r]]) []"
    unfolding recorder_inv_def using records part rest size p(2) by simp
qed

section \<open>Starting establishes the invariant\<close>

lemma encoded_size_sound:
  "encoded_size digest used rs = Some n \<Longrightarrow> used \<le> maximumJournalBytes \<Longrightarrow>
   list_all (encodable digest) rs \<and> n = used + length (journal_bytes rs) \<and> n \<le> maximumJournalBytes"
proof (induction rs arbitrary: used)
  case (Cons r rs)
  then obtain e where e: "encodeRecord digest r = Inr e" "\<not> maximumJournalBytes - length e < used"
    "encoded_size digest (used + length e) rs = Some n"
    by (auto split: sum.splits if_splits)
  have "used + length e \<le> maximumJournalBytes" using e(2) encoded_length[OF e(1)] by simp
  then show ?case using Cons.IH[OF e(3)] e(1) unfolding encode_record_iff by simp
qed simp

lemma hashed_length: "canonicalStateHash digest bs = Some h \<Longrightarrow> length h = 32"
  by (auto simp: canonicalStateHash_def split: option.splits if_splits)

lemma headerFor_fields [simp]:
  "jh_type (headerFor identity writer t sequence at) = t" "jh_sequence (headerFor identity writer t sequence at) = sequence"
  "jh_writer (headerFor identity writer t sequence at) = writer" "jh_tick (headerFor identity writer t sequence at) = bt_tick at"
  by (simp_all add: headerFor_def split: prod.splits)

lemma headerFor_identity [simp]:
  "rec_identity \<lparr>jr_header = headerFor identity writer t sequence at, jr_payload = p\<rparr> = identity"
  by (simp add: rec_identity_def headerFor_def split: prod.splits)

lemma started_inv:
  assumes "startRecorder digest b identity writer room = Some R"
  shows "recorder_inv digest R [] (fr_records R)" "length (fr_records R) = 2" "fr_identity R = identity" "fr_writer R = writer"
proof -
  define state where "state = deterministicState b"
  from assms obtain encoded hash participants used where s: "start_state identity state"
    "recoveryStateHash digest encoded = Some hash"
    "encoded_size digest 0 (start_records identity writer state encoded hash participants) = Some used"
    "R = \<lparr>fr_identity = identity, fr_writer = writer, fr_records = start_records identity writer state encoded hash participants,
       fr_batchHash = Some hash, fr_batchFirst = 1, fr_batchCount = 2, fr_batchTick = bt_tick (ws_time state), fr_next = 3,
       fr_terminal = False, fr_encodedBytes = used\<rparr>"
    unfolding state_def startRecorder_def Let_def by (auto split: if_splits sum.splits option.splits)
  note sound = encoded_size_sound[OF s(3)]
  have tick: "bt_tick (ws_time state) = 0" using s(1) by (simp add: start_state_def)
  have hash: "length hash = 32" using s(2) hashed_length by (simp add: recoveryStateHash_def)
  show "length (fr_records R) = 2" "fr_identity R = identity" "fr_writer R = writer" by (simp_all add: s(4) start_records_def)
  have "journal_part [] (fr_records R)"
    using tick by (simp add: s(4) start_records_def journal_part_def journal_law_def stream_ok_def data_ok_def initial_checkpoint_def
        fromLogicalTick_def less_2_cases_iff All_less_Suc2 numeral_2_eq_2)
  then show "recorder_inv digest R [] (fr_records R)"
    using sound tick hash
    by (simp add: recorder_inv_def s(4) start_records_def storable_def record_sized_def fromLogicalTick_def)
qed

section \<open>Every operation keeps the invariant\<close>

lemma hashed_state_hash: "hashed_state digest state room = Some (encoded, hash) \<Longrightarrow> length hash = 32"
  by (auto simp: hashed_state_def recoveryStateHash_def hashed_length split: sum.splits)

definition recorder_good :: "(bytes \<Rightarrow> bytes option) \<Rightarrow> flight_recorder \<Rightarrow> bool" where
  "recorder_good digest R \<longleftrightarrow> (\<exists>bs d. bs \<noteq> [] \<and> recorder_inv digest R bs d)"

text \<open>The recorder keeps its battle and its epoch, and its records only grow.\<close>

definition same_owner :: "flight_recorder \<Rightarrow> flight_recorder \<Rightarrow> bool" where
  "same_owner R' R \<longleftrightarrow> fr_identity R' = fr_identity R \<and> fr_writer R' = fr_writer R \<and> prefix (fr_records R) (fr_records R')"

lemma same_owner_refl [simp]: "same_owner R R"
  by (simp add: same_owner_def)

lemma same_owner_trans: "same_owner R2 R1 \<Longrightarrow> same_owner R1 R \<Longrightarrow> same_owner R2 R"
  by (auto simp: same_owner_def)

text \<open>A record of the recorder's own is appended or the recorder is as before.\<close>

lemma append_good:
  assumes "recorder_good digest R" "appendDataRecord digest \<lparr>jr_header = headerFor (fr_identity R) (fr_writer R) t sequence at,
      jr_payload = p\<rparr> h R = (a, R')"
    "t = payloadRecordType p" "t \<noteq> CommitRecord" "t \<noteq> BattleStartRecord" "payload_sized p" "dataStateHash p = Some h"
  shows "recorder_good digest R' \<and> same_owner R' R"
proof (cases "\<exists>r'. a = Inr (Some r')")
  case True
  then obtain r' where r': "a = Inr (Some r')" by blast
  obtain bs d where inv: "bs \<noteq> []" "recorder_inv digest R bs d" using assms(1) by (auto simp: recorder_good_def)
  note app = assms(2)[unfolded r']
  have "recorder_inv digest R' bs (d @ [\<lparr>jr_header = headerFor (fr_identity R) (fr_writer R) t sequence at, jr_payload = p\<rparr>])"
    by (rule append_data(1)[OF inv(2,1) app]) (use assms(3-7) in \<open>simp_all add: record_sized_def\<close>)
  moreover have "same_owner R' R"
    using append_result[OF app recorder_parts(2)[OF inv(2)]] by (simp add: extend_batch_def same_owner_def)
  ultimately show ?thesis using inv(1) by (auto simp: recorder_good_def)
next
  case False
  then have "R' = R" using assms(2)
    by (auto simp: appendDataRecord_def recorder_failure_def split: if_splits sum.splits)
  then show ?thesis using assms(1) by simp
qed

lemma command_good:
  assumes "recorder_good digest R" "appendCommand digest command before beforeRoom b afterRoom code outcome R = (a, R')"
  shows "recorder_good digest R' \<and> same_owner R' R"
proof (cases "R' = R")
  case False
  then obtain state encoded hash where h: "hashed_state digest state afterRoom = Some (encoded, hash)"
    "appendDataRecord digest (decision_record R command code state afterRoom hash) hash R = (a, R')"
    using assms(2) by (auto simp: appendCommand_def recorder_failure_def Let_def split: if_splits option.splits prod.splits)
  then show ?thesis
    using append_good[OF assms(1) h(2)[unfolded decision_record_def]] hashed_state_hash[OF h(1)]
    by (simp add: decision_of_def)
qed (use assms(1) in simp)

lemma checkpoint_good:
  assumes "recorder_good digest R" "appendCheckpoint digest b room R = (a, R')"
  shows "recorder_good digest R' \<and> same_owner R' R"
proof (cases "R' = R")
  case False
  then obtain state encoded hash where h: "hashed_state digest state room = Some (encoded, hash)"
    "appendDataRecord digest (checkpoint_record R state encoded hash) hash R = (a, R')"
    using assms(2) by (auto simp: appendCheckpoint_def recorder_failure_def Let_def split: if_splits option.splits prod.splits)
  then show ?thesis
    using append_good[OF assms(1) h(2)[unfolded checkpoint_record_def]] hashed_state_hash[OF h(1)] by simp
qed (use assms(1) in simp)

text \<open>The arrays of the receipts have a fixed size.\<close>

definition receipts_sized :: "bytes \<Rightarrow> settlement_receipt list \<Rightarrow> bool" where
  "receipts_sized batchId settlements \<longleftrightarrow> length batchId = 16 \<and>
     list_all (\<lambda>s. length (se_id s) = 16 \<and> length (se_payloadHash s) = 32) settlements"

lemma terminal_flag: "recorder_good digest (R\<lparr>fr_terminal := flag\<rparr>) \<longleftrightarrow> recorder_good digest R"
  by (simp add: recorder_good_def recorder_inv_def)

lemma terminal_good:
  assumes "recorder_good digest R" "appendTerminal digest reason b room unixMs batchId settlements R = (a, R')"
    "receipts_sized batchId settlements"
  shows "recorder_good digest R' \<and> same_owner R' R"
proof (cases "R' = R")
  case False
  then obtain state encoded result hash R1 where h:
    "canonicalRecoveryTerminalHash digest encoded (terminal_receipt reason state result unixMs batchId settlements) = Some hash"
    "appendDataRecord digest (terminal_record R state
       ((terminal_receipt reason state result unixMs batchId settlements)\<lparr>tr_finalHash := hash\<rparr>)) hash R = (a, R1)"
    "R' = R1 \<or> R' = R1\<lparr>fr_terminal := True\<rparr>"
    using assms(2) by (auto simp: appendTerminal_def recorder_failure_def Let_def
        split: if_splits option.splits sum.splits prod.splits)
  have "length hash = 32" using h(1) hashed_length by (auto simp: canonicalRecoveryTerminalHash_def split: sum.splits)
  then have "recorder_good digest R1 \<and> same_owner R1 R"
    using append_good[OF assms(1) h(2)[unfolded terminal_record_def]] assms(3)
    by (simp add: receipts_sized_def terminal_receipt_def)
  then show ?thesis using h(3) by (auto simp: same_owner_def terminal_flag)
qed (use assms(1) in simp)

lemma commit_good:
  assumes "recorder_good digest R" "commitTick digest R = (a, R')"
  shows "recorder_good digest R' \<and> same_owner R' R"
proof (cases "\<exists>r. a = Inr (Some r)")
  case True
  then obtain r where com: "commitTick digest R = (Inr (Some r), R')" using assms(2) by blast
  obtain bs d where inv: "bs \<noteq> []" "recorder_inv digest R bs d" using assms(1) by (auto simp: recorder_good_def)
  have "recorder_inv digest R' (bs @ [d @ [r]]) []" using commit_batch_closed[OF inv(2) _ com] inv(1) by blast
  moreover have "same_owner R' R" using com by (rule commit_result) (simp add: same_owner_def close_batch_def)
  ultimately show ?thesis by (auto simp: recorder_good_def)
next
  case False
  then have "R' = R" using assms(2) by (auto simp: commitTick_def recorder_failure_def Let_def split: if_splits option.splits sum.splits)
  then show ?thesis using assms(1) by simp
qed

section \<open>A recorder at work\<close>

text \<open>The barrier of a battle of two opens; the digest of the example is constant.\<close>

definition exampleDigest :: "bytes \<Rightarrow> bytes option" where
  "exampleDigest bs = Some (replicate 32 0)"

definition recordedIdentity :: battle_identity where
  "recordedIdentity = (1, RoomId 0x100000001, BattleInstanceId 1)"

definition recordedBattle :: battle where
  "recordedBattle = snd (openLoadBarrier (fromLogicalTick 0) (newBattle (exampleAdmission\<lparr>as_roomId := RoomId 0x100000001\<rparr>)))"

definition recordedRoom :: room_recovery where
  "recordedRoom = \<lparr>rr_roomId = RoomId 0x100000001, rr_capacity = 2, rr_host = 1, rr_members = [1, 2], rr_phase = 1, rr_nextOrdinal = 2\<rparr>"

definition recordedBytes :: bytes where
  "recordedBytes = put_recovery (putState (canonicalState (deterministicState recordedBattle))) (put_room recordedRoom)"

lemma recorded_valid:
  "validateState (canonicalState (deterministicState recordedBattle)) True = None" "validateRoomState recordedRoom = None"
  "ws_roomId (deterministicState recordedBattle) = rr_roomId recordedRoom"
  "\<not> ordinal_mismatch (ws_battleId (deterministicState recordedBattle)) recordedRoom"
  by code_simp+

lemma recorded_small: "length (putState (canonicalState (deterministicState recordedBattle))) \<le> 900" "length recordedBytes \<le> 1000"
  by code_simp+

lemma recorded_state: "validIdentity recordedIdentity" "start_state recordedIdentity (deterministicState recordedBattle)"
  "length (ws_candidates (deterministicState recordedBattle)) = 2" "ws_time (deterministicState recordedBattle) = fromLogicalTick 0"
  "start_participants 0 (ws_candidates (deterministicState recordedBattle)) =
     Some [\<lparr>sp_slot = 1, sp_sessionId = SessionId 1\<rparr>, \<lparr>sp_slot = 2, sp_sessionId = SessionId 2\<rparr>]"
  by code_simp+


lemma recorded_encodes: "encodeRecoveryState (deterministicState recordedBattle) recordedRoom = Inr recordedBytes"
proof -
  have "encodeBattleState (deterministicState recordedBattle) = Inr (putState (canonicalState (deterministicState recordedBattle)))"
    using recorded_valid(1) recorded_small(1) by (simp add: encodeBattleState_def Let_def maximumStateBytes_def)
  then show ?thesis
    using recorded_valid recorded_small(2)
    by (simp add: encodeRecoveryState_def encodeRoomRecoveryState_def recordedBytes_def Let_def maximumStateBytes_def)
qed

lemma encoded_size_complete:
  "list_all (encodable digest) rs \<Longrightarrow> used + length (journal_bytes rs) \<le> maximumJournalBytes \<Longrightarrow>
   encoded_size digest used rs = Some (used + length (journal_bytes rs))"
proof (induction rs arbitrary: used)
  case (Cons r rs)
  then have e: "encodeRecord digest r = Inr (record_bytes r)" by (simp add: encode_record_iff)
  have "\<not> maximumJournalBytes - length (record_bytes r) < used" using Cons.prems(2) by simp
  then show ?case using e Cons by (simp add: add.assoc del: length_record_bytes)
qed simp

abbreviation recordedHash :: bytes where
  "recordedHash \<equiv> replicate 32 0"

definition recordedRecords :: "journal_record list" where
  "recordedRecords = start_records recordedIdentity 1 (deterministicState recordedBattle) recordedBytes recordedHash
     [\<lparr>sp_slot = 1, sp_sessionId = SessionId 1\<rparr>, \<lparr>sp_slot = 2, sp_sessionId = SessionId 2\<rparr>]"

definition recordedStart :: flight_recorder where
  "recordedStart = \<lparr>fr_identity = recordedIdentity, fr_writer = 1, fr_records = recordedRecords, fr_batchHash = Some recordedHash,
     fr_batchFirst = 1, fr_batchCount = 2, fr_batchTick = 0, fr_next = 3, fr_terminal = False,
     fr_encodedBytes = length (journal_bytes recordedRecords)\<rparr>"

definition recordedCommit :: journal_record where
  "recordedCommit = commit_record recordedStart recordedHash"

lemma recorded_headers:
  "validateHeader (headerFor recordedIdentity 1 BattleStartRecord 1 (fromLogicalTick 0)) = None"
  "validateHeader (headerFor recordedIdentity 1 CheckpointRecord 2 (fromLogicalTick 0)) = None"
  "validateHeader (headerFor recordedIdentity 1 CommitRecord 3 (fromLogicalTick 0)) = None"
  by code_simp+

lemma example_hash: "canonicalStateHash exampleDigest bs = Some recordedHash"
  by (simp add: canonicalStateHash_def exampleDigest_def)

lemma recorded_start_valid: "ws_rulesetVersion (deterministicState recordedBattle) = 1" "ws_seed (deterministicState recordedBattle) = 14"
  by code_simp+

lemma recorded_encodable: "list_all (encodable exampleDigest) (recordedRecords @ [recordedCommit])"
proof -
  have "validatePayload exampleDigest (recordedRecords ! 0) = None" "length (encodePayload (jr_payload (recordedRecords ! 0))) \<le> 1100"
    using recorded_start_valid
    by (simp_all add: recordedRecords_def start_records_def validatePayload_def headerFor_def validateBattleStart_def recordedIdentity_def
        fromLogicalTick_def put_start_def put_start_participant_def put_list_def put_items_def put_word_def)
  moreover have "validatePayload exampleDigest (recordedRecords ! 1) = None" "length (encodePayload (jr_payload (recordedRecords ! 1))) \<le> 1100"
    using recorded_small(2)
    by (simp_all add: recordedRecords_def start_records_def validatePayload_def headerFor_def recordedIdentity_def
        validateCheckpoint_def example_hash put_checkpoint_def put_blob_def put_word_def)
  moreover have "validatePayload exampleDigest recordedCommit = None" "length (encodePayload (jr_payload recordedCommit)) \<le> 1100"
    by (simp_all add: recordedCommit_def commit_record_def recordedStart_def validatePayload_def headerFor_def recordedIdentity_def
        validateTickCommit_def put_commit_def put_word_def)
  moreover have "recordedRecords = [recordedRecords ! 0, recordedRecords ! 1]" by (simp add: recordedRecords_def start_records_def)
  moreover have "validateHeader (jr_header (recordedRecords ! 0)) = None" "validateHeader (jr_header (recordedRecords ! 1)) = None"
    "validateHeader (jr_header recordedCommit) = None"
    using recorded_headers recorded_state(4)
    by (simp_all add: recordedRecords_def start_records_def recordedCommit_def commit_record_def recordedStart_def)
  ultimately have "encodable exampleDigest (recordedRecords ! 0)" "encodable exampleDigest (recordedRecords ! 1)"
    "encodable exampleDigest recordedCommit"
    by (simp_all add: encodable_def)
  then have "list_all (encodable exampleDigest) [recordedRecords ! 0, recordedRecords ! 1, recordedCommit]" by simp
  moreover have "recordedRecords @ [recordedCommit] = [recordedRecords ! 0, recordedRecords ! 1, recordedCommit]"
    by (simp add: recordedRecords_def start_records_def)
  ultimately show ?thesis by metis
qed

lemma recorded_size: "length (journal_bytes (recordedRecords @ [recordedCommit])) \<le> 4000"
proof -
  have bounds: "length (record_bytes (recordedRecords ! 0)) \<le> 1300" "length (record_bytes (recordedRecords ! 1)) \<le> 1300"
    "length (record_bytes recordedCommit) \<le> 1300"
    using recorded_small(2)
    by (simp_all add: recordedRecords_def start_records_def recordedCommit_def commit_record_def put_start_def put_checkpoint_def
        put_commit_def put_start_participant_def put_list_def put_items_def put_word_def put_blob_def)
  have records: "recordedRecords @ [recordedCommit] = [recordedRecords ! 0, recordedRecords ! 1, recordedCommit]"
    by (simp add: recordedRecords_def start_records_def)
  have size: "length (journal_bytes [recordedRecords ! 0, recordedRecords ! 1, recordedCommit]) =
      length (record_bytes (recordedRecords ! 0)) + length (record_bytes (recordedRecords ! 1)) + length (record_bytes recordedCommit)"
    by (simp del: length_record_bytes)
  show ?thesis unfolding records size using bounds by linarith
qed

lemma recorded_starts: "startRecorder exampleDigest recordedBattle recordedIdentity 1 recordedRoom = Some recordedStart"
proof -
  have "encoded_size exampleDigest 0 recordedRecords = Some (length (journal_bytes recordedRecords))"
    using encoded_size_complete[of exampleDigest recordedRecords 0] recorded_encodable recorded_size
    by (simp add: maximumJournalBytes_def)
  then show ?thesis
    using recorded_state recorded_encodes
    by (simp add: startRecorder_def recoveryStateHash_def example_hash recordedStart_def recordedRecords_def fromLogicalTick_def Let_def)
qed

definition recordedRecorder :: flight_recorder where
  "recordedRecorder = close_batch recordedCommit (length (record_bytes recordedCommit)) recordedStart"

lemma recorded_commits: "commitTick exampleDigest recordedStart = (Inr (Some recordedCommit), recordedRecorder)"
proof -
  have "encodeRecord exampleDigest recordedCommit = Inr (record_bytes recordedCommit)"
    using recorded_encodable by (simp add: encode_record_iff)
  moreover have "\<not> maximumJournalBytes - length (record_bytes recordedCommit) < fr_encodedBytes recordedStart"
    using recorded_size by (simp add: recordedStart_def maximumJournalBytes_def)
  moreover have "terminal_placed recordedStart"
    by (simp add: terminal_placed_def recordedStart_def recordedRecords_def start_records_def upt_conv_Cons)
  moreover have "fr_batchHash recordedStart = Some recordedHash" "fr_batchCount recordedStart = 2" "fr_next recordedStart = 3"
    by (simp_all add: recordedStart_def)
  ultimately show ?thesis
    unfolding commitTick_def recordedCommit_def[symmetric] by (simp add: recordedCommit_def[symmetric] recordedRecorder_def)
qed

end
