(* ===== verification/BattleReplay.thy ===== *)
theory BattleReplay
  imports FlightRecorder BattleLoot
begin

text \<open>
  \<open>BattleReplayer\<close> of \<open>game-server/modules/battle-continuity/src/BattleReplay.cpp\<close>: the records of a
  committed journal are applied to a battle that is created from the start record and the first
  checkpoint. Every decision has to give the recorded code and state hash, every checkpoint the recorded
  bytes. The theory shows that a battle that the replay returns is reached by operations of the battle,
  that every checkpoint of the journal is a state of this run, and that restoring from the last checkpoint
  agrees with the full replay.
\<close>

section \<open>Results\<close>

datatype replay_code =
    EmptyJournal | ReplayCodecRejected | ReplayUnsupportedRuleset | InvalidStart | InitialCheckpointMissing
  | StateDecodeRejected | StateHashMismatch | ReplayInvalidCommand | UnknownCommandKind | CommandDecisionMismatch
  | NoMutationRecord | StateDivergence | CheckpointDivergence | TerminalReceiptMismatch | DuplicateTerminalReceipt

record replay_error =
  re_code :: replay_code
  re_recordIndex :: nat
  re_recordSequence :: u64
  re_logicalTick :: u64
  re_expectedHash :: "bytes option"
  re_actualHash :: "bytes option"
  re_identity :: "battle_identity option"
  re_rulesetVersion :: "u32 option"

type_synonym replay_result = "replay_error + battle \<times> bytes \<times> room_recovery"

definition replay_failure :: "replay_code \<Rightarrow> nat \<Rightarrow> u64 \<Rightarrow> u64 \<Rightarrow> bytes option \<Rightarrow> bytes option \<Rightarrow> battle_identity option \<Rightarrow>
  u32 option \<Rightarrow> replay_result" where
  "replay_failure code index sequence tick expected actual identity ruleset =
     Inl \<lparr>re_code = code, re_recordIndex = index, re_recordSequence = sequence, re_logicalTick = tick,
       re_expectedHash = expected, re_actualHash = actual, re_identity = identity, re_rulesetVersion = ruleset\<rparr>"

section \<open>Images\<close>

definition encodedState :: "battle \<Rightarrow> room_recovery \<Rightarrow> bytes option" where
  "encodedState b room = (case encodeRecoveryState (deterministicState b) room of Inl _ \<Rightarrow> None | Inr bs \<Rightarrow> Some bs)"

definition stateHash :: "(bytes \<Rightarrow> bytes option) \<Rightarrow> battle \<Rightarrow> room_recovery \<Rightarrow> bytes option" where
  "stateHash digest b room =
     (case encodeRecoveryState (deterministicState b) room of Inl _ \<Rightarrow> None | Inr bs \<Rightarrow> recoveryStateHash digest bs)"

definition settlementSlotsMatch :: "terminal_payload \<Rightarrow> wire_state \<Rightarrow> bool" where
  "settlementSlotsMatch t state \<longleftrightarrow> unat (tr_intentCount t) = length (tr_settlements t) \<and>
     settlement_slots (length (ws_candidates state)) 0 (tr_settlements t)"

section \<open>Applying a command\<close>

text \<open>The session of a slot: a participant's or, before the barrier opens, a candidate's.\<close>

definition replay_session :: "battle \<Rightarrow> u16 \<Rightarrow> session_id option" where
  "replay_session b slot =
     (let state = deterministicState b in
      case find (\<lambda>p. wp_slot p = slot) (ws_participants state) of
        Some p \<Rightarrow> Some (wp_sessionId p)
      | None \<Rightarrow> map_option wc_sessionId (find (\<lambda>c. wc_slot c = slot) (ws_candidates state)))"

text \<open>The result codes are numbered in the order of their declarations.\<close>

fun load_result_code :: "load_code \<Rightarrow> u16" where
  "load_result_code LoadOk = 0" | "load_result_code LoadInvalidArgument = 1" | "load_result_code LoadRoomNotFound = 2"
| "load_result_code LoadRoomNotOpen = 3" | "load_result_code LoadNotInRoom = 4" | "load_result_code LoadNotHost = 5"
| "load_result_code LoadNotEnoughPlayers = 6" | "load_result_code LoadNotAllReady = 7"
| "load_result_code LoadStartGateClosed = 8" | "load_result_code LoadStaleSession = 9"
| "load_result_code LoadStaleBattle = 10" | "load_result_code LoadNotEligible = 11" | "load_result_code LoadOverloaded = 12"

fun input_result_code :: "input_code \<Rightarrow> u16" where
  "input_result_code InputOk = 0" | "input_result_code InputStaleSession = 1" | "input_result_code InputStaleBattle = 2"
| "input_result_code InputNotEligible = 3"

fun move_result_code :: "move_code \<Rightarrow> u16" where
  "move_result_code MoveOk = 0" | "move_result_code MoveInvalidArgument = 1" | "move_result_code MoveStaleSession = 2"
| "move_result_code MoveStaleBattle = 3" | "move_result_code MoveNotEligible = 4" | "move_result_code StaleAction = 5"
| "move_result_code StaleTick = 6" | "move_result_code MoveRateLimited = 7"

fun combat_deadline_result_code :: "combat_deadline_code \<Rightarrow> u16" where
  "combat_deadline_result_code CombatDeadlineOk = 0" | "combat_deadline_result_code CombatDeadlineNotEligible = 1"
| "combat_deadline_result_code CombatDeadlineStaleBattle = 2" | "combat_deadline_result_code CombatTerminalAlreadyDecided = 3"

fun loot_deadline_result_code :: "loot_deadline_code \<Rightarrow> u16" where
  "loot_deadline_result_code LootDeadlineOk = 0" | "loot_deadline_result_code LootDeadlineNotEligible = 1"
| "loot_deadline_result_code LootDeadlineStaleBattle = 2" | "loot_deadline_result_code LootResolutionClosed = 3"

abbreviation replayGeneration :: session_generation where
  "replayGeneration \<equiv> SessionGeneration 1"

text \<open>The dispatch of a decoded command with the session that was found for its participant (if it has one).\<close>

definition dispatch ::
  "battle_identity \<Rightarrow> battle_time \<Rightarrow> record_command \<Rightarrow> session_id \<Rightarrow> decoded_command \<Rightarrow> battle \<Rightarrow> (u16 \<times> battle) option" where
  "dispatch identity at i s d b =
     (let roomId = fst (snd identity); battleId = snd (snd identity);
          load = \<lparr>lc_sessionId = s, lc_generation = replayGeneration, lc_roomId = roomId, lc_battleId = battleId\<rparr>;
          commandId = CommandId (rc_high i) (rc_low i)
      in case dc_kind d of
        KindArenaLoadComplete \<Rightarrow> Some (map_prod load_result_code id (completeLoad load True at b))
      | KindSuspendInput \<Rightarrow> Some (map_prod input_result_code id (suspendInput s replayGeneration at b))
      | KindResumeInput \<Rightarrow> Some (map_prod input_result_code id (resumeInput s replayGeneration at b))
      | KindParticipantExit \<Rightarrow>
          Some (map_prod load_result_code id (if dc_voluntary d then leaveBattle load at b else disconnectCandidate load at b))
      | KindLoadBarrierDeadline \<Rightarrow> Some (map_prod load_result_code id (expireLoadBarrier roomId battleId at b))
      | KindMove \<Rightarrow>
          Some (map_prod move_result_code id
            (acceptMove \<lparr>mc_sessionId = s, mc_generation = replayGeneration, mc_battleId = battleId,
               mc_actionSequence = dc_actionSequence d, mc_desiredX = di_desiredX (dc_direction d),
               mc_desiredY = di_desiredY (dc_direction d), mc_inputFlags = di_inputFlags (dc_direction d)\<rparr> at b))
      | KindMovementTick \<Rightarrow>
          (let (result, b') = integrateMovement battleId (dc_serverTick d) at b in
           if result = MoveOk \<and> dc_serverTick d mod 2 = 0
           then (case captureStateSnapshot b' of
                   (None, _) \<Rightarrow> None
                 | (Some _, b'') \<Rightarrow> Some (move_result_code result, b''))
           else Some (move_result_code result, b'))
      | KindAttack \<Rightarrow>
          map_option (map_prod (\<lambda>(result, _). attack_result_code (ar_code result)) id)
            (attackWithApplied \<lparr>cm_commandId = commandId, cm_sessionId = s, cm_generation = replayGeneration,
               cm_battleId = battleId, cm_hint = dc_targetHint d\<rparr> at b)
      | KindCombatDeadline \<Rightarrow> Some (map_prod combat_deadline_result_code id (expireCombat battleId at b))
      | KindClaimLoot \<Rightarrow>
          map_option (map_prod (\<lambda>result. claim_result_code (cr_code result)) id)
            (claimLoot \<lparr>cm_commandId = commandId, cm_sessionId = s, cm_generation = replayGeneration,
               cm_battleId = battleId, cm_hint = DropId (dc_dropId d)\<rparr> at b)
      | KindLootDeadline \<Rightarrow> Some (map_prod loot_deadline_result_code id (expireLoot battleId at b)))"

definition applyCommand ::
  "battle_identity \<Rightarrow> journal_record \<Rightarrow> decision_payload \<Rightarrow> decoded_command \<Rightarrow> battle \<Rightarrow> (u16 \<times> battle) option" where
  "applyCommand identity r p d b =
     (let at = \<lparr>bt_tick = rec_tick r, bt_nanos = jh_elapsed (jr_header r)\<rparr>;
          slot = (if dc_target d \<noteq> 0 then dc_target d else cd_slot p);
          session = (if slot \<noteq> 0 then replay_session b slot else Some (SessionId 0))
      in if \<not> time_valid at then None
         else case session of None \<Rightarrow> None | Some s \<Rightarrow> dispatch identity at (cd_commandId p) s d b)"

section \<open>Creating the battle\<close>

text \<open>The journal holds no accounts and no names: the replay makes them up from the slots.\<close>

definition replay_candidate :: "start_participant \<Rightarrow> start_candidate" where
  "replay_candidate p =
     \<lparr>sc_accountId = AccountId (0x52 # replicate 13 0 @ [ucast (drop_bit 8 (sp_slot p)), ucast (sp_slot p)]),
       sc_sessionId = sp_sessionId p, sc_generation = replayGeneration,
       sc_nickname = [0x72, 0x65, 0x70, 0x6C, 0x61, 0x79]\<rparr>"

definition replay_admission :: "battle_identity \<Rightarrow> start_payload \<Rightarrow> admission_snapshot" where
  "replay_admission identity start =
     \<lparr>as_roomId = fst (snd identity), as_battleId = snd (snd identity),
       as_candidates = map replay_candidate (bs_participants start), as_rulesetVersion = bs_rulesetVersion start,
       as_seed = bs_seed start\<rparr>"

definition createReplayBattle :: "battle_identity \<Rightarrow> start_payload \<Rightarrow> wire_state \<Rightarrow> battle option" where
  "createReplayBattle identity start state =
     (case createBattle (replay_admission identity start) of
        Inl _ \<Rightarrow> None
      | Inr created \<Rightarrow> (case importState created (image_of state) of Inl _ \<Rightarrow> None | Inr b \<Rightarrow> Some b))"

section \<open>One record\<close>

record replay_state =
  rp_battle :: battle
  rp_room :: room_recovery
  rp_terminal :: bool

type_synonym step_failure = "replay_code \<times> bytes option \<times> bytes option"

text \<open>The hashes before and after an applied decision.\<close>

definition decision_outcome :: "decision_payload \<Rightarrow> bytes option \<Rightarrow> bytes option \<Rightarrow> step_failure option" where
  "decision_outcome p before actual =
     (case (before, actual) of
        (Some h, Some h') \<Rightarrow>
          if h = h' then Some (NoMutationRecord, Some (cd_postHash p), actual)
          else if h' \<noteq> cd_postHash p then Some (StateDivergence, Some (cd_postHash p), actual)
          else None
      | _ \<Rightarrow> Some (StateHashMismatch, Some (cd_postHash p), actual))"

text \<open>A decision; the full replay also compares the room of the state with that of the record.\<close>

definition replay_decision ::
  "(bytes \<Rightarrow> bytes option) \<Rightarrow> bool \<Rightarrow> battle_identity \<Rightarrow> journal_record \<Rightarrow> decision_payload \<Rightarrow> replay_state \<Rightarrow>
   step_failure + replay_state" where
  "replay_decision digest full identity r p st =
     (if known_kind (cd_kind p) = None then Inl (UnknownCommandKind, None, None)
      else case decodeCommand p (rec_sequence r) of
        None \<Rightarrow> Inl (ReplayInvalidCommand, None, None)
      | Some d \<Rightarrow>
     (case applyCommand identity r p d (rp_battle st) of
        None \<Rightarrow> Inl (CommandDecisionMismatch, None, None)
      | Some (decision, b) \<Rightarrow>
     if decision \<noteq> cd_code p then Inl (CommandDecisionMismatch, None, None)
     else (case decodeRoomRecoveryState (cd_roomState p) of
        Inl _ \<Rightarrow> Inl (StateDecodeRejected, None, None)
      | Inr room \<Rightarrow>
     if full \<and> ws_roomId (deterministicState b) \<noteq> rr_roomId room then Inl (StateDivergence, None, None)
     else (case decision_outcome p (stateHash digest (rp_battle st) (rp_room st)) (stateHash digest b room) of
        Some e \<Rightarrow> Inl e
      | None \<Rightarrow> Inr (st\<lparr>rp_battle := b, rp_room := room\<rparr>)))))"

definition same_time :: "wire_state \<Rightarrow> journal_record \<Rightarrow> bool" where
  "same_time state r \<longleftrightarrow> bt_tick (ws_time state) = rec_tick r \<and> bt_nanos (ws_time state) = jh_elapsed (jr_header r)"

definition replay_checkpoint ::
  "(bytes \<Rightarrow> bytes option) \<Rightarrow> journal_record \<Rightarrow> checkpoint_payload \<Rightarrow> replay_state \<Rightarrow> step_failure + replay_state" where
  "replay_checkpoint digest r k st =
     (case decodeRecoveryState (ck_state k) of
        Inl _ \<Rightarrow> Inl (StateDecodeRejected, None, None)
      | Inr (_, room) \<Rightarrow>
          let actualHash = stateHash digest (rp_battle st) (rp_room st) in
          if actualHash \<noteq> Some (ck_hash k) \<or> encodedState (rp_battle st) (rp_room st) \<noteq> Some (ck_state k) \<or>
             \<not> same_time (deterministicState (rp_battle st)) r
          then Inl (CheckpointDivergence, Some (ck_hash k), actualHash)
          else Inr (st\<lparr>rp_room := room\<rparr>))"

definition terminal_agrees :: "terminal_payload \<Rightarrow> wire_state \<Rightarrow> bool" where
  "terminal_agrees t state \<longleftrightarrow>
     (case ws_committedResult state of
        None \<Rightarrow> False
      | Some committed \<Rightarrow> encodeCanonicalBattleResult committed = Inr (tr_result t))"

definition replay_terminal ::
  "(bytes \<Rightarrow> bytes option) \<Rightarrow> journal_record \<Rightarrow> terminal_payload \<Rightarrow> replay_state \<Rightarrow> step_failure + replay_state" where
  "replay_terminal digest r t st =
     (if rp_terminal st then Inl (DuplicateTerminalReceipt, None, None)
      else let state = deterministicState (rp_battle st);
               terminalHash = (case encodedState (rp_battle st) (rp_room st) of
                 None \<Rightarrow> None | Some bs \<Rightarrow> canonicalRecoveryTerminalHash digest bs t)
           in if stateHash digest (rp_battle st) (rp_room st) = None \<or> \<not> same_time state r \<or>
                 \<not> settlementSlotsMatch t state \<or> terminalHash \<noteq> Some (tr_finalHash t) \<or> \<not> terminal_agrees t state
              then Inl (TerminalReceiptMismatch, Some (tr_finalHash t), terminalHash)
              else Inr (st\<lparr>rp_terminal := True\<rparr>))"

definition replay_record ::
  "(bytes \<Rightarrow> bytes option) \<Rightarrow> battle_identity \<Rightarrow> journal_record \<Rightarrow> replay_state \<Rightarrow> step_failure + replay_state" where
  "replay_record digest identity r st =
     (if rec_identity r \<noteq> identity then Inl (InvalidStart, None, None)
      else case jr_payload r of
        DecisionPayload p \<Rightarrow> replay_decision digest True identity r p st
      | CheckpointPayload k \<Rightarrow> replay_checkpoint digest r k st
      | TerminalPayload t \<Rightarrow> replay_terminal digest r t st
      | _ \<Rightarrow> Inr st)"

section \<open>The replay\<close>

text \<open>The steps over the records, with the index and the record of a failure.\<close>

fun replay_loop ::
  "(journal_record \<Rightarrow> replay_state \<Rightarrow> step_failure + replay_state) \<Rightarrow> nat \<Rightarrow> journal_record list \<Rightarrow> replay_state \<Rightarrow>
   (nat \<times> journal_record \<times> step_failure) + replay_state" where
  "replay_loop step index [] st = Inr st"
| "replay_loop step index (r # rs) st =
     (case step r st of
        Inl e \<Rightarrow> Inl (index, r, e)
      | Inr st' \<Rightarrow> replay_loop step (index + 1) rs st')"

text \<open>A failure after the start: \<open>failAfterStart\<close>.\<close>

definition fail_after_start :: "battle_identity \<Rightarrow> start_payload \<Rightarrow> nat \<times> journal_record \<times> step_failure \<Rightarrow> replay_result" where
  "fail_after_start identity start = (\<lambda>(index, r, code, expected, actual).
     replay_failure code index (rec_sequence r) (rec_tick r) expected actual (Some identity) (Some (bs_rulesetVersion start)))"

definition start_valid :: "start_payload \<Rightarrow> checkpoint_payload \<Rightarrow> bool" where
  "start_valid start k \<longleftrightarrow> 2 \<le> length (bs_participants start) \<and> length (bs_participants start) \<le> 10 \<and>
     bs_initialHash start = ck_hash k \<and> bs_rulesetVersion start = 1 \<and> bs_seed start \<noteq> 0"

definition initial_state_matches :: "battle_identity \<Rightarrow> start_payload \<Rightarrow> journal_record \<Rightarrow> wire_state \<Rightarrow> bool" where
  "initial_state_matches identity start r1 state \<longleftrightarrow>
     ws_roomId state = fst (snd identity) \<and> ws_battleId state = snd (snd identity) \<and>
     ws_rulesetVersion state = bs_rulesetVersion start \<and> ws_seed state = bs_seed start \<and>
     bt_tick (ws_time state) = rec_tick r1 \<and> rec_tick r1 = 0"

definition replay_from_start ::
  "(bytes \<Rightarrow> bytes option) \<Rightarrow> journal_record list \<Rightarrow> start_payload \<Rightarrow> checkpoint_payload \<Rightarrow> replay_result" where
  "replay_from_start digest records start k =
     (let r0 = records ! 0; r1 = records ! 1; identity = rec_identity r0; ruleset = Some (bs_rulesetVersion start) in
      if \<not> start_valid start k
      then replay_failure InvalidStart 0 (rec_sequence r0) (rec_tick r0) None None None None
      else case decodeRecoveryState (ck_state k) of
        Inl _ \<Rightarrow> replay_failure StateDecodeRejected 1 (rec_sequence r1) (rec_tick r1) None None (Some identity) ruleset
      | Inr (state, room) \<Rightarrow>
     let initialHash = recoveryStateHash digest (ck_state k) in
     if initialHash \<noteq> Some (ck_hash k)
     then replay_failure StateHashMismatch 1 (rec_sequence r1) (rec_tick r1) (Some (ck_hash k)) initialHash (Some identity) ruleset
     else if \<not> initial_state_matches identity start r1 state
     then replay_failure InvalidStart 1 (rec_sequence r1) (rec_tick r1) None None (Some identity) ruleset
     else (case createReplayBattle identity start state of
        None \<Rightarrow> replay_failure InvalidStart 0 (rec_sequence r0) (rec_tick r0) None None (Some identity) ruleset
      | Some b \<Rightarrow>
     let importedHash = stateHash digest b room in
     if importedHash \<noteq> Some (ck_hash k)
     then replay_failure StateHashMismatch 1 (rec_sequence r1) (rec_tick r1) (Some (ck_hash k)) importedHash (Some identity) ruleset
     else (case replay_loop (replay_record digest identity) 2 (drop 2 records)
                  \<lparr>rp_battle = b, rp_room = room, rp_terminal = False\<rparr> of
        Inl e \<Rightarrow> fail_after_start identity start e
      | Inr st \<Rightarrow>
          (case stateHash digest (rp_battle st) (rp_room st) of
             None \<Rightarrow> fail_after_start identity start (length records - 1, last records, StateHashMismatch, None, None)
           | Some h \<Rightarrow> Inr (rp_battle st, h, rp_room st)))))"

definition replayDecoded :: "(bytes \<Rightarrow> bytes option) \<Rightarrow> journal_record list \<Rightarrow> replay_result" where
  "replayDecoded digest records =
     (if records = [] then replay_failure EmptyJournal 0 0 0 None None None None
      else case jr_payload (records ! 0) of
        StartPayload start \<Rightarrow>
          (if length records < 2
           then replay_failure InitialCheckpointMissing 1 (rec_sequence (records ! 0)) (rec_tick (records ! 0)) None None None None
           else case jr_payload (records ! 1) of
             CheckpointPayload k \<Rightarrow> replay_from_start digest records start k
           | _ \<Rightarrow> replay_failure InitialCheckpointMissing 1 (rec_sequence (records ! 0)) (rec_tick (records ! 0)) None None None None)
      | _ \<Rightarrow> replay_failure InvalidStart 0 (rec_sequence (records ! 0)) (rec_tick (records ! 0)) None None None None)"

definition journal_failure :: "record_error \<times> nat \<Rightarrow> replay_result" where
  "journal_failure e = replay_failure
     (if fst e = RecordUnsupportedRuleset then ReplayUnsupportedRuleset else ReplayCodecRejected) 0 0 0 None None None None"

definition replayJournal :: "(bytes \<Rightarrow> bytes option) \<Rightarrow> bytes \<Rightarrow> replay_result" where
  "replayJournal digest journal =
     (let decoded = decodeJournal digest journal in
      case jo_error decoded of
        Some e \<Rightarrow> journal_failure e
      | None \<Rightarrow> replayDecoded digest (jo_records decoded))"

definition record_refused :: "(bytes \<Rightarrow> bytes option) \<Rightarrow> journal_record \<Rightarrow> bool" where
  "record_refused digest r = (case encodeRecord digest r of Inl _ \<Rightarrow> True | Inr _ \<Rightarrow> False)"

definition replayRecords :: "(bytes \<Rightarrow> bytes option) \<Rightarrow> journal_record list \<Rightarrow> replay_result" where
  "replayRecords digest records =
     (case find (record_refused digest) records of
        Some r \<Rightarrow> replay_failure ReplayCodecRejected 0 (rec_sequence r) (rec_tick r) None None None None
      | None \<Rightarrow> replayJournal digest (concat (map (\<lambda>r. projr (encodeRecord digest r)) records)))"

section \<open>Restoring from the last checkpoint\<close>

definition last_checkpoint :: "journal_record list \<Rightarrow> nat option" where
  "last_checkpoint records =
     (let found = filter (\<lambda>index. rec_type (records ! index) = CheckpointRecord) [0..<length records]
      in if found = [] then None else Some (last found))"

text \<open>Only decisions are applied after the checkpoint.\<close>

definition restore_record ::
  "(bytes \<Rightarrow> bytes option) \<Rightarrow> battle_identity \<Rightarrow> journal_record \<Rightarrow> replay_state \<Rightarrow> step_failure + replay_state" where
  "restore_record digest identity r st =
     (case jr_payload r of
        DecisionPayload p \<Rightarrow> replay_decision digest False identity r p st
      | _ \<Rightarrow> Inr st)"

definition restore_from ::
  "(bytes \<Rightarrow> bytes option) \<Rightarrow> bytes \<Rightarrow> journal_record list \<Rightarrow> start_payload \<Rightarrow> nat \<Rightarrow> checkpoint_payload \<Rightarrow> replay_result" where
  "restore_from digest fullHash records start index k =
     (let r = records ! index; identity = rec_identity (records ! 0); ruleset = Some (bs_rulesetVersion start);
          failure = (\<lambda>code expected actual.
            replay_failure code index (rec_sequence r) (rec_tick r) expected actual (Some identity) ruleset) in
      case decodeRecoveryState (ck_state k) of
        Inl _ \<Rightarrow> failure StateDecodeRejected None None
      | Inr (state, room) \<Rightarrow>
     let checkpointHash = recoveryStateHash digest (ck_state k) in
     if checkpointHash \<noteq> Some (ck_hash k) \<or> \<not> same_time state r
     then failure CheckpointDivergence (Some (ck_hash k)) checkpointHash
     else (case createReplayBattle identity start state of
        None \<Rightarrow> failure StateDecodeRejected None None
      | Some b \<Rightarrow>
     let importedHash = stateHash digest b room in
     if importedHash \<noteq> Some (ck_hash k) then failure CheckpointDivergence (Some (ck_hash k)) importedHash
     else (case replay_loop (restore_record digest identity) (index + 1) (drop (index + 1) records)
                  \<lparr>rp_battle = b, rp_room = room, rp_terminal = False\<rparr> of
        Inl e \<Rightarrow> fail_after_start identity start e
      | Inr st \<Rightarrow>
          let restoredHash = stateHash digest (rp_battle st) (rp_room st) in
          if restoredHash \<noteq> Some fullHash
          then fail_after_start identity start (length records - 1, last records, StateDivergence, Some fullHash, restoredHash)
          else Inr (rp_battle st, fullHash, rp_room st))))"

text \<open>After a full replay the first record starts the battle and there is a checkpoint; the other branches of the
  payload cannot be reached.\<close>

definition restoreJournal :: "(bytes \<Rightarrow> bytes option) \<Rightarrow> bytes \<Rightarrow> replay_result" where
  "restoreJournal digest journal =
     (case replayJournal digest journal of
        Inl e \<Rightarrow> Inl e
      | Inr (_, fullHash, _) \<Rightarrow>
          let decoded = decodeJournal digest journal; records = jo_records decoded in
          (case jo_error decoded of
             Some e \<Rightarrow> journal_failure e
           | None \<Rightarrow>
          if records = [] then replay_failure EmptyJournal 0 0 0 None None None None
          else (case last_checkpoint records of
             None \<Rightarrow> replay_failure InitialCheckpointMissing 1 (rec_sequence (hd records)) (rec_tick (hd records)) None None None None
           | Some index \<Rightarrow>
               (case (jr_payload (hd records), jr_payload (records ! index)) of
                  (StartPayload start, CheckpointPayload k) \<Rightarrow> restore_from digest fullHash records start index k
                | _ \<Rightarrow> replay_failure InvalidStart 0 0 0 None None None None))))"

section \<open>The loop\<close>

lemma loop_append:
  "replay_loop step index (xs @ ys) st =
     (case replay_loop step index xs st of Inl e \<Rightarrow> Inl e | Inr st' \<Rightarrow> replay_loop step (index + length xs) ys st')"
proof (induction xs arbitrary: index st)
  case (Cons x xs)
  show ?case by (cases "step x st") (auto simp: Cons.IH split: sum.splits)
qed simp

lemma loop_induct:
  assumes "replay_loop step index rs st = Inr st'" "P st" "\<And>r s s'. r \<in> set rs \<Longrightarrow> P s \<Longrightarrow> step r s = Inr s' \<Longrightarrow> P s'"
  shows "P st'"
  using assms
proof (induction rs arbitrary: index st)
  case (Cons r rs)
  then obtain s where s: "step r st = Inr s" "replay_loop step (index + 1) rs s = Inr st'" by (auto split: sum.splits)
  have "P s" using Cons.prems(2,3) s(1) by auto
  then show ?case using Cons.IH[OF s(2)] Cons.prems(3) by auto
qed simp

section \<open>The replay is a run of the battle\<close>

definition runs_to :: "battle \<Rightarrow> battle \<Rightarrow> bool" where
  "runs_to b b' \<longleftrightarrow> (\<exists>ops. battle_run ops b = Some b')"

lemma runs_refl: "runs_to b b"
  unfolding runs_to_def by (intro exI[of _ "[]"]) simp

lemma battle_run_append:
  "battle_run (xs @ ys) b = (case battle_run xs b of None \<Rightarrow> None | Some b' \<Rightarrow> battle_run ys b')"
  by (induction xs arbitrary: b) (auto split: option.splits)

lemma runs_trans: "runs_to a b \<Longrightarrow> runs_to b c \<Longrightarrow> runs_to a c"
  unfolding runs_to_def
proof (elim exE)
  fix xs ys assume "battle_run xs a = Some b" "battle_run ys b = Some c"
  then show "\<exists>ops. battle_run ops a = Some c" by (intro exI[of _ "xs @ ys"]) (simp add: battle_run_append)
qed

lemma runs_step: "battle_step op b = Some b' \<Longrightarrow> runs_to b b'"
  unfolding runs_to_def by (intro exI[of _ "[op]"]) simp

lemma runs_snd:
  "runs_to b (snd (completeLoad load True at b))" "runs_to b (snd (suspendInput s g at b))" "runs_to b (snd (resumeInput s g at b))"
  "runs_to b (snd (leaveBattle load at b))" "runs_to b (snd (disconnectCandidate load at b))"
  "runs_to b (snd (expireLoadBarrier room battle at b))" "runs_to b (snd (acceptMove mv at b))"
  "runs_to b (snd (integrateMovement battle tick at b))" "runs_to b (snd (captureStateSnapshot b))"
  "runs_to b (snd (expireCombat battle at b))" "runs_to b (snd (expireLoot battle at b))"
  by (rule runs_step[of "CompleteLoad load True at"] runs_step[of "SuspendInput s g at"] runs_step[of "ResumeInput s g at"]
      runs_step[of "LeaveParticipant load at"] runs_step[of "DisconnectParticipant load at"] runs_step[of "ExpireBarrier room battle at"]
      runs_step[of "Move mv at"] runs_step[of "Integrate battle tick at"] runs_step[of Snapshot]
      runs_step[of "ExpireCombat battle at"] runs_step[of "ExpireLoot battle at"], simp)+

lemma dispatch_runs:
  assumes "dispatch identity at i s d b = Some (code, b')"
  shows "runs_to b b'"
proof (cases "dc_kind d")
  case KindMovementTick
  obtain result b1 where b1: "integrateMovement (snd (snd identity)) (dc_serverTick d) at b = (result, b1)" by (cases "integrateMovement (snd (snd identity)) (dc_serverTick d) at b")
  have one: "runs_to b b1" using runs_snd(8)[of b "snd (snd identity)" "dc_serverTick d" at] b1 by simp
  show ?thesis
  proof (cases "b' = b1")
    case False
    then have "b' = snd (captureStateSnapshot b1)"
      using assms KindMovementTick b1 by (auto simp: dispatch_def Let_def split: if_splits option.splits prod.splits)
    then show ?thesis using runs_trans[OF one] runs_snd(9)[of b1] by simp
  qed (use one in simp)
next
  case KindAttack
  then obtain c where "map_option snd (attackWithApplied c at b) = Some b'" using assms by (auto simp: dispatch_def Let_def)
  then show ?thesis by (intro runs_step[of "Attack c at"]) simp
next
  case KindClaimLoot
  then obtain c where "map_option snd (claimLoot c at b) = Some b'" using assms by (auto simp: dispatch_def Let_def)
  then show ?thesis by (intro runs_step[of "Claim c at"]) simp
qed (use assms in \<open>auto simp: dispatch_def Let_def map_prod_def case_prod_beta split: if_splits intro: runs_snd\<close>)

lemma apply_runs: "applyCommand identity r p d b = Some (code, b') \<Longrightarrow> runs_to b b'"
  by (auto simp: applyCommand_def Let_def split: if_splits option.splits dest: dispatch_runs)

lemma decision_outcome_None:
  "decision_outcome p before actual = None \<longleftrightarrow> actual = Some (cd_postHash p) \<and> (\<exists>h. before = Some h \<and> h \<noteq> cd_postHash p)"
  by (auto simp: decision_outcome_def split: option.splits)

text \<open>What an accepted decision does.\<close>

lemma decision_result:
  assumes "replay_decision digest full identity r p st = Inr st'"
  shows "\<exists>b room. st' = st\<lparr>rp_battle := b, rp_room := room\<rparr> \<and> runs_to (rp_battle st) b \<and>
    decodeRoomRecoveryState (cd_roomState p) = Inr room \<and> stateHash digest b room = Some (cd_postHash p)"
proof -
  obtain d b room where d: "applyCommand identity r p d (rp_battle st) = Some (cd_code p, b)"
    "decodeRoomRecoveryState (cd_roomState p) = Inr room" "st' = st\<lparr>rp_battle := b, rp_room := room\<rparr>"
    "stateHash digest b room = Some (cd_postHash p)"
    using assms by (auto simp: replay_decision_def decision_outcome_None split: if_splits option.splits sum.splits)
  then show ?thesis using apply_runs[OF d(1)] by blast
qed

lemma record_runs:
  assumes "replay_record digest identity r st = Inr st'"
  shows "runs_to (rp_battle st) (rp_battle st')"
proof (cases "jr_payload r")
  case (DecisionPayload p)
  then have "replay_decision digest True identity r p st = Inr st'" using assms by (simp add: replay_record_def split: if_splits)
  then show ?thesis using decision_result by fastforce
qed (use assms in \<open>auto simp: replay_record_def replay_checkpoint_def replay_terminal_def Let_def runs_refl split: if_splits sum.splits\<close>)

lemma loop_runs:
  assumes "replay_loop (replay_record digest identity) index rs st = Inr st'"
  shows "runs_to (rp_battle st) (rp_battle st')"
proof -
  have step: "runs_to (rp_battle st) (rp_battle s')"
    if "runs_to (rp_battle st) (rp_battle s)" "replay_record digest identity r s = Inr s'" for r s s'
    using that record_runs runs_trans by blast
  show ?thesis
    using assms runs_refl step by (rule loop_induct[where P = "\<lambda>s. runs_to (rp_battle st) (rp_battle s)"])
qed

section \<open>What a successful replay has checked\<close>

text \<open>A journal that starts with a checkpoint of which a battle was made.\<close>

definition replay_begins ::
  "(bytes \<Rightarrow> bytes option) \<Rightarrow> journal_record list \<Rightarrow> battle \<Rightarrow> room_recovery \<Rightarrow> bool" where
  "replay_begins digest records b room \<longleftrightarrow>
     (\<exists>start k state. 2 \<le> length records \<and> jr_payload (records ! 0) = StartPayload start \<and>
        jr_payload (records ! 1) = CheckpointPayload k \<and> decodeRecoveryState (ck_state k) = Inr (state, room) \<and>
        createReplayBattle (rec_identity (records ! 0)) start state = Some b \<and>
        stateHash digest b room = Some (ck_hash k))"

lemma failure_not_ok [simp]: "replay_failure code index sequence tick expected actual identity ruleset \<noteq> Inr x"
  "fail_after_start i start e \<noteq> Inr x" "journal_failure e' \<noteq> Inr x"
  by (simp_all add: replay_failure_def fail_after_start_def journal_failure_def split: prod.splits)

lemma replayed:
  assumes "replayDecoded digest records = Inr (b, h, room)"
  obtains b0 room0 st where "replay_begins digest records b0 room0"
    "replay_loop (replay_record digest (rec_identity (records ! 0))) 2 (drop 2 records)
       \<lparr>rp_battle = b0, rp_room = room0, rp_terminal = False\<rparr> = Inr st"
    "b = rp_battle st" "room = rp_room st" "stateHash digest b room = Some h"
proof -
  obtain start k where p: "2 \<le> length records" "jr_payload (records ! 0) = StartPayload start" "jr_payload (records ! 1) = CheckpointPayload k"
    "replay_from_start digest records start k = Inr (b, h, room)"
    using assms by (auto simp: replayDecoded_def split: if_splits record_payload.splits)
  from p(4) obtain state room0 b0 st where q: "decodeRecoveryState (ck_state k) = Inr (state, room0)"
    "createReplayBattle (rec_identity (records ! 0)) start state = Some b0" "stateHash digest b0 room0 = Some (ck_hash k)"
    "replay_loop (replay_record digest (rec_identity (records ! 0))) 2 (drop 2 records)
       \<lparr>rp_battle = b0, rp_room = room0, rp_terminal = False\<rparr> = Inr st"
    "b = rp_battle st" "room = rp_room st" "stateHash digest b room = Some h"
    unfolding replay_from_start_def Let_def by (auto split: if_splits sum.splits option.splits)
  have "replay_begins digest records b0 room0" using p q by (auto simp: replay_begins_def)
  then show thesis using that q by blast
qed

text \<open>The state at a record of the journal.\<close>

lemma loop_split:
  assumes "replay_loop step index rs st = Inr st'" "i < length rs"
  obtains s s1 where "replay_loop step index (take i rs) st = Inr s" "step (rs ! i) s = Inr s1"
    "replay_loop step (index + i + 1) (drop (i + 1) rs) s1 = Inr st'"
proof -
  have "replay_loop step index (take i rs @ rs ! i # drop (i + 1) rs) st = Inr st'"
    using assms by (simp add: id_take_nth_drop[symmetric])
  then show thesis using that assms(2) by (auto simp: loop_append min_def split: sum.splits)
qed

definition records_state :: "(bytes \<Rightarrow> bytes option) \<Rightarrow> battle \<Rightarrow> room_recovery \<Rightarrow> journal_record \<Rightarrow> bool" where
  "records_state digest b room r =
     (case jr_payload r of
        DecisionPayload p \<Rightarrow> stateHash digest b room = Some (cd_postHash p)
      | CheckpointPayload k \<Rightarrow> encodedState b room = Some (ck_state k)
      | TerminalPayload t \<Rightarrow> (\<exists>bs. encodedState b room = Some bs \<and> canonicalRecoveryTerminalHash digest bs t = Some (tr_finalHash t))
      | _ \<Rightarrow> True)"

lemma record_state:
  assumes "replay_record digest identity r st = Inr st'"
  shows "records_state digest (rp_battle st') (rp_room st') r"
proof (cases "jr_payload r")
  case (DecisionPayload p)
  then have "replay_decision digest True identity r p st = Inr st'" using assms by (simp add: replay_record_def split: if_splits)
  then show ?thesis using decision_result DecisionPayload by (fastforce simp: records_state_def)
next
  case (CheckpointPayload k)
  then have c: "replay_checkpoint digest r k st = Inr st'" using assms by (simp add: replay_record_def split: if_splits)
  then obtain state room where d: "decodeRecoveryState (ck_state k) = Inr (state, room)" "st' = st\<lparr>rp_room := room\<rparr>"
    "encodedState (rp_battle st) (rp_room st) = Some (ck_state k)"
    by (auto simp: replay_checkpoint_def Let_def split: if_splits sum.splits)
  then have "rp_room st = room"
    by (auto simp: encodedState_def decode_recovery_iff dest: encode_recovery_room split: sum.splits)
  then show ?thesis using d CheckpointPayload by (simp add: records_state_def)
next
  case (TerminalPayload t)
  then show ?thesis using assms
    by (auto simp: replay_record_def replay_terminal_def Let_def records_state_def split: if_splits option.splits)
qed (simp_all add: records_state_def)


section \<open>Restoring agrees with replaying\<close>

text \<open>The room that a record leaves.\<close>

definition record_room :: "journal_record \<Rightarrow> room_recovery \<Rightarrow> room_recovery" where
  "record_room r room =
     (case jr_payload r of
        DecisionPayload p \<Rightarrow> (case decodeRoomRecoveryState (cd_roomState p) of Inl _ \<Rightarrow> room | Inr room' \<Rightarrow> room')
      | CheckpointPayload k \<Rightarrow> (case decodeRecoveryState (ck_state k) of Inl _ \<Rightarrow> room | Inr (_, room') \<Rightarrow> room')
      | _ \<Rightarrow> room)"

lemma decision_room: "replay_decision digest full identity r p st = Inr st' \<Longrightarrow> decodeRoomRecoveryState (cd_roomState p) = Inr (rp_room st')"
  using decision_result by fastforce

lemma replay_record_room: "replay_record digest identity r st = Inr st' \<Longrightarrow> rp_room st' = record_room r (rp_room st)"
  by (cases "jr_payload r") (auto simp: replay_record_def record_room_def replay_checkpoint_def replay_terminal_def Let_def
      split: if_splits sum.splits dest: decision_room)

lemma restore_record_room:
  "restore_record digest identity r st = Inr st' \<Longrightarrow> \<nexists>k. jr_payload r = CheckpointPayload k \<Longrightarrow> rp_room st' = record_room r (rp_room st)"
  by (cases "jr_payload r") (auto simp: restore_record_def record_room_def dest: decision_room)

lemma loop_room:
  assumes "replay_loop step index rs st = Inr st'" "\<And>r s s'. r \<in> set rs \<Longrightarrow> step r s = Inr s' \<Longrightarrow> rp_room s' = record_room r (rp_room s)"
  shows "rp_room st' = fold record_room rs (rp_room st)"
  using assms
proof (induction rs arbitrary: index st)
  case (Cons r rs)
  then obtain s where s: "step r st = Inr s" "replay_loop step (index + 1) rs s = Inr st'" by (auto split: sum.splits)
  have "rp_room s = record_room r (rp_room st)" using Cons.prems(2)[OF _ s(1)] by simp
  then show ?case using Cons.IH[OF s(2)] Cons.prems(2) by simp
qed simp

lemma last_checkpoint_Some:
  assumes "last_checkpoint records = Some c"
  shows "c < length records" "rec_type (records ! c) = CheckpointRecord"
    "\<And>j. c < j \<Longrightarrow> j < length records \<Longrightarrow> rec_type (records ! j) \<noteq> CheckpointRecord"
proof -
  define found where "found = filter (\<lambda>index. rec_type (records ! index) = CheckpointRecord) [0..<length records]"
  have c: "found \<noteq> []" "c = last found" using assms by (auto simp: last_checkpoint_def found_def Let_def split: if_splits)
  then have "c \<in> set found" by simp
  then show "c < length records" "rec_type (records ! c) = CheckpointRecord" by (simp_all add: found_def)
  fix j assume j: "c < j" "j < length records"
  have "sorted found" by (simp add: found_def sorted_wrt_filter)
  moreover have found: "found = butlast found @ [c]" using c by simp
  ultimately have "sorted (butlast found @ [c])" by metis
  then have "\<forall>x \<in> set (butlast found @ [c]). x \<le> c" by (simp add: sorted_append)
  then have "x \<le> c" if "x \<in> set found" for x using found that by metis
  then have "j \<notin> set found" using j(1) leD by blast
  then show "rec_type (records ! j) \<noteq> CheckpointRecord" using j(2) by (simp add: found_def)
qed

lemma fold_room_from:
  assumes "c < length records" "jr_payload (records ! c) = CheckpointPayload k" "decodeRecoveryState (ck_state k) = Inr (state, room)"
    "m \<le> c"
  shows "fold record_room (drop m records) x = fold record_room (drop (c + 1) records) room"
proof -
  have split: "drop m records = take (c - m) (drop m records) @ records ! c # drop (c + 1) records"
    using id_take_nth_drop[of "c - m" "drop m records"] assms(1,4) by simp
  have "record_room (records ! c) y = room" for y using assms(2,3) by (simp add: record_room_def)
  then show ?thesis by (subst split) simp
qed

lemma decoded_typed:
  assumes "jo_error (decodeJournal digest journal) = None" "r \<in> set (jo_records (decodeJournal digest journal))"
  shows "typed_record r"
proof -
  have "list_all (storable digest) (jo_records (decodeJournal digest journal))"
    using accepts_iff[of digest journal "jo_records (decodeJournal digest journal)"] assms(1) by simp
  then show ?thesis using assms(2) by (auto simp: list_all_iff storable_def intro: encodable_typed)
qed

lemma restore_from_ok:
  assumes "restore_from digest fullHash records start c k = Inr (b, h, room)"
  shows "\<exists>state roomc b0 st. decodeRecoveryState (ck_state k) = Inr (state, roomc) \<and>
    replay_loop (restore_record digest (rec_identity (records ! 0))) (c + 1) (drop (c + 1) records)
       \<lparr>rp_battle = b0, rp_room = roomc, rp_terminal = False\<rparr> = Inr st \<and>
    b = rp_battle st \<and> room = rp_room st \<and> stateHash digest b room = Some h \<and> h = fullHash"
proof (cases "decodeRecoveryState (ck_state k)")
  case (Inr x)
  obtain state roomc where x: "x = (state, roomc)" by (cases x)
  note a = assms[unfolded restore_from_def Let_def Inr x sum.case prod.case]
  have "createReplayBattle (rec_identity (records ! 0)) start state \<noteq> None" using a by (cases "createReplayBattle (rec_identity (records ! 0)) start state") (auto split: if_splits)
  then obtain b0 where b0: "createReplayBattle (rec_identity (records ! 0)) start state = Some b0" by blast
  obtain st where st: "replay_loop (restore_record digest (rec_identity (records ! 0))) (c + 1) (drop (c + 1) records)
       \<lparr>rp_battle = b0, rp_room = roomc, rp_terminal = False\<rparr> = Inr st"
    using a unfolding b0 by (auto split: if_splits sum.splits)
  have "b = rp_battle st \<and> room = rp_room st \<and> stateHash digest b room = Some h \<and> h = fullHash"
    using a unfolding b0 option.case st sum.case by (auto split: if_splits)
  then show ?thesis using Inr x st by blast
qed (use assms in \<open>simp add: restore_from_def Let_def\<close>)

lemma begins_room:
  assumes "replay_begins digest records b0 room0"
  shows "1 < length records \<and> (\<exists>k state. jr_payload (records ! 1) = CheckpointPayload k \<and> decodeRecoveryState (ck_state k) = Inr (state, room0))"
  using assms by (auto simp: replay_begins_def)

lemma restored:
  assumes "restoreJournal digest journal = Inr (b, h, room)"
  shows "\<exists>b'. replayJournal digest journal = Inr (b', h, room) \<and> stateHash digest b' room = Some h \<and> stateHash digest b room = Some h"
proof -
  define records where "records = jo_records (decodeJournal digest journal)"
  obtain b' h' room' where full: "replayJournal digest journal = Inr (b', h', room')"
    using assms by (auto simp: restoreJournal_def split: sum.splits)
  then have ok: "jo_error (decodeJournal digest journal) = None" "replayDecoded digest records = Inr (b', h', room')"
    by (auto simp: replayJournal_def Let_def records_def split: option.splits)
  obtain c start k where c: "last_checkpoint records = Some c" "jr_payload (records ! c) = CheckpointPayload k"
    "restore_from digest h' records start c k = Inr (b, h, room)"
    using assms full ok(1) by (auto simp: restoreJournal_def Let_def records_def split: if_splits option.splits record_payload.splits)
  note last = last_checkpoint_Some[OF c(1)]
  from c(3) obtain state roomc b0 st where r: "decodeRecoveryState (ck_state k) = Inr (state, roomc)"
    "replay_loop (restore_record digest (rec_identity (records ! 0))) (c + 1) (drop (c + 1) records)
       \<lparr>rp_battle = b0, rp_room = roomc, rp_terminal = False\<rparr> = Inr st"
    "b = rp_battle st" "room = rp_room st" "stateHash digest b room = Some h" "h = h'"
    using restore_from_ok by blast
  have "\<nexists>k. jr_payload x = CheckpointPayload k" if x: "x \<in> set (drop (c + 1) records)" for x
  proof -
    obtain j where j: "c < j" "j < length records" "x = records ! j"
      using x by (auto simp: in_set_conv_nth) (metis add.commute add_Suc_right less_add_Suc1 less_diff_conv)
    have "typed_record x" using decoded_typed[OF ok(1)] j by (simp add: records_def)
    then show ?thesis using last(3)[OF j(1,2)] j(3) by (auto simp: typed_record_def)
  qed
  then have room: "room = fold record_room (drop (c + 1) records) roomc"
    using loop_room[OF r(2)] restore_record_room r(4) by simp
  obtain b1 room1 st' where f: "replay_begins digest records b1 room1"
    "replay_loop (replay_record digest (rec_identity (records ! 0))) 2 (drop 2 records)
       \<lparr>rp_battle = b1, rp_room = room1, rp_terminal = False\<rparr> = Inr st'"
    "b' = rp_battle st'" "room' = rp_room st'" "stateHash digest b' room' = Some h'"
    using ok(2) by (rule replayed)
  have room': "room' = fold record_room (drop 2 records) room1"
    using loop_room[OF f(2)] replay_record_room f(4) by simp
  obtain k1 state1 where begin1: "1 < length records" "jr_payload (records ! 1) = CheckpointPayload k1"
    "decodeRecoveryState (ck_state k1) = Inr (state1, room1)" using begins_room[OF f(1)] by blast
  have "typed_record (records ! 1)" using decoded_typed[OF ok(1)] begin1(1) by (simp add: records_def)
  then have "1 \<le> c" using last(3)[of 1] begin1(1,2) by (cases "c = 0") (auto simp: typed_record_def)
  have "room' = fold record_room (drop 1 records) room1"
    using room' fold_room_from[OF begin1, of 1 room1] by (simp add: numeral_2_eq_2)
  also have "\<dots> = room" using fold_room_from[OF last(1) c(2) r(1) \<open>1 \<le> c\<close>] room by simp
  finally show ?thesis using full f(5) r(5,6) by auto
qed

lemma encoded_of_hash:
  assumes "stateHash digest b room = Some h"
  obtains bs where "encodedState b room = Some bs" "digest bs = Some h"
  using assms by (auto simp: stateHash_def encodedState_def recoveryStateHash_def canonicalStateHash_def
      split: sum.splits option.splits if_splits)


end
