(* ===== verification/BattleRecording.thy ===== *)
theory BattleRecording
  imports BattleReplay
begin

text \<open>
  \<open>BattleRecording\<close> of \<open>game-server/modules/battle-continuity/src/FlightRecorder.cpp\<close>: the policy
  when records are handed to the durable writer. Decisions that change only positions wait in memory; a
  critical one adds a checkpoint and submits everything that waited. The theory shows that what was
  handed over, in order, is at every moment a journal that decodes to the submitted records.
\<close>

section \<open>Critical changes\<close>

definition participant_changed :: "wire_participant \<Rightarrow> wire_participant \<Rightarrow> bool" where
  "participant_changed old now \<longleftrightarrow>
     wp_slot old \<noteq> wp_slot now \<or> wp_sessionId old \<noteq> wp_sessionId now \<or> wp_inputEnabled old \<noteq> wp_inputEnabled now \<or>
     wp_gameplayEligible old \<noteq> wp_gameplayEligible now \<or> wp_exitStatus old \<noteq> wp_exitStatus now"

definition isCriticalChange ::
  "canonical_command \<Rightarrow> wire_state \<Rightarrow> room_recovery \<Rightarrow> wire_state \<Rightarrow> room_recovery \<Rightarrow> bool" where
  "isCriticalChange command before beforeRoom now afterRoom \<longleftrightarrow>
     (case known_kind (cc_kind command) of
        Some kind \<Rightarrow> kind \<noteq> KindMove \<and> kind \<noteq> KindMovementTick \<and> kind \<noteq> KindAttack
      | None \<Rightarrow> True) \<or>
     beforeRoom \<noteq> afterRoom \<or> ws_state before \<noteq> ws_state now \<or> ws_lootResolution before \<noteq> ws_lootResolution now \<or>
     ws_resultState before \<noteq> ws_resultState now \<or> ws_candidates before \<noteq> ws_candidates now \<or>
     ws_captured before \<noteq> ws_captured now \<or> ws_drops before \<noteq> ws_drops now \<or> ws_holdings before \<noteq> ws_holdings now \<or>
     map_option wm_state (ws_monster before) \<noteq> map_option wm_state (ws_monster now) \<or>
     length (ws_participants before) \<noteq> length (ws_participants now) \<or>
     list_ex (\<lambda>(old, now). participant_changed old now) (zip (ws_participants before) (ws_participants now))"

section \<open>State\<close>

record tick_batch =
  tb_identity :: battle_identity
  tb_writer :: u32
  tb_first :: u64
  tb_last :: u64
  tb_tick :: u64
  tb_terminal :: bool
  tb_bytes :: bytes

record terminal_recording =
  to_reason :: u16
  to_unixMs :: u64
  to_batchId :: bytes
  to_settlements :: "settlement_receipt list"

record battle_recording =
  br_recorder :: flight_recorder
  br_submitted :: nat
  br_pending :: "tick_batch option"
  br_room :: "room_recovery option"

section \<open>Operations\<close>

text \<open>The bytes of the records of a batch, within the budget of a journal.\<close>

fun batch_bytes :: "(bytes \<Rightarrow> bytes option) \<Rightarrow> bytes \<Rightarrow> journal_record list \<Rightarrow> bytes option" where
  "batch_bytes digest acc [] = Some acc"
| "batch_bytes digest acc (r # rs) =
     (case encodeRecord digest r of
        Inl _ \<Rightarrow> None
      | Inr bs \<Rightarrow> if maximumJournalBytes - length bs < length acc then None else batch_bytes digest (acc @ bs) rs)"

definition capturePendingBatch ::
  "(bytes \<Rightarrow> bytes option) \<Rightarrow> bool \<Rightarrow> battle_recording \<Rightarrow> bool \<times> battle_recording" where
  "capturePendingBatch digest terminal B =
     (let R = br_recorder B; records = fr_records R; begin = br_submitted B in
      if br_pending B \<noteq> None \<or> records = [] \<or> rec_type (last records) \<noteq> CommitRecord \<or> length records \<le> begin
      then (False, B)
      else case batch_bytes digest [] (drop begin records) of
        None \<Rightarrow> (False, B)
      | Some bs \<Rightarrow>
          (True, B\<lparr>br_pending := Some \<lparr>tb_identity = fr_identity R, tb_writer = fr_writer R,
              tb_first = rec_sequence (records ! begin), tb_last = rec_sequence (last records),
              tb_tick = rec_tick (last records), tb_terminal = terminal, tb_bytes = bs\<rparr>,
            br_submitted := length records\<rparr>))"

definition startRecording ::
  "(bytes \<Rightarrow> bytes option) \<Rightarrow> battle \<Rightarrow> battle_identity \<Rightarrow> u32 \<Rightarrow> room_recovery \<Rightarrow> battle_recording option" where
  "startRecording digest b identity writer room =
     (case startRecorder digest b identity writer room of
        None \<Rightarrow> None
      | Some R \<Rightarrow>
     (case commitTick digest R of
        (Inl _, _) \<Rightarrow> None
      | (Inr _, R') \<Rightarrow>
     (case capturePendingBatch digest False \<lparr>br_recorder = R', br_submitted = 0, br_pending = None, br_room = Some room\<rparr> of
        (False, _) \<Rightarrow> None
      | (True, B) \<Rightarrow> Some B)))"

definition recorded :: "append_result \<Rightarrow> bool" where
  "recorded a = (case a of Inr (Some _) \<Rightarrow> True | _ \<Rightarrow> False)"

text \<open>The terminal receipt, the checkpoint after it and the commit, each only after the one before.\<close>

definition close_terminal ::
  "(bytes \<Rightarrow> bytes option) \<Rightarrow> terminal_recording \<Rightarrow> battle \<Rightarrow> room_recovery \<Rightarrow> flight_recorder \<Rightarrow> bool \<times> flight_recorder" where
  "close_terminal digest t b room R =
     (case appendTerminal digest (to_reason t) b room (to_unixMs t) (to_batchId t) (to_settlements t) R of
        (a1, R1) \<Rightarrow> if \<not> recorded a1 then (False, R1)
      else (case appendCheckpoint digest b room R1 of
        (a2, R2) \<Rightarrow> if \<not> recorded a2 then (False, R2)
      else (case commitTick digest R2 of
        (Inl _, R3) \<Rightarrow> (False, R3)
      | (Inr _, R3) \<Rightarrow> (True, R3))))"

definition close_tick ::
  "(bytes \<Rightarrow> bytes option) \<Rightarrow> bool \<Rightarrow> battle \<Rightarrow> room_recovery \<Rightarrow> flight_recorder \<Rightarrow> bool \<times> flight_recorder" where
  "close_tick digest critical b room R =
     (case (if critical then appendCheckpoint digest b room R else (Inr None, R)) of
        (a1, R1) \<Rightarrow> if critical \<and> \<not> recorded a1 then (False, R1)
      else (case commitTick digest R1 of
        (Inl _, R2) \<Rightarrow> (False, R2)
      | (Inr _, R2) \<Rightarrow> (True, R2)))"

definition recordDecision ::
  "(bytes \<Rightarrow> bytes option) \<Rightarrow> canonical_command \<Rightarrow> wire_state \<Rightarrow> room_recovery \<Rightarrow> battle \<Rightarrow> room_recovery \<Rightarrow> u16 \<Rightarrow>
   terminal_recording option \<Rightarrow> battle_recording \<Rightarrow> bool \<times> battle_recording" where
  "recordDecision digest command before beforeRoom b afterRoom decisionCode terminal B =
     (if br_room B \<noteq> Some beforeRoom \<or> br_pending B \<noteq> None then (False, B)
      else case appendCommand digest command before beforeRoom b afterRoom decisionCode [] (br_recorder B) of
        (Inl _, R) \<Rightarrow> (False, B\<lparr>br_recorder := R\<rparr>)
      | (Inr None, R) \<Rightarrow> (terminal = None, B\<lparr>br_recorder := R\<rparr>)
      | (Inr (Some _), R) \<Rightarrow>
          let critical = isCriticalChange command before beforeRoom (deterministicState b) afterRoom in
          (case terminal of
             Some t \<Rightarrow>
               (case close_terminal digest t b afterRoom R of
                  (False, R') \<Rightarrow> (False, B\<lparr>br_recorder := R'\<rparr>)
                | (True, R') \<Rightarrow> capturePendingBatch digest True (B\<lparr>br_recorder := R', br_room := Some afterRoom\<rparr>))
           | None \<Rightarrow>
               (case close_tick digest critical b afterRoom R of
                  (False, R') \<Rightarrow> (False, B\<lparr>br_recorder := R'\<rparr>)
                | (True, R') \<Rightarrow>
                    (let B' = B\<lparr>br_recorder := R', br_room := Some afterRoom\<rparr> in
                     if critical then capturePendingBatch digest False B' else (True, B')))))"

definition takePendingBatch :: "battle_recording \<Rightarrow> tick_batch option \<times> battle_recording" where
  "takePendingBatch B = (br_pending B, B\<lparr>br_pending := None\<rparr>)"

section \<open>Resuming\<close>

definition previous_writer :: "journal_record list \<Rightarrow> u32" where
  "previous_writer records = foldl max 0 (map rec_writer records)"

text \<open>The payload of the last record is a commit: its type was tested before it is read.\<close>

definition committed_hash :: "journal_record \<Rightarrow> bytes option" where
  "committed_hash r = (case jr_payload r of CommitPayload c \<Rightarrow> Some (tc_hash c) | _ \<Rightarrow> None)"

definition resumeRecording ::
  "(bytes \<Rightarrow> bytes option) \<Rightarrow> battle \<Rightarrow> journal_record list \<Rightarrow> u32 \<Rightarrow> battle_recording option" where
  "resumeRecording digest b records writer =
     (if writer = 0 \<or> records = [] \<or> rec_type (last records) \<noteq> CommitRecord \<or> rec_sequence (last records) = - 1 then None
      else let identity = rec_identity (hd records) in
      if \<not> validIdentity identity then None
      else case encoded_size digest 0 records of
        None \<Rightarrow> None
      | Some used \<Rightarrow>
     if \<not> list_ex (\<lambda>r. rec_type r = CheckpointRecord) records \<or> writer \<le> previous_writer records then None
     else (case replayRecords digest records of
        Inl _ \<Rightarrow> None
      | Inr (_, finalHash, finalRoom) \<Rightarrow>
     if stateHash digest b finalRoom \<noteq> Some finalHash \<or> committed_hash (last records) \<noteq> Some finalHash then None
     else Some \<lparr>br_recorder = \<lparr>fr_identity = identity, fr_writer = writer, fr_records = records, fr_batchHash = None,
              fr_batchFirst = 0, fr_batchCount = 0, fr_batchTick = 0, fr_next = rec_sequence (last records) + 1,
              fr_terminal = list_ex (\<lambda>r. rec_type r = TerminalRecord) records, fr_encodedBytes = used\<rparr>,
            br_submitted = length records, br_pending = None, br_room = Some finalRoom\<rparr>))"

section \<open>Commits are the boundaries of a journal\<close>

lemma boundary_take:
  assumes "list_all batch_ok bs" "data_ok d" "0 < n" "n \<le> length (concat bs @ d)" "rec_type ((concat bs @ d) ! (n - 1)) = CommitRecord"
  shows "\<exists>m. take n (concat bs @ d) = concat (take m bs)"
  using assms
proof (induction bs arbitrary: n)
  case Nil
  then have "d ! (n - 1) \<in> set d" by simp
  then show ?case using Nil by (auto simp: data_ok_def)
next
  case (Cons b bs)
  have b: "b \<noteq> []" "data_ok (butlast b)" using Cons.prems(1) by (simp_all add: batch_ok_def)
  consider "n < length b" | "n = length b" | "length b < n" by linarith
  then show ?case
  proof cases
    case 1
    then have "b ! (n - 1) \<in> set (butlast b)" using Cons.prems(3) by (metis One_nat_def Suc_pred in_set_conv_nth length_butlast less_diff_conv nth_butlast Suc_less_eq add.commute plus_1_eq_Suc)
    then have "rec_type (b ! (n - 1)) \<noteq> CommitRecord" using b(2) by (auto simp: data_ok_def)
    moreover have "(concat (b # bs) @ d) ! (n - 1) = b ! (n - 1)" using 1 by (simp add: nth_append)
    ultimately show ?thesis using Cons.prems(5) by simp
  next
    case 2
    then show ?thesis by (intro exI[of _ 1]) simp
  next
    case 3
    have "(concat (b # bs) @ d) ! (n - 1) = (concat bs @ d) ! (n - length b - 1)"
      using 3 by (simp add: nth_append)
    then have at: "rec_type ((concat bs @ d) ! (n - length b - 1)) = CommitRecord" using Cons.prems(5) by metis
    have range: "0 < n - length b" "n - length b \<le> length (concat bs @ d)" using Cons.prems(4) 3 by simp_all
    have "list_all batch_ok bs" using Cons.prems(1) by simp
    from Cons.IH[OF this Cons.prems(2) range at] obtain m where "take (n - length b) (concat bs @ d) = concat (take m bs)" by blast
    then show ?thesis using 3 by (intro exI[of _ "Suc m"]) simp
  qed
qed

text \<open>The records up to a commit are a journal that decodes.\<close>

lemma submitted_decodes:
  assumes "recorder_good digest R" "0 < n" "n \<le> length (fr_records R)" "rec_type (fr_records R ! (n - 1)) = CommitRecord"
  shows "jo_error (decodeJournal digest (journal_bytes (take n (fr_records R)))) = None"
    "jo_records (decodeJournal digest (journal_bytes (take n (fr_records R)))) = take n (fr_records R)"
proof -
  obtain bs d where inv: "recorder_inv digest R bs d" using assms(1) by (auto simp: recorder_good_def)
  note p = recorder_parts[OF inv]
  have part: "journal_law bs" "data_ok d" using p(3) by (simp_all add: journal_part_def)
  then obtain m where m: "take n (fr_records R) = concat (take m bs)"
    using boundary_take[of bs d n] assms(2-4) p(1) by (auto simp: journal_law_def)
  have "journal_law (take m bs)" using law_prefix[of "take m bs" "drop m bs"] part(1) by simp
  moreover have "length (journal_bytes (take n (fr_records R))) \<le> maximumJournalBytes"
  proof -
    have "length (journal_bytes (fr_records R)) = length (journal_bytes (take n (fr_records R))) + length (journal_bytes (drop n (fr_records R)))"
      by (metis append_take_drop_id concat_append length_append map_append)
    then show ?thesis using p(5,6) by simp
  qed
  moreover have "list_all (storable digest) (take n (fr_records R))"
    using p(4) by (auto simp: list_all_iff dest: in_set_takeD)
  ultimately have "jo_error (decodeJournal digest (journal_bytes (take n (fr_records R)))) = None \<and>
      jo_records (decodeJournal digest (journal_bytes (take n (fr_records R)))) = take n (fr_records R)"
    using m unfolding accepts_iff by blast
  then show "jo_error (decodeJournal digest (journal_bytes (take n (fr_records R)))) = None"
    "jo_records (decodeJournal digest (journal_bytes (take n (fr_records R)))) = take n (fr_records R)" by simp_all
qed

section \<open>The invariant of a recording\<close>

text \<open>\<open>out\<close> is what the writer has taken so far.\<close>

definition pending_bytes :: "battle_recording \<Rightarrow> bytes" where
  "pending_bytes B = (case br_pending B of None \<Rightarrow> [] | Some t \<Rightarrow> tb_bytes t)"

definition at_commit :: "flight_recorder \<Rightarrow> nat \<Rightarrow> bool" where
  "at_commit R n \<longleftrightarrow> 0 < n \<and> n \<le> length (fr_records R) \<and> rec_type (fr_records R ! (n - 1)) = CommitRecord"

definition recording_inv :: "(bytes \<Rightarrow> bytes option) \<Rightarrow> battle_recording \<Rightarrow> bytes \<Rightarrow> bool" where
  "recording_inv digest B out \<longleftrightarrow>
     recorder_good digest (br_recorder B) \<and> at_commit (br_recorder B) (br_submitted B) \<and>
     out @ pending_bytes B = journal_bytes (take (br_submitted B) (fr_records (br_recorder B)))"

lemma prefix_keeps_commit:
  assumes "same_owner R' R" "at_commit R n"
  shows "at_commit R' n \<and> take n (fr_records R') = take n (fr_records R)"
  using assms by (auto simp: same_owner_def at_commit_def prefix_def nth_append)

lemma inv_recorder:
  assumes "recording_inv digest B out" "recorder_good digest R'" "same_owner R' (br_recorder B)"
  shows "recording_inv digest (B\<lparr>br_recorder := R'\<rparr>) out" "recording_inv digest (B\<lparr>br_recorder := R', br_room := room\<rparr>) out"
  using assms prefix_keeps_commit[OF assms(3)] by (auto simp: recording_inv_def pending_bytes_def)

lemma batch_bytes_all:
  "batch_bytes digest acc rs = Some bs \<Longrightarrow> bs = acc @ journal_bytes rs"
proof (induction rs arbitrary: acc)
  case (Cons r rs)
  then have "batch_bytes digest (acc @ record_bytes r) rs = Some bs"
    by (auto simp: encode_record_iff split: sum.splits if_splits)
  from Cons.IH[OF this] show ?case by simp
qed simp

lemma capture_inv:
  assumes "recording_inv digest B out" "capturePendingBatch digest terminal B = (ok, B')"
  shows "recording_inv digest B' out \<and> br_recorder B' = br_recorder B \<and>
    (ok \<longrightarrow> br_submitted B' = length (fr_records (br_recorder B)))"
proof (cases ok)
  case True
  define records where "records = fr_records (br_recorder B)"
  obtain bs where c: "br_pending B = None" "records \<noteq> []" "rec_type (last records) = CommitRecord" "br_submitted B < length records"
    "batch_bytes digest [] (drop (br_submitted B) records) = Some bs" "br_recorder B' = br_recorder B"
    "br_submitted B' = length records" "pending_bytes B' = bs"
    using assms(2) True by (auto simp: capturePendingBatch_def Let_def records_def pending_bytes_def split: if_splits option.splits)
  have bs: "bs = journal_bytes (drop (br_submitted B) records)" using batch_bytes_all[OF c(5)] by simp
  have "out = journal_bytes (take (br_submitted B) records)"
    using assms(1) c(1) by (simp add: recording_inv_def pending_bytes_def records_def)
  then have "out @ pending_bytes B' = journal_bytes records"
    unfolding c(8) bs by (metis append_take_drop_id concat_append map_append)
  moreover have "at_commit (br_recorder B') (length records)"
    using c(2,3,6) by (simp add: at_commit_def records_def last_conv_nth)
  ultimately show ?thesis using assms(1) c(6,7) by (simp add: recording_inv_def records_def)
next
  case False
  then have "B' = B" using assms(2) by (auto simp: capturePendingBatch_def Let_def split: if_splits option.splits)
  then show ?thesis using assms(1) False by simp
qed

section \<open>Every operation keeps the invariant\<close>

lemma close_terminal_good:
  assumes "recorder_good digest R" "close_terminal digest t b room R = (ok, R')" "receipts_sized (to_batchId t) (to_settlements t)"
  shows "recorder_good digest R' \<and> same_owner R' R"
proof -
  obtain a1 R1 where 1: "appendTerminal digest (to_reason t) b room (to_unixMs t) (to_batchId t) (to_settlements t) R = (a1, R1)"
    by fastforce
  obtain a2 R2 where 2: "appendCheckpoint digest b room R1 = (a2, R2)" by fastforce
  obtain a3 R3 where 3: "commitTick digest R2 = (a3, R3)" by fastforce
  note g1 = terminal_good[OF assms(1) 1 assms(3)]
  note g2 = checkpoint_good[OF conjunct1[OF g1] 2]
  note g3 = commit_good[OF conjunct1[OF g2] 3]
  have "R' = R1 \<or> R' = R2 \<or> R' = R3" using assms(2) 1 2 3 by (auto simp: close_terminal_def split: if_splits sum.splits)
  then show ?thesis using g1 g2 g3 same_owner_trans by blast
qed

lemma close_tick_good:
  assumes "recorder_good digest R" "close_tick digest critical b room R = (ok, R')"
  shows "recorder_good digest R' \<and> same_owner R' R"
proof -
  obtain a1 R1 where 1: "(if critical then appendCheckpoint digest b room R else (Inr None, R)) = (a1, R1)" by fastforce
  obtain a2 R2 where 2: "commitTick digest R1 = (a2, R2)" by fastforce
  have g1: "recorder_good digest R1 \<and> same_owner R1 R"
    using 1 assms(1) checkpoint_good[OF assms(1)] by (cases critical) auto
  note g2 = commit_good[OF conjunct1[OF g1] 2]
  have "R' = R1 \<or> R' = R2" using assms(2) 1 2 by (auto simp: close_tick_def split: if_splits sum.splits)
  then show ?thesis using g1 g2 same_owner_trans by blast
qed

lemma decision_inv:
  assumes "recording_inv digest B out"
    "recordDecision digest command before beforeRoom b afterRoom code terminal B = (ok, B')"
    "\<And>t. terminal = Some t \<Longrightarrow> receipts_sized (to_batchId t) (to_settlements t)"
  shows "recording_inv digest B' out"
proof (cases "br_room B \<noteq> Some beforeRoom \<or> br_pending B \<noteq> None")
  case True
  then show ?thesis using assms(1,2) by (auto simp: recordDecision_def)
next
  case False
  obtain a R where app: "appendCommand digest command before beforeRoom b afterRoom code [] (br_recorder B) = (a, R)" by fastforce
  have good: "recorder_good digest (br_recorder B)" using assms(1) by (simp add: recording_inv_def)
  note g = command_good[OF good app]
  have inv1: "recording_inv digest (B\<lparr>br_recorder := R'\<rparr>) out" "recording_inv digest (B\<lparr>br_recorder := R', br_room := room\<rparr>) out"
    if "recorder_good digest R' \<and> same_owner R' R" for R' room
    using inv_recorder[OF assms(1)] same_owner_trans g that by blast+
  define critical where "critical = isCriticalChange command before beforeRoom (deterministicState b) afterRoom"
  consider "B' = B\<lparr>br_recorder := R\<rparr>"
    | t ok1 R1 where "terminal = Some t" "close_terminal digest t b afterRoom R = (ok1, R1)" "B' = B\<lparr>br_recorder := R1\<rparr> \<or>
        (\<exists>ok. capturePendingBatch digest True (B\<lparr>br_recorder := R1, br_room := Some afterRoom\<rparr>) = (ok, B'))"
    | ok1 R1 where "close_tick digest critical b afterRoom R = (ok1, R1)" "B' = B\<lparr>br_recorder := R1\<rparr> \<or>
        B' = B\<lparr>br_recorder := R1, br_room := Some afterRoom\<rparr> \<or>
        (\<exists>ok. capturePendingBatch digest False (B\<lparr>br_recorder := R1, br_room := Some afterRoom\<rparr>) = (ok, B'))"
    using assms(2) False app
    by (auto simp: recordDecision_def Let_def critical_def[symmetric] split: sum.splits option.splits prod.splits bool.splits if_splits)
  then show ?thesis
  proof cases
    case 1
    then show ?thesis using inv1(1)[of R] g by simp
  next
    case (2 t ok1 R1)
    have "recorder_good digest R1 \<and> same_owner R1 R"
      using close_terminal_good[OF _ 2(2) assms(3)[OF 2(1)]] g by blast
    then show ?thesis using inv1 2(3) capture_inv by blast
  next
    case (3 ok1 R1)
    have "recorder_good digest R1 \<and> same_owner R1 R" using close_tick_good[OF _ 3(1)] g by blast
    then show ?thesis using inv1 3(2) capture_inv by blast
  qed
qed

lemma take_inv:
  assumes "recording_inv digest B out" "takePendingBatch B = (t, B')"
  shows "recording_inv digest B' (out @ (case t of None \<Rightarrow> [] | Some batch \<Rightarrow> tb_bytes batch))"
  using assms by (auto simp: takePendingBatch_def recording_inv_def pending_bytes_def)

lemma started_recording:
  assumes "startRecording digest b identity writer room = Some B"
  shows "recording_inv digest B []"
proof -
  obtain R a R' where s: "startRecorder digest b identity writer room = Some R" "commitTick digest R = (Inr a, R')"
    "capturePendingBatch digest False \<lparr>br_recorder = R', br_submitted = 0, br_pending = None, br_room = Some room\<rparr> = (True, B)"
    using assms by (auto simp: startRecording_def split: option.splits prod.splits sum.splits bool.splits)
  obtain r where r: "a = Some r" using s(2) by (auto simp: commitTick_def recorder_failure_def Let_def split: option.splits if_splits sum.splits)
  note st = started_inv[OF s(1)]
  have inv: "recorder_inv digest R' [fr_records R @ [r]] []"
    using commit_batch_closed[OF st(1) _ s(2)[unfolded r]] st(2) by simp
  then have good: "recorder_good digest R'" by (auto simp: recorder_good_def)
  obtain bs where c: "fr_records R' \<noteq> []" "rec_type (last (fr_records R')) = CommitRecord"
    "batch_bytes digest [] (fr_records R') = Some bs" "br_recorder B = R'" "br_submitted B = length (fr_records R')" "pending_bytes B = bs"
    using s(3) by (auto simp: capturePendingBatch_def Let_def pending_bytes_def split: if_splits option.splits)
  have "bs = journal_bytes (fr_records R')" using batch_bytes_all[OF c(3)] by simp
  then show ?thesis
    using good c by (simp add: recording_inv_def at_commit_def last_conv_nth)
qed

section \<open>Resuming keeps the invariant\<close>

lemma journal_bytes_inject:
  "list_all (storable digest) xs \<Longrightarrow> list_all (storable digest) ys \<Longrightarrow> journal_bytes xs = journal_bytes ys \<Longrightarrow> xs = ys"
proof (induction xs arbitrary: ys)
  case Nil
  then have "length (journal_bytes ys) = 0" by (metis length_0_conv list.map(1) concat.simps(1))
  then have "length ys = 0" using journal_bytes_length[of ys] by linarith
  then show ?case by simp
next
  case (Cons x xs)
  then have "ys \<noteq> []" using journal_bytes_length[of "x # xs"] by auto
  then obtain y ys' where ys: "ys = y # ys'" by (cases ys) auto
  have x: "next_record digest (journal_bytes (x # xs)) = Inr (x, length (record_bytes x))"
    using Cons.prems(1) next_record_bytes[of digest x "journal_bytes xs"] by (simp add: storable_def)
  have y: "next_record digest (journal_bytes (y # ys')) = Inr (y, length (record_bytes y))"
    using Cons.prems(2) next_record_bytes[of digest y "journal_bytes ys'"] by (simp add: storable_def ys)
  have "x = y" using x y Cons.prems(3) unfolding ys by simp
  then show ?case using Cons ys by simp
qed

lemma previous_writer_le: "r \<in> set records \<Longrightarrow> rec_writer r \<le> previous_writer records"
proof -
  have "a \<le> foldl max a xs \<and> (\<forall>x \<in> set xs. x \<le> foldl max a xs)" for a :: u32 and xs
  proof (induction xs arbitrary: a)
    case (Cons y ys)
    have "max a y \<le> foldl max (max a y) ys" using Cons.IH by blast
    then show ?case using Cons.IH[of "max a y"] by simp
  qed simp
  then show "r \<in> set records \<Longrightarrow> rec_writer r \<le> previous_writer records" by (simp add: previous_writer_def)
qed

lemma replayRecords_decodes:
  assumes "replayRecords digest records = Inr x" "list_all (encodable digest) records" "list_all record_sized records"
  shows "\<exists>batches. records = concat batches \<and> journal_law batches"
proof -
  have enc: "encodeRecord digest r = Inr (record_bytes r)" if "r \<in> set records" for r
    unfolding encode_record_iff using assms(2) that by (simp add: list_all_iff)
  have "find (record_refused digest) records = None" using enc by (auto simp: find_None_iff record_refused_def)
  moreover have "map (\<lambda>r. projr (encodeRecord digest r)) records = map record_bytes records" by (rule map_cong) (simp_all add: enc)
  ultimately have "replayJournal digest (journal_bytes records) = Inr x"
    using assms(1) unfolding replayRecords_def by (simp only: option.case)
  then have "jo_error (decodeJournal digest (journal_bytes records)) = None"
    by (auto simp: replayJournal_def Let_def split: option.splits)
  then have d: "journal_bytes records = journal_bytes (jo_records (decodeJournal digest (journal_bytes records)))"
    "list_all (storable digest) (jo_records (decodeJournal digest (journal_bytes records)))"
    "\<exists>batches. jo_records (decodeJournal digest (journal_bytes records)) = concat batches \<and> journal_law batches"
    using accepts_iff[of digest "journal_bytes records" "jo_records (decodeJournal digest (journal_bytes records))"] by simp_all
  have "list_all (storable digest) records" using assms(2,3) by (simp add: list_all_iff storable_def)
  then have "records = jo_records (decodeJournal digest (journal_bytes records))" using journal_bytes_inject d(1,2) by blast
  then show ?thesis using d(3) by simp
qed

lemma resumed_recording:
  assumes "resumeRecording digest b records writer = Some B" "list_all record_sized records"
  shows "recording_inv digest B (journal_bytes records)"
proof -
  have "replayRecords digest records \<noteq> Inl e" for e using assms(1) by (auto simp: resumeRecording_def Let_def split: if_splits option.splits)
  then obtain final hash room where x: "replayRecords digest records = Inr (final, hash, room)" by (metis sum.exhaust prod_cases3)
  from assms(1) x obtain used where r: "records \<noteq> []" "rec_type (last records) = CommitRecord" "rec_sequence (last records) \<noteq> - 1"
    "encoded_size digest 0 records = Some used" "previous_writer records < writer"
    "B = \<lparr>br_recorder = \<lparr>fr_identity = rec_identity (hd records), fr_writer = writer, fr_records = records, fr_batchHash = None,
              fr_batchFirst = 0, fr_batchCount = 0, fr_batchTick = 0, fr_next = rec_sequence (last records) + 1,
              fr_terminal = list_ex (\<lambda>r. rec_type r = TerminalRecord) records, fr_encodedBytes = used\<rparr>,
            br_submitted = length records, br_pending = None, br_room = Some room\<rparr>"
    by (auto simp: resumeRecording_def Let_def not_le split: if_splits option.splits)
  note size = encoded_size_sound[OF r(4)]
  obtain batches where law: "records = concat batches" "journal_law batches"
    using replayRecords_decodes[OF x _ assms(2)] size by blast
  have ne: "batches \<noteq> []" using law r(1) by auto
  have "last batches \<in> set batches" using ne by simp
  then have batch: "last batches \<noteq> []" "set (last batches) \<subseteq> set records"
    using law by (auto simp: journal_law_def list_all_iff batch_ok_def)
  have "batch_writer (last batches) \<le> writer"
    using previous_writer_le[of "hd (last batches)" records] batch r(5) by (meson hd_in_set less_imp_le order_trans subsetD)
  moreover have "rec_sequence (last records) = of_nat (length records)"
  proof -
    have n: "length records - 1 < length records" "length records - 1 + 1 = length records" using r(1) by auto
    have "stream_ok records" using law by (simp add: journal_law_def)
    then have "rec_sequence (records ! (length records - 1)) = of_nat (length records - 1 + 1)"
      using n(1) unfolding stream_ok_def by blast
    then show ?thesis unfolding n(2) using r(1) by (simp add: last_conv_nth)
  qed
  moreover have "journal_part batches []" using law(2) by (simp add: journal_part_def data_ok_def journal_law_def)
  moreover have "list_all (storable digest) records" using size assms(2) by (simp add: list_all_iff storable_def)
  ultimately have "recorder_inv digest (br_recorder B) batches []"
    using size law r(1) by (simp add: recorder_inv_def r(6))
  then have "recorder_good digest (br_recorder B)" using ne by (auto simp: recorder_good_def)
  then show ?thesis
    using r(1,2) by (simp add: recording_inv_def at_commit_def pending_bytes_def r(6) last_conv_nth)
qed

section \<open>Recordings and their writer\<close>

text \<open>A recording is started or resumed, then it takes decisions and the writer takes batches, in any order and with
  any outcome. The second argument holds the bytes that the writer has, in order.\<close>

inductive recording_run :: "(bytes \<Rightarrow> bytes option) \<Rightarrow> battle_recording \<Rightarrow> bytes \<Rightarrow> bool" for digest where
  started: "startRecording digest b identity writer room = Some B \<Longrightarrow> recording_run digest B []"
| resumed: "resumeRecording digest b records writer = Some B \<Longrightarrow> list_all record_sized records \<Longrightarrow>
    recording_run digest B (journal_bytes records)"
| decided: "recording_run digest B out \<Longrightarrow>
    recordDecision digest command before beforeRoom b afterRoom code terminal B = (ok, B') \<Longrightarrow>
    pred_option (\<lambda>t. receipts_sized (to_batchId t) (to_settlements t)) terminal \<Longrightarrow> recording_run digest B' out"
| taken: "recording_run digest B out \<Longrightarrow> takePendingBatch B = (Some batch, B') \<Longrightarrow>
    recording_run digest B' (out @ tb_bytes batch)"

lemma recording_run_inv: "recording_run digest B out \<Longrightarrow> recording_inv digest B out"
proof (induction rule: recording_run.induct)
  case (decided B out command before beforeRoom b afterRoom code terminal ok B')
  show ?case by (rule decision_inv[OF decided.IH decided(2)]) (use decided(3) in simp)
next
  case (taken B out batch B')
  then show ?case using take_inv[OF taken.IH taken(2)] by simp
qed (simp_all add: started_recording resumed_recording)

text \<open>Property C5. What a recording has handed to the durable writer, together with the batch that waits for it, is at
  every moment a journal that decodes without an error, to exactly the submitted records.\<close>

theorem submitted_batches_decode:
  assumes "recording_run digest B out"
  shows "jo_error (decodeJournal digest (out @ pending_bytes B)) = None \<and>
    jo_records (decodeJournal digest (out @ pending_bytes B)) = take (br_submitted B) (fr_records (br_recorder B))"
  using recording_run_inv[OF assms] submitted_decodes[of digest "br_recorder B" "br_submitted B"]
  by (simp add: recording_inv_def at_commit_def)

definition recordedRecording :: battle_recording where
  "recordedRecording = \<lparr>br_recorder = recordedRecorder, br_submitted = 3,
     br_pending = Some \<lparr>tb_identity = recordedIdentity, tb_writer = 1, tb_first = 1, tb_last = 3, tb_tick = 0, tb_terminal = False,
       tb_bytes = journal_bytes (recordedRecords @ [recordedCommit])\<rparr>, br_room = Some recordedRoom\<rparr>"

lemma batch_bytes_complete:
  "list_all (encodable digest) rs \<Longrightarrow> length acc + length (journal_bytes rs) \<le> maximumJournalBytes \<Longrightarrow>
   batch_bytes digest acc rs = Some (acc @ journal_bytes rs)"
proof (induction rs arbitrary: acc)
  case (Cons r rs)
  then have e: "encodeRecord digest r = Inr (record_bytes r)" by (simp add: encode_record_iff)
  have "\<not> maximumJournalBytes - length (record_bytes r) < length acc" using Cons.prems(2) by simp
  then show ?case using e Cons by (simp add: add.assoc del: length_record_bytes)
qed simp

lemma recorded_recording: "startRecording exampleDigest recordedBattle recordedIdentity 1 recordedRoom = Some recordedRecording"
proof -
  have records: "fr_records recordedRecorder = recordedRecords @ [recordedCommit]" "fr_identity recordedRecorder = recordedIdentity"
    "fr_writer recordedRecorder = 1"
    by (simp_all add: recordedRecorder_def close_batch_def recordedStart_def)
  have fields: "recordedRecords \<noteq> []" "length recordedRecords = 2" "rec_sequence (recordedRecords ! 0) = 1" "rec_type recordedCommit = CommitRecord"
    "rec_sequence recordedCommit = 3" "rec_tick recordedCommit = 0"
    by (simp_all add: recordedRecords_def start_records_def recordedCommit_def commit_record_def recordedStart_def fromLogicalTick_def)
  have "batch_bytes exampleDigest [] (recordedRecords @ [recordedCommit]) = Some (journal_bytes (recordedRecords @ [recordedCommit]))"
    using batch_bytes_complete[OF recorded_encodable, of "[]"] recorded_size by (simp add: maximumJournalBytes_def)
  then show ?thesis
    using recorded_starts recorded_commits records fields
    by (simp add: startRecording_def capturePendingBatch_def recordedRecording_def nth_append)
qed

theorem submitted_batches_decode_witness:
  "recording_run exampleDigest recordedRecording [] \<and>
   jo_records (decodeJournal exampleDigest (pending_bytes recordedRecording)) = recordedRecords @ [recordedCommit]"
proof -
  have run: "recording_run exampleDigest recordedRecording []"
    by (rule recording_run.started[OF recorded_recording])
  have "take (br_submitted recordedRecording) (fr_records (br_recorder recordedRecording)) = recordedRecords @ [recordedCommit]"
    by (simp add: recordedRecording_def recordedRecorder_def close_batch_def recordedStart_def recordedRecords_def start_records_def)
  then show ?thesis using submitted_batches_decode[OF run] run by simp
qed

section \<open>The journal of the example replays\<close>

definition recordedJournal :: "journal_record list" where
  "recordedJournal = recordedRecords @ [recordedCommit]"

lemma recorded_records: "fr_records recordedRecorder = recordedJournal" "length recordedJournal = 3"
  by (simp_all add: recordedJournal_def recordedRecorder_def close_batch_def recordedStart_def recordedRecords_def start_records_def)

lemma recorded_nonempty: "recordedJournal \<noteq> []"
  by (simp add: recordedJournal_def)

lemma recorded_decodes:
  "jo_error (decodeJournal exampleDigest (journal_bytes recordedJournal)) = None"
  "jo_records (decodeJournal exampleDigest (journal_bytes recordedJournal)) = recordedJournal"
proof -
  have "recorder_inv exampleDigest recordedRecorder [recordedRecords @ [recordedCommit]] []"
    using commit_batch_closed[OF started_inv(1)[OF recorded_starts] _ recorded_commits]
    by (simp add: recordedStart_def recordedRecords_def start_records_def)
  then have good: "recorder_good exampleDigest recordedRecorder" by (auto simp: recorder_good_def)
  have commit: "rec_type (fr_records recordedRecorder ! (3 - 1)) = CommitRecord"
    by (simp add: recordedJournal_def recorded_records recordedRecords_def start_records_def recordedCommit_def commit_record_def numeral_2_eq_2)
  have "take 3 (fr_records recordedRecorder) = recordedJournal" using recorded_records by simp
  then show "jo_error (decodeJournal exampleDigest (journal_bytes recordedJournal)) = None"
    "jo_records (decodeJournal exampleDigest (journal_bytes recordedJournal)) = recordedJournal"
    using submitted_decodes[OF good _ _ commit] recorded_records by simp_all
qed

definition replayedState :: wire_state where
  "replayedState = canonicalState (deterministicState recordedBattle)"

definition recordedPayload :: start_payload where
  "recordedPayload = \<lparr>bs_rulesetVersion = 1, bs_seed = 14, bs_tickHertz = 20, bs_initialHash = recordedHash,
     bs_participants = [\<lparr>sp_slot = 1, sp_sessionId = SessionId 1\<rparr>, \<lparr>sp_slot = 2, sp_sessionId = SessionId 2\<rparr>]\<rparr>"

definition replayedBattle :: battle where
  "replayedBattle = the (createReplayBattle recordedIdentity recordedPayload replayedState)"

lemma replayed_created: "case createReplayBattle recordedIdentity recordedPayload replayedState of None \<Rightarrow> False
  | Some b \<Rightarrow> deterministicState b = deterministicState recordedBattle"
  by code_simp

lemma replayed_canonical: "canonicalState replayedState = replayedState"
  by code_simp

lemma replayed_same: "deterministicState recordedBattle = replayedState"
  by code_simp

lemma replayed_ints: "length (ws_participants replayedState) = 0" "ws_monster replayedState = None" "length (ws_drops replayedState) = 0"
  by code_simp+

lemma replayed_created_battle:
  "createReplayBattle recordedIdentity recordedPayload replayedState = Some replayedBattle" "deterministicState replayedBattle = replayedState"
  using replayed_created replayed_same by (auto simp: replayedBattle_def split: option.splits)

lemma replayed_image: "decodeRecoveryState recordedBytes = Inr (replayedState, recordedRoom)"
  "encodeRecoveryState replayedState recordedRoom = Inr recordedBytes"
  unfolding decode_recovery_iff
  using recorded_encodes replayed_canonical replayed_ints by (simp_all add: replayed_same wire_ints_def)

lemma replayed_hash: "stateHash exampleDigest replayedBattle recordedRoom = Some recordedHash"
  using replayed_image(2) by (simp add: stateHash_def replayed_created_battle recoveryStateHash_def example_hash)

lemma recorded_payloads:
  "jr_payload (recordedJournal ! 0) = StartPayload recordedPayload" "rec_identity (recordedJournal ! 0) = recordedIdentity"
  "jr_payload (recordedJournal ! 1) = CheckpointPayload \<lparr>ck_schemaVersion = 1, ck_state = recordedBytes, ck_hash = recordedHash\<rparr>"
  "rec_type (recordedJournal ! 1) = CheckpointRecord" "rec_tick (recordedJournal ! 1) = 0" "jh_elapsed (jr_header (recordedJournal ! 1)) = 0"
  "drop 2 recordedJournal = [recordedCommit]" "recordedJournal ! 2 = recordedCommit"
  using recorded_start_valid recorded_state(4)
  by (simp_all add: recordedJournal_def recordedRecords_def start_records_def recordedPayload_def headerFor_def rec_identity_def
      recordedIdentity_def fromLogicalTick_def numeral_2_eq_2)

lemma recorded_commit_fields:
  "rec_identity recordedCommit = recordedIdentity" "\<exists>c. jr_payload recordedCommit = CommitPayload c" "rec_type recordedCommit = CommitRecord"
  by (simp_all add: recordedCommit_def commit_record_def recordedStart_def)

lemma replayed_fields: "ws_roomId replayedState = RoomId 0x100000001" "ws_battleId replayedState = BattleInstanceId 1"
  "ws_rulesetVersion replayedState = 1" "ws_seed replayedState = 14" "ws_time replayedState = fromLogicalTick 0"
  using recorded_state(2,4) recorded_start_valid by (simp_all add: replayed_same start_state_def recordedIdentity_def)

lemma recorded_replays:
  "replayJournal exampleDigest (journal_bytes recordedJournal) = Inr (replayedBattle, recordedHash, recordedRoom)"
proof -
  obtain c where c: "jr_payload recordedCommit = CommitPayload c" using recorded_commit_fields(2) by blast
  have "initial_state_matches recordedIdentity recordedPayload (recordedJournal ! 1) replayedState"
    using replayed_fields recorded_payloads(5) by (simp add: initial_state_matches_def recordedIdentity_def recordedPayload_def fromLogicalTick_def)
  moreover have "start_valid recordedPayload \<lparr>ck_schemaVersion = 1, ck_state = recordedBytes, ck_hash = recordedHash\<rparr>"
    by (simp add: start_valid_def recordedPayload_def)
  moreover have "replay_loop (replay_record exampleDigest recordedIdentity) 2 [recordedCommit] st = Inr st" for st
    using recorded_commit_fields(1) c by (simp add: replay_record_def)
  ultimately have "replay_from_start exampleDigest recordedJournal recordedPayload
      \<lparr>ck_schemaVersion = 1, ck_state = recordedBytes, ck_hash = recordedHash\<rparr> = Inr (replayedBattle, recordedHash, recordedRoom)"
    unfolding replay_from_start_def Let_def recorded_payloads(2,7)
    by (simp add: replayed_image(1) recoveryStateHash_def example_hash replayed_created_battle(1) replayed_hash)
  then show ?thesis
    using recorded_decodes recorded_payloads(1,3) by (simp add: replayJournal_def replayDecoded_def recorded_records(2) recorded_nonempty Let_def)
qed


lemma recorded_restores:
  "restoreJournal exampleDigest (journal_bytes recordedJournal) = Inr (replayedBattle, recordedHash, recordedRoom)"
proof -
  obtain c where c: "jr_payload recordedCommit = CommitPayload c" using recorded_commit_fields(2) by blast
  have "last_checkpoint recordedJournal = Some 1"
    using recorded_payloads(4,8) recorded_commit_fields(3) recorded_records(2)
    by (simp add: last_checkpoint_def upt_conv_Cons numeral_3_eq_3 numeral_2_eq_2)
  moreover have "replay_loop (restore_record exampleDigest recordedIdentity) 2 [recordedCommit] st = Inr st" for st
    using c by (simp add: restore_record_def)
  moreover have "same_time replayedState (recordedJournal ! 1)"
    using recorded_payloads(5,6) replayed_fields(5) by (simp add: same_time_def fromLogicalTick_def)
  ultimately have "restore_from exampleDigest recordedHash recordedJournal recordedPayload 1
      \<lparr>ck_schemaVersion = 1, ck_state = recordedBytes, ck_hash = recordedHash\<rparr> = Inr (replayedBattle, recordedHash, recordedRoom)"
    unfolding restore_from_def Let_def recorded_payloads(2)
    using recorded_payloads(7)
    by (simp add: replayed_image(1) recoveryStateHash_def example_hash replayed_created_battle(1) replayed_hash numeral_2_eq_2)
  then show ?thesis
    using recorded_replays recorded_decodes recorded_payloads(1,3) \<open>last_checkpoint recordedJournal = Some 1\<close>
    by (simp add: restoreJournal_def Let_def hd_conv_nth recorded_nonempty)
qed


end
