(* ===== verification/Spec2Isabelle.thy ===== *)
theory Spec2Isabelle
  imports Sessions Rooms RudpQueue BattleRecovery BattleRecording
begin

text \<open>Root.\<close>

end
